(* ===== verification/Upkit_Prelude.thy ===== *)
theory Upkit_Prelude
  imports Main "HOL-Library.Word"
begin

text \<open>
  Shared vocabulary of the development: bytes and fixed-width integers, little-endian
  encodings, the effect of writing a byte block inside a longer byte list, and the
  generic lemmas on them that the component theories use.

  Conventions. A C object of type \<open>uint8_t*\<close> together with its length is a \<open>byte list\<close>.
  \<open>size_t\<close> values are \<open>nat\<close>, with the reduction modulo $2^{32}$ written out (\<open>u32\<close>) where
  the code adds or subtracts them: the targets of the library are 32-bit
  microcontrollers. Struct fields of a fixed width are words of that width.
\<close>

unbundle bit_operations_syntax

type_synonym byte = "8 word"
type_synonym u16 = "16 word"
type_synonym u32 = "32 word"

named_theorems splice_simps \<open>rewriting of block writes inside byte lists\<close>
named_theorems layout_simps \<open>lengths and decoding of encoded structures\<close>
named_theorems bytes_simps \<open>conversions between bytes, words and numbers\<close>

section \<open>Reductions of C integers\<close>

definition u32 :: "nat \<Rightarrow> nat" where
  "u32 n = n mod 2 ^ 32"

definition sub32 :: "nat \<Rightarrow> nat \<Rightarrow> nat" where
  "sub32 a b = u32 (a + 2 ^ 32 - b mod 2 ^ 32)"

text \<open>The value an \<open>int\<close> has after a conversion to \<open>uint16_t\<close>.\<close>

definition as_uint16 :: "int \<Rightarrow> nat" where
  "as_uint16 i = nat (i mod 65536)"

lemma u32_id [simp]: "n < 2 ^ 32 \<Longrightarrow> u32 n = n"
  by (simp add: u32_def)

lemma u32_bound [simp]: "u32 n < 2 ^ 32"
  by (simp add: u32_def)

lemma sub32_id [simp]: "b \<le> a \<Longrightarrow> a < 2 ^ 32 \<Longrightarrow> sub32 a b = a - b"
  by (simp add: sub32_def u32_def mod_if)

lemma as_uint16_id [simp]: "n < 65536 \<Longrightarrow> as_uint16 (int n) = n"
  by (simp add: as_uint16_def)

lemma as_uint16_minus_one [simp]: "as_uint16 (- 1) = 65535"
  by (simp add: as_uint16_def)

lemma as_uint16_bound: "as_uint16 i < 65536"
proof -
  have "i mod 65536 < 65536" by simp
  then show ?thesis by (simp add: as_uint16_def nat_less_iff)
qed

text \<open>A \<open>uint32_t\<close> below $2^{31}$ keeps its value as an \<open>int\<close>.\<close>

lemma sint_small:
  assumes "n = unat (x :: u32)" and "n < 2 ^ 31"
  shows "sint x = int n"
proof -
  have "uint x = int n" by (simp add: assms(1))
  moreover have "signed_take_bit 31 (int n) = int n"
    using assms(2) by (intro signed_take_bit_int_eq_self) simp_all
  ultimately show ?thesis by (simp add: sint_uint)
qed

text \<open>Comparisons and differences of 32-bit addresses given as numbers.\<close>

lemma word32_less: "a < 2 ^ 32 \<Longrightarrow> b < 2 ^ 32 \<Longrightarrow> (word_of_nat a :: u32) < word_of_nat b \<longleftrightarrow> a < b"
  by (simp add: word_less_nat_alt unat_of_nat)

lemma unat_word32: "a < 2 ^ 32 \<Longrightarrow> unat (word_of_nat a :: u32) = a"
  by (simp add: unat_of_nat)

lemma word32_eq: "a < 2 ^ 32 \<Longrightarrow> b < 2 ^ 32 \<Longrightarrow> (word_of_nat a :: u32) = word_of_nat b \<longleftrightarrow> a = b"
  by (metis unat_word32)

section \<open>Little-endian encodings\<close>

fun le_enc :: "nat \<Rightarrow> nat \<Rightarrow> byte list" where
  "le_enc 0 n = []"
| "le_enc (Suc k) n = word_of_nat n # le_enc k (n div 256)"

fun le_dec :: "byte list \<Rightarrow> nat" where
  "le_dec [] = 0"
| "le_dec (b # bs) = unat b + 256 * le_dec bs"

lemma length_le_enc [simp, layout_simps]: "length (le_enc k n) = k"
  by (induction k arbitrary: n) simp_all

lemma le_dec_bound: "le_dec bs < 256 ^ length bs"
proof (induction bs)
  case Nil
  show ?case by simp
next
  case (Cons b bs)
  have "unat b < 256" using unsigned_less [of b] by simp
  moreover have "le_dec bs + 1 \<le> 256 ^ length bs" using Cons.IH by simp
  then have "256 * le_dec bs + 256 \<le> 256 * 256 ^ length bs" by linarith
  ultimately show ?case by simp
qed

lemma unat_word_of_nat_byte [bytes_simps]: "unat (word_of_nat n :: byte) = n mod 256"
  by (simp add: unat_of_nat)

lemma le_dec_enc [bytes_simps]: "le_dec (le_enc k n) = n mod 256 ^ k"
proof (induction k arbitrary: n)
  case 0
  show ?case by simp
next
  case (Suc k)
  have "n mod (256 * 256 ^ k) = n mod 256 + 256 * (n div 256 mod 256 ^ k)"
    by (simp add: mod_mult2_eq)
  with Suc.IH [of "n div 256"] show ?case by (simp add: unat_word_of_nat_byte)
qed

lemma le_enc_dec: "length bs = k \<Longrightarrow> le_enc k (le_dec bs) = bs"
proof (induction bs arbitrary: k)
  case Nil
  then show ?case by simp
next
  case (Cons b bs)
  have "unat b < 256" using unsigned_less [of b] by simp
  then have "(unat b + 256 * le_dec bs) div 256 = le_dec bs" by simp
  moreover have "word_of_nat (unat b + 256 * le_dec bs) = b"
  proof -
    have "(256 :: byte) = 0" by simp
    then show ?thesis by (simp only: of_nat_add of_nat_mult of_nat_numeral mult_zero_left) simp
  qed
  ultimately have "le_enc (length (b # bs)) (le_dec (b # bs)) = b # le_enc (length bs) (le_dec bs)"
    by simp
  with Cons show ?case by auto
qed

section \<open>Block writes inside a byte list\<close>

definition splice_at :: "nat \<Rightarrow> 'a list \<Rightarrow> 'a list \<Rightarrow> 'a list" where
  "splice_at off bs v = take off v @ bs @ drop (off + length bs) v"

definition block :: "nat \<Rightarrow> nat \<Rightarrow> 'a list \<Rightarrow> 'a list" where
  "block off n v = take n (drop off v)"

lemma length_splice_at [simp, splice_simps]:
  "off + length bs \<le> length v \<Longrightarrow> length (splice_at off bs v) = length v"
  by (simp add: splice_at_def)

lemma length_block [simp, splice_simps]: "off + n \<le> length v \<Longrightarrow> length (block off n v) = n"
  by (simp add: block_def)

lemma block_splice_same [simp, splice_simps]:
  "off \<le> length v \<Longrightarrow> block off (length bs) (splice_at off bs v) = bs"
  by (simp add: block_def splice_at_def)

lemma nth_splice_at:
  assumes "off + length bs \<le> length v" and "i < length v"
  shows "splice_at off bs v ! i = (if off \<le> i \<and> i < off + length bs then bs ! (i - off) else v ! i)"
  using assms by (auto simp: splice_at_def nth_append min_def)

lemma splice_at_Nil [simp, splice_simps]: "splice_at off [] v = v"
  by (simp add: splice_at_def)

lemma take_splice_at:
  "off + length bs \<le> length v \<Longrightarrow> take (off + length bs) (splice_at off bs v) = take off v @ bs"
  by (simp add: splice_at_def)

lemma take_splice_below:
  "n \<le> off \<Longrightarrow> off \<le> length v \<Longrightarrow> take n (splice_at off bs v) = take n v"
  by (simp add: splice_at_def min_def)

lemma drop_splice_above:
  "off + length bs \<le> n \<Longrightarrow> off + length bs \<le> length v \<Longrightarrow> drop n (splice_at off bs v) = drop n v"
  by (simp add: splice_at_def)

lemma block_splice_above:
  "off + length bs \<le> off' \<Longrightarrow> off + length bs \<le> length v \<Longrightarrow>
   block off' n (splice_at off bs v) = block off' n v"
  by (simp add: block_def drop_splice_above)

lemma splice_at_append:
  "off + length bs + length cs \<le> length v \<Longrightarrow>
   splice_at (off + length bs) cs (splice_at off bs v) = splice_at off (bs @ cs) v"
  by (simp add: splice_at_def add.assoc add.commute add.left_commute)

lemma splice_at_0: "splice_at 0 bs v = bs @ drop (length bs) v"
  by (simp add: splice_at_def)

lemma block_append_block:
  "block off n v @ block (off + n) k v = block off (n + k) v"
  by (simp only: block_def take_add drop_drop add.commute [of off n])

lemma block_0 [simp]: "block off 0 v = []"
  by (simp add: block_def)

lemma block_take: "off + n \<le> k \<Longrightarrow> block off n (take k v) = block off n v"
  by (simp add: block_def drop_take min_def)

lemma block_splice_below:
  assumes "off' + n \<le> off" and "off \<le> length v"
  shows "block off' n (splice_at off bs v) = block off' n v"
proof -
  have "block off' n (take off (splice_at off bs v)) = block off' n (take off v)"
    using assms by (simp add: take_splice_below)
  with assms(1) show ?thesis by (simp add: block_take)
qed

end
