(* ===== verification/Upkit_Types.thy ===== *)
theory Upkit_Types
  imports Upkit_Prelude
begin

text \<open>
  The types every component shares: the error enumeration of
  \<open>include/libpull/common/error.h\<close> with its string table (\<open>src/core/common/error.c\<close>), the
  scalar types of \<open>include/libpull/common/types.h\<close>, the memory modes and slots of
  \<open>include/libpull/memory/memory_interface.h\<close>, and the key store of
  \<open>include/libpull/security/safestore.h\<close>.

  \<open>mem_id_t\<close> is an \<open>int8_t\<close> that the code only compares and uses as an index; it is an
  \<open>int\<close> here.
\<close>

type_synonym version_t = u16
type_synonym address_t = u32
type_synonym mem_id_t = int
type_synonym udid_t = u16
type_synonym nonce_t = u32
type_synonym appid_t = u16

datatype pull_error =
    PULL_SUCCESS
  | GENERIC_ERROR
  | NOT_IMPLEMENTED_ERROR
  | INVALID_ARGUMENTS_ERROR
  | CONNECTION_INIT_ERROR
  | CALLBACK_ERROR
  | RESOLVER_ERROR
  | INVALID_URL_ERROR
  | BLOCK_WISE_ERROR
  | INVALID_METHOD_ERROR
  | INVALID_RESOURCE_ERROR
  | INVALID_DATA_ERROR
  | INVALID_CONN_DATA_ERROR
  | REQUEST_ERROR
  | REQUEST_RST_ERROR
  | SEND_ERROR
  | MEMORY_ERROR
  | INVALID_OBJECT_ERROR
  | INVALID_ACCESS_ERROR
  | MEMORY_MAPPING_ERROR
  | MEMORY_OPEN_ERROR
  | MEMORY_CLOSE_ERROR
  | MEMORY_ERASE_ERROR
  | MEMORY_READ_ERROR
  | MEMORY_WRITE_ERROR
  | MEMORY_FLUSH_ERROR
  | READ_MANIFEST_ERROR
  | GET_NEWEST_ERROR
  | GET_OLDEST_ERROR
  | COPY_FIRMWARE_ERROR
  | INVALIDATE_OBJECT_ERROR
  | WRITE_MANIFEST_ERROR
  | INVALID_MANIFEST_ERROR
  | RECEIVER_OPEN_ERROR
  | RECEIVER_CHUNK_ERROR
  | RECEIVER_CLOSE_ERROR
  | INVALID_SIZE_ERROR
  | INVALID_IDENTITY_ERROR
  | NETWORK_ERROR
  | SUBSCRIBE_ERROR
  | SUBSCRIBER_CHECK_ERROR
  | DIGEST_INIT_ERROR
  | DIGEST_UPDATE_ERROR
  | DIGEST_FINAL_ERROR
  | SHA256_INIT_ERROR
  | SHA256_UPDATE_ERROR
  | SHA256_FINAL_ERROR
  | NOT_SUPPORTED_CURVE_ERROR
  | VERIFICATION_FAILED_ERROR
  | PIPELINE_ERROR
  | INVALID_PATCH_ERROR
  | INVALID_VERSION_ERROR
  | INVALID_SIGNATURE_ERROR
  | INVALID_STATE_ERROR
  | SIGN_FAILED_ERROR

text \<open>The numeric value of the enumerators.\<close>

fun pull_error_code :: "pull_error \<Rightarrow> nat" where
  "pull_error_code PULL_SUCCESS = 0"
| "pull_error_code GENERIC_ERROR = 1"
| "pull_error_code NOT_IMPLEMENTED_ERROR = 2"
| "pull_error_code INVALID_ARGUMENTS_ERROR = 3"
| "pull_error_code CONNECTION_INIT_ERROR = 4"
| "pull_error_code CALLBACK_ERROR = 5"
| "pull_error_code RESOLVER_ERROR = 6"
| "pull_error_code INVALID_URL_ERROR = 7"
| "pull_error_code BLOCK_WISE_ERROR = 8"
| "pull_error_code INVALID_METHOD_ERROR = 9"
| "pull_error_code INVALID_RESOURCE_ERROR = 10"
| "pull_error_code INVALID_DATA_ERROR = 11"
| "pull_error_code INVALID_CONN_DATA_ERROR = 12"
| "pull_error_code REQUEST_ERROR = 13"
| "pull_error_code REQUEST_RST_ERROR = 14"
| "pull_error_code SEND_ERROR = 15"
| "pull_error_code MEMORY_ERROR = 16"
| "pull_error_code INVALID_OBJECT_ERROR = 17"
| "pull_error_code INVALID_ACCESS_ERROR = 18"
| "pull_error_code MEMORY_MAPPING_ERROR = 19"
| "pull_error_code MEMORY_OPEN_ERROR = 20"
| "pull_error_code MEMORY_CLOSE_ERROR = 21"
| "pull_error_code MEMORY_ERASE_ERROR = 22"
| "pull_error_code MEMORY_READ_ERROR = 23"
| "pull_error_code MEMORY_WRITE_ERROR = 24"
| "pull_error_code MEMORY_FLUSH_ERROR = 25"
| "pull_error_code READ_MANIFEST_ERROR = 26"
| "pull_error_code GET_NEWEST_ERROR = 27"
| "pull_error_code GET_OLDEST_ERROR = 28"
| "pull_error_code COPY_FIRMWARE_ERROR = 29"
| "pull_error_code INVALIDATE_OBJECT_ERROR = 30"
| "pull_error_code WRITE_MANIFEST_ERROR = 31"
| "pull_error_code INVALID_MANIFEST_ERROR = 32"
| "pull_error_code RECEIVER_OPEN_ERROR = 33"
| "pull_error_code RECEIVER_CHUNK_ERROR = 34"
| "pull_error_code RECEIVER_CLOSE_ERROR = 35"
| "pull_error_code INVALID_SIZE_ERROR = 36"
| "pull_error_code INVALID_IDENTITY_ERROR = 37"
| "pull_error_code NETWORK_ERROR = 38"
| "pull_error_code SUBSCRIBE_ERROR = 39"
| "pull_error_code SUBSCRIBER_CHECK_ERROR = 40"
| "pull_error_code DIGEST_INIT_ERROR = 41"
| "pull_error_code DIGEST_UPDATE_ERROR = 42"
| "pull_error_code DIGEST_FINAL_ERROR = 43"
| "pull_error_code SHA256_INIT_ERROR = 44"
| "pull_error_code SHA256_UPDATE_ERROR = 45"
| "pull_error_code SHA256_FINAL_ERROR = 46"
| "pull_error_code NOT_SUPPORTED_CURVE_ERROR = 47"
| "pull_error_code VERIFICATION_FAILED_ERROR = 48"
| "pull_error_code PIPELINE_ERROR = 49"
| "pull_error_code INVALID_PATCH_ERROR = 50"
| "pull_error_code INVALID_VERSION_ERROR = 51"
| "pull_error_code INVALID_SIGNATURE_ERROR = 52"
| "pull_error_code INVALID_STATE_ERROR = 53"
| "pull_error_code SIGN_FAILED_ERROR = 54"

text \<open>The table \<open>error_str\<close>: the stringified macro arguments, so without the suffix \<open>_ERROR\<close>.\<close>

definition error_str :: "string list" where
  "error_str = [
    ''PULL_SUCCESS'',
    ''GENERIC'',
    ''NOT_IMPLEMENTED'',
    ''INVALID_ARGUMENTS'',
    ''CONNECTION_INIT'',
    ''CALLBACK'',
    ''RESOLVER'',
    ''INVALID_URL'',
    ''BLOCK_WISE'',
    ''INVALID_METHOD'',
    ''INVALID_RESOURCE'',
    ''INVALID_DATA'',
    ''INVALID_CONN_DATA'',
    ''REQUEST'',
    ''REQUEST_RST'',
    ''SEND'',
    ''MEMORY'',
    ''INVALID_OBJECT'',
    ''INVALID_ACCESS'',
    ''MEMORY_MAPPING'',
    ''MEMORY_OPEN'',
    ''MEMORY_CLOSE'',
    ''MEMORY_ERASE'',
    ''MEMORY_READ'',
    ''MEMORY_WRITE'',
    ''MEMORY_FLUSH'',
    ''READ_MANIFEST'',
    ''GET_NEWEST'',
    ''GET_OLDEST'',
    ''COPY_FIRMWARE'',
    ''INVALIDATE_OBJECT'',
    ''WRITE_MANIFEST'',
    ''INVALID_MANIFEST'',
    ''RECEIVER_OPEN'',
    ''RECEIVER_CHUNK'',
    ''RECEIVER_CLOSE'',
    ''INVALID_SIZE'',
    ''INVALID_IDENTITY'',
    ''NETWORK'',
    ''SUBSCRIBE'',
    ''SUBSCRIBER_CHECK'',
    ''DIGEST_INIT'',
    ''DIGEST_UPDATE'',
    ''DIGEST_FINAL'',
    ''SHA256_INIT'',
    ''SHA256_UPDATE'',
    ''SHA256_FINAL'',
    ''NOT_SUPPORTED_CURVE'',
    ''VERIFICATION_FAILED'',
    ''PIPELINE'',
    ''INVALID_PATCH'',
    ''INVALID_VERSION'',
    ''INVALID_SIGNATURE'',
    ''INVALID_STATE'',
    ''SIGN_FAILED'']"

definition err_as_str :: "nat \<Rightarrow> pull_error \<Rightarrow> string" where
  "err_as_str LOGGER_VERBOSITY err =
     (if LOGGER_VERBOSITY \<ge> 2 then error_str ! pull_error_code err else ''not_implemented'')"

section \<open>Memory modes and slots\<close>

datatype mem_mode_t = READ_ONLY | WRITE_CHUNK | WRITE_ALL | SEQUENTIAL_REWRITE

record mem_slot_t =
  slot_id :: mem_id_t
  bootable :: bool
  loaded :: bool

definition OBJ_END :: mem_id_t where
  "OBJ_END = -1"

definition OBJ_END_slot :: mem_slot_t where
  "OBJ_END_slot = \<lparr>slot_id = OBJ_END, bootable = False, loaded = False\<rparr>"

section \<open>Key store\<close>

record keystore_t =
  ks_x :: "byte list"
  ks_y :: "byte list"

record safestore_t =
  keystore :: keystore_t
  sf_udid :: udid_t
  sf_appid :: appid_t
  aes_key :: "byte list"

section \<open>The error table\<close>

lemma error_str_length: "length error_str = 55"
  by (simp add: error_str_def)

lemma pull_error_code_bound: "pull_error_code e < length error_str"
  by (cases e) (simp_all add: error_str_length)

lemma distinct_error_str: "distinct error_str"
  by (simp add: error_str_def)

definition pull_error_enum :: "pull_error list" where
  "pull_error_enum = [
    PULL_SUCCESS,
    GENERIC_ERROR,
    NOT_IMPLEMENTED_ERROR,
    INVALID_ARGUMENTS_ERROR,
    CONNECTION_INIT_ERROR,
    CALLBACK_ERROR,
    RESOLVER_ERROR,
    INVALID_URL_ERROR,
    BLOCK_WISE_ERROR,
    INVALID_METHOD_ERROR,
    INVALID_RESOURCE_ERROR,
    INVALID_DATA_ERROR,
    INVALID_CONN_DATA_ERROR,
    REQUEST_ERROR,
    REQUEST_RST_ERROR,
    SEND_ERROR,
    MEMORY_ERROR,
    INVALID_OBJECT_ERROR,
    INVALID_ACCESS_ERROR,
    MEMORY_MAPPING_ERROR,
    MEMORY_OPEN_ERROR,
    MEMORY_CLOSE_ERROR,
    MEMORY_ERASE_ERROR,
    MEMORY_READ_ERROR,
    MEMORY_WRITE_ERROR,
    MEMORY_FLUSH_ERROR,
    READ_MANIFEST_ERROR,
    GET_NEWEST_ERROR,
    GET_OLDEST_ERROR,
    COPY_FIRMWARE_ERROR,
    INVALIDATE_OBJECT_ERROR,
    WRITE_MANIFEST_ERROR,
    INVALID_MANIFEST_ERROR,
    RECEIVER_OPEN_ERROR,
    RECEIVER_CHUNK_ERROR,
    RECEIVER_CLOSE_ERROR,
    INVALID_SIZE_ERROR,
    INVALID_IDENTITY_ERROR,
    NETWORK_ERROR,
    SUBSCRIBE_ERROR,
    SUBSCRIBER_CHECK_ERROR,
    DIGEST_INIT_ERROR,
    DIGEST_UPDATE_ERROR,
    DIGEST_FINAL_ERROR,
    SHA256_INIT_ERROR,
    SHA256_UPDATE_ERROR,
    SHA256_FINAL_ERROR,
    NOT_SUPPORTED_CURVE_ERROR,
    VERIFICATION_FAILED_ERROR,
    PIPELINE_ERROR,
    INVALID_PATCH_ERROR,
    INVALID_VERSION_ERROR,
    INVALID_SIGNATURE_ERROR,
    INVALID_STATE_ERROR,
    SIGN_FAILED_ERROR]"

lemma pull_error_enum_code: "pull_error_enum ! pull_error_code e = e"
  by (cases e) (simp_all add: pull_error_enum_def)

lemma pull_error_code_inj: "pull_error_code e = pull_error_code f \<Longrightarrow> e = f"
  by (metis pull_error_enum_code)

end
