(* ===== verification/Simple_Manifest.thy ===== *)
theory Simple_Manifest
  imports Upkit_Types
begin

text \<open>
  The manifest (\<open>include/libpull/memory/simple_manifest.h\<close>,
  \<open>src/core/memory/simple_manifest.c\<close>, \<open>src/core/memory/manifest.c\<close>): the three structs as
  records, their getters and setters, and their layout in memory. The library reads and
  writes a \<open>manifest_t\<close> as raw bytes and hashes the two inner structs as raw bytes, so the
  layout is part of its behaviour: all fields are little-endian, and the two pairs of
  padding bytes that a 32-bit ABI puts into \<open>server_manifest_t\<close> are explicit fields
  (\<open>sm_pad0\<close>, \<open>sm_pad1\<close>), since they are stored, transmitted and hashed as well.
\<close>

section \<open>Structures\<close>

record vendor_manifest_t =
  vm_size :: address_t
  vm_offset :: address_t
  vm_version :: version_t
  vm_appid :: appid_t
  vm_digest :: "byte list"
  vm_server_key_x :: "byte list"
  vm_server_key_y :: "byte list"

record server_manifest_t =
  sm_udid :: udid_t
  sm_pad0 :: u16
  sm_nonce :: nonce_t
  sm_diff_version :: version_t
  sm_pad1 :: u16
  sm_prop_size :: address_t
  sm_flags :: u32

record manifest_t =
  vendor_signature_r :: "byte list"
  vendor_signature_s :: "byte list"
  vendor :: vendor_manifest_t
  server_signature_r :: "byte list"
  server_signature_s :: "byte list"
  server :: server_manifest_t

text \<open>The fixed-size array members have their declared sizes.\<close>

definition wf_vendor :: "vendor_manifest_t \<Rightarrow> bool" where
  "wf_vendor v \<longleftrightarrow> length (vm_digest v) = 32 \<and> length (vm_server_key_x v) = 32 \<and>
     length (vm_server_key_y v) = 32"

definition wf_manifest :: "manifest_t \<Rightarrow> bool" where
  "wf_manifest mt \<longleftrightarrow> length (vendor_signature_r mt) = 32 \<and> length (vendor_signature_s mt) = 32 \<and>
     wf_vendor (vendor mt) \<and>
     length (server_signature_r mt) = 32 \<and> length (server_signature_s mt) = 32"

section \<open>Getters and setters\<close>

definition get_version_impl :: "manifest_t \<Rightarrow> version_t" where
  "get_version_impl mt = vm_version (vendor mt)"

definition get_size_impl :: "manifest_t \<Rightarrow> address_t" where
  "get_size_impl mt = vm_size (vendor mt)"

definition get_offset_impl :: "manifest_t \<Rightarrow> address_t" where
  "get_offset_impl mt = vm_offset (vendor mt)"

definition get_digest_impl :: "manifest_t \<Rightarrow> byte list" where
  "get_digest_impl mt = vm_digest (vendor mt)"

definition get_server_key_x_impl :: "manifest_t \<Rightarrow> byte list" where
  "get_server_key_x_impl mt = vm_server_key_x (vendor mt)"

definition get_server_key_y_impl :: "manifest_t \<Rightarrow> byte list" where
  "get_server_key_y_impl mt = vm_server_key_y (vendor mt)"

definition get_appid_impl :: "manifest_t \<Rightarrow> appid_t" where
  "get_appid_impl mt = vm_appid (vendor mt)"

definition get_diff_version_impl :: "manifest_t \<Rightarrow> version_t" where
  "get_diff_version_impl mt = sm_diff_version (server mt)"

definition get_prop_size_impl :: "manifest_t \<Rightarrow> address_t" where
  "get_prop_size_impl mt = sm_prop_size (server mt)"

definition get_nonce_impl :: "manifest_t \<Rightarrow> nonce_t" where
  "get_nonce_impl mt = sm_nonce (server mt)"

definition get_udid_impl :: "manifest_t \<Rightarrow> udid_t" where
  "get_udid_impl mt = sm_udid (server mt)"

definition set_diff_version_impl :: "manifest_t \<Rightarrow> version_t \<Rightarrow> manifest_t" where
  "set_diff_version_impl mt x = mt\<lparr>server := (server mt)\<lparr>sm_diff_version := x\<rparr>\<rparr>"

definition set_nonce_impl :: "manifest_t \<Rightarrow> nonce_t \<Rightarrow> manifest_t" where
  "set_nonce_impl mt x = mt\<lparr>server := (server mt)\<lparr>sm_nonce := x\<rparr>\<rparr>"

definition set_udid_impl :: "manifest_t \<Rightarrow> udid_t \<Rightarrow> manifest_t" where
  "set_udid_impl mt x = mt\<lparr>server := (server mt)\<lparr>sm_udid := x\<rparr>\<rparr>"

definition set_appid_impl :: "manifest_t \<Rightarrow> appid_t \<Rightarrow> manifest_t" where
  "set_appid_impl mt x = mt\<lparr>vendor := (vendor mt)\<lparr>vm_appid := x\<rparr>\<rparr>"

definition set_version_impl :: "manifest_t \<Rightarrow> version_t \<Rightarrow> manifest_t" where
  "set_version_impl mt x = mt\<lparr>vendor := (vendor mt)\<lparr>vm_version := x\<rparr>\<rparr>"

definition set_size_impl :: "manifest_t \<Rightarrow> address_t \<Rightarrow> manifest_t" where
  "set_size_impl mt x = mt\<lparr>vendor := (vendor mt)\<lparr>vm_size := x\<rparr>\<rparr>"

definition set_prop_size_impl :: "manifest_t \<Rightarrow> address_t \<Rightarrow> manifest_t" where
  "set_prop_size_impl mt x = mt\<lparr>server := (server mt)\<lparr>sm_prop_size := x\<rparr>\<rparr>"

definition set_offset_impl :: "manifest_t \<Rightarrow> address_t \<Rightarrow> manifest_t" where
  "set_offset_impl mt x = mt\<lparr>vendor := (vendor mt)\<lparr>vm_offset := x\<rparr>\<rparr>"

text \<open>The array setters copy exactly 32 bytes with \<open>memcpy\<close>.\<close>

definition set_digest_impl :: "manifest_t \<Rightarrow> byte list \<Rightarrow> manifest_t" where
  "set_digest_impl mt x = mt\<lparr>vendor := (vendor mt)\<lparr>vm_digest := splice_at 0 (take 32 x) (vm_digest (vendor mt))\<rparr>\<rparr>"

definition set_server_key_x_impl :: "manifest_t \<Rightarrow> byte list \<Rightarrow> manifest_t" where
  "set_server_key_x_impl mt x =
     mt\<lparr>vendor := (vendor mt)\<lparr>vm_server_key_x := splice_at 0 (take 32 x) (vm_server_key_x (vendor mt))\<rparr>\<rparr>"

definition set_server_key_y_impl :: "manifest_t \<Rightarrow> byte list \<Rightarrow> manifest_t" where
  "set_server_key_y_impl mt x =
     mt\<lparr>vendor := (vendor mt)\<lparr>vm_server_key_y := splice_at 0 (take 32 x) (vm_server_key_y (vendor mt))\<rparr>\<rparr>"

text \<open>The memory getters return the array and its size; the memory setters return 0 or 1.\<close>

definition get_vendor_signature_r_impl :: "manifest_t \<Rightarrow> byte list \<times> nat" where
  "get_vendor_signature_r_impl mt = (vendor_signature_r mt, 32)"

definition get_vendor_signature_s_impl :: "manifest_t \<Rightarrow> byte list \<times> nat" where
  "get_vendor_signature_s_impl mt = (vendor_signature_s mt, 32)"

definition get_server_signature_r_impl :: "manifest_t \<Rightarrow> byte list \<times> nat" where
  "get_server_signature_r_impl mt = (server_signature_r mt, 32)"

definition get_server_signature_s_impl :: "manifest_t \<Rightarrow> byte list \<times> nat" where
  "get_server_signature_s_impl mt = (server_signature_s mt, 32)"

definition set_vendor_signature_r_impl :: "manifest_t \<Rightarrow> byte list \<Rightarrow> nat \<Rightarrow> int \<times> manifest_t" where
  "set_vendor_signature_r_impl mt x n =
     (if n \<noteq> 32 then (1, mt)
      else (0, mt\<lparr>vendor_signature_r := splice_at 0 (take n x) (vendor_signature_r mt)\<rparr>))"

definition set_vendor_signature_s_impl :: "manifest_t \<Rightarrow> byte list \<Rightarrow> nat \<Rightarrow> int \<times> manifest_t" where
  "set_vendor_signature_s_impl mt x n =
     (if n \<noteq> 32 then (1, mt)
      else (0, mt\<lparr>vendor_signature_s := splice_at 0 (take n x) (vendor_signature_s mt)\<rparr>))"

definition set_server_signature_r_impl :: "manifest_t \<Rightarrow> byte list \<Rightarrow> nat \<Rightarrow> int \<times> manifest_t" where
  "set_server_signature_r_impl mt x n =
     (if n \<noteq> 32 then (1, mt)
      else (0, mt\<lparr>server_signature_r := splice_at 0 (take n x) (server_signature_r mt)\<rparr>))"

definition set_server_signature_s_impl :: "manifest_t \<Rightarrow> byte list \<Rightarrow> nat \<Rightarrow> int \<times> manifest_t" where
  "set_server_signature_s_impl mt x n =
     (if n \<noteq> 32 then (1, mt)
      else (0, mt\<lparr>server_signature_s := splice_at 0 (take n x) (server_signature_s mt)\<rparr>))"

section \<open>Layout\<close>

definition sizeof_manifest :: nat where
  "sizeof_manifest = 256"

definition sizeof_vendor :: nat where
  "sizeof_vendor = 108"

definition sizeof_server :: nat where
  "sizeof_server = 20"

definition vendor_bytes :: "vendor_manifest_t \<Rightarrow> byte list" where
  "vendor_bytes v =
     le_enc 4 (unat (vm_size v)) @ le_enc 4 (unat (vm_offset v)) @
     le_enc 2 (unat (vm_version v)) @ le_enc 2 (unat (vm_appid v)) @
     vm_digest v @ vm_server_key_x v @ vm_server_key_y v"

definition server_bytes :: "server_manifest_t \<Rightarrow> byte list" where
  "server_bytes s =
     le_enc 2 (unat (sm_udid s)) @ le_enc 2 (unat (sm_pad0 s)) @
     le_enc 4 (unat (sm_nonce s)) @ le_enc 2 (unat (sm_diff_version s)) @
     le_enc 2 (unat (sm_pad1 s)) @ le_enc 4 (unat (sm_prop_size s)) @
     le_enc 4 (unat (sm_flags s))"

definition manifest_bytes :: "manifest_t \<Rightarrow> byte list" where
  "manifest_bytes mt =
     vendor_signature_r mt @ vendor_signature_s mt @ vendor_bytes (vendor mt) @
     server_signature_r mt @ server_signature_s mt @ server_bytes (server mt)"

definition vendor_of_bytes :: "byte list \<Rightarrow> vendor_manifest_t" where
  "vendor_of_bytes bs = \<lparr>
     vm_size = word_of_nat (le_dec (block 0 4 bs)),
     vm_offset = word_of_nat (le_dec (block 4 4 bs)),
     vm_version = word_of_nat (le_dec (block 8 2 bs)),
     vm_appid = word_of_nat (le_dec (block 10 2 bs)),
     vm_digest = block 12 32 bs,
     vm_server_key_x = block 44 32 bs,
     vm_server_key_y = block 76 32 bs\<rparr>"

definition server_of_bytes :: "byte list \<Rightarrow> server_manifest_t" where
  "server_of_bytes bs = \<lparr>
     sm_udid = word_of_nat (le_dec (block 0 2 bs)),
     sm_pad0 = word_of_nat (le_dec (block 2 2 bs)),
     sm_nonce = word_of_nat (le_dec (block 4 4 bs)),
     sm_diff_version = word_of_nat (le_dec (block 8 2 bs)),
     sm_pad1 = word_of_nat (le_dec (block 10 2 bs)),
     sm_prop_size = word_of_nat (le_dec (block 12 4 bs)),
     sm_flags = word_of_nat (le_dec (block 16 4 bs))\<rparr>"

definition manifest_of_bytes :: "byte list \<Rightarrow> manifest_t" where
  "manifest_of_bytes bs = \<lparr>
     vendor_signature_r = block 0 32 bs,
     vendor_signature_s = block 32 32 bs,
     vendor = vendor_of_bytes (block 64 108 bs),
     server_signature_r = block 172 32 bs,
     server_signature_s = block 204 32 bs,
     server = server_of_bytes (block 236 20 bs)\<rparr>"

definition zero_manifest :: manifest_t where
  "zero_manifest = manifest_of_bytes (replicate 256 0)"

section \<open>Lengths\<close>

lemma length_server_bytes [simp, layout_simps]: "length (server_bytes s) = sizeof_server"
  by (simp add: server_bytes_def sizeof_server_def)

lemma length_vendor_bytes [simp, layout_simps]:
  "wf_vendor v \<Longrightarrow> length (vendor_bytes v) = sizeof_vendor"
  by (simp add: vendor_bytes_def wf_vendor_def sizeof_vendor_def)

lemma length_manifest_bytes [simp, layout_simps]:
  "wf_manifest mt \<Longrightarrow> length (manifest_bytes mt) = sizeof_manifest"
  by (simp add: manifest_bytes_def wf_manifest_def sizeof_manifest_def sizeof_vendor_def sizeof_server_def)

lemma wf_vendor_of_bytes: "length bs = sizeof_vendor \<Longrightarrow> wf_vendor (vendor_of_bytes bs)"
  by (simp add: wf_vendor_def vendor_of_bytes_def sizeof_vendor_def)

lemma wf_manifest_of_bytes: "length bs = sizeof_manifest \<Longrightarrow> wf_manifest (manifest_of_bytes bs)"
  by (simp add: wf_manifest_def manifest_of_bytes_def sizeof_manifest_def
      wf_vendor_of_bytes sizeof_vendor_def)

section \<open>Round trips\<close>

text \<open>A block of a concatenation, when the first part has a known length.\<close>

lemma block_append_skip: "length xs \<le> off \<Longrightarrow> block off n (xs @ ys) = block (off - length xs) n ys"
  by (simp add: block_def)

lemma block_append_here: "length xs = n \<Longrightarrow> block 0 n (xs @ ys) = xs"
  by (simp add: block_def)

lemma block_all: "length xs = n \<Longrightarrow> block 0 n xs = xs"
  by (simp add: block_def)

lemma word_le_dec_enc_16: "word_of_nat (le_dec (le_enc 2 (unat (w :: u16)))) = w"
proof -
  have "unat w < 2 ^ 16" using unsigned_less [of w] by simp
  then show ?thesis by (simp add: le_dec_enc)
qed

lemma word_le_dec_enc_32: "word_of_nat (le_dec (le_enc 4 (unat (w :: u32)))) = w"
proof -
  have "unat w < 2 ^ 32" using unsigned_less [of w] by simp
  then show ?thesis by (simp add: le_dec_enc)
qed

lemmas block_layout = block_append_skip block_append_here block_all
  word_le_dec_enc_16 word_le_dec_enc_32

lemma le_enc_word_16:
  assumes "length bs = 2"
  shows "le_enc 2 (unat (word_of_nat (le_dec bs) :: u16)) = bs"
proof -
  have "le_dec bs < 2 ^ 16" using le_dec_bound [of bs] assms by simp
  then show ?thesis using le_enc_dec [OF assms] by (simp add: unat_of_nat)
qed

lemma le_enc_word_32:
  assumes "length bs = 4"
  shows "le_enc 4 (unat (word_of_nat (le_dec bs) :: u32)) = bs"
proof -
  have "le_dec bs < 2 ^ 32" using le_dec_bound [of bs] assms by simp
  then show ?thesis using le_enc_dec [OF assms] by (simp add: unat_of_nat)
qed

lemma vendor_of_bytes_vendor_bytes: "wf_vendor v \<Longrightarrow> vendor_of_bytes (vendor_bytes v) = v"
  by (simp add: vendor_of_bytes_def vendor_bytes_def wf_vendor_def block_layout)

lemma server_of_bytes_server_bytes: "server_of_bytes (server_bytes s) = s"
  by (simp add: server_of_bytes_def server_bytes_def block_layout)

lemma vendor_bytes_vendor_of_bytes:
  assumes "length bs = sizeof_vendor"
  shows "vendor_bytes (vendor_of_bytes bs) = bs"
proof -
  have len: "length bs = 108" using assms by (simp add: sizeof_vendor_def)
  then have "vendor_bytes (vendor_of_bytes bs) =
      block 0 4 bs @ block 4 4 bs @ block 8 2 bs @ block 10 2 bs @
      block 12 32 bs @ block 44 32 bs @ block 76 32 bs"
    by (simp add: vendor_bytes_def vendor_of_bytes_def le_enc_word_16 le_enc_word_32)
  also have "\<dots> = block 0 108 bs"
    using block_append_block [of 0 4 bs 4] block_append_block [of 0 8 bs 2]
      block_append_block [of 0 10 bs 2] block_append_block [of 0 12 bs 32]
      block_append_block [of 0 44 bs 32] block_append_block [of 0 76 bs 32]
    by (simp flip: append_assoc)
  finally show ?thesis using len by (simp add: block_all)
qed

lemma server_bytes_server_of_bytes:
  assumes "length bs = sizeof_server"
  shows "server_bytes (server_of_bytes bs) = bs"
proof -
  have len: "length bs = 20" using assms by (simp add: sizeof_server_def)
  then have "server_bytes (server_of_bytes bs) =
      block 0 2 bs @ block 2 2 bs @ block 4 4 bs @ block 8 2 bs @
      block 10 2 bs @ block 12 4 bs @ block 16 4 bs"
    by (simp add: server_bytes_def server_of_bytes_def le_enc_word_16 le_enc_word_32)
  also have "\<dots> = block 0 20 bs"
  proof -
    have "block 0 2 bs @ block 2 2 bs = block 0 4 bs"
      using block_append_block [of 0 2 bs 2] by (simp add: eval_nat_numeral)
    then show ?thesis
      using block_append_block [of 0 4 bs 4]
        block_append_block [of 0 8 bs 2] block_append_block [of 0 10 bs 2]
        block_append_block [of 0 12 bs 4] block_append_block [of 0 16 bs 4]
      by (simp flip: append_assoc)
  qed
  finally show ?thesis using len by (simp add: block_all)
qed

lemma manifest_of_manifest_bytes:
  "wf_manifest mt \<Longrightarrow> manifest_of_bytes (manifest_bytes mt) = mt"
  by (simp add: manifest_of_bytes_def manifest_bytes_def wf_manifest_def block_layout
      vendor_of_bytes_vendor_bytes server_of_bytes_server_bytes sizeof_vendor_def sizeof_server_def)

lemma manifest_bytes_of_bytes:
  assumes "length bs = sizeof_manifest"
  shows "manifest_bytes (manifest_of_bytes bs) = bs"
proof -
  have len: "length bs = 256" using assms by (simp add: sizeof_manifest_def)
  then have "manifest_bytes (manifest_of_bytes bs) =
      block 0 32 bs @ block 32 32 bs @ block 64 108 bs @ block 172 32 bs @
      block 204 32 bs @ block 236 20 bs"
    by (simp add: manifest_bytes_def manifest_of_bytes_def vendor_bytes_vendor_of_bytes
        server_bytes_server_of_bytes sizeof_vendor_def sizeof_server_def)
  also have "\<dots> = block 0 256 bs"
    using block_append_block [of 0 32 bs 32] block_append_block [of 0 64 bs 108]
      block_append_block [of 0 172 bs 32] block_append_block [of 0 204 bs 32]
      block_append_block [of 0 236 bs 20]
    by (simp flip: append_assoc)
  finally show ?thesis using len by (simp add: block_all)
qed

text \<open>A manifest read from a byte block of its size is well-formed and keeps every byte.\<close>

lemma manifest_bytes_inj:
  "wf_manifest a \<Longrightarrow> wf_manifest b \<Longrightarrow> manifest_bytes a = manifest_bytes b \<Longrightarrow> a = b"
  by (metis manifest_of_manifest_bytes)

lemma zero_manifest_bytes: "manifest_bytes zero_manifest = replicate 256 0"
  unfolding zero_manifest_def by (rule manifest_bytes_of_bytes) (simp add: sizeof_manifest_def)

lemma wf_zero_manifest: "wf_manifest zero_manifest"
  unfolding zero_manifest_def by (rule wf_manifest_of_bytes) (simp add: sizeof_manifest_def)

lemma zero_manifest_version: "get_version_impl zero_manifest = 0"
  by (simp add: zero_manifest_def get_version_impl_def manifest_of_bytes_def vendor_of_bytes_def
      block_def numeral_2_eq_2)

end
