(* ===== verification/Memory_Interface.thy ===== *)
theory Memory_Interface
  imports Simple_Manifest
begin

text \<open>
  The memory interface (\<open>include/libpull/memory/memory_interface.h\<close>,
  \<open>src/core/memory/memory_impl.c\<close>) and the manifest accessors of
  \<open>include/libpull/memory/memory_objects.h\<close>.

  A platform links in one implementation of \<open>memory_open_impl\<close>, \<open>memory_read_impl\<close>,
  \<open>memory_write_impl\<close> and \<open>memory_close_impl\<close>, and defines \<open>mem_object_t\<close> itself. The four
  functions are the fields of the record \<open>mem_iface\<close>, over a type \<open>'o\<close> for
  \<open>mem_object_t\<close> and a type \<open>'w\<close> for everything the functions read and write outside the
  object (flash cells, files, descriptors). A buffer that the C function fills is passed
  in and returned; \<open>memory_write_impl\<close> reads the first \<open>size\<close> bytes of its buffer.

  The locale \<open>memory_contract\<close> states what the rest of the library relies on: an object
  is opened on a memory id, reading returns the bytes of that id's content, and writing
  changes the content of that id alone. Its interpretations are in the theories of the
  implementations.
\<close>

record ('w, 'o) mem_iface =
  memory_open_impl :: "'o \<Rightarrow> mem_id_t \<Rightarrow> mem_mode_t \<Rightarrow> 'w \<Rightarrow> pull_error \<times> 'o \<times> 'w"
  memory_read_impl :: "'o \<Rightarrow> byte list \<Rightarrow> nat \<Rightarrow> address_t \<Rightarrow> 'w \<Rightarrow> int \<times> byte list \<times> 'w"
  memory_write_impl :: "'o \<Rightarrow> byte list \<Rightarrow> nat \<Rightarrow> address_t \<Rightarrow> 'w \<Rightarrow> int \<times> 'w"
  memory_close_impl :: "'o \<Rightarrow> 'w \<Rightarrow> pull_error \<times> 'w"

section \<open>The wrappers of memory\_impl.c\<close>

text \<open>
  \<open>memory_impl.c\<close> declares \<open>memory_read_impl\<close> and \<open>memory_write_impl\<close> with result type
  \<open>uint16_t\<close>, while the implementations return \<open>int\<close>: the caller sees the result converted
  to 16 bits, so a failure (\<open>-1\<close>) arrives as 65535.
\<close>

definition memory_open :: "('w, 'o) mem_iface \<Rightarrow> 'o \<Rightarrow> mem_id_t \<Rightarrow> mem_mode_t \<Rightarrow> 'w \<Rightarrow> pull_error \<times> 'o \<times> 'w" where
  "memory_open m ctx i mode w = memory_open_impl m ctx i mode w"

definition memory_read :: "('w, 'o) mem_iface \<Rightarrow> 'o \<Rightarrow> byte list \<Rightarrow> nat \<Rightarrow> address_t \<Rightarrow> 'w \<Rightarrow> nat \<times> byte list \<times> 'w" where
  "memory_read m ctx buf n off w =
     (case memory_read_impl m ctx buf n off w of (r, buf', w') \<Rightarrow> (as_uint16 r, buf', w'))"

definition memory_write :: "('w, 'o) mem_iface \<Rightarrow> 'o \<Rightarrow> byte list \<Rightarrow> nat \<Rightarrow> address_t \<Rightarrow> 'w \<Rightarrow> nat \<times> 'w" where
  "memory_write m ctx buf n off w =
     (case memory_write_impl m ctx buf n off w of (r, w') \<Rightarrow> (as_uint16 r, w'))"

definition memory_close :: "('w, 'o) mem_iface \<Rightarrow> 'o \<Rightarrow> 'w \<Rightarrow> pull_error \<times> 'w" where
  "memory_close m ctx w = memory_close_impl m ctx w"

section \<open>Manifest accessors\<close>

definition read_firmware_manifest ::
  "('w, 'o) mem_iface \<Rightarrow> 'o \<Rightarrow> manifest_t \<Rightarrow> 'w \<Rightarrow> pull_error \<times> manifest_t \<times> 'w" where
  "read_firmware_manifest m obj mt w =
     (case memory_read m obj (manifest_bytes mt) sizeof_manifest 0 w of
        (r, bs, w') \<Rightarrow>
          (if r \<noteq> sizeof_manifest then READ_MANIFEST_ERROR else PULL_SUCCESS,
           manifest_of_bytes bs, w'))"

definition write_firmware_manifest ::
  "('w, 'o) mem_iface \<Rightarrow> 'o \<Rightarrow> manifest_t \<Rightarrow> 'w \<Rightarrow> pull_error \<times> 'w" where
  "write_firmware_manifest m obj mt w =
     (case memory_write m obj (manifest_bytes mt) sizeof_manifest 0 w of
        (r, w') \<Rightarrow> (if r \<noteq> sizeof_manifest then WRITE_MANIFEST_ERROR else PULL_SUCCESS, w'))"

section \<open>The contract of an implementation\<close>

text \<open>
  \<open>content i w\<close> is the byte content of the memory object \<open>i\<close>; \<open>opened obj i mode w\<close> says
  that \<open>obj\<close> is open on \<open>i\<close>; \<open>indep p q\<close> says that closing \<open>q\<close> does not close \<open>p\<close>, which
  holds of every object that was open when \<open>q\<close> was opened; \<open>avail w\<close> counts the objects that can still be opened,
  of which an open object uses \<open>cost\<close>.
  A write of no bytes is not covered in the sequential mode, where a flash erases a page at its start.
  \<open>oeff\<close> and \<open>weff\<close> give the effect of opening in a mode and of writing a block on the
  content: replacing the block, for a file, or erasing and programming, for a flash.
\<close>

locale memory_contract =
  fixes m :: "('w, 'o) mem_iface"
    and ids :: "mem_id_t set"
    and content :: "mem_id_t \<Rightarrow> 'w \<Rightarrow> byte list"
    and opened :: "'o \<Rightarrow> mem_id_t \<Rightarrow> mem_mode_t \<Rightarrow> 'w \<Rightarrow> bool"
    and indep :: "'o \<Rightarrow> 'o \<Rightarrow> bool"
    and avail :: "'w \<Rightarrow> nat"
    and cost :: nat
    and oeff :: "mem_id_t \<Rightarrow> mem_mode_t \<Rightarrow> byte list \<Rightarrow> byte list"
    and weff :: "mem_id_t \<Rightarrow> mem_mode_t \<Rightarrow> nat \<Rightarrow> byte list \<Rightarrow> byte list \<Rightarrow> byte list"
  assumes open_ok: "\<lbrakk>i \<in> ids; 0 < avail w\<rbrakk> \<Longrightarrow>
      \<exists>obj' w'. memory_open_impl m obj i mode w = (PULL_SUCCESS, obj', w') \<and>
        opened obj' i mode w' \<and> content i w' = oeff i mode (content i w) \<and>
        (\<forall>j\<in>ids. j \<noteq> i \<longrightarrow> content j w' = content j w) \<and>
        (\<forall>p j md. opened p j md w \<longrightarrow> opened p j md w' \<and> indep p obj') \<and>
        avail w \<le> avail w' + cost"
    and read_ok: "\<lbrakk>opened obj i mode w; unat off + n \<le> length (content i w); n \<le> length buf; n < 65536\<rbrakk> \<Longrightarrow>
      \<exists>w'. memory_read_impl m obj buf n off w =
          (int n, block (unat off) n (content i w) @ drop n buf, w') \<and>
        (\<forall>j. content j w' = content j w) \<and>
        (\<forall>p j md. opened p j md w' \<longleftrightarrow> opened p j md w) \<and> avail w' = avail w"
    and write_ok: "\<lbrakk>opened obj i mode w; mode \<noteq> READ_ONLY; unat off + n \<le> length (content i w);
        n \<le> length buf; n < 65536; n = 0 \<longrightarrow> mode \<noteq> SEQUENTIAL_REWRITE\<rbrakk> \<Longrightarrow>
      \<exists>w'. memory_write_impl m obj buf n off w = (int n, w') \<and>
        content i w' = weff i mode (unat off) (take n buf) (content i w) \<and>
        (\<forall>j\<in>ids. j \<noteq> i \<longrightarrow> content j w' = content j w) \<and>
        (\<forall>p j md. opened p j md w' \<longleftrightarrow> opened p j md w) \<and> avail w' = avail w"
    and close_ok: "opened obj i mode w \<Longrightarrow>
      \<exists>w'. memory_close_impl m obj w = (PULL_SUCCESS, w') \<and>
        (\<forall>j. content j w' = content j w) \<and>
        (\<forall>p j md. indep p obj \<longrightarrow> opened p j md w \<longrightarrow> opened p j md w') \<and>
        avail w + cost \<le> avail w'"
    and oeff_len: "length (oeff i mode v) = length v"
    and oeff_read: "oeff i READ_ONLY v = v"
begin

text \<open>Two worlds that agree on everything the contract talks about.\<close>

definition same :: "'w \<Rightarrow> 'w \<Rightarrow> bool" where
  "same w w' \<longleftrightarrow> (\<forall>j. content j w' = content j w) \<and>
     (\<forall>p j md. opened p j md w' \<longleftrightarrow> opened p j md w) \<and> avail w' = avail w"

lemma same_refl [simp]: "same w w"
  by (simp add: same_def)

lemma same_trans: "same u v \<Longrightarrow> same v w \<Longrightarrow> same u w"
  by (simp add: same_def)

lemma same_content: "same w w' \<Longrightarrow> content j w' = content j w"
  by (simp add: same_def)

lemma same_opened: "same w w' \<Longrightarrow> opened p j md w' \<longleftrightarrow> opened p j md w"
  by (simp add: same_def)

lemma memory_open_ok:
  assumes "i \<in> ids" and "0 < avail w"
  obtains obj' w' where "memory_open m obj i mode w = (PULL_SUCCESS, obj', w')"
    and "opened obj' i mode w'" and "content i w' = oeff i mode (content i w)"
    and "\<And>j. j \<in> ids \<Longrightarrow> j \<noteq> i \<Longrightarrow> content j w' = content j w"
    and "\<And>p j md. opened p j md w \<Longrightarrow> opened p j md w'"
    and "\<And>p j md. opened p j md w \<Longrightarrow> indep p obj'" and "avail w \<le> avail w' + cost"
  using open_ok [OF assms, of obj mode] that unfolding memory_open_def by blast

lemma memory_close_ok:
  assumes "opened obj i mode w"
  obtains w' where "memory_close m obj w = (PULL_SUCCESS, w')"
    and "\<And>j. content j w' = content j w"
    and "\<And>p j md. indep p obj \<Longrightarrow> opened p j md w \<Longrightarrow> opened p j md w'"
    and "avail w + cost \<le> avail w'"
  using close_ok [OF assms] that unfolding memory_close_def by blast

lemma memory_read_ok:
  assumes "opened obj i mode w" and "unat off + n \<le> length (content i w)"
    and "n \<le> length buf" and "n < 65536"
  obtains w' where "memory_read m obj buf n off w =
      (n, block (unat off) n (content i w) @ drop n buf, w')" and "same w w'"
  using read_ok [OF assms] assms(4) that unfolding memory_read_def same_def by fastforce

lemma memory_write_ok:
  assumes "opened obj i mode w" and "mode \<noteq> READ_ONLY" and "unat off + n \<le> length (content i w)"
    and "n \<le> length buf" and "n < 65536" and "n = 0 \<longrightarrow> mode \<noteq> SEQUENTIAL_REWRITE"
  obtains w' where "memory_write m obj buf n off w = (n, w')"
    and "content i w' = weff i mode (unat off) (take n buf) (content i w)"
    and "\<And>j. j \<in> ids \<Longrightarrow> j \<noteq> i \<Longrightarrow> content j w' = content j w"
    and "\<And>p j md. opened p j md w' \<longleftrightarrow> opened p j md w" and "avail w' = avail w"
  using write_ok [OF assms] assms(5) that unfolding memory_write_def by fastforce

text \<open>Reading a manifest gives the first 256 bytes of the object.\<close>

lemma read_firmware_manifest_ok:
  assumes "opened obj i mode w" and "sizeof_manifest \<le> length (content i w)" and "wf_manifest mt"
  obtains w' where "read_firmware_manifest m obj mt w =
      (PULL_SUCCESS, manifest_of_bytes (block 0 sizeof_manifest (content i w)), w')" and "same w w'"
proof -
  obtain w' where "memory_read m obj (manifest_bytes mt) sizeof_manifest 0 w =
      (sizeof_manifest, block (unat (0 :: address_t)) sizeof_manifest (content i w) @
        drop sizeof_manifest (manifest_bytes mt), w')" and "same w w'"
    using memory_read_ok [OF assms(1), of 0 sizeof_manifest "manifest_bytes mt"] assms(2,3)
    by (auto simp: sizeof_manifest_def)
  with assms(3) that show ?thesis
    by (simp add: read_firmware_manifest_def)
qed

end

section \<open>Error branches\<close>

text \<open>Whatever the implementation, a transfer of another size than the manifest's is an error.\<close>

lemma read_firmware_manifest_short:
  "fst (memory_read m obj (manifest_bytes mt) sizeof_manifest 0 w) \<noteq> sizeof_manifest \<Longrightarrow>
   fst (read_firmware_manifest m obj mt w) = READ_MANIFEST_ERROR"
  by (auto simp: read_firmware_manifest_def split: prod.splits)

lemma write_firmware_manifest_short:
  "fst (memory_write m obj (manifest_bytes mt) sizeof_manifest 0 w) \<noteq> sizeof_manifest \<Longrightarrow>
   fst (write_firmware_manifest m obj mt w) = WRITE_MANIFEST_ERROR"
  by (auto simp: write_firmware_manifest_def split: prod.splits)

end
