(* ===== verification/Memory_Objects.thy ===== *)
theory Memory_Objects
  imports Memory_Interface
begin

text \<open>
  Operations on memory objects (\<open>src/core/memory/memory_objects.c\<close>): choosing the newest or
  oldest firmware among the slots, copying a firmware, swapping two slots through a swap
  object, and invalidating an object. All are written over the interface record and
  proved correct under \<open>memory_contract\<close>; the theorems at the end of the development
  instantiate them for the implementations.

  Results of loops that may not end, or that leave defined behaviour, are \<open>option\<close>
  values: \<open>None\<close> stands for a loop that never returns or an access outside a buffer.
  A local \<open>manifest_t\<close> that the C code leaves uninitialised starts as \<open>zero_manifest\<close>.
\<close>

section \<open>Newest and oldest firmware\<close>

text \<open>
  The loop of \<open>get_ordered_firmware\<close>; \<open>fst_iter\<close> is the flag \<open>first\<close> and \<open>boot\<close> the variable
  \<open>bootable\<close>. The array \<open>memory_slots\<close> ends at the first entry whose id is not positive.
\<close>

fun get_ordered_loop ::
  "('w, 'o) mem_iface \<Rightarrow> bool \<Rightarrow> bool \<Rightarrow> mem_slot_t list \<Rightarrow> manifest_t \<Rightarrow> bool \<Rightarrow> bool \<Rightarrow>
   mem_id_t \<Rightarrow> version_t \<Rightarrow> 'o \<Rightarrow> 'w \<Rightarrow> pull_error \<times> mem_id_t \<times> version_t \<times> 'o \<times> 'w" where
  "get_ordered_loop m newest prefer_bootable [] mt fst_iter boot i version obj w =
     (PULL_SUCCESS, i, version, obj, w)"
| "get_ordered_loop m newest prefer_bootable (s # ss) mt fst_iter boot i version obj w =
     (if \<not> slot_id s > 0 then (PULL_SUCCESS, i, version, obj, w)
      else (case memory_open m obj (slot_id s) READ_ONLY w of (err, obj1, w1) \<Rightarrow>
        if err \<noteq> PULL_SUCCESS then (GET_NEWEST_ERROR, i, version, obj1, w1)
        else (case read_firmware_manifest m obj1 mt w1 of (err, mt', w2) \<Rightarrow>
          case memory_close m obj1 w2 of (_, w3) \<Rightarrow>
          if err \<noteq> PULL_SUCCESS then (GET_NEWEST_ERROR, i, version, obj1, w3)
          else if fst_iter \<or> (\<not> (prefer_bootable \<and> (boot \<and> \<not> bootable s)) \<and>
              ((newest \<and> version < get_version_impl mt') \<or> (\<not> newest \<and> get_version_impl mt' < version)))
          then get_ordered_loop m newest prefer_bootable ss mt' False (bootable s) (slot_id s)
                 (get_version_impl mt') obj1 w3
          else get_ordered_loop m newest prefer_bootable ss mt' fst_iter boot i version obj1 w3)))"

definition get_ordered_firmware ::
  "('w, 'o) mem_iface \<Rightarrow> mem_slot_t list \<Rightarrow> mem_id_t \<Rightarrow> version_t \<Rightarrow> 'o \<Rightarrow> bool \<Rightarrow> bool \<Rightarrow> 'w \<Rightarrow>
   pull_error \<times> mem_id_t \<times> version_t \<times> 'o \<times> 'w" where
  "get_ordered_firmware m memory_slots i version obj newest prefer_bootable w =
     get_ordered_loop m newest prefer_bootable memory_slots zero_manifest True False i version obj w"

definition get_newest_firmware ::
  "('w, 'o) mem_iface \<Rightarrow> mem_slot_t list \<Rightarrow> mem_id_t \<Rightarrow> version_t \<Rightarrow> 'o \<Rightarrow> bool \<Rightarrow> 'w \<Rightarrow>
   pull_error \<times> mem_id_t \<times> version_t \<times> 'o \<times> 'w" where
  "get_newest_firmware m memory_slots i version obj prefer_bootable w =
     get_ordered_firmware m memory_slots i version obj True prefer_bootable w"

definition get_oldest_firmware ::
  "('w, 'o) mem_iface \<Rightarrow> mem_slot_t list \<Rightarrow> mem_id_t \<Rightarrow> version_t \<Rightarrow> 'o \<Rightarrow> bool \<Rightarrow> 'w \<Rightarrow>
   pull_error \<times> mem_id_t \<times> version_t \<times> 'o \<times> 'w" where
  "get_oldest_firmware m memory_slots i version obj prefer_bootable w =
     get_ordered_firmware m memory_slots i version obj False prefer_bootable w"

section \<open>Copying a firmware\<close>

function copy_firmware_loop ::
  "('w, 'o) mem_iface \<Rightarrow> 'o \<Rightarrow> 'o \<Rightarrow> int \<Rightarrow> int \<Rightarrow> int \<Rightarrow> nat \<Rightarrow> byte list \<Rightarrow> 'w \<Rightarrow>
   (pull_error \<times> byte list \<times> 'w) option" where
  "copy_firmware_loop m src dst firmware_size offset step readed buffer w =
     (if offset < firmware_size
      then (case memory_read m src buffer (unat (word_of_int step :: u32)) (word_of_int offset) w of
        (readed', buffer', w1) \<Rightarrow>
          if readed' > 0
          then if readed' > length buffer' then None
            else (case memory_write m dst buffer' readed' (word_of_int offset) w1 of (n, w2) \<Rightarrow>
              if n \<noteq> readed' then Some (COPY_FIRMWARE_ERROR, buffer', w2)
              else (let offset' = offset + int readed' in
                copy_firmware_loop m src dst firmware_size offset'
                  (if offset' + step > firmware_size then firmware_size - offset' else step)
                  readed' buffer' w2))
          else Some (COPY_FIRMWARE_ERROR, buffer', w1))
      else Some (if readed = 0 then COPY_FIRMWARE_ERROR else PULL_SUCCESS, buffer, w))"
  by pat_completeness auto
termination
  by (relation "measure (\<lambda>(m, src, dst, firmware_size, offset, step, readed, buffer, w).
        nat (firmware_size - offset))") auto

declare copy_firmware_loop.simps [simp del]

definition copy_firmware ::
  "('w, 'o) mem_iface \<Rightarrow> 'o \<Rightarrow> 'o \<Rightarrow> byte list \<Rightarrow> 'w \<Rightarrow> (pull_error \<times> byte list \<times> 'w) option" where
  "copy_firmware m src dst buffer w =
     (case read_firmware_manifest m src zero_manifest w of (err, srcmt, w1) \<Rightarrow>
        if err \<noteq> PULL_SUCCESS then Some (COPY_FIRMWARE_ERROR, buffer, w1)
        else copy_firmware_loop m src dst (sint (get_size_impl srcmt + get_offset_impl srcmt))
               0 (int (length buffer)) 0 buffer w1)"

section \<open>Swapping two slots\<close>

partial_function (option) swap_chunk_loop ::
  "('w, 'o) mem_iface \<Rightarrow> 'o \<Rightarrow> 'o \<Rightarrow> nat \<Rightarrow> nat \<Rightarrow> nat \<Rightarrow> nat \<Rightarrow> bool \<Rightarrow> bool \<Rightarrow> byte list \<Rightarrow> 'w \<Rightarrow>
   (pull_error \<times> byte list \<times> 'w) option" where
  "swap_chunk_loop m src dst offset swap_size step swap_full read_swap write_swap buffer w =
     (if swap_full < swap_size
      then (let step' = (if u32 (swap_full + step) > swap_size then sub32 swap_size swap_full else step) in
        case memory_read m src buffer step' (word_of_nat (if read_swap then swap_full else offset)) w of
          (n, buffer', w1) \<Rightarrow>
          if n \<noteq> step' then Some (MEMORY_READ_ERROR, buffer', w1)
          else (case memory_write m dst buffer' step' (word_of_nat (if write_swap then swap_full else offset)) w1 of
            (n', w2) \<Rightarrow>
            if n' \<noteq> step' then Some (MEMORY_WRITE_ERROR, buffer', w2)
            else swap_chunk_loop m src dst (u32 (offset + step')) swap_size step' (u32 (swap_full + step'))
                   read_swap write_swap buffer' w2))
      else Some (PULL_SUCCESS, buffer, w))"

declare swap_chunk_loop.simps [code]

definition swap_chunk ::
  "('w, 'o) mem_iface \<Rightarrow> 'o \<Rightarrow> 'o \<Rightarrow> nat \<Rightarrow> nat \<Rightarrow> byte list \<Rightarrow> bool \<Rightarrow> bool \<Rightarrow> 'w \<Rightarrow>
   (pull_error \<times> byte list \<times> 'w) option" where
  "swap_chunk m src dst offset swap_size buffer read_swap write_swap w =
     swap_chunk_loop m src dst offset swap_size (length buffer) 0 read_swap write_swap buffer w"

text \<open>
  The loop of \<open>swap_slots\<close>. Only the first of the three \<open>swap_chunk\<close> calls assigns \<open>err\<close>; the
  tests after the second and the third look at the value the first one left.
\<close>

partial_function (option) swap_slots_loop ::
  "('w, 'o) mem_iface \<Rightarrow> 'o \<Rightarrow> 'o \<Rightarrow> 'o \<Rightarrow> nat \<Rightarrow> nat \<Rightarrow> nat \<Rightarrow> byte list \<Rightarrow> 'w \<Rightarrow>
   (pull_error \<times> byte list \<times> 'w) option" where
  "swap_slots_loop m obj1 obj2 obj_swap size1 swap_size offset buffer w =
     (if offset < size1
      then (let swap_size' = (if u32 (offset + swap_size) > size1 then sub32 size1 offset else swap_size) in
        Option.bind (swap_chunk m obj1 obj_swap offset swap_size' buffer False True w) (\<lambda>(err, buffer1, w1).
          if err \<noteq> PULL_SUCCESS then Some (err, buffer1, w1)
          else Option.bind (swap_chunk m obj2 obj1 offset swap_size' buffer1 False False w1) (\<lambda>(_, buffer2, w2).
            if err \<noteq> PULL_SUCCESS then Some (err, buffer2, w2)
            else Option.bind (swap_chunk m obj_swap obj2 offset swap_size' buffer2 True False w2) (\<lambda>(_, buffer3, w3).
              if err \<noteq> PULL_SUCCESS then Some (err, buffer3, w3)
              else swap_slots_loop m obj1 obj2 obj_swap size1 swap_size' (u32 (offset + swap_size')) buffer3 w3))))
      else Some (PULL_SUCCESS, buffer, w))"

declare swap_slots_loop.simps [code]

definition swap_slots ::
  "('w, 'o) mem_iface \<Rightarrow> 'o \<Rightarrow> 'o \<Rightarrow> 'o \<Rightarrow> nat \<Rightarrow> byte list \<Rightarrow> 'w \<Rightarrow>
   (pull_error \<times> byte list \<times> 'w) option" where
  "swap_slots m obj1 obj2 obj_swap swap_size buffer w =
     (case read_firmware_manifest m obj1 zero_manifest w of (err, mt, w1) \<Rightarrow>
        if err \<noteq> PULL_SUCCESS then Some (err, buffer, w1)
        else (case read_firmware_manifest m obj2 mt w1 of (err, mt2, w2) \<Rightarrow>
          if err \<noteq> PULL_SUCCESS then Some (err, buffer, w2)
          else (let size1 = unat (get_size_impl mt + get_offset_impl mt);
                    size2 = unat (get_size_impl mt2 + get_offset_impl mt2)
                in swap_slots_loop m obj1 obj2 obj_swap (if size2 > size1 then size2 else size1)
                     swap_size 0 buffer w2)))"

section \<open>Invalidating an object\<close>

definition invalidate_object ::
  "('w, 'o) mem_iface \<Rightarrow> mem_id_t \<Rightarrow> 'o \<Rightarrow> 'w \<Rightarrow> pull_error \<times> 'o \<times> 'w" where
  "invalidate_object m i obj w =
     (case memory_open m obj i WRITE_CHUNK w of (err, obj1, w1) \<Rightarrow>
        if err \<noteq> PULL_SUCCESS then (WRITE_MANIFEST_ERROR, obj1, w1)
        else (case write_firmware_manifest m obj1 zero_manifest w1 of (err, w2) \<Rightarrow>
          case memory_close m obj1 w2 of (_, w3) \<Rightarrow>
          if err \<noteq> PULL_SUCCESS then (WRITE_MANIFEST_ERROR, obj1, w3) else (PULL_SUCCESS, obj1, w3)))"

section \<open>The choice among the slots, as a pure function\<close>

definition content_manifest :: "byte list \<Rightarrow> manifest_t" where
  "content_manifest v = manifest_of_bytes (block 0 sizeof_manifest v)"

definition content_version :: "byte list \<Rightarrow> version_t" where
  "content_version v = get_version_impl (content_manifest v)"

definition content_fw_size :: "byte list \<Rightarrow> u32" where
  "content_fw_size v = get_size_impl (content_manifest v) + get_offset_impl (content_manifest v)"

definition active_slots :: "mem_slot_t list \<Rightarrow> mem_slot_t list" where
  "active_slots slots = takeWhile (\<lambda>s. slot_id s > 0) slots"

text \<open>\<open>pick\<close> replaces the current choice by a slot that is strictly better.\<close>

definition better :: "bool \<Rightarrow> bool \<Rightarrow> mem_slot_t \<times> version_t \<Rightarrow> mem_slot_t \<times> version_t \<Rightarrow> bool" where
  "better newest prefer c s \<longleftrightarrow> \<not> (prefer \<and> bootable (fst c) \<and> \<not> bootable (fst s)) \<and>
     (if newest then snd c < snd s else snd s < snd c)"

fun pick :: "bool \<Rightarrow> bool \<Rightarrow> (mem_slot_t \<times> version_t) list \<Rightarrow> mem_slot_t \<times> version_t \<Rightarrow> mem_slot_t \<times> version_t" where
  "pick newest prefer [] c = c"
| "pick newest prefer (s # ss) c = pick newest prefer ss (if better newest prefer c s then s else c)"

lemma pick_mem: "pick newest prefer ss c \<in> insert c (set ss)"
  by (induction ss arbitrary: c) (auto split: if_splits)

lemma pick_newest_max:
  "x \<in> insert c (set ss) \<Longrightarrow> snd x \<le> snd (pick True False ss c)"
proof (induction ss arbitrary: c x)
  case Nil
  then show ?case by simp
next
  case (Cons s ss)
  let ?c = "if better True False c s then s else c"
  have c: "snd c \<le> snd ?c" "snd s \<le> snd ?c" by (auto simp: better_def)
  have "snd ?c \<le> snd (pick True False ss ?c)" by (rule Cons.IH) simp
  with c Cons.IH [of x ?c] Cons.prems show ?case by (auto split: if_splits)
qed

lemma pick_oldest_min:
  "x \<in> insert c (set ss) \<Longrightarrow> snd (pick False False ss c) \<le> snd x"
proof (induction ss arbitrary: c x)
  case Nil
  then show ?case by simp
next
  case (Cons s ss)
  let ?c = "if better False False c s then s else c"
  have c: "snd ?c \<le> snd c" "snd ?c \<le> snd s" by (auto simp: better_def)
  have "snd (pick False False ss ?c) \<le> snd ?c" by (rule Cons.IH) simp
  with c Cons.IH [of x ?c] Cons.prems show ?case by (auto split: if_splits)
qed

text \<open>With \<open>prefer_bootable\<close>, a bootable choice is only replaced by a bootable slot.\<close>

lemma pick_prefer_bootable:
  "bootable (fst c) \<Longrightarrow>
   pick newest True ss c = pick newest False (filter (\<lambda>s. bootable (fst s)) ss) c"
proof (induction ss arbitrary: c)
  case Nil
  show ?case by simp
next
  case (Cons s ss)
  then show ?case by (cases "bootable (fst s)") (auto simp: better_def)
qed

text \<open>The slots the choice is made from, where the first slot is bootable or no preference is given.\<close>

definition candidates :: "bool \<Rightarrow> mem_slot_t list \<Rightarrow> mem_slot_t list" where
  "candidates prefer slots = filter (\<lambda>s. prefer \<longrightarrow> bootable s) (active_slots slots)"

lemma pick_candidates:
  assumes "active_slots slots = s # ss" and "prefer \<longrightarrow> bootable s"
  obtains cs where "candidates prefer slots = s # cs"
    and "pick newest prefer (map (\<lambda>x. (x, f x)) ss) (s, v) = pick newest False (map (\<lambda>x. (x, f x)) cs) (s, v)"
proof (cases "prefer")
  case True
  with assms that [of "filter bootable ss"] show ?thesis
    by (simp add: candidates_def pick_prefer_bootable filter_map comp_def)
next
  case False
  with assms that [of ss] show ?thesis by (simp add: candidates_def)
qed

section \<open>Correctness of the choice\<close>

context memory_contract
begin

text \<open>Opening a slot, reading its manifest and closing it again changes no content.\<close>

lemma probe_slot:
  assumes "i \<in> ids" and "0 < avail w" and "sizeof_manifest \<le> length (content i w)" and "wf_manifest mt"
  shows "\<exists>obj1 w1 w2 w3. memory_open m obj i READ_ONLY w = (PULL_SUCCESS, obj1, w1) \<and>
      read_firmware_manifest m obj1 mt w1 = (PULL_SUCCESS, content_manifest (content i w), w2) \<and>
      memory_close m obj1 w2 = (PULL_SUCCESS, w3) \<and>
      (\<forall>j\<in>ids. content j w3 = content j w) \<and>
      (\<forall>p j md. opened p j md w \<longrightarrow> opened p j md w3) \<and> avail w \<le> avail w3"
proof -
  obtain obj1 w1 where o: "memory_open m obj i READ_ONLY w = (PULL_SUCCESS, obj1, w1)"
    "opened obj1 i READ_ONLY w1" "content i w1 = content i w"
    "\<And>j. j \<in> ids \<Longrightarrow> j \<noteq> i \<Longrightarrow> content j w1 = content j w"
    "\<And>p j md. opened p j md w \<Longrightarrow> opened p j md w1"
    "\<And>p j md. opened p j md w \<Longrightarrow> indep p obj1" "avail w \<le> avail w1 + cost"
    using memory_open_ok [OF assms(1,2), of obj READ_ONLY] by (auto simp: oeff_read)
  obtain w2 where r: "read_firmware_manifest m obj1 mt w1 =
      (PULL_SUCCESS, content_manifest (content i w), w2)" "same w1 w2"
    using read_firmware_manifest_ok [OF o(2) _ assms(4)] assms(3) o(3)
    by (auto simp: content_manifest_def)
  have "opened obj1 i READ_ONLY w2" using o(2) r(2) by (simp add: same_opened)
  then obtain w3 where c: "memory_close m obj1 w2 = (PULL_SUCCESS, w3)"
    "\<And>j. content j w3 = content j w2"
    "\<And>p j md. indep p obj1 \<Longrightarrow> opened p j md w2 \<Longrightarrow> opened p j md w3" "avail w2 + cost \<le> avail w3"
    by (rule memory_close_ok) (rule that)
  have "content j w3 = content j w" if "j \<in> ids" for j
    using that o(3,4) c(2) r(2) by (cases "j = i") (auto simp: same_content)
  moreover have "opened p j md w3" if "opened p j md w" for p j md
    using that o(5,6) c(3) r(2) by (auto simp: same_opened)
  moreover have "avail w \<le> avail w3"
    using o(7) c(4) r(2) by (simp add: same_def)
  ultimately show ?thesis using o(1) r(1) c(1) by blast
qed

definition versioned :: "'w \<Rightarrow> mem_slot_t list \<Rightarrow> (mem_slot_t \<times> version_t) list" where
  "versioned w slots = map (\<lambda>s. (s, content_version (content (slot_id s) w))) slots"

lemma wf_content_manifest: "sizeof_manifest \<le> length v \<Longrightarrow> wf_manifest (content_manifest v)"
  by (simp add: content_manifest_def wf_manifest_of_bytes)

lemma get_ordered_loop_pick:
  assumes "\<forall>s\<in>set (active_slots slots). slot_id s \<in> ids \<and> sizeof_manifest \<le> length (content (slot_id s) w)"
    and "0 < avail w" and "wf_manifest mt"
  shows "\<exists>obj' w'. get_ordered_loop m newest prefer slots mt False (bootable c) (slot_id c) v obj w =
      (PULL_SUCCESS, slot_id (fst (pick newest prefer (versioned w (active_slots slots)) (c, v))),
       snd (pick newest prefer (versioned w (active_slots slots)) (c, v)), obj', w') \<and>
      (\<forall>j\<in>ids. content j w' = content j w) \<and> (\<forall>p j md. opened p j md w \<longrightarrow> opened p j md w') \<and>
      avail w \<le> avail w'"
  using assms
proof (induction slots arbitrary: mt c v obj w)
  case Nil
  then show ?case by (auto simp: active_slots_def versioned_def)
next
  case (Cons s ss)
  show ?case
  proof (cases "slot_id s > 0")
    case False
    then show ?thesis by (auto simp: active_slots_def versioned_def)
  next
    case True
    then have act: "active_slots (s # ss) = s # active_slots ss" by (simp add: active_slots_def)
    with Cons.prems(1) have s: "slot_id s \<in> ids" "sizeof_manifest \<le> length (content (slot_id s) w)"
      by simp_all
    let ?mt = "content_manifest (content (slot_id s) w)"
    obtain obj1 w1 w2 w3 where p: "memory_open m obj (slot_id s) READ_ONLY w = (PULL_SUCCESS, obj1, w1)"
      "read_firmware_manifest m obj1 mt w1 = (PULL_SUCCESS, ?mt, w2)"
      "memory_close m obj1 w2 = (PULL_SUCCESS, w3)"
      and q: "\<forall>j\<in>ids. content j w3 = content j w"
      "\<forall>p j md. opened p j md w \<longrightarrow> opened p j md w3" "avail w \<le> avail w3"
      using probe_slot [OF s(1) Cons.prems(2) s(2) Cons.prems(3)] by blast
    have pre: "\<forall>s\<in>set (active_slots ss). slot_id s \<in> ids \<and> sizeof_manifest \<le> length (content (slot_id s) w3)"
      using Cons.prems(1) q(1) act by auto
    have ver: "versioned w3 (active_slots ss) = versioned w (active_slots ss)"
      using Cons.prems(1) q(1) act by (auto simp: versioned_def)
    have av: "0 < avail w3" using Cons.prems(2) q(3) by simp
    have wf: "wf_manifest ?mt" using s(2) by (rule wf_content_manifest)
    define n where "n = (if better newest prefer (c, v) (s, get_version_impl ?mt)
      then (s, get_version_impl ?mt) else (c, v))"
    have step: "get_ordered_loop m newest prefer (s # ss) mt False (bootable c) (slot_id c) v obj w =
        get_ordered_loop m newest prefer ss ?mt False (bootable (fst n)) (slot_id (fst n)) (snd n) obj1 w3"
      using p \<open>slot_id s > 0\<close> by (simp add: n_def better_def)
    have pk: "pick newest prefer (versioned w (active_slots (s # ss))) (c, v) =
        pick newest prefer (versioned w3 (active_slots ss)) (fst n, snd n)"
      unfolding ver by (simp add: act versioned_def n_def content_version_def)
    from Cons.IH [OF pre av wf, of "fst n" "snd n" obj1] show ?thesis
      unfolding step pk using q by fastforce
  qed
qed

lemma get_ordered_firmware_pick:
  assumes "active_slots slots = s # ss"
    and "\<forall>s\<in>set (active_slots slots). slot_id s \<in> ids \<and> sizeof_manifest \<le> length (content (slot_id s) w)"
    and "0 < avail w"
  shows "\<exists>obj' w'. get_ordered_firmware m slots i0 v0 obj newest prefer w =
      (PULL_SUCCESS,
       slot_id (fst (pick newest prefer (versioned w ss) (s, content_version (content (slot_id s) w)))),
       snd (pick newest prefer (versioned w ss) (s, content_version (content (slot_id s) w))), obj', w') \<and>
      (\<forall>j\<in>ids. content j w' = content j w) \<and> (\<forall>p j md. opened p j md w \<longrightarrow> opened p j md w') \<and>
      avail w \<le> avail w'"
proof -
  obtain slots' where slots: "slots = s # slots'" "active_slots slots' = ss" "slot_id s > 0"
    using assms(1) by (cases slots) (auto simp: active_slots_def split: if_splits)
  let ?mt = "content_manifest (content (slot_id s) w)"
  have s: "slot_id s \<in> ids" "sizeof_manifest \<le> length (content (slot_id s) w)"
    using assms(1,2) by simp_all
  obtain obj1 w1 w2 w3 where p: "memory_open m obj (slot_id s) READ_ONLY w = (PULL_SUCCESS, obj1, w1)"
    "read_firmware_manifest m obj1 zero_manifest w1 = (PULL_SUCCESS, ?mt, w2)"
    "memory_close m obj1 w2 = (PULL_SUCCESS, w3)"
    and q: "\<forall>j\<in>ids. content j w3 = content j w"
    "\<forall>p j md. opened p j md w \<longrightarrow> opened p j md w3" "avail w \<le> avail w3"
    using probe_slot [OF s(1) assms(3) s(2) wf_zero_manifest] by blast
  have wf: "wf_manifest ?mt" using s(2) by (rule wf_content_manifest)
  have pre: "\<forall>s\<in>set (active_slots slots'). slot_id s \<in> ids \<and> sizeof_manifest \<le> length (content (slot_id s) w3)"
    using assms(1,2) q(1) slots(2) by auto
  have ver: "versioned w3 (active_slots slots') = versioned w ss"
    using assms(1,2) q(1) slots(2) by (auto simp: versioned_def)
  have "get_ordered_firmware m slots i0 v0 obj newest prefer w =
      get_ordered_loop m newest prefer slots' ?mt False (bootable s) (slot_id s) (get_version_impl ?mt) obj1 w3"
    using p slots by (simp add: get_ordered_firmware_def)
  moreover have av: "0 < avail w3" using assms(3) q(3) by simp
  ultimately show ?thesis
    using get_ordered_loop_pick [OF pre av wf, of newest "prefer" s "get_version_impl ?mt" obj1]
      q ver by (fastforce simp: content_version_def)
qed

text \<open>
  Among the candidates the choice is one with the extreme version; no content changes.
\<close>

lemma get_ordered_firmware_ok:
  assumes "active_slots slots = s # ss" and "prefer \<longrightarrow> bootable s"
    and "\<forall>s\<in>set (active_slots slots). slot_id s \<in> ids \<and> sizeof_manifest \<le> length (content (slot_id s) w)"
    and "0 < avail w"
  shows "\<exists>c obj' w'. get_ordered_firmware m slots i0 v0 obj newest prefer w =
      (PULL_SUCCESS, slot_id c, content_version (content (slot_id c) w), obj', w') \<and>
      c \<in> set (candidates prefer slots) \<and>
      (\<forall>x\<in>set (candidates prefer slots). if newest
         then content_version (content (slot_id x) w) \<le> content_version (content (slot_id c) w)
         else content_version (content (slot_id c) w) \<le> content_version (content (slot_id x) w)) \<and>
      (\<forall>j\<in>ids. content j w' = content j w) \<and> (\<forall>p j md. opened p j md w \<longrightarrow> opened p j md w') \<and>
      avail w \<le> avail w'"
proof -
  let ?f = "\<lambda>s. content_version (content (slot_id s) w)"
  let ?g = "\<lambda>s. (s, ?f s)"
  define r where "r = pick newest prefer (versioned w ss) (s, ?f s)"
  obtain cs where cs: "candidates prefer slots = s # cs"
    and r: "r = pick newest False (map ?g cs) (?g s)"
    by (rule pick_candidates [OF assms(1,2), of newest ?f "?f s"]) (rule that, simp_all add: r_def versioned_def)
  have mem: "r \<in> ?g ` set (s # cs)" using pick_mem [of newest False "map ?g cs" "?g s"] r by auto
  then have v: "snd r = ?f (fst r)" and c: "fst r \<in> set (candidates prefer slots)" using cs by auto
  have ext: "if newest then ?f x \<le> ?f (fst r) else ?f (fst r) \<le> ?f x"
    if "x \<in> set (candidates prefer slots)" for x
  proof -
    have "?g x \<in> insert (?g s) (set (map ?g cs))" using that cs by auto
    from pick_newest_max [OF this] pick_oldest_min [OF this] show ?thesis
      using r v by (cases newest) simp_all
  qed
  from get_ordered_firmware_pick [OF assms(1,3,4), of i0 v0 obj newest "prefer", folded r_def]
  obtain obj' w' where "get_ordered_firmware m slots i0 v0 obj newest prefer w =
      (PULL_SUCCESS, slot_id (fst r), ?f (fst r), obj', w')"
    "\<forall>j\<in>ids. content j w' = content j w" "\<forall>p j md. opened p j md w \<longrightarrow> opened p j md w'" "avail w \<le> avail w'"
    unfolding v by (elim exE conjE) (rule that)
  with c ext show ?thesis by blast
qed

end

section \<open>Correctness of copying\<close>

context memory_contract
begin

text \<open>The writes to \<open>j\<close> in this mode replace exactly the block written.\<close>

definition exact :: "mem_id_t \<Rightarrow> mem_mode_t \<Rightarrow> bool" where
  "exact j mode \<longleftrightarrow> mode \<noteq> READ_ONLY \<and>
     (\<forall>k bs v. k + length bs \<le> length v \<longrightarrow> weff j mode k bs v = splice_at k bs v)"

lemma move_block:
  assumes src: "opened src i mi w" and dst: "opened dst j mj w" and ex: "exact j mj"
    and rng: "k + n \<le> length (content i w)" "l + n \<le> length (content j w)" "k + n < 2 ^ 32" "l + n < 2 ^ 32"
    and n: "n \<le> length buf" "n < 65536" "0 < n"
  shows "\<exists>w1 w2. memory_read m src buf n (word_of_nat k) w = (n, block k n (content i w) @ drop n buf, w1) \<and>
      memory_write m dst (block k n (content i w) @ drop n buf) n (word_of_nat l) w1 = (n, w2) \<and>
      content j w2 = splice_at l (block k n (content i w)) (content j w) \<and>
      (\<forall>h\<in>ids. h \<noteq> j \<longrightarrow> content h w2 = content h w) \<and>
      (\<forall>p h md. opened p h md w2 \<longleftrightarrow> opened p h md w) \<and> avail w2 = avail w"
proof -
  have uk: "unat (word_of_nat k :: address_t) = k" "unat (word_of_nat l :: address_t) = l"
    using rng by (simp_all add: unat_of_nat)
  have "unat (word_of_nat k :: address_t) + n \<le> length (content i w)" using uk rng by simp
  from memory_read_ok [OF src this n(1,2)]
  obtain w1 where r: "memory_read m src buf n (word_of_nat k) w = (n, block k n (content i w) @ drop n buf, w1)"
    and s: "same w w1"
    by (metis uk(1))
  let ?b = "block k n (content i w) @ drop n buf"
  have "opened dst j mj w1" "mj \<noteq> READ_ONLY" "unat (word_of_nat l :: address_t) + n \<le> length (content j w1)"
    "n \<le> length ?b" and z: "n = 0 \<longrightarrow> mj \<noteq> SEQUENTIAL_REWRITE"
    using dst ex rng n s uk by (simp_all add: same_opened same_content exact_def)
  from memory_write_ok [OF this(1-4) n(2) z]
  obtain w2 where wr: "memory_write m dst ?b n (word_of_nat l) w1 = (n, w2)"
    "content j w2 = weff j mj l (take n ?b) (content j w1)"
    "\<forall>h\<in>ids. h \<noteq> j \<longrightarrow> content h w2 = content h w1"
    "\<forall>p h md. opened p h md w2 \<longleftrightarrow> opened p h md w1" "avail w2 = avail w1"
    by (metis uk(2))
  have "take n ?b = block k n (content i w)" using rng by simp
  with wr(2) ex rng s have "content j w2 = splice_at l (block k n (content i w)) (content j w)"
    by (simp add: exact_def same_content)
  with r wr s show ?thesis by (auto simp: same_def)
qed

lemma take_splice_block:
  assumes "take k v = take k u" and "k + n \<le> length u" and "k + n \<le> length v"
  shows "take (k + n) (splice_at k (block k n u) v) = take (k + n) u"
proof -
  have "take (k + n) (splice_at k (block k n u) v) = take k v @ block k n u"
    using assms(2,3) take_splice_at [of k "block k n u" v] by simp
  also have "\<dots> = take (k + n) u" using assms(1) by (simp add: block_def take_add)
  finally show ?thesis .
qed

lemma copy_firmware_done:
  "fs \<le> offset \<Longrightarrow> 0 < readed \<Longrightarrow>
   copy_firmware_loop m src dst fs offset step readed buf w = Some (PULL_SUCCESS, buf, w)"
  by (simp add: copy_firmware_loop.simps [of m src dst fs offset])

text \<open>One iteration moves one block, and the next step never passes the end of the firmware.\<close>

lemma copy_firmware_step:
  assumes "opened src i mi w" and "opened dst j mj w" and "exact j mj" and "i \<in> ids" and "i \<noteq> j"
    and "k + st \<le> length (content i w)" and "k + st \<le> length (content j w)" and "k + st < 2 ^ 31"
    and "k < fs" and "0 < st" and "st \<le> length buf" and "st < 65536"
    and "take k (content j w) = take k (content i w)"
  shows "\<exists>step' buf' w'. copy_firmware_loop m src dst (int fs) (int k) (int st) readed buf w =
        copy_firmware_loop m src dst (int fs) (int (k + st)) step' st buf' w' \<and>
      step' = (if int (k + st) + int st > int fs then int fs - int (k + st) else int st) \<and>
      length buf' = length buf \<and> take (k + st) (content j w') = take (k + st) (content i w) \<and>
      drop (k + st) (content j w') = drop (k + st) (content j w) \<and>
      length (content j w') = length (content j w) \<and> (\<forall>h\<in>ids. h \<noteq> j \<longrightarrow> content h w' = content h w) \<and>
      (\<forall>p h md. opened p h md w' \<longleftrightarrow> opened p h md w)"
proof -
  define b where "b = block k st (content i w)"
  have lb: "length b = st" using assms(6) by (simp add: b_def)
  obtain w1 w2 where mv: "memory_read m src buf st (word_of_nat k) w = (st, b @ drop st buf, w1)"
    "memory_write m dst (b @ drop st buf) st (word_of_nat k) w1 = (st, w2)"
    and c: "content j w2 = splice_at k b (content j w)"
      "\<forall>h\<in>ids. h \<noteq> j \<longrightarrow> content h w2 = content h w"
      "\<forall>p h md. opened p h md w2 \<longleftrightarrow> opened p h md w"
    using move_block [OF assms(1,2,3), of k st k buf] assms(6,7,8,10,11,12) unfolding b_def by auto
  have "unat (word_of_int (int st) :: u32) = st" using assms(8) by (simp add: unat_of_nat)
  define step' where "step' = (if int (k + st) + int st > int fs then int fs - int (k + st) else int st)"
  from \<open>unat (word_of_int (int st) :: u32) = st\<close>
  have "copy_firmware_loop m src dst (int fs) (int k) (int st) readed buf w =
      copy_firmware_loop m src dst (int fs) (int (k + st)) step' st (b @ drop st buf) w2"
    using assms(9,10,11) mv lb
    by (simp add: copy_firmware_loop.simps [of m src dst "int fs" "int k"] step'_def Let_def)
  moreover have "take (k + st) (content j w2) = take (k + st) (content i w)"
    using c(1) assms(6,7,13) by (simp add: b_def take_splice_block)
  moreover have "drop (k + st) (content j w2) = drop (k + st) (content j w)"
    using c(1) lb assms(7) by (simp add: drop_splice_above)
  moreover have "length (content j w2) = length (content j w)" using c(1) lb assms(7) by simp
  moreover have "length (b @ drop st buf) = length buf" using lb assms(11) by simp
  ultimately show ?thesis
    using c(2,3) step'_def by (intro exI [of _ step'] exI [of _ "b @ drop st buf"] exI [of _ w2]) blast
qed

lemma take_le_eq: "take k x = take k y \<Longrightarrow> n \<le> k \<Longrightarrow> take n x = take n y"
  by (metis min.absorb1 take_take)

lemma drop_le_eq: "drop k x = drop k y \<Longrightarrow> k \<le> n \<Longrightarrow> drop n x = drop n y"
  by (metis add.commute drop_drop le_add_diff_inverse)

lemma copy_firmware_loop_ok:
  assumes "opened src i mi w" and "opened dst j mj w" and "exact j mj"
    and "i \<in> ids" and "i \<noteq> j"
    and "N \<le> length (content i w)" and "N \<le> length (content j w)" and "N < 2 ^ 31" and "fs \<le> N"
    and "k < fs" and "0 < st" and "k + st \<le> N" and "st \<le> length buf" and "st < 65536"
    and "take k (content j w) = take k (content i w)"
  shows "\<exists>buf' w'. copy_firmware_loop m src dst (int fs) (int k) (int st) readed buf w =
        Some (PULL_SUCCESS, buf', w') \<and>
      take fs (content j w') = take fs (content i w) \<and> drop N (content j w') = drop N (content j w) \<and>
      (\<forall>h\<in>ids. h \<noteq> j \<longrightarrow> content h w' = content h w) \<and>
      (\<forall>p h md. opened p h md w' \<longleftrightarrow> opened p h md w)"
  using assms
proof (induction "fs - k" arbitrary: k st readed buf w rule: less_induct)
  case less
  have rng: "k + st \<le> length (content i w)" "k + st \<le> length (content j w)" "k + st < 2 ^ 31"
    using less.prems(6-8,12) by simp_all
  obtain step' buf' w' where s: "copy_firmware_loop m src dst (int fs) (int k) (int st) readed buf w =
        copy_firmware_loop m src dst (int fs) (int (k + st)) step' st buf' w'"
      "step' = (if int (k + st) + int st > int fs then int fs - int (k + st) else int st)"
      "length buf' = length buf" "take (k + st) (content j w') = take (k + st) (content i w)"
      "drop (k + st) (content j w') = drop (k + st) (content j w)"
      "length (content j w') = length (content j w)" "\<forall>h\<in>ids. h \<noteq> j \<longrightarrow> content h w' = content h w"
      "\<forall>p h md. opened p h md w' \<longleftrightarrow> opened p h md w"
    using copy_firmware_step [OF less.prems(1-5) rng less.prems(10,11,13,14,15), of readed]
    by (elim exE conjE) (rule that)
  have dr: "drop N (content j w') = drop N (content j w)"
    using s(5) less.prems(12) by (rule drop_le_eq)
  have ci: "content i w' = content i w" using s(7) less.prems(4,5) by simp
  show ?case
  proof (cases "k + st < fs")
    case False
    then have "take fs (content j w') = take fs (content i w)"
      using False by (intro take_le_eq [OF s(4)]) simp
    moreover have "copy_firmware_loop m src dst (int fs) (int (k + st)) step' st buf' w' =
        Some (PULL_SUCCESS, buf', w')"
      using False less.prems(11) by (intro copy_firmware_done) simp_all
    ultimately show ?thesis using s(1,7,8) dr by auto
  next
    case True
    define st' where "st' = nat step'"
    have st': "step' = int st'" "0 < st'" "k + st + st' \<le> fs" "st' \<le> st"
      using True s(2) less.prems(11) by (auto simp: st'_def)
    have "\<exists>buf'' w''. copy_firmware_loop m src dst (int fs) (int (k + st)) (int st') st buf' w' =
          Some (PULL_SUCCESS, buf'', w'') \<and>
        take fs (content j w'') = take fs (content i w') \<and> drop N (content j w'') = drop N (content j w') \<and>
        (\<forall>h\<in>ids. h \<noteq> j \<longrightarrow> content h w'' = content h w') \<and>
        (\<forall>p h md. opened p h md w'' \<longleftrightarrow> opened p h md w')"
    proof (rule less.hyps)
      show "fs - (k + st) < fs - k" using less.prems(10,11) by simp
      show "opened src i mi w'" "opened dst j mj w'" using less.prems(1,2) s(8) by simp_all
      show "N \<le> length (content i w')" "N \<le> length (content j w')"
        using less.prems(6,7) ci s(6) by simp_all
      show "k + st < fs" "0 < st'" by (fact True, fact st'(2))
      show "k + st + st' \<le> N" "st' \<le> length buf'" "st' < 65536"
        using st'(3,4) s(3) less.prems(9,13,14) by simp_all
      show "take (k + st) (content j w') = take (k + st) (content i w')" using s(4) ci by simp
    qed (fact less.prems)+
    then show ?thesis using s(1,7,8) st'(1) ci dr by auto
  qed
qed

end

section \<open>Correctness of swapping\<close>

lemma splice_blocks:
  assumes "wk + n + r \<le> length v" and "rk + n + r \<le> length u"
  shows "splice_at (wk + n) (block (rk + n) r u) (splice_at wk (block rk n u) v) =
    splice_at wk (block rk (n + r) u) v"
proof -
  have "length (block rk n u) = n" "length (block (rk + n) r u) = r" using assms(2) by simp_all
  then show ?thesis
    using assms(1) splice_at_append [of wk "block rk n u" "block (rk + n) r u" v]
    by (simp add: block_append_block)
qed

context memory_contract
begin

lemma swap_chunk_loop_ok:
  assumes "opened src i mi w" and "opened dst j mj w" and "exact j mj" and "i \<in> ids" and "i \<noteq> j"
    and "0 < st" and "st \<le> length buf" and "st < 65536" and "f \<le> sz" and "sz < 2 ^ 31" and "off + (sz - f) < 2 ^ 31"
    and "(if rs then f else off) + (sz - f) \<le> length (content i w)"
    and "(if ws then f else off) + (sz - f) \<le> length (content j w)"
  shows "\<exists>buf' w'. swap_chunk_loop m src dst off sz st f rs ws buf w = Some (PULL_SUCCESS, buf', w') \<and>
      content j w' = splice_at (if ws then f else off) (block (if rs then f else off) (sz - f) (content i w)) (content j w) \<and>
      (\<forall>h\<in>ids. h \<noteq> j \<longrightarrow> content h w' = content h w) \<and>
      (\<forall>p h md. opened p h md w' \<longleftrightarrow> opened p h md w) \<and> length buf' = length buf"
  using assms
proof (induction "sz - f" arbitrary: f off st buf w rule: less_induct)
  case less
  show ?case
  proof (cases "f < sz")
    case False
    then have "swap_chunk_loop m src dst off sz st f rs ws buf w = Some (PULL_SUCCESS, buf, w)"
      by (simp add: swap_chunk_loop.simps [of m src dst off sz st f])
    with False less.prems(9) show ?thesis by simp
  next
    case True
    define n where "n = (if sz < f + st then sz - f else st)"
    define rk where "rk = (if rs then f else off)"
    define wk where "wk = (if ws then f else off)"
    have n: "0 < n" "f + n \<le> sz" "n \<le> st" using True less.prems(6) by (auto simp: n_def)
    have rng: "rk + n \<le> length (content i w)" "wk + n \<le> length (content j w)"
      "rk + n < 2 ^ 32" "wk + n < 2 ^ 32" "n \<le> length buf" "n < 65536"
      using less.prems(7-13) n by (auto simp: rk_def wk_def)
    obtain w1 w2 where mv: "memory_read m src buf n (word_of_nat rk) w = (n, block rk n (content i w) @ drop n buf, w1)"
      "memory_write m dst (block rk n (content i w) @ drop n buf) n (word_of_nat wk) w1 = (n, w2)"
      and c: "content j w2 = splice_at wk (block rk n (content i w)) (content j w)"
        "\<forall>h\<in>ids. h \<noteq> j \<longrightarrow> content h w2 = content h w"
        "\<forall>p h md. opened p h md w2 \<longleftrightarrow> opened p h md w"
      using move_block [OF less.prems(1,2,3) rng n(1)] by blast
    let ?b = "block rk n (content i w) @ drop n buf"
    have step: "(if u32 (f + st) > sz then sub32 sz f else st) = n"
      using less.prems(8,10) True by (simp add: n_def)
    have unf: "swap_chunk_loop m src dst off sz st f rs ws buf w =
        swap_chunk_loop m src dst (off + n) sz n (f + n) rs ws ?b w2"
      using True mv n less.prems(10,11) unfolding swap_chunk_loop.simps [of m src dst off sz st f] step
      by (simp add: rk_def wk_def Let_def)
    have ci: "content i w2 = content i w" using c(2) less.prems(4,5) by simp
    have rk': "(if rs then f + n else off + n) = rk + n" "(if ws then f + n else off + n) = wk + n"
      by (simp_all add: rk_def wk_def)
    have lj: "length (content j w2) = length (content j w)" using c(1) rng by simp
    have lb: "length ?b = length buf" using rng by simp
    have "\<exists>buf' w'. swap_chunk_loop m src dst (off + n) sz n (f + n) rs ws ?b w2 = Some (PULL_SUCCESS, buf', w') \<and>
        content j w' = splice_at (if ws then f + n else off + n)
          (block (if rs then f + n else off + n) (sz - (f + n)) (content i w2)) (content j w2) \<and>
        (\<forall>h\<in>ids. h \<noteq> j \<longrightarrow> content h w' = content h w2) \<and>
        (\<forall>p h md. opened p h md w' \<longleftrightarrow> opened p h md w2) \<and> length buf' = length ?b"
    proof (rule less.hyps)
      show "sz - (f + n) < sz - f" using n True by simp
      show "opened src i mi w2" "opened dst j mj w2" using less.prems(1,2) c(3) by simp_all
      show "0 < n" "n \<le> length ?b" "n < 65536" using n rng lb by simp_all
      show "f + n \<le> sz" by (fact n(2))
      show "off + n + (sz - (f + n)) < 2 ^ 31" using n less.prems(11) by simp
      show "(if rs then f + n else off + n) + (sz - (f + n)) \<le> length (content i w2)"
        "(if ws then f + n else off + n) + (sz - (f + n)) \<le> length (content j w2)"
        unfolding rk' ci lj using n less.prems(12,13) by (auto simp: rk_def wk_def split: if_splits)
    qed (fact less.prems)+
    moreover have "splice_at (wk + n) (block (rk + n) (sz - (f + n)) (content i w)) (content j w2) =
        splice_at wk (block rk (sz - f) (content i w)) (content j w)"
      using splice_blocks [of wk n "sz - (f + n)" "content j w" rk "content i w"] n less.prems(12,13) c(1)
      by (simp add: rk_def wk_def)
    ultimately show ?thesis
      unfolding unf rk' ci using c(2,3) lb unfolding rk_def [symmetric] wk_def [symmetric] by fastforce
  qed
qed

text \<open>A whole chunk, with a buffer that the memory functions can transfer.\<close>

lemma swap_chunk_ok:
  assumes "opened src i mi w" and "opened dst j mj w" and "exact j mj" and "i \<in> ids" and "i \<noteq> j"
    and "0 < length buf" and "length buf < 65536" and "off + sz < 2 ^ 31"
    and "(if rs then 0 else off) + sz \<le> length (content i w)"
    and "(if ws then 0 else off) + sz \<le> length (content j w)"
  obtains buf' w' where "swap_chunk m src dst off sz buf rs ws w = Some (PULL_SUCCESS, buf', w')"
    and "content j w' = splice_at (if ws then 0 else off) (block (if rs then 0 else off) sz (content i w)) (content j w)"
    and "\<And>h. h \<in> ids \<Longrightarrow> h \<noteq> j \<Longrightarrow> content h w' = content h w"
    and "\<And>p h md. opened p h md w' \<longleftrightarrow> opened p h md w" and "length buf' = length buf"
  using swap_chunk_loop_ok [OF assms(1-5), of "length buf" buf 0 sz off rs ws] assms(6-10) that
  unfolding swap_chunk_def by auto

text \<open>
  One round: the block of the first object goes to the start of the swap object, the block
  of the second to the first, and the saved block to the second.
\<close>

lemma swap_round:
  assumes "opened o1 i1 m1 w" and "opened o2 i2 m2 w" and "opened os is ms w"
    and "exact i1 m1" and "exact i2 m2" and "exact is ms"
    and "i1 \<in> ids" and "i2 \<in> ids" and "is \<in> ids" and "distinct [i1, i2, is]"
    and "0 < length buf" and "length buf < 65536" and "off + n < 2 ^ 31"
    and "off + n \<le> length (content i1 w)" and "off + n \<le> length (content i2 w)" and "n \<le> length (content is w)"
  shows "\<exists>b1 b2 b3 w1 w2 w3. swap_chunk m o1 os off n buf False True w = Some (PULL_SUCCESS, b1, w1) \<and>
      swap_chunk m o2 o1 off n b1 False False w1 = Some (PULL_SUCCESS, b2, w2) \<and>
      swap_chunk m os o2 off n b2 True False w2 = Some (PULL_SUCCESS, b3, w3) \<and> length b3 = length buf \<and>
      content i1 w3 = splice_at off (block off n (content i2 w)) (content i1 w) \<and>
      content i2 w3 = splice_at off (block off n (content i1 w)) (content i2 w) \<and>
      length (content is w3) = length (content is w) \<and>
      (\<forall>h\<in>ids - {i1, i2, is}. content h w3 = content h w) \<and>
      (\<forall>p h md. opened p h md w3 \<longleftrightarrow> opened p h md w)"
proof -
  obtain b1 w1 where 1: "swap_chunk m o1 os off n buf False True w = Some (PULL_SUCCESS, b1, w1)"
    "content is w1 = splice_at 0 (block off n (content i1 w)) (content is w)"
    "\<And>h. h \<in> ids \<Longrightarrow> h \<noteq> is \<Longrightarrow> content h w1 = content h w"
    "\<And>p h md. opened p h md w1 \<longleftrightarrow> opened p h md w" "length b1 = length buf"
    using swap_chunk_ok [OF assms(1,3,6,7), of buf off n False True] assms(10-16) by auto
  obtain b2 w2 where 2: "swap_chunk m o2 o1 off n b1 False False w1 = Some (PULL_SUCCESS, b2, w2)"
    "content i1 w2 = splice_at off (block off n (content i2 w)) (content i1 w)"
    "\<And>h. h \<in> ids \<Longrightarrow> h \<noteq> i1 \<Longrightarrow> content h w2 = content h w1"
    "\<And>p h md. opened p h md w2 \<longleftrightarrow> opened p h md w1" "length b2 = length buf"
    using swap_chunk_ok [of o2 i2 m2 w1 o1 i1 m1 b1 off n False False] assms 1 by auto
  have s2: "content is w2 = splice_at 0 (block off n (content i1 w)) (content is w)"
    "content i2 w2 = content i2 w"
    using 2(3) 1(2,3) assms(8,9,10) by auto
  have blk: "block 0 n (content is w2) = block off n (content i1 w)"
    unfolding s2 using assms(14) block_splice_same [of 0 "content is w" "block off n (content i1 w)"] by simp
  have ls: "length (content is w2) = length (content is w)" unfolding s2 using assms(14,16) by simp
  obtain b3 w3 where 3: "swap_chunk m os o2 off n b2 True False w2 = Some (PULL_SUCCESS, b3, w3)"
    "content i2 w3 = splice_at off (block 0 n (content is w2)) (content i2 w2)"
    "\<And>h. h \<in> ids \<Longrightarrow> h \<noteq> i2 \<Longrightarrow> content h w3 = content h w2"
    "\<And>p h md. opened p h md w3 \<longleftrightarrow> opened p h md w2" "length b3 = length buf"
    using swap_chunk_ok [of os "is" ms w2 o2 i2 m2 b2 off n True False] assms 1(4,5) 2(4,5) ls s2(2) by auto
  have "content i1 w3 = splice_at off (block off n (content i2 w)) (content i1 w)"
    "content i2 w3 = splice_at off (block off n (content i1 w)) (content i2 w)"
    "length (content is w3) = length (content is w)"
    "\<forall>h\<in>ids - {i1, i2, is}. content h w3 = content h w"
    "\<forall>p h md. opened p h md w3 \<longleftrightarrow> opened p h md w"
    using 1(3,4) 2(2,3,4) 3(2,3,4) blk s2 ls assms(7-10) by auto
  with 1(1) 2(1) 3(1,5) show ?thesis by blast
qed

text \<open>Where the loop of \<open>swap_slots\<close> stops at \<open>offset\<close>, both objects have exchanged their tails.\<close>

lemma swap_slots_loop_ok:
  assumes "opened o1 i1 m1 w" and "opened o2 i2 m2 w" and "opened os is ms w"
    and "exact i1 m1" and "exact i2 m2" and "exact is ms"
    and "i1 \<in> ids" and "i2 \<in> ids" and "is \<in> ids" and "distinct [i1, i2, is]"
    and "0 < length buf" and "length buf < 65536" and "N < 2 ^ 31" and "off \<le> N"
    and "N \<le> length (content i1 w)" and "N \<le> length (content i2 w)"
    and "0 < sw" and "sw \<le> length (content is w)" and "sw < 2 ^ 31"
  shows "\<exists>buf' w'. swap_slots_loop m o1 o2 os N sw off buf w = Some (PULL_SUCCESS, buf', w') \<and>
      content i1 w' = splice_at off (block off (N - off) (content i2 w)) (content i1 w) \<and>
      content i2 w' = splice_at off (block off (N - off) (content i1 w)) (content i2 w) \<and>
      (\<forall>h\<in>ids - {i1, i2, is}. content h w' = content h w) \<and>
      (\<forall>p h md. opened p h md w' \<longleftrightarrow> opened p h md w) \<and> length buf' = length buf"
  using assms
proof (induction "N - off" arbitrary: off sw buf w rule: less_induct)
  case less
  show ?case
  proof (cases "off < N")
    case False
    then have "swap_slots_loop m o1 o2 os N sw off buf w = Some (PULL_SUCCESS, buf, w)"
      by (simp add: swap_slots_loop.simps [of m o1 o2 os N sw off])
    with False less.prems(14) show ?thesis by simp
  next
    case True
    define n where "n = (if N < off + sw then N - off else sw)"
    have n: "0 < n" "off + n \<le> N" "n \<le> sw" using True less.prems(17) by (auto simp: n_def)
    have rng: "off + n < 2 ^ 31" "off + n \<le> length (content i1 w)" "off + n \<le> length (content i2 w)"
      "n \<le> length (content is w)" using n less.prems(13,15,16,18) by simp_all
    obtain b1 b2 b3 w1 w2 w3 where r:
      "swap_chunk m o1 os off n buf False True w = Some (PULL_SUCCESS, b1, w1)"
      "swap_chunk m o2 o1 off n b1 False False w1 = Some (PULL_SUCCESS, b2, w2)"
      "swap_chunk m os o2 off n b2 True False w2 = Some (PULL_SUCCESS, b3, w3)" "length b3 = length buf"
      "content i1 w3 = splice_at off (block off n (content i2 w)) (content i1 w)"
      "content i2 w3 = splice_at off (block off n (content i1 w)) (content i2 w)"
      "length (content is w3) = length (content is w)"
      "\<forall>h\<in>ids - {i1, i2, is}. content h w3 = content h w"
      "\<forall>p h md. opened p h md w3 \<longleftrightarrow> opened p h md w"
      using swap_round [OF less.prems(1-12) rng] by (elim exE conjE) (rule that)
    have sz: "(if u32 (off + sw) > N then sub32 N off else sw) = n"
      using less.prems(13,19) True by (simp add: n_def)
    have unf: "swap_slots_loop m o1 o2 os N sw off buf w = swap_slots_loop m o1 o2 os N n (off + n) b3 w3"
      using True r(1-3) n less.prems(13) unfolding swap_slots_loop.simps [of m o1 o2 os N sw off] sz
      by (simp add: Let_def)
    have l: "length (content i1 w3) = length (content i1 w)" "length (content i2 w3) = length (content i2 w)"
      unfolding r(5,6) using rng by simp_all
    have "\<exists>buf' w'. swap_slots_loop m o1 o2 os N n (off + n) b3 w3 = Some (PULL_SUCCESS, buf', w') \<and>
        content i1 w' = splice_at (off + n) (block (off + n) (N - (off + n)) (content i2 w3)) (content i1 w3) \<and>
        content i2 w' = splice_at (off + n) (block (off + n) (N - (off + n)) (content i1 w3)) (content i2 w3) \<and>
        (\<forall>h\<in>ids - {i1, i2, is}. content h w' = content h w3) \<and>
        (\<forall>p h md. opened p h md w' \<longleftrightarrow> opened p h md w3) \<and> length buf' = length b3"
    proof (rule less.hyps)
      show "N - (off + n) < N - off" using n True by simp
      show "opened o1 i1 m1 w3" "opened o2 i2 m2 w3" "opened os is ms w3" using less.prems(1-3) r(9) by simp_all
      show "0 < length b3" "length b3 < 65536" using less.prems(11,12) r(4) by simp_all
      show "N \<le> length (content i1 w3)" "N \<le> length (content i2 w3)" using less.prems(15,16) l by simp_all
      show "n \<le> length (content is w3)" "0 < n" "n < 2 ^ 31" "off + n \<le> N"
        using n rng r(7) less.prems(19) by simp_all
    qed (fact less.prems)+
    moreover have "splice_at (off + n) (block (off + n) (N - (off + n)) (content i2 w3)) (content i1 w3) =
        splice_at off (block off (N - off) (content i2 w)) (content i1 w)"
      "splice_at (off + n) (block (off + n) (N - (off + n)) (content i1 w3)) (content i2 w3) =
        splice_at off (block off (N - off) (content i1 w)) (content i2 w)"
      unfolding r(5,6) using n rng less.prems(15,16)
        splice_blocks [of off n "N - (off + n)" "content i1 w" off "content i2 w"]
        splice_blocks [of off n "N - (off + n)" "content i2 w" off "content i1 w"]
      by (simp_all add: block_splice_above)
    ultimately show ?thesis unfolding unf using r(4,8,9)
      by (elim exE conjE) (intro exI conjI, assumption, simp_all)
  qed
qed

lemma swap_slots_ok:
  assumes "opened o1 i1 m1 w" and "opened o2 i2 m2 w" and "opened os is ms w"
    and "exact i1 m1" and "exact i2 m2" and "exact is ms"
    and "i1 \<in> ids" and "i2 \<in> ids" and "is \<in> ids" and "distinct [i1, i2, is]"
    and "0 < length buf" and "length buf < 65536"
    and "N = max (unat (content_fw_size (content i1 w))) (unat (content_fw_size (content i2 w)))"
    and "N < 2 ^ 31" and "N \<le> length (content i1 w)" and "N \<le> length (content i2 w)"
    and "sizeof_manifest \<le> length (content i1 w)" and "sizeof_manifest \<le> length (content i2 w)"
    and "0 < sw" and "sw \<le> length (content is w)" and "sw < 2 ^ 31"
  shows "\<exists>buf' w'. swap_slots m o1 o2 os sw buf w = Some (PULL_SUCCESS, buf', w') \<and>
      content i1 w' = take N (content i2 w) @ drop N (content i1 w) \<and>
      content i2 w' = take N (content i1 w) @ drop N (content i2 w) \<and>
      (\<forall>h\<in>ids - {i1, i2, is}. content h w' = content h w) \<and>
      (\<forall>p h md. opened p h md w' \<longleftrightarrow> opened p h md w) \<and> length buf' = length buf"
proof -
  obtain w1 where r1: "read_firmware_manifest m o1 zero_manifest w =
      (PULL_SUCCESS, content_manifest (content i1 w), w1)" and s1: "same w w1"
    using read_firmware_manifest_ok [OF assms(1,17) wf_zero_manifest] by (auto simp: content_manifest_def)
  have wf: "wf_manifest (content_manifest (content i1 w))"
    using assms(17) unfolding content_manifest_def by (intro wf_manifest_of_bytes) simp
  have "opened o2 i2 m2 w1" "sizeof_manifest \<le> length (content i2 w1)"
    using assms(2,18) s1 by (simp_all add: same_opened same_content)
  then obtain w2 where r2: "read_firmware_manifest m o2 (content_manifest (content i1 w)) w1 =
      (PULL_SUCCESS, content_manifest (content i2 w1), w2)" and s2: "same w1 w2"
    using read_firmware_manifest_ok [OF _ _ wf] by (metis content_manifest_def)
  have s: "same w w2" using s1 s2 by (rule same_trans)
  have c: "content h w2 = content h w" "opened p h md w2 = opened p h md w" for p h md
    using s by (simp_all add: same_content same_opened)
  have N: "(if unat (content_fw_size (content i1 w)) < unat (content_fw_size (content i2 w))
      then unat (content_fw_size (content i2 w)) else unat (content_fw_size (content i1 w))) = N"
    using assms(13) by (simp add: max_def)
  have "swap_slots m o1 o2 os sw buf w = swap_slots_loop m o1 o2 os N sw 0 buf w2"
    using r1 r2 N [unfolded content_fw_size_def] same_content [OF s1]
    by (simp add: swap_slots_def Let_def split del: if_split)
  moreover have "\<exists>buf' w'. swap_slots_loop m o1 o2 os N sw 0 buf w2 = Some (PULL_SUCCESS, buf', w') \<and>
      content i1 w' = splice_at 0 (block 0 (N - 0) (content i2 w2)) (content i1 w2) \<and>
      content i2 w' = splice_at 0 (block 0 (N - 0) (content i1 w2)) (content i2 w2) \<and>
      (\<forall>h\<in>ids - {i1, i2, is}. content h w' = content h w2) \<and>
      (\<forall>p h md. opened p h md w' \<longleftrightarrow> opened p h md w2) \<and> length buf' = length buf"
    by (rule swap_slots_loop_ok) (use assms c in simp_all)
  ultimately show ?thesis using assms(15,16) by (simp add: c splice_at_0 block_def)
qed

section \<open>Copying and invalidating\<close>

text \<open>
  \<open>copy_firmware\<close> reads whole buffers until the end of the firmware is near, so a firmware
  shorter than the buffer needs objects at least as long as the buffer.
\<close>

lemma copy_firmware_ok:
  assumes "opened src i mi w" and "opened dst j mj w" and "exact j mj" and "i \<in> ids" and "i \<noteq> j"
    and "0 < length buf" and "length buf < 65536" and "fs = unat (content_fw_size (content i w))" and "0 < fs"
    and "N = max fs (length buf)" and "N < 2 ^ 31"
    and "N \<le> length (content i w)" and "N \<le> length (content j w)"
    and "sizeof_manifest \<le> length (content i w)"
  shows "\<exists>buf' w'. copy_firmware m src dst buf w = Some (PULL_SUCCESS, buf', w') \<and>
      take fs (content j w') = take fs (content i w) \<and> drop N (content j w') = drop N (content j w) \<and>
      (\<forall>h\<in>ids. h \<noteq> j \<longrightarrow> content h w' = content h w) \<and>
      (\<forall>p h md. opened p h md w' \<longleftrightarrow> opened p h md w)"
proof -
  obtain w1 where r1: "read_firmware_manifest m src zero_manifest w =
      (PULL_SUCCESS, content_manifest (content i w), w1)" and s1: "same w w1"
    using read_firmware_manifest_ok [OF assms(1,14) wf_zero_manifest] by (auto simp: content_manifest_def)
  have c: "content h w1 = content h w" "opened p h md w1 = opened p h md w" for p h md
    using s1 by (simp_all add: same_content same_opened)
  have fs: "sint (content_fw_size (content i w)) = int fs"
    using assms(8,10,11) by (intro sint_small) simp_all
  have "copy_firmware m src dst buf w =
      copy_firmware_loop m src dst (int fs) (int 0) (int (length buf)) 0 buf w1"
    using r1 fs by (simp add: copy_firmware_def content_fw_size_def)
  moreover have "\<exists>buf' w'. copy_firmware_loop m src dst (int fs) (int 0) (int (length buf)) 0 buf w1 =
        Some (PULL_SUCCESS, buf', w') \<and>
      take fs (content j w') = take fs (content i w1) \<and> drop N (content j w') = drop N (content j w1) \<and>
      (\<forall>h\<in>ids. h \<noteq> j \<longrightarrow> content h w' = content h w1) \<and>
      (\<forall>p h md. opened p h md w' \<longleftrightarrow> opened p h md w1)"
    by (rule copy_firmware_loop_ok) (use assms c in simp_all)
  ultimately show ?thesis by (simp add: c)
qed

text \<open>An invalidated object starts with an all-zero manifest; nothing else changes.\<close>

lemma invalidate_object_ok:
  assumes "i \<in> ids" and "0 < avail w" 
    and "weff i WRITE_CHUNK 0 (replicate sizeof_manifest 0) (content i w) =
      replicate sizeof_manifest 0 @ drop sizeof_manifest (content i w)"
    and "oeff i WRITE_CHUNK (content i w) = content i w" and "sizeof_manifest \<le> length (content i w)"
  shows "\<exists>obj' w'. invalidate_object m i obj w = (PULL_SUCCESS, obj', w') \<and>
      content i w' = replicate sizeof_manifest 0 @ drop sizeof_manifest (content i w) \<and>
      (\<forall>h\<in>ids. h \<noteq> i \<longrightarrow> content h w' = content h w) \<and>
      (\<forall>p j md. opened p j md w \<longrightarrow> opened p j md w') \<and> avail w \<le> avail w'"
proof -
  obtain obj1 w1 where o: "memory_open m obj i WRITE_CHUNK w = (PULL_SUCCESS, obj1, w1)"
    "opened obj1 i WRITE_CHUNK w1" "content i w1 = content i w"
    "\<And>j. j \<in> ids \<Longrightarrow> j \<noteq> i \<Longrightarrow> content j w1 = content j w"
    "\<And>p j md. opened p j md w \<Longrightarrow> opened p j md w1" "\<And>p j md. opened p j md w \<Longrightarrow> indep p obj1"
    "avail w \<le> avail w1 + cost"
    by (rule memory_open_ok [OF assms(1,2), of obj WRITE_CHUNK]) (rule that, assumption, simp_all add: assms(4))
  have "unat (0 :: address_t) + sizeof_manifest \<le> length (content i w1)"
    "sizeof_manifest \<le> length (manifest_bytes zero_manifest)" "sizeof_manifest < 65536"
    "sizeof_manifest = 0 \<longrightarrow> WRITE_CHUNK \<noteq> SEQUENTIAL_REWRITE" "WRITE_CHUNK \<noteq> READ_ONLY"
    using assms(5) o(3) by (simp_all add: sizeof_manifest_def zero_manifest_bytes)
  note p = this
  obtain w2 where wr: "memory_write m obj1 (manifest_bytes zero_manifest) sizeof_manifest 0 w1 = (sizeof_manifest, w2)"
    "content i w2 = weff i WRITE_CHUNK 0 (take sizeof_manifest (manifest_bytes zero_manifest)) (content i w1)"
    "\<And>j. j \<in> ids \<Longrightarrow> j \<noteq> i \<Longrightarrow> content j w2 = content j w1"
    "\<And>p j md. opened p j md w2 \<longleftrightarrow> opened p j md w1" "avail w2 = avail w1"
    using memory_write_ok [OF o(2) p(5,1,2,3,4), unfolded unsigned_0] by metis
  obtain w3 where cl: "memory_close m obj1 w2 = (PULL_SUCCESS, w3)" "\<And>j. content j w3 = content j w2"
    "\<And>p j md. indep p obj1 \<Longrightarrow> opened p j md w2 \<Longrightarrow> opened p j md w3" "avail w2 + cost \<le> avail w3"
    by (rule memory_close_ok [OF iffD2 [OF wr(4) o(2)]]) (rule that)
  have "content i w3 = replicate sizeof_manifest 0 @ drop sizeof_manifest (content i w)"
    using wr(2) cl(2) o(3) assms(3,5) zero_manifest_bytes
    by (simp add: sizeof_manifest_def)
  moreover have "invalidate_object m i obj w = (PULL_SUCCESS, obj1, w3)"
    using o(1) wr(1) cl(1) by (simp add: invalidate_object_def write_firmware_manifest_def)
  moreover have "opened p j md w3" if "opened p j md w" for p j md
    using that o(5,6) wr(4) cl(3) by blast
  moreover have "avail w \<le> avail w3" using o(7) wr(5) cl(4) by simp
  ultimately show ?thesis using o(4) wr(3) cl(2) by auto
qed

end

end
