(* ===== verification/Pipeline_Buffer.thy ===== *)
theory Pipeline_Buffer
  imports Memory_Objects
begin

text \<open>
  The buffer and writer stages of the pipeline (\<open>src/core/pipeline/buffer.c\<close>, \<open>writer.c\<close>,
  \<open>include/libpull/pipeline/buffer.h\<close>, \<open>writer.h\<close>).

  A stage is called with a block of bytes and returns an \<open>int\<close>; the state of the stage and of
  all stages after it is passed and returned. \<open>None\<close> is a call that never returns. The
  stage that follows a buffer is a parameter, as it is a function pointer in the code.

  The locale \<open>sink\<close> states what a stage relies on in the next one: it accepts every block and
  appends it to what it received before. The writer is a sink over any memory that meets
  the memory contract, and a buffer in front of a sink is again a sink.
\<close>

type_synonym 's stage = "byte list \<Rightarrow> 's \<Rightarrow> (int \<times> 's) option"

section \<open>The buffer stage\<close>

definition BUFFER_LEN :: nat where
  "BUFFER_LEN = 1000"

text \<open>\<open>bufferp\<close> is the offset of the write pointer in the array, \<open>BUFFER_USED\<close> in the code.\<close>

record buffer_ctx =
  buffer :: "byte list"
  bufferp :: nat

definition pipeline_buffer_init :: "buffer_ctx \<Rightarrow> buffer_ctx" where
  "pipeline_buffer_init ctx = ctx\<lparr>bufferp := 0\<rparr>"

function buffer_loop :: "'s stage \<Rightarrow> byte list \<Rightarrow> buffer_ctx \<Rightarrow> 's \<Rightarrow> (buffer_ctx \<times> 's) option" where
  "buffer_loop next_stage bufp ctx s =
     (if bufp = [] then Some (ctx, s)
      else if bufferp ctx < BUFFER_LEN
      then (let n = min (length bufp) (BUFFER_LEN - bufferp ctx) in
        buffer_loop next_stage (drop n bufp)
          (ctx\<lparr>buffer := splice_at (bufferp ctx) (take n bufp) (buffer ctx), bufferp := bufferp ctx + n\<rparr>) s)
      else if bufferp ctx = BUFFER_LEN
      then Option.bind (next_stage (take (bufferp ctx) (buffer ctx)) s) (\<lambda>(_, s').
        buffer_loop next_stage bufp (ctx\<lparr>bufferp := 0\<rparr>) s')
      else None)"
  by pat_completeness auto
termination
  by (relation "measures [\<lambda>(_, bufp, _, _). length bufp, \<lambda>(_, _, ctx, _). bufferp ctx]")
    (auto simp: BUFFER_LEN_def)

declare buffer_loop.simps [simp del]

definition buffer_pipeline :: "'s stage \<Rightarrow> (buffer_ctx \<times> 's) stage" where
  "buffer_pipeline next_stage buf cs =
     Option.bind (buffer_loop next_stage buf (fst cs) (snd cs)) (\<lambda>cs'. Some (int (length buf), cs'))"

definition pipeline_buffer_clear :: "'s stage \<Rightarrow> buffer_ctx \<times> 's \<Rightarrow> (int \<times> buffer_ctx \<times> 's) option" where
  "pipeline_buffer_clear next_stage cs =
     Option.bind (next_stage (take (bufferp (fst cs)) (buffer (fst cs))) (snd cs)) (\<lambda>(_, s'). Some (0, fst cs, s'))"

text \<open>The write pointer stays in the array, and the stage returns whenever the next one does.\<close>

definition wf_buffer :: "buffer_ctx \<Rightarrow> bool" where
  "wf_buffer ctx \<longleftrightarrow> length (buffer ctx) = BUFFER_LEN \<and> bufferp ctx \<le> BUFFER_LEN"

lemma wf_buffer_init: "wf_buffer ctx \<Longrightarrow> wf_buffer (pipeline_buffer_init ctx)"
  by (simp add: wf_buffer_def pipeline_buffer_init_def)

lemma buffer_loop_total:
  assumes "\<And>c s. \<exists>r. next_stage c s = Some r" and "wf_buffer ctx"
  shows "\<exists>ctx' s'. buffer_loop next_stage bufp ctx s = Some (ctx', s') \<and> wf_buffer ctx'"
  using assms
proof (induction next_stage bufp ctx s rule: buffer_loop.induct)
  case (1 nx bufp ctx s)
  consider "bufp = []" | "bufp \<noteq> []" "bufferp ctx < BUFFER_LEN" | "bufp \<noteq> []" "bufferp ctx = BUFFER_LEN"
    using 1(4) by (auto simp: wf_buffer_def le_less)
  then show ?case
  proof cases
    case 1
    with \<open>wf_buffer ctx\<close> show ?thesis by (simp add: buffer_loop.simps)
  next
    case 2
    then show ?thesis
      using 1(1) [OF 2 refl 1(3)] 1(4) by (simp add: buffer_loop.simps [of nx bufp] wf_buffer_def Let_def)
  next
    case 3
    obtain r where r: "nx (take (bufferp ctx) (buffer ctx)) s = Some r" using 1(3) by blast
    obtain a s' where a: "r = (a, s')" by (cases r)
    show ?thesis
      using 1(2) [OF 3(1) _ 3(2) r a [symmetric] 1(3)] 3 r a 1(4)
      by (simp add: buffer_loop.simps [of nx bufp ctx] wf_buffer_def)
  qed
qed

section \<open>The writer stage\<close>

record 'o writer_ctx =
  wobj :: 'o
  written :: address_t

definition pipeline_writer_init :: "'o \<Rightarrow> 'o writer_ctx" where
  "pipeline_writer_init ob = \<lparr>wobj = ob, written = 0\<rparr>"

definition writer_pipeline :: "('w, 'o) mem_iface \<Rightarrow> ('o writer_ctx \<times> 'w) stage" where
  "writer_pipeline m buf cw =
     (case memory_write m (wobj (fst cw)) buf (length buf) (written (fst cw)) (snd cw) of (ret, w') \<Rightarrow>
        Some (int ret, (fst cw)\<lparr>written := written (fst cw) + word_of_nat ret\<rparr>, w'))"

lemma writer_pipeline_total: "\<exists>r. writer_pipeline m c cw = Some r"
  by (simp add: writer_pipeline_def split: prod.splits)

section \<open>Sinks\<close>

text \<open>
  \<open>holds bs s\<close>: the stage in state \<open>s\<close> has received the bytes \<open>bs\<close>. It accepts blocks of at
  most \<open>lim\<close> bytes as long as it has received at most \<open>cap\<close> bytes in all.
\<close>

locale sink =
  fixes next_stage :: "'s stage"
    and holds :: "byte list \<Rightarrow> 's \<Rightarrow> bool"
    and cap :: nat
    and lim :: nat
  assumes next_ok: "\<lbrakk>holds bs s; length bs + length c \<le> cap; length c \<le> lim\<rbrakk> \<Longrightarrow>
      \<exists>s'. next_stage c s = Some (int (length c), s') \<and> holds (bs @ c) s'"

fun feed :: "'s stage \<Rightarrow> byte list list \<Rightarrow> 's \<Rightarrow> 's option" where
  "feed st [] s = Some s"
| "feed st (c # cs) s = Option.bind (st c s) (\<lambda>(_, s'). feed st cs s')"

context sink
begin

lemma feed_ok:
  assumes "holds bs s" and "length bs + length (concat cs) \<le> cap" and "\<forall>c\<in>set cs. length c \<le> lim"
  shows "\<exists>s'. feed next_stage cs s = Some s' \<and> holds (bs @ concat cs) s'"
  using assms
proof (induction cs arbitrary: bs s)
  case Nil
  then show ?case by simp
next
  case (Cons c cs)
  obtain s1 where "next_stage c s = Some (int (length c), s1)" "holds (bs @ c) s1"
    using next_ok [OF Cons.prems(1), of c] Cons.prems(2,3) by auto
  with Cons.IH [of "bs @ c" s1] Cons.prems(2,3) show ?case by auto
qed

text \<open>The bytes a buffer has received: those it has passed on, and those still in the array.\<close>

definition buffered :: "byte list \<Rightarrow> buffer_ctx \<times> 's \<Rightarrow> bool" where
  "buffered bs cs \<longleftrightarrow> (\<exists>out. bs = out @ take (bufferp (fst cs)) (buffer (fst cs)) \<and> holds out (snd cs)) \<and>
     length (buffer (fst cs)) = BUFFER_LEN \<and> bufferp (fst cs) \<le> BUFFER_LEN"

lemma buffered_init:
  "holds bs s \<Longrightarrow> length (buffer ctx) = BUFFER_LEN \<Longrightarrow> buffered bs (pipeline_buffer_init ctx, s)"
  by (simp add: buffered_def pipeline_buffer_init_def)

lemma buffer_loop_ok:
  assumes "buffered bs (ctx, s)" and "length bs + length c \<le> cap" and "BUFFER_LEN \<le> lim"
  shows "\<exists>cs'. buffer_loop next_stage c ctx s = Some cs' \<and> buffered (bs @ c) cs'"
  using assms
proof (induction "2 * length c + (if bufferp ctx = BUFFER_LEN then 1 else 0)" arbitrary: bs c ctx s rule: less_induct)
  case less
  from less.prems(1) obtain out where out: "bs = out @ take (bufferp ctx) (buffer ctx)" "holds out s"
    and len: "length (buffer ctx) = BUFFER_LEN" "bufferp ctx \<le> BUFFER_LEN"
    by (auto simp: buffered_def)
  consider "c = []" | "c \<noteq> []" "bufferp ctx < BUFFER_LEN" | "c \<noteq> []" "bufferp ctx = BUFFER_LEN"
    using len(2) by linarith
  then show ?case
  proof cases
    case 1
    with less.prems(1) show ?thesis by (simp add: buffer_loop.simps)
  next
    case 2
    define n where "n = min (length c) (BUFFER_LEN - bufferp ctx)"
    define ctx' where "ctx' = ctx\<lparr>buffer := splice_at (bufferp ctx) (take n c) (buffer ctx), bufferp := bufferp ctx + n\<rparr>"
    have n: "0 < n" "n \<le> length c" "bufferp ctx + n \<le> BUFFER_LEN" using 2 by (auto simp: n_def)
    have ln: "length (take n c) = n" using n(2) by simp
    have "take (bufferp ctx + n) (splice_at (bufferp ctx) (take n c) (buffer ctx)) =
        take (bufferp ctx) (buffer ctx) @ take n c"
      using take_splice_at [of "bufferp ctx" "take n c" "buffer ctx"] ln n(3) len(1) by simp
    then have b: "buffered (bs @ take n c) (ctx', s)"
      using out len(1) n ln by (auto simp: buffered_def ctx'_def)
    have "\<exists>cs'. buffer_loop next_stage (drop n c) ctx' s = Some cs' \<and> buffered ((bs @ take n c) @ drop n c) cs'"
    proof (rule less.hyps)
      show "2 * length (drop n c) + (if bufferp ctx' = BUFFER_LEN then 1 else 0) <
          2 * length c + (if bufferp ctx = BUFFER_LEN then 1 else 0)"
        using n(1,2) by auto
      show "length (bs @ take n c) + length (drop n c) \<le> cap" using less.prems(2) n(2) by simp
    qed (fact b less.prems(3))+
    moreover have "buffer_loop next_stage c ctx s = buffer_loop next_stage (drop n c) ctx' s"
      using 2 by (simp add: buffer_loop.simps [of next_stage c] n_def ctx'_def Let_def)
    ultimately show ?thesis by simp
  next
    case 3
    have full: "take (bufferp ctx) (buffer ctx) = buffer ctx" using 3 len(1) by simp
    then obtain s1 where s1: "next_stage (buffer ctx) s = Some (int (length (buffer ctx)), s1)"
      "holds (out @ buffer ctx) s1"
      using next_ok [OF out(2), of "buffer ctx"] out(1) less.prems(2,3) len(1) by auto
    have b: "buffered bs (ctx\<lparr>bufferp := 0\<rparr>, s1)"
      using s1(2) out(1) full len(1) by (simp add: buffered_def)
    have "\<exists>cs'. buffer_loop next_stage c (ctx\<lparr>bufferp := 0\<rparr>) s1 = Some cs' \<and> buffered (bs @ c) cs'"
      by (rule less.hyps) (use 3 b less.prems(2,3) in \<open>simp_all add: BUFFER_LEN_def\<close>)
    moreover have "buffer_loop next_stage c ctx s = buffer_loop next_stage c (ctx\<lparr>bufferp := 0\<rparr>) s1"
      using 3 s1(1) full by (simp add: buffer_loop.simps [of next_stage c ctx])
    ultimately show ?thesis by simp
  qed
qed

lemma buffer_clear_ok:
  assumes "buffered bs cs" and "length bs \<le> cap" and "BUFFER_LEN \<le> lim"
  shows "\<exists>s'. pipeline_buffer_clear next_stage cs = Some (0, fst cs, s') \<and> holds bs s'"
proof -
  obtain out where out: "bs = out @ take (bufferp (fst cs)) (buffer (fst cs))" "holds out (snd cs)"
    and len: "length (buffer (fst cs)) = BUFFER_LEN" "bufferp (fst cs) \<le> BUFFER_LEN"
    using assms(1) by (auto simp: buffered_def)
  have "length out + length (take (bufferp (fst cs)) (buffer (fst cs))) \<le> cap" using out(1) assms(2) by simp
  from next_ok [OF out(2) this] show ?thesis
    using len assms(3) out(1) by (auto simp: pipeline_buffer_clear_def)
qed

end

text \<open>A buffer in front of a sink that takes full buffers is a sink for blocks of every length.\<close>

locale full_sink = sink +
  assumes lim_ok: "BUFFER_LEN \<le> lim"

sublocale full_sink \<subseteq> buf: sink "buffer_pipeline next_stage" buffered cap len
proof (unfold_locales, goal_cases)
  case (1 bs cs c)
  then show ?case
    using buffer_loop_ok [of bs "fst cs" "snd cs" c] lim_ok by (auto simp: buffer_pipeline_def)
qed

context full_sink
begin

lemma buffer_pipeline_ok:
  "buffered bs cs \<Longrightarrow> length bs + length c \<le> cap \<Longrightarrow>
   \<exists>cs'. buffer_pipeline next_stage c cs = Some (int (length c), cs') \<and> buffered (bs @ c) cs'"
  using buf.next_ok [of bs cs c "length c"] by simp

lemma flush_ok:
  "buffered bs cs \<Longrightarrow> length bs \<le> cap \<Longrightarrow>
   \<exists>s'. pipeline_buffer_clear next_stage cs = Some (0, fst cs, s') \<and> holds bs s'"
  using buffer_clear_ok lim_ok by blast

text \<open>However the input is cut into blocks, after the final flush the next stage has all of it.\<close>

lemma buffered_stream:
  assumes "holds [] s" and "length (buffer ctx) = BUFFER_LEN" and "length (concat cs) \<le> cap"
  shows "\<exists>ctx' s1 s'. feed (buffer_pipeline next_stage) cs (pipeline_buffer_init ctx, s) = Some (ctx', s1) \<and>
    pipeline_buffer_clear next_stage (ctx', s1) = Some (0, ctx', s') \<and> holds (concat cs) s'"
proof -
  have "\<forall>c\<in>set cs. length c \<le> length (concat cs)"
    by (auto simp: length_concat intro: member_le_sum_list)
  then obtain cs1 where 1: "feed (buffer_pipeline next_stage) cs (pipeline_buffer_init ctx, s) = Some cs1"
    "buffered ([] @ concat cs) cs1"
    using buf.feed_ok [OF buffered_init [OF assms(1,2)], of cs "length (concat cs)"] assms(3) by auto
  with buffer_clear_ok [of "concat cs" cs1] assms(3) lim_ok show ?thesis by (cases cs1) auto
qed

end

section \<open>The writer is a sink\<close>

context memory_contract
begin

text \<open>
  Writing blocks one after the other from the start of an object with content \<open>base\<close> puts
  them there: true of files, and of a flash that was erased before.
\<close>

definition seq_exact :: "mem_id_t \<Rightarrow> mem_mode_t \<Rightarrow> byte list \<Rightarrow> bool" where
  "seq_exact i mode base \<longleftrightarrow> mode \<noteq> READ_ONLY \<and> mode \<noteq> SEQUENTIAL_REWRITE \<and> (\<forall>bs c. length bs + length c \<le> length base \<longrightarrow>
     weff i mode (length bs) c (bs @ drop (length bs) base) = bs @ c @ drop (length bs + length c) base)"

lemma exact_seq_exact: "exact i mode \<Longrightarrow> mode \<noteq> SEQUENTIAL_REWRITE \<Longrightarrow> seq_exact i mode base"
  by (simp add: exact_def seq_exact_def splice_at_def add.commute)

text \<open>
  The writer on object \<open>i\<close>, opened as \<open>ob\<close> in world \<open>w0\<close>, has written \<open>bs\<close>: the object starts
  with \<open>bs\<close> and nothing else has changed.
\<close>

definition writer_holds ::
  "mem_id_t \<Rightarrow> mem_mode_t \<Rightarrow> 'o \<Rightarrow> 'w \<Rightarrow> byte list \<Rightarrow> 'o writer_ctx \<times> 'w \<Rightarrow> bool" where
  "writer_holds i mode ob w0 bs cw \<longleftrightarrow> wobj (fst cw) = ob \<and> opened ob i mode (snd cw) \<and>
     content i (snd cw) = bs @ drop (length bs) (content i w0) \<and>
     length bs \<le> length (content i w0) \<and> unat (written (fst cw)) = length bs \<and>
     (\<forall>j\<in>ids. j \<noteq> i \<longrightarrow> content j (snd cw) = content j w0) \<and>
     (\<forall>p j md. opened p j md (snd cw) \<longleftrightarrow> opened p j md w0) \<and> avail (snd cw) = avail w0"

lemma writer_holds_init:
  "opened ob i mode w0 \<Longrightarrow> writer_holds i mode ob w0 [] (pipeline_writer_init ob, w0)"
  by (simp add: writer_holds_def pipeline_writer_init_def)

lemma writer_sink:
  assumes "seq_exact i mode (content i w0)" and "length (content i w0) < 2 ^ 32"
  shows "full_sink (writer_pipeline m) (writer_holds i mode ob w0) (length (content i w0)) 65535"
proof (unfold_locales, goal_cases)
  case (1 bs cw c)
  have rng: "unat (written (fst cw)) + length c \<le> length (content i (snd cw))" "length c < 65536"
    and op: "opened (wobj (fst cw)) i mode (snd cw)" "mode \<noteq> READ_ONLY" "length c = 0 \<longrightarrow> mode \<noteq> SEQUENTIAL_REWRITE"
    using 1 assms(1) by (auto simp: writer_holds_def seq_exact_def)
  obtain w' where w: "memory_write m (wobj (fst cw)) c (length c) (written (fst cw)) (snd cw) = (length c, w')"
    "content i w' = weff i mode (unat (written (fst cw))) (take (length c) c) (content i (snd cw))"
    "\<And>j. j \<in> ids \<Longrightarrow> j \<noteq> i \<Longrightarrow> content j w' = content j (snd cw)"
    "\<And>p j md. opened p j md w' \<longleftrightarrow> opened p j md (snd cw)" "avail w' = avail (snd cw)"
    by (rule memory_write_ok [OF op(1,2) rng(1) order_refl rng(2) op(3)]) (rule that)
  have c: "content i w' = (bs @ c) @ drop (length (bs @ c)) (content i w0)"
    using w(2) 1(1,2) assms(1) by (simp add: writer_holds_def seq_exact_def)
  have "unat (written (fst cw) + word_of_nat (length c)) = length (bs @ c)"
    using 1(1,2) assms(2) by (simp add: writer_holds_def unat_word_ariths unat_of_nat)
  then have "writer_holds i mode ob w0 (bs @ c)
      ((fst cw)\<lparr>written := written (fst cw) + word_of_nat (length c)\<rparr>, w')"
    using c w(3,4,5) 1(1,2) by (auto simp: writer_holds_def)
  with w(1) show ?case by (simp add: writer_pipeline_def)
next
  case 2
  show ?case by (simp add: BUFFER_LEN_def)
qed

end

end
