(* ===== verification/Memory_Posix.thy ===== *)
theory Memory_Posix
  imports Pipeline_Buffer
begin

text \<open>
  The POSIX memory implementation (\<open>src/platform/posix/memory_posix.c\<close>,
  \<open>memory_posix.h\<close>): memory objects are files. The operating system is the record
  \<open>posix_fs\<close>: the regular files by path, the process's descriptor table with a file
  position for each open descriptor, and the number of descriptors the process may use.
  \<open>posix_open\<close>, \<open>posix_lseek\<close>, \<open>posix_read\<close>, \<open>posix_write\<close> and \<open>posix_close\<close> are the system
  calls with the flags the code passes.

  The interpretation at the end shows that this implementation satisfies
  \<open>memory_contract\<close>, with writes that replace exactly the block written.
\<close>

section \<open>The system calls used\<close>

record posix_fs =
  files :: "string \<Rightarrow> byte list option"
  fdtab :: "nat \<Rightarrow> (string \<times> nat) option"
  fd_max :: nat

definition free_fds :: "posix_fs \<Rightarrow> nat list" where
  "free_fds w = filter (\<lambda>fd. fdtab w fd = None) [0..<fd_max w]"

text \<open>\<open>open(path, O_RDWR | O_CREAT, 0644)\<close>: the lowest free descriptor, at position 0.\<close>

definition posix_open :: "string \<Rightarrow> posix_fs \<Rightarrow> int \<times> posix_fs" where
  "posix_open path w =
     (case free_fds w of
        [] \<Rightarrow> (-1, w)
      | fd # _ \<Rightarrow>
         (int fd,
          w\<lparr>files := (case files w path of None \<Rightarrow> (files w)(path := Some []) | Some _ \<Rightarrow> files w),
            fdtab := (fdtab w)(fd := Some (path, 0))\<rparr>))"

definition fd_entry :: "posix_fs \<Rightarrow> int \<Rightarrow> (string \<times> nat) option" where
  "fd_entry w fd = (if fd < 0 then None else fdtab w (nat fd))"

definition file_of :: "posix_fs \<Rightarrow> string \<Rightarrow> byte list" where
  "file_of w path = (case files w path of None \<Rightarrow> [] | Some bs \<Rightarrow> bs)"

definition posix_lseek :: "int \<Rightarrow> nat \<Rightarrow> posix_fs \<Rightarrow> int \<times> posix_fs" where
  "posix_lseek fd off w =
     (case fd_entry w fd of
        None \<Rightarrow> (-1, w)
      | Some (path, _) \<Rightarrow> (int off, w\<lparr>fdtab := (fdtab w)(nat fd := Some (path, off))\<rparr>))"

definition posix_read :: "int \<Rightarrow> byte list \<Rightarrow> nat \<Rightarrow> posix_fs \<Rightarrow> int \<times> byte list \<times> posix_fs" where
  "posix_read fd buf n w =
     (case fd_entry w fd of
        None \<Rightarrow> (-1, buf, w)
      | Some (path, pos) \<Rightarrow>
         (let bs = block pos n (file_of w path)
          in (int (length bs), bs @ drop (length bs) buf,
              w\<lparr>fdtab := (fdtab w)(nat fd := Some (path, pos + length bs))\<rparr>)))"

text \<open>Writing past the end of a file fills the gap with zeros.\<close>

definition file_write :: "nat \<Rightarrow> byte list \<Rightarrow> byte list \<Rightarrow> byte list" where
  "file_write pos bs v = splice_at pos bs (v @ replicate (pos - length v) 0)"

definition posix_write :: "int \<Rightarrow> byte list \<Rightarrow> nat \<Rightarrow> posix_fs \<Rightarrow> int \<times> posix_fs" where
  "posix_write fd buf n w =
     (case fd_entry w fd of
        None \<Rightarrow> (-1, w)
      | Some (path, pos) \<Rightarrow>
         (int n,
          w\<lparr>files := (files w)(path := Some (file_write pos (take n buf) (file_of w path))),
            fdtab := (fdtab w)(nat fd := Some (path, pos + n))\<rparr>))"

definition posix_close :: "int \<Rightarrow> posix_fs \<Rightarrow> int \<times> posix_fs" where
  "posix_close fd w =
     (case fd_entry w fd of
        None \<Rightarrow> (-1, w)
      | Some _ \<Rightarrow> (0, w\<lparr>fdtab := (fdtab w)(nat fd := None)\<rparr>))"

section \<open>Objects and their paths\<close>

record posix_obj =
  path :: "string option"
  fp :: int
  start_offset :: int
  end_offset :: int

definition OBJ_FIRST :: mem_id_t where "OBJ_FIRST = 0"

definition POSIX_BOOTLOADER_CTX :: mem_id_t where "POSIX_BOOTLOADER_CTX = 1"

definition OBJ_GOLD :: mem_id_t where "OBJ_GOLD = 2"

definition OBJ_A :: mem_id_t where "OBJ_A = 3"

definition OBJ_B :: mem_id_t where "OBJ_B = 4"

definition OBJ_C :: mem_id_t where "OBJ_C = 5"

definition OBJ_SWAP :: mem_id_t where "OBJ_SWAP = 6"

definition TEST_MEMORY_FILE :: mem_id_t where "TEST_MEMORY_FILE = 7"

definition OBJ_LAST :: mem_id_t where "OBJ_LAST = 8"

lemmas posix_ids = OBJ_FIRST_def POSIX_BOOTLOADER_CTX_def OBJ_GOLD_def OBJ_A_def OBJ_B_def
  OBJ_C_def OBJ_SWAP_def TEST_MEMORY_FILE_def OBJ_LAST_def

definition posix_memory_slots :: "mem_slot_t list" where
  "posix_memory_slots =
     [\<lparr>slot_id = OBJ_A, bootable = True, loaded = True\<rparr>,
      \<lparr>slot_id = OBJ_B, bootable = True, loaded = False\<rparr>,
      \<lparr>slot_id = OBJ_C, bootable = False, loaded = False\<rparr>,
      OBJ_END_slot]"

text \<open>The array \<open>memory_objects_mapper\<close>: entry 0 is not initialised, so it is \<open>NULL\<close>.\<close>

definition memory_objects_mapper :: "string option list" where
  "memory_objects_mapper =
     [None, Some ''../assets/bootctx'', Some ''antani'', Some ''../assets/slot_a.bin'',
      Some ''../assets/slot_b.bin'', Some ''../assets/slot_c.bin'', Some ''../assets/swap.bin'',
      Some ''../assets/test_memory'']"

definition memory_object_pristine :: "string option list" where
  "memory_object_pristine =
     [None, Some ''../assets/bootctx.pristine'', None, Some ''../assets/slot_a.pristine'',
      Some ''../assets/slot_b.pristine'', Some ''../assets/slot_c.pristine'']"

definition resource_mapper :: "posix_obj \<Rightarrow> mem_id_t \<Rightarrow> pull_error \<times> posix_obj" where
  "resource_mapper ctx i =
     (if i \<le> OBJ_FIRST \<or> i \<ge> OBJ_LAST then (INVALID_OBJECT_ERROR, ctx)
      else (PULL_SUCCESS, ctx\<lparr>path := memory_objects_mapper ! nat i\<rparr>))"

section \<open>The four interface functions\<close>

definition posix_memory_open_impl ::
  "posix_obj \<Rightarrow> mem_id_t \<Rightarrow> mem_mode_t \<Rightarrow> posix_fs \<Rightarrow> pull_error \<times> posix_obj \<times> posix_fs" where
  "posix_memory_open_impl ctx i mode w =
     (let ctx0 = \<lparr>path = None, fp = 0, start_offset = 0, end_offset = 0\<rparr> in
      case resource_mapper ctx0 i of (e, ctx1) \<Rightarrow>
        if e \<noteq> PULL_SUCCESS then (MEMORY_MAPPING_ERROR, ctx1, w)
        else (case posix_open (the (path ctx1)) w of (fd, w') \<Rightarrow>
          let ctx2 = ctx1\<lparr>fp := fd\<rparr> in
          if fd < 0 then (MEMORY_OPEN_ERROR, ctx2, w') else (PULL_SUCCESS, ctx2, w')))"

definition posix_memory_read_impl ::
  "posix_obj \<Rightarrow> byte list \<Rightarrow> nat \<Rightarrow> address_t \<Rightarrow> posix_fs \<Rightarrow> int \<times> byte list \<times> posix_fs" where
  "posix_memory_read_impl ctx buf n off w =
     (case posix_lseek (fp ctx) (unat off) w of (r, w') \<Rightarrow>
        if r < 0 then (-1, buf, w') else posix_read (fp ctx) buf n w')"

definition posix_memory_write_impl ::
  "posix_obj \<Rightarrow> byte list \<Rightarrow> nat \<Rightarrow> address_t \<Rightarrow> posix_fs \<Rightarrow> int \<times> posix_fs" where
  "posix_memory_write_impl ctx buf n off w =
     (case posix_lseek (fp ctx) (unat off) w of (r, w') \<Rightarrow>
        if r < 0 then (-1, w') else posix_write (fp ctx) buf n w')"

definition posix_memory_close_impl :: "posix_obj \<Rightarrow> posix_fs \<Rightarrow> pull_error \<times> posix_fs" where
  "posix_memory_close_impl ctx w =
     (case posix_close (fp ctx) w of (r, w') \<Rightarrow>
        if r \<noteq> 0 then (MEMORY_CLOSE_ERROR, w') else (PULL_SUCCESS, w'))"

definition posix_iface :: "(posix_fs, posix_obj) mem_iface" where
  "posix_iface = \<lparr>memory_open_impl = posix_memory_open_impl,
     memory_read_impl = posix_memory_read_impl,
     memory_write_impl = posix_memory_write_impl,
     memory_close_impl = posix_memory_close_impl\<rparr>"

section \<open>Test assets\<close>

text \<open>
  \<open>copy_asset\<close> opens both files with \<open>fopen\<close> (two free descriptors, an existing source) and
  copies byte by byte until end of file; the destination is created or truncated.
\<close>

definition copy_asset :: "string \<Rightarrow> string \<Rightarrow> posix_fs \<Rightarrow> posix_fs" where
  "copy_asset src dest w =
     (case files w src of
        None \<Rightarrow> w
      | Some bs \<Rightarrow> if length (free_fds w) < 2 then w else w\<lparr>files := (files w)(dest := Some bs)\<rparr>)"

fun restore_slots :: "mem_slot_t list \<Rightarrow> posix_fs \<Rightarrow> posix_fs" where
  "restore_slots [] w = w"
| "restore_slots (s # ss) w =
     (if slot_id s = OBJ_END then w
      else restore_slots ss
        (copy_asset (the (memory_object_pristine ! nat (slot_id s)))
           (the (memory_objects_mapper ! nat (slot_id s))) w))"

definition restore_assets :: "posix_fs \<Rightarrow> posix_fs" where
  "restore_assets w =
     copy_asset (the (memory_object_pristine ! nat POSIX_BOOTLOADER_CTX))
       (the (memory_objects_mapper ! nat POSIX_BOOTLOADER_CTX))
       (restore_slots posix_memory_slots w)"

section \<open>Interpretation of the memory contract\<close>

definition posix_path :: "mem_id_t \<Rightarrow> string" where
  "posix_path i = the (memory_objects_mapper ! nat i)"

definition posix_valid_ids :: "mem_id_t set" where
  "posix_valid_ids = set [OBJ_FIRST + 1..OBJ_LAST - 1]"

definition posix_content :: "mem_id_t \<Rightarrow> posix_fs \<Rightarrow> byte list" where
  "posix_content i w = (if i \<in> posix_valid_ids then file_of w (posix_path i) else [])"

definition posix_opened :: "posix_obj \<Rightarrow> mem_id_t \<Rightarrow> mem_mode_t \<Rightarrow> posix_fs \<Rightarrow> bool" where
  "posix_opened obj i mode w \<longleftrightarrow> i \<in> posix_valid_ids \<and>
     (case fd_entry w (fp obj) of None \<Rightarrow> False | Some (p, _) \<Rightarrow> p = posix_path i) \<and>
     nat (fp obj) < fd_max w"

definition posix_indep :: "posix_obj \<Rightarrow> posix_obj \<Rightarrow> bool" where
  "posix_indep p q \<longleftrightarrow> fp p \<noteq> fp q"

definition posix_avail :: "posix_fs \<Rightarrow> nat" where
  "posix_avail w = length (free_fds w)"

lemma posix_valid_ids_cases:
  "i \<in> posix_valid_ids \<longleftrightarrow> i = 1 \<or> i = 2 \<or> i = 3 \<or> i = 4 \<or> i = 5 \<or> i = 6 \<or> i = 7"
  by (auto simp: posix_valid_ids_def posix_ids)

lemma posix_path_inj:
  "\<lbrakk>i \<in> posix_valid_ids; j \<in> posix_valid_ids; posix_path i = posix_path j\<rbrakk> \<Longrightarrow> i = j"
  by (auto simp: posix_valid_ids_cases posix_path_def memory_objects_mapper_def)

lemma posix_mapper_valid: "i \<in> posix_valid_ids \<Longrightarrow> memory_objects_mapper ! nat i = Some (posix_path i)"
  by (auto simp: posix_valid_ids_cases posix_path_def memory_objects_mapper_def)

lemma free_fds_set: "set (free_fds w) = {fd. fd < fd_max w \<and> fdtab w fd = None}"
  by (auto simp: free_fds_def)

lemma distinct_free_fds: "distinct (free_fds w)"
  by (simp add: free_fds_def)

text \<open>Closing a descriptor makes it free again; opening takes one free descriptor.\<close>

lemma free_fds_card: "length (free_fds w) = card {fd. fd < fd_max w \<and> fdtab w fd = None}"
  by (metis distinct_card distinct_free_fds free_fds_set)

lemma posix_open_spec:
  assumes "0 < posix_avail w"
  obtains fd where "posix_open p w = (int fd,
      w\<lparr>files := (case files w p of None \<Rightarrow> (files w)(p := Some []) | Some _ \<Rightarrow> files w),
        fdtab := (fdtab w)(fd := Some (p, 0))\<rparr>)"
    and "fd < fd_max w" and "fdtab w fd = None"
proof -
  obtain fd fds where f: "free_fds w = fd # fds"
    using assms by (cases "free_fds w") (simp_all add: posix_avail_def)
  then have "fd \<in> set (free_fds w)" by simp
  then have "fd < fd_max w" and "fdtab w fd = None" by (simp_all add: free_fds_set)
  with f that show ?thesis by (simp add: posix_open_def)
qed

text \<open>Moving the position of an open descriptor, and changing files, keeps what is open.\<close>

lemma posix_move:
  assumes "fd_entry w fd = Some (p, pos)" and "fdtab w' = (fdtab w)(nat fd := Some (p, pos'))"
    and "fd_max w' = fd_max w"
  shows "posix_opened q j md w' \<longleftrightarrow> posix_opened q j md w" and "posix_avail w' = posix_avail w"
proof -
  have entry: "0 \<le> fd" "fdtab w (nat fd) = Some (p, pos)"
    using assms(1) by (simp_all add: fd_entry_def split: if_splits)
  then show "posix_opened q j md w' \<longleftrightarrow> posix_opened q j md w"
    using assms(2,3) by (auto simp: posix_opened_def fd_entry_def split: if_splits option.splits)
  have "fdtab w' x = None \<longleftrightarrow> fdtab w x = None" for x
    using entry assms(2) by simp
  with assms(3) show "posix_avail w' = posix_avail w"
    by (simp add: posix_avail_def free_fds_def)
qed

lemma posix_openedD:
  assumes "posix_opened obj i mode w"
  obtains pos where "fd_entry w (fp obj) = Some (posix_path i, pos)" and "i \<in> posix_valid_ids"
    and "0 \<le> fp obj" and "nat (fp obj) < fd_max w" and "fdtab w (nat (fp obj)) = Some (posix_path i, pos)"
  using assms that by (auto simp: posix_opened_def fd_entry_def split: if_splits option.splits)

lemma posix_read_ok:
  assumes "posix_opened obj i mode w" and "unat off + n \<le> length (posix_content i w)"
    and "n \<le> length buf"
  shows "\<exists>w'. posix_memory_read_impl obj buf n off w =
          (int n, block (unat off) n (posix_content i w) @ drop n buf, w') \<and>
        (\<forall>j. posix_content j w' = posix_content j w) \<and>
        (\<forall>p j md. posix_opened p j md w' \<longleftrightarrow> posix_opened p j md w) \<and> posix_avail w' = posix_avail w"
proof -
  obtain pos where e: "fd_entry w (fp obj) = Some (posix_path i, pos)" and i: "i \<in> posix_valid_ids"
    and f: "0 \<le> fp obj"
    using assms(1) by (rule posix_openedD)
  let ?w = "w\<lparr>fdtab := (fdtab w)(nat (fp obj) := Some (posix_path i, unat off + n))\<rparr>"
  have c: "posix_content i w = file_of w (posix_path i)" using i by (simp add: posix_content_def)
  have "posix_memory_read_impl obj buf n off w =
      (int n, block (unat off) n (posix_content i w) @ drop n buf, ?w)"
    using e f assms(2) unfolding c
    by (simp add: posix_memory_read_impl_def posix_lseek_def posix_read_def fd_entry_def
        file_of_def Let_def)
  moreover have "posix_content j ?w = posix_content j w" for j
    by (simp add: posix_content_def file_of_def)
  ultimately show ?thesis using posix_move [OF e, of ?w] by auto
qed

lemma posix_write_ok:
  assumes "posix_opened obj i mode w" and "unat off + n \<le> length (posix_content i w)"
    and "n \<le> length buf"
  shows "\<exists>w'. posix_memory_write_impl obj buf n off w = (int n, w') \<and>
        posix_content i w' = splice_at (unat off) (take n buf) (posix_content i w) \<and>
        (\<forall>j\<in>posix_valid_ids. j \<noteq> i \<longrightarrow> posix_content j w' = posix_content j w) \<and>
        (\<forall>p j md. posix_opened p j md w' \<longleftrightarrow> posix_opened p j md w) \<and> posix_avail w' = posix_avail w"
proof -
  obtain pos where e: "fd_entry w (fp obj) = Some (posix_path i, pos)" and i: "i \<in> posix_valid_ids"
    and f: "0 \<le> fp obj"
    using assms(1) by (rule posix_openedD)
  let ?w = "w\<lparr>files := (files w)(posix_path i :=
        Some (splice_at (unat off) (take n buf) (posix_content i w))),
      fdtab := (fdtab w)(nat (fp obj) := Some (posix_path i, unat off + n))\<rparr>"
  have c: "posix_content i w = file_of w (posix_path i)" using i by (simp add: posix_content_def)
  have "posix_memory_write_impl obj buf n off w = (int n, ?w)"
    using e f assms(2) unfolding c
    by (simp add: posix_memory_write_impl_def posix_lseek_def posix_write_def fd_entry_def
        file_of_def file_write_def Let_def)
  moreover have "posix_content i ?w = splice_at (unat off) (take n buf) (posix_content i w)"
    using i by (simp add: posix_content_def file_of_def)
  moreover have "posix_content j ?w = posix_content j w" if "j \<in> posix_valid_ids" "j \<noteq> i" for j
    using posix_path_inj [OF that(1) i] that by (auto simp: posix_content_def file_of_def)
  ultimately show ?thesis using posix_move [OF e, of ?w] by auto
qed

lemma posix_open_ok:
  assumes "i \<in> posix_valid_ids" and "0 < posix_avail w"
  shows "\<exists>obj' w'. posix_memory_open_impl obj i mode w = (PULL_SUCCESS, obj', w') \<and>
        posix_opened obj' i mode w' \<and> posix_content i w' = posix_content i w \<and>
        (\<forall>j\<in>posix_valid_ids. j \<noteq> i \<longrightarrow> posix_content j w' = posix_content j w) \<and>
        (\<forall>p j md. posix_opened p j md w \<longrightarrow> posix_opened p j md w' \<and> posix_indep p obj') \<and>
        posix_avail w \<le> posix_avail w' + 1"
proof -
  obtain fd where o: "posix_open (posix_path i) w = (int fd,
      w\<lparr>files := (case files w (posix_path i) of None \<Rightarrow> (files w)(posix_path i := Some []) | Some _ \<Rightarrow> files w),
        fdtab := (fdtab w)(fd := Some (posix_path i, 0))\<rparr>)" (is "_ = (_, ?w)")
    and fd: "fd < fd_max w" "fdtab w fd = None"
    using assms(2) by (rule posix_open_spec)
  let ?obj = "\<lparr>path = Some (posix_path i), fp = int fd, start_offset = 0, end_offset = 0\<rparr>"
  have "posix_memory_open_impl obj i mode w = (PULL_SUCCESS, ?obj, ?w)"
    using o assms(1) posix_mapper_valid [OF assms(1)]
    by (auto simp: posix_memory_open_impl_def resource_mapper_def posix_valid_ids_def Let_def)
  moreover have "posix_opened ?obj i mode ?w"
    using assms(1) fd by (simp add: posix_opened_def fd_entry_def)
  moreover have "posix_content j ?w = posix_content j w" for j
    by (simp add: posix_content_def file_of_def split: option.splits)
  moreover have "posix_opened q j md w \<Longrightarrow> posix_opened q j md ?w \<and> posix_indep q ?obj" for q j md
    using fd by (auto simp: posix_opened_def posix_indep_def fd_entry_def split: if_splits option.splits)
  moreover have "posix_avail w \<le> posix_avail ?w + 1"
  proof -
    have "{x. x < fd_max w \<and> fdtab w x = None} =
        insert fd {x. x < fd_max w \<and> ((fdtab w)(fd := Some (posix_path i, 0))) x = None}"
      using fd by auto
    then show ?thesis
      by (simp add: posix_avail_def free_fds_card card_insert_if)
  qed
  ultimately show ?thesis by blast
qed

lemma posix_close_ok:
  assumes "posix_opened obj i mode w"
  shows "\<exists>w'. posix_memory_close_impl obj w = (PULL_SUCCESS, w') \<and>
        (\<forall>j. posix_content j w' = posix_content j w) \<and>
        (\<forall>p j md. posix_indep p obj \<longrightarrow> posix_opened p j md w \<longrightarrow> posix_opened p j md w') \<and>
        posix_avail w + 1 \<le> posix_avail w'"
proof -
  obtain pos where e: "fd_entry w (fp obj) = Some (posix_path i, pos)" and i: "i \<in> posix_valid_ids"
    and f: "0 \<le> fp obj" "nat (fp obj) < fd_max w" "fdtab w (nat (fp obj)) = Some (posix_path i, pos)"
    using assms by (rule posix_openedD)
  let ?w = "w\<lparr>fdtab := (fdtab w)(nat (fp obj) := None)\<rparr>"
  have "posix_memory_close_impl obj w = (PULL_SUCCESS, ?w)"
    using e by (simp add: posix_memory_close_impl_def posix_close_def)
  moreover have "posix_content j ?w = posix_content j w" for j
    by (simp add: posix_content_def file_of_def)
  moreover have "posix_opened q j md ?w" if "posix_opened q j md w" "posix_indep q obj" for q j md
    using that f
    by (auto simp: posix_opened_def posix_indep_def fd_entry_def split: if_splits option.splits)
  moreover have "posix_avail w + 1 \<le> posix_avail ?w"
  proof -
    have "{x. x < fd_max w \<and> fdtab ?w x = None} =
        insert (nat (fp obj)) {x. x < fd_max w \<and> fdtab w x = None}"
      using f by auto
    then show ?thesis
      using f by (simp add: posix_avail_def free_fds_card)
  qed
  ultimately show ?thesis by blast
qed

interpretation posix: memory_contract posix_iface posix_valid_ids posix_content posix_opened
  posix_indep posix_avail 1 "\<lambda>i mode v. v" "\<lambda>i mode. splice_at"
proof (unfold_locales, goal_cases)
  case (1 i w obj mode)
  then show ?case using posix_open_ok by (simp add: posix_iface_def)
next
  case (2 obj i mode w off n buf)
  then show ?case using posix_read_ok by (simp add: posix_iface_def)
next
  case (3 obj i mode w off n buf)
  then show ?case using posix_write_ok by (simp add: posix_iface_def)
next
  case (4 obj i mode w)
  then show ?case using posix_close_ok by (simp add: posix_iface_def)
qed simp_all

lemma posix_exact: "mode \<noteq> READ_ONLY \<Longrightarrow> posix.exact i mode"
  by (simp add: posix.exact_def)

section \<open>The operations on memory objects over files\<close>

text \<open>A small concrete file system for the applications of the theorems to concrete inputs.\<close>

definition demo_image :: "u16 \<Rightarrow> nat \<Rightarrow> byte list" where
  "demo_image v n = manifest_bytes
     (set_version_impl (set_size_impl (set_offset_impl zero_manifest 256) (word_of_nat n)) v) @ replicate n (ucast v)"

definition demo_fs :: "byte list \<Rightarrow> byte list \<Rightarrow> byte list \<Rightarrow> byte list \<Rightarrow> posix_fs" where
  "demo_fs a b c s = \<lparr>files = [posix_path OBJ_A \<mapsto> a, posix_path OBJ_B \<mapsto> b, posix_path OBJ_C \<mapsto> c,
       posix_path OBJ_SWAP \<mapsto> s],
     fdtab = [0 \<mapsto> (posix_path OBJ_A, 0), 1 \<mapsto> (posix_path OBJ_B, 0), 2 \<mapsto> (posix_path OBJ_SWAP, 0)],
     fd_max = 8\<rparr>"

definition demo_obj :: "int \<Rightarrow> posix_obj" where
  "demo_obj fd = \<lparr>path = None, fp = fd, start_offset = 0, end_offset = 0\<rparr>"


definition demo :: posix_fs where
  "demo = demo_fs (demo_image 1 5 @ replicate 8 255) (demo_image 2 9 @ [7]) (demo_image 3 4) (replicate 40 0)"


text \<open>
  C38. The newest firmware over files. Where every slot up to the end of the table holds at
  least a manifest and a descriptor is free, \<open>get_newest_firmware\<close> succeeds and returns a
  candidate slot whose version no candidate exceeds, with that version; the candidates
  are all slots, or with \<open>prefer_bootable\<close> (the first slot being bootable) the bootable
  ones. No content changes.
\<close>

theorem posix_get_newest_firmware:
  assumes "active_slots slots = s # ss" and "prefer \<longrightarrow> bootable s"
    and "\<forall>x\<in>set (active_slots slots).
      slot_id x \<in> posix_valid_ids \<and> sizeof_manifest \<le> length (posix_content (slot_id x) w)"
    and "0 < posix_avail w"
  shows "\<exists>c obj' w'. get_newest_firmware posix_iface slots i0 v0 obj prefer w =
      (PULL_SUCCESS, slot_id c, content_version (posix_content (slot_id c) w), obj', w') \<and>
      c \<in> set (candidates prefer slots) \<and>
      (\<forall>x\<in>set (candidates prefer slots).
         content_version (posix_content (slot_id x) w) \<le> content_version (posix_content (slot_id c) w)) \<and>
      (\<forall>j\<in>posix_valid_ids. posix_content j w' = posix_content j w)"
  using posix.get_ordered_firmware_ok [OF assms, of i0 v0 obj True]
  unfolding get_newest_firmware_def by (simp only: if_True) blast

theorem posix_get_newest_firmware_witness:
  "\<exists>c obj' w'. get_newest_firmware posix_iface posix_memory_slots 0 0 (demo_obj 0) False demo =
      (PULL_SUCCESS, slot_id c, content_version (posix_content (slot_id c) demo), obj', w') \<and>
      c \<in> set (candidates False posix_memory_slots) \<and>
      (\<forall>x\<in>set (candidates False posix_memory_slots).
         content_version (posix_content (slot_id x) demo) \<le> content_version (posix_content (slot_id c) demo)) \<and>
      (\<forall>j\<in>posix_valid_ids. posix_content j w' = posix_content j demo)"
  by (rule posix_get_newest_firmware [where s = "hd posix_memory_slots"
      and ss = "[posix_memory_slots ! 1, posix_memory_slots ! 2]"]; (simp; fail | code_simp))

text \<open>
  The oldest firmware over files: under the same conditions \<open>get_oldest_firmware\<close> returns
  a candidate slot whose version is below no candidate's, and changes no content.
\<close>

theorem posix_get_oldest_firmware:
  assumes "active_slots slots = s # ss" and "prefer \<longrightarrow> bootable s"
    and "\<forall>x\<in>set (active_slots slots).
      slot_id x \<in> posix_valid_ids \<and> sizeof_manifest \<le> length (posix_content (slot_id x) w)"
    and "0 < posix_avail w"
  shows "\<exists>c obj' w'. get_oldest_firmware posix_iface slots i0 v0 obj prefer w =
      (PULL_SUCCESS, slot_id c, content_version (posix_content (slot_id c) w), obj', w') \<and>
      c \<in> set (candidates prefer slots) \<and>
      (\<forall>x\<in>set (candidates prefer slots).
         content_version (posix_content (slot_id c) w) \<le> content_version (posix_content (slot_id x) w)) \<and>
      (\<forall>j\<in>posix_valid_ids. posix_content j w' = posix_content j w)"
  using posix.get_ordered_firmware_ok [OF assms, of i0 v0 obj False]
  unfolding get_oldest_firmware_def by (simp only: if_False) blast

theorem posix_get_oldest_firmware_witness:
  "\<exists>c obj' w'. get_oldest_firmware posix_iface posix_memory_slots 0 0 (demo_obj 0) True demo =
      (PULL_SUCCESS, slot_id c, content_version (posix_content (slot_id c) demo), obj', w') \<and>
      c \<in> set (candidates True posix_memory_slots) \<and>
      (\<forall>x\<in>set (candidates True posix_memory_slots).
         content_version (posix_content (slot_id c) demo) \<le> content_version (posix_content (slot_id x) demo)) \<and>
      (\<forall>j\<in>posix_valid_ids. posix_content j w' = posix_content j demo)"
  by (rule posix_get_oldest_firmware [where s = "hd posix_memory_slots"
      and ss = "[posix_memory_slots ! 1, posix_memory_slots ! 2]"]; (simp; fail | code_simp))

text \<open>
  C39. Copying a firmware over files. Where both objects are at least as long as the firmware
  and as the buffer, \<open>copy_firmware\<close> returns, reports success, makes the firmware bytes of
  the destination those of the source, and changes no other object and nothing of the
  destination after the firmware and the first buffer.
\<close>

theorem posix_copy_firmware:
  assumes "posix_opened src i ma w" and "posix_opened dst j mb w" and "mb \<noteq> READ_ONLY" and "i \<noteq> j"
    and "0 < length buf" and "length buf < 65536"
    and "fs = unat (content_fw_size (posix_content i w))" and "0 < fs"
    and "N = max fs (length buf)" and "N < 2 ^ 31"
    and "N \<le> length (posix_content i w)" and "N \<le> length (posix_content j w)"
    and "sizeof_manifest \<le> length (posix_content i w)"
  shows "\<exists>buf' w'. copy_firmware posix_iface src dst buf w = Some (PULL_SUCCESS, buf', w') \<and>
      take fs (posix_content j w') = take fs (posix_content i w) \<and>
      drop N (posix_content j w') = drop N (posix_content j w) \<and>
      (\<forall>h\<in>posix_valid_ids. h \<noteq> j \<longrightarrow> posix_content h w' = posix_content h w)"
proof -
  have "i \<in> posix_valid_ids" using assms(1) by (simp add: posix_opened_def)
  from posix.copy_firmware_ok [OF assms(1,2) posix_exact [OF assms(3)] this assms(4-13)]
  show ?thesis by blast
qed

theorem posix_copy_firmware_witness:
  "\<exists>buf' w'. copy_firmware posix_iface (demo_obj 0) (demo_obj 1) (replicate 16 0) demo = Some (PULL_SUCCESS, buf', w') \<and>
      take 261 (posix_content OBJ_B w') = take 261 (posix_content OBJ_A demo) \<and>
      drop 261 (posix_content OBJ_B w') = drop 261 (posix_content OBJ_B demo) \<and>
      (\<forall>h\<in>posix_valid_ids. h \<noteq> OBJ_B \<longrightarrow> posix_content h w' = posix_content h demo)"
  by (rule posix_copy_firmware [where i = OBJ_A and j = OBJ_B and ma = READ_ONLY and mb = WRITE_CHUNK];
      (simp; fail | code_simp))

text \<open>
  C40. Invalidating an object over files: \<open>invalidate_object\<close> succeeds, the object starts with
  256 zero bytes, so its version reads as 0, and nothing else changes.
\<close>

theorem posix_invalidate_object:
  assumes "i \<in> posix_valid_ids" and "0 < posix_avail w" and "sizeof_manifest \<le> length (posix_content i w)"
  shows "\<exists>obj' w'. invalidate_object posix_iface i obj w = (PULL_SUCCESS, obj', w') \<and>
      posix_content i w' = replicate sizeof_manifest 0 @ drop sizeof_manifest (posix_content i w) \<and>
      content_version (posix_content i w') = 0 \<and>
      (\<forall>h\<in>posix_valid_ids. h \<noteq> i \<longrightarrow> posix_content h w' = posix_content h w)"
proof -
  have "content_version (replicate sizeof_manifest 0 @ v) = 0" for v
    using zero_manifest_version
    by (simp add: content_version_def content_manifest_def block_def zero_manifest_def sizeof_manifest_def)
  then show ?thesis
    using posix.invalidate_object_ok [OF assms(1,2) _ refl assms(3), of obj, unfolded splice_at_0 length_replicate, OF refl]
    by (elim exE conjE) (intro exI conjI, assumption, simp_all)
qed

theorem posix_invalidate_object_witness:
  "\<exists>obj' w'. invalidate_object posix_iface OBJ_B (demo_obj 1) demo = (PULL_SUCCESS, obj', w') \<and>
      posix_content OBJ_B w' = replicate sizeof_manifest 0 @ drop sizeof_manifest (posix_content OBJ_B demo) \<and>
      content_version (posix_content OBJ_B w') = 0 \<and>
      (\<forall>h\<in>posix_valid_ids. h \<noteq> OBJ_B \<longrightarrow> posix_content h w' = posix_content h demo)"
  by (rule posix_invalidate_object; (simp; fail | code_simp))

end
