(* ===== verification/Security.thy ===== *)
theory Security
  imports Upkit_Types
begin

text \<open>
  The security interface (\<open>include/libpull/security/digest.h\<close>, \<open>ecc.h\<close>, \<open>aes.h\<close>) and its four
  implementations (\<open>src/core/security/tinycrypt.c\<close>, \<open>tinydtls.c\<close>, \<open>mbedtls.c\<close>,
  \<open>cryptoauthlib.c\<close>).

  The cryptographic libraries themselves are parameters: a record per library holds the
  functions the wrapper calls, over a type of the library's own state. The wrappers are
  translated with their null checks, so a pointer argument is an \<open>option\<close>, and their
  conventions for the results of the library. The record \<open>sec_iface\<close> is what a build links
  in; its field \<open>sec_ctx0\<close> is the content of an uninitialised local \<open>digest_ctx\<close>.

  The locale \<open>sha_stream\<close> states the documented behaviour of an incremental hash; the locale
  \<open>digest_contract\<close> is what the rest of the library relies on, and the sublocale
  declarations show that each wrapper turns the former into the latter.
\<close>

record 'd sec_iface =
  sec_ctx0 :: 'd
  digest_init :: "'d \<Rightarrow> pull_error \<times> 'd"
  digest_update :: "'d \<Rightarrow> byte list \<Rightarrow> pull_error \<times> 'd"
  digest_finalize :: "'d \<Rightarrow> byte list option \<times> 'd"
  get_digest_size :: nat
  ecc_verify :: "byte list \<Rightarrow> byte list \<Rightarrow> byte list \<Rightarrow> byte list \<Rightarrow> byte list \<Rightarrow> nat \<Rightarrow> pull_error"
  ecc_sign :: "byte list \<Rightarrow> byte list \<Rightarrow> byte list \<Rightarrow> nat \<Rightarrow> pull_error \<times> byte list"
  get_curve_size :: nat

text \<open>One member of the union \<open>digest_ctx\<close>: the library's state and the result array.\<close>

record 't digest_ctx =
  sha_ctx :: 't
  sha_result :: "byte list"

section \<open>TinyCrypt\<close>

record ('t, 'a) tinycrypt_lib =
  tc_sha256_init :: "'t \<Rightarrow> int \<times> 't"
  tc_sha256_update :: "'t \<Rightarrow> byte list \<Rightarrow> int \<times> 't"
  tc_sha256_final :: "'t \<Rightarrow> int \<times> byte list \<times> 't"
  uECC_verify :: "byte list \<Rightarrow> byte list \<Rightarrow> nat \<Rightarrow> byte list \<Rightarrow> int"
  uECC_sign :: "byte list \<Rightarrow> byte list \<Rightarrow> nat \<Rightarrow> byte list \<Rightarrow> int \<times> byte list"
  tc_aes128_set_decrypt_key :: "'a \<Rightarrow> byte list \<Rightarrow> int \<times> 'a"
  tc_aes_decrypt :: "byte list \<Rightarrow> byte list \<Rightarrow> 'a \<Rightarrow> int \<times> byte list"

definition tinycrypt_digest_init ::
  "('t, 'a) tinycrypt_lib \<Rightarrow> 't digest_ctx option \<Rightarrow> pull_error \<times> 't digest_ctx option" where
  "tinycrypt_digest_init lib ctx =
     (case ctx of None \<Rightarrow> (DIGEST_INIT_ERROR, None)
      | Some c \<Rightarrow> (case tc_sha256_init lib (sha_ctx c) of (r, t) \<Rightarrow>
          (if r \<noteq> 1 then DIGEST_INIT_ERROR else PULL_SUCCESS, Some (c\<lparr>sha_ctx := t\<rparr>))))"

definition tinycrypt_digest_update ::
  "('t, 'a) tinycrypt_lib \<Rightarrow> 't digest_ctx option \<Rightarrow> byte list option \<Rightarrow> pull_error \<times> 't digest_ctx option" where
  "tinycrypt_digest_update lib ctx data =
     (case (ctx, data) of
        (Some c, Some d) \<Rightarrow> (case tc_sha256_update lib (sha_ctx c) d of (r, t) \<Rightarrow>
          (if r \<noteq> 1 then DIGEST_UPDATE_ERROR else PULL_SUCCESS, Some (c\<lparr>sha_ctx := t\<rparr>)))
      | _ \<Rightarrow> (DIGEST_UPDATE_ERROR, ctx))"

definition tinycrypt_digest_finalize ::
  "('t, 'a) tinycrypt_lib \<Rightarrow> 't digest_ctx option \<Rightarrow> byte list option \<times> 't digest_ctx option" where
  "tinycrypt_digest_finalize lib ctx =
     (case ctx of None \<Rightarrow> (None, None)
      | Some c \<Rightarrow> (case tc_sha256_final lib (sha_ctx c) of (r, h, t) \<Rightarrow>
          (let c' = c\<lparr>sha_ctx := t, sha_result := h\<rparr> in
           (if r \<noteq> 1 then None else Some (sha_result c'), Some c'))))"

definition tinycrypt_get_digest_size :: nat where
  "tinycrypt_get_digest_size = 32"

definition tinycrypt_ecc_verify :: "('t, 'a) tinycrypt_lib \<Rightarrow>
    byte list \<Rightarrow> byte list \<Rightarrow> byte list \<Rightarrow> byte list \<Rightarrow> byte list \<Rightarrow> nat \<Rightarrow> pull_error" where
  "tinycrypt_ecc_verify lib x y r s data data_len =
     (let pub_key = take 32 x @ take 32 y;
          signature = take 32 r @ take 32 s
      in if uECC_verify lib pub_key data data_len signature \<noteq> 1 then VERIFICATION_FAILED_ERROR
         else PULL_SUCCESS)"

definition tinycrypt_ecc_sign ::
  "('t, 'a) tinycrypt_lib \<Rightarrow> byte list \<Rightarrow> byte list \<Rightarrow> byte list \<Rightarrow> nat \<Rightarrow> pull_error \<times> byte list" where
  "tinycrypt_ecc_sign lib private_key signature data data_len =
     (case uECC_sign lib private_key data data_len signature of (r, signature') \<Rightarrow>
        (if r \<noteq> 1 then SIGN_FAILED_ERROR else PULL_SUCCESS, signature'))"

definition tinycrypt_get_curve_size :: nat where
  "tinycrypt_get_curve_size = 32"

definition tinycrypt_aes128_init :: "('t, 'a) tinycrypt_lib \<Rightarrow> 'a \<Rightarrow> safestore_t \<Rightarrow> pull_error \<times> 'a" where
  "tinycrypt_aes128_init lib ctx sf =
     (case tc_aes128_set_decrypt_key lib ctx (aes_key sf) of (r, ctx') \<Rightarrow>
        (if r = 0 then GENERIC_ERROR else PULL_SUCCESS, ctx'))"

definition tinycrypt_aes128_decypt ::
  "('t, 'a) tinycrypt_lib \<Rightarrow> 'a \<Rightarrow> byte list \<Rightarrow> byte list \<Rightarrow> pull_error \<times> byte list" where
  "tinycrypt_aes128_decypt lib ctx out inp =
     (case tc_aes_decrypt lib out inp ctx of (r, out') \<Rightarrow>
        (if r = 0 then GENERIC_ERROR else PULL_SUCCESS, out'))"

definition tinycrypt_iface :: "('t, 'a) tinycrypt_lib \<Rightarrow> 't digest_ctx \<Rightarrow> 't digest_ctx sec_iface" where
  "tinycrypt_iface lib c0 = \<lparr>sec_ctx0 = c0,
     digest_init = (\<lambda>c. apsnd the (tinycrypt_digest_init lib (Some c))),
     digest_update = (\<lambda>c d. apsnd the (tinycrypt_digest_update lib (Some c) (Some d))),
     digest_finalize = (\<lambda>c. apsnd the (tinycrypt_digest_finalize lib (Some c))),
     get_digest_size = tinycrypt_get_digest_size,
     ecc_verify = tinycrypt_ecc_verify lib, ecc_sign = tinycrypt_ecc_sign lib,
     get_curve_size = tinycrypt_get_curve_size\<rparr>"

section \<open>TinyDTLS\<close>

record ('t, 'a) tinydtls_lib =
  dtls_sha256_init :: "'t \<Rightarrow> 't"
  dtls_sha256_update :: "'t \<Rightarrow> byte list \<Rightarrow> 't"
  dtls_sha256_final :: "'t \<Rightarrow> byte list \<times> 't"
  ecc_ecdsa_validate :: "byte list \<Rightarrow> byte list \<Rightarrow> byte list \<Rightarrow> byte list \<Rightarrow> byte list \<Rightarrow> int"
  rijndael_set_key :: "'a \<Rightarrow> byte list \<Rightarrow> nat \<Rightarrow> int \<times> 'a"
  rijndael_decrypt :: "'a \<Rightarrow> byte list \<Rightarrow> byte list \<Rightarrow> byte list"

definition tinydtls_digest_init ::
  "('t, 'a) tinydtls_lib \<Rightarrow> 't digest_ctx option \<Rightarrow> pull_error \<times> 't digest_ctx option" where
  "tinydtls_digest_init lib ctx =
     (case ctx of None \<Rightarrow> (DIGEST_INIT_ERROR, None)
      | Some c \<Rightarrow> (PULL_SUCCESS, Some (c\<lparr>sha_ctx := dtls_sha256_init lib (sha_ctx c)\<rparr>)))"

definition tinydtls_digest_update ::
  "('t, 'a) tinydtls_lib \<Rightarrow> 't digest_ctx option \<Rightarrow> byte list option \<Rightarrow> pull_error \<times> 't digest_ctx option" where
  "tinydtls_digest_update lib ctx data =
     (case (ctx, data) of
        (Some c, Some d) \<Rightarrow> (PULL_SUCCESS, Some (c\<lparr>sha_ctx := dtls_sha256_update lib (sha_ctx c) d\<rparr>))
      | _ \<Rightarrow> (DIGEST_UPDATE_ERROR, ctx))"

definition tinydtls_digest_finalize ::
  "('t, 'a) tinydtls_lib \<Rightarrow> 't digest_ctx option \<Rightarrow> byte list option \<times> 't digest_ctx option" where
  "tinydtls_digest_finalize lib ctx =
     (case ctx of None \<Rightarrow> (None, None)
      | Some c \<Rightarrow> (case dtls_sha256_final lib (sha_ctx c) of (h, t) \<Rightarrow>
          (let c' = c\<lparr>sha_ctx := t, sha_result := h\<rparr> in (Some (sha_result c'), Some c'))))"

definition tinydtls_get_digest_size :: nat where
  "tinydtls_get_digest_size = 32"

definition tinydtls_ecc_verify :: "('t, 'a) tinydtls_lib \<Rightarrow>
    byte list \<Rightarrow> byte list \<Rightarrow> byte list \<Rightarrow> byte list \<Rightarrow> byte list \<Rightarrow> nat \<Rightarrow> pull_error" where
  "tinydtls_ecc_verify lib x y r s data data_len =
     (if data_len \<noteq> 32 then VERIFICATION_FAILED_ERROR
      else if ecc_ecdsa_validate lib x y data r s = 0 then PULL_SUCCESS else VERIFICATION_FAILED_ERROR)"

text \<open>
  \<open>ecc_sign\<close> computes a signature into a local array and then fails unconditionally: the
  signature buffer is not touched.
\<close>

definition tinydtls_ecc_sign :: "byte list \<Rightarrow> byte list \<Rightarrow> byte list \<Rightarrow> nat \<Rightarrow> pull_error \<times> byte list" where
  "tinydtls_ecc_sign private_key signature data data_len = (SIGN_FAILED_ERROR, signature)"

definition tinydtls_get_curve_size :: nat where
  "tinydtls_get_curve_size = 32"

definition tinydtls_aes128_init :: "('t, 'a) tinydtls_lib \<Rightarrow> 'a \<Rightarrow> safestore_t \<Rightarrow> pull_error \<times> 'a" where
  "tinydtls_aes128_init lib ctx sf =
     (case rijndael_set_key lib ctx (aes_key sf) 128 of (r, ctx') \<Rightarrow>
        (if r \<noteq> 0 then GENERIC_ERROR else PULL_SUCCESS, ctx'))"

definition tinydtls_aes128_decypt ::
  "('t, 'a) tinydtls_lib \<Rightarrow> 'a \<Rightarrow> byte list \<Rightarrow> byte list \<Rightarrow> pull_error \<times> byte list" where
  "tinydtls_aes128_decypt lib ctx out inp = (PULL_SUCCESS, rijndael_decrypt lib ctx inp out)"

definition tinydtls_iface :: "('t, 'a) tinydtls_lib \<Rightarrow> 't digest_ctx \<Rightarrow> 't digest_ctx sec_iface" where
  "tinydtls_iface lib c0 = \<lparr>sec_ctx0 = c0,
     digest_init = (\<lambda>c. apsnd the (tinydtls_digest_init lib (Some c))),
     digest_update = (\<lambda>c d. apsnd the (tinydtls_digest_update lib (Some c) (Some d))),
     digest_finalize = (\<lambda>c. apsnd the (tinydtls_digest_finalize lib (Some c))),
     get_digest_size = tinydtls_get_digest_size,
     ecc_verify = tinydtls_ecc_verify lib, ecc_sign = tinydtls_ecc_sign,
     get_curve_size = tinydtls_get_curve_size\<rparr>"

section \<open>Mbed TLS\<close>

text \<open>
  \<open>'e\<close> is the type of \<open>mbedtls_ecdsa_context\<close>; loading the group and reading the point act on
  its members \<open>grp\<close> and \<open>Q\<close>. Signing uses a fresh context and a fresh random generator.
\<close>

record ('t, 'e) mbedtls_lib =
  mbedtls_sha256_starts_ret :: "'t \<Rightarrow> int \<times> 't"
  mbedtls_sha256_update_ret :: "'t \<Rightarrow> byte list \<Rightarrow> int \<times> 't"
  mbedtls_sha256_finish_ret :: "'t \<Rightarrow> int \<times> byte list \<times> 't"
  mbedtls_ecdsa_init :: 'e
  mbedtls_ecp_group_load :: "'e \<Rightarrow> int \<times> 'e"
  mbedtls_ecp_point_read_binary :: "'e \<Rightarrow> byte list \<Rightarrow> nat \<Rightarrow> int \<times> 'e"
  mbedtls_ecdsa_read_signature :: "'e \<Rightarrow> byte list \<Rightarrow> nat \<Rightarrow> byte list \<Rightarrow> nat \<Rightarrow> int"
  mbedtls_ecdsa_write_signature :: "'e \<Rightarrow> byte list \<Rightarrow> nat \<Rightarrow> byte list \<Rightarrow> int \<times> byte list"

definition mbedtls_digest_init ::
  "('t, 'e) mbedtls_lib \<Rightarrow> 't digest_ctx \<Rightarrow> pull_error \<times> 't digest_ctx" where
  "mbedtls_digest_init lib c =
     (case mbedtls_sha256_starts_ret lib (sha_ctx c) of (_, t) \<Rightarrow> (PULL_SUCCESS, c\<lparr>sha_ctx := t\<rparr>))"

definition mbedtls_digest_update ::
  "('t, 'e) mbedtls_lib \<Rightarrow> 't digest_ctx option \<Rightarrow> byte list option \<Rightarrow> pull_error \<times> 't digest_ctx option" where
  "mbedtls_digest_update lib ctx data =
     (case (ctx, data) of
        (Some c, Some d) \<Rightarrow> (case mbedtls_sha256_update_ret lib (sha_ctx c) d of (r, t) \<Rightarrow>
          (if r \<noteq> 0 then DIGEST_UPDATE_ERROR else PULL_SUCCESS, Some (c\<lparr>sha_ctx := t\<rparr>)))
      | _ \<Rightarrow> (DIGEST_UPDATE_ERROR, ctx))"

definition mbedtls_digest_finalize ::
  "('t, 'e) mbedtls_lib \<Rightarrow> 't digest_ctx option \<Rightarrow> byte list option \<times> 't digest_ctx option" where
  "mbedtls_digest_finalize lib ctx =
     (case ctx of None \<Rightarrow> (None, None)
      | Some c \<Rightarrow> (case mbedtls_sha256_finish_ret lib (sha_ctx c) of (r, h, t) \<Rightarrow>
          (let c' = c\<lparr>sha_ctx := t, sha_result := h\<rparr> in
           (if r \<noteq> 0 then None else Some (sha_result c'), Some c'))))"

definition mbedtls_get_digest_size :: nat where
  "mbedtls_get_digest_size = 32"

definition mbedtls_ecc_verify :: "('t, 'e) mbedtls_lib \<Rightarrow>
    byte list \<Rightarrow> byte list \<Rightarrow> byte list \<Rightarrow> byte list \<Rightarrow> byte list \<Rightarrow> nat \<Rightarrow> pull_error" where
  "mbedtls_ecc_verify lib x y r s data data_len =
     (let pub_key_buff = take 32 x @ take 32 y in
      case mbedtls_ecp_group_load lib (mbedtls_ecdsa_init lib) of (ret, e) \<Rightarrow>
        if ret \<noteq> 0 then VERIFICATION_FAILED_ERROR
        else (case mbedtls_ecp_point_read_binary lib e pub_key_buff 64 of (ret, e') \<Rightarrow>
          if ret \<noteq> 0 then VERIFICATION_FAILED_ERROR
          else (let signature = take 32 r @ take 32 s in
            if mbedtls_ecdsa_read_signature lib e' data data_len signature 64 \<noteq> 0
            then VERIFICATION_FAILED_ERROR else PULL_SUCCESS)))"

text \<open>The private key is an argument that \<open>ecc_sign\<close> of \<open>mbedtls.c\<close> never uses.\<close>

definition mbedtls_ecc_sign ::
  "('t, 'e) mbedtls_lib \<Rightarrow> byte list \<Rightarrow> byte list \<Rightarrow> byte list \<Rightarrow> nat \<Rightarrow> pull_error \<times> byte list" where
  "mbedtls_ecc_sign lib private_key signature data data_len =
     (case mbedtls_ecdsa_write_signature lib (mbedtls_ecdsa_init lib) data data_len signature of
        (ret, signature') \<Rightarrow> (if ret \<noteq> 0 then SIGN_FAILED_ERROR else PULL_SUCCESS, signature'))"

definition mbedtls_get_curve_size :: nat where
  "mbedtls_get_curve_size = 32"

definition mbedtls_iface :: "('t, 'e) mbedtls_lib \<Rightarrow> 't digest_ctx \<Rightarrow> 't digest_ctx sec_iface" where
  "mbedtls_iface lib c0 = \<lparr>sec_ctx0 = c0,
     digest_init = mbedtls_digest_init lib,
     digest_update = (\<lambda>c d. apsnd the (mbedtls_digest_update lib (Some c) (Some d))),
     digest_finalize = (\<lambda>c. apsnd the (mbedtls_digest_finalize lib (Some c))),
     get_digest_size = mbedtls_get_digest_size,
     ecc_verify = mbedtls_ecc_verify lib, ecc_sign = mbedtls_ecc_sign lib,
     get_curve_size = mbedtls_get_curve_size\<rparr>"

section \<open>CryptoAuthLib\<close>

text \<open>
  The hardware and the software variant differ only in the library functions they call; a
  result of 0 is \<open>ATCA_SUCCESS\<close>. \<open>atcab_verify_extern\<close> returns a status and sets
  \<open>is_verified\<close>. \<open>cryptoauthlib.c\<close> does not define \<open>get_curve_size\<close>, so its value is an argument of
  the interface record.
\<close>

record 't cryptoauth_lib =
  atca_sha2_256_init :: "'t \<Rightarrow> int \<times> 't"
  atca_sha2_256_update :: "'t \<Rightarrow> byte list \<Rightarrow> int \<times> 't"
  atca_sha2_256_finish :: "'t \<Rightarrow> int \<times> byte list \<times> 't"
  atcab_verify_extern :: "byte list \<Rightarrow> byte list \<Rightarrow> byte list \<Rightarrow> int \<times> bool"

definition cryptoauth_digest_init :: "'t cryptoauth_lib \<Rightarrow> 't digest_ctx \<Rightarrow> pull_error \<times> 't digest_ctx" where
  "cryptoauth_digest_init lib c =
     (case atca_sha2_256_init lib (sha_ctx c) of (r, t) \<Rightarrow>
        (if r \<noteq> 0 then SHA256_INIT_ERROR else PULL_SUCCESS, c\<lparr>sha_ctx := t\<rparr>))"

definition cryptoauth_digest_update ::
  "'t cryptoauth_lib \<Rightarrow> 't digest_ctx \<Rightarrow> byte list \<Rightarrow> pull_error \<times> 't digest_ctx" where
  "cryptoauth_digest_update lib c d =
     (case atca_sha2_256_update lib (sha_ctx c) d of (r, t) \<Rightarrow>
        (if r \<noteq> 0 then SHA256_UPDATE_ERROR else PULL_SUCCESS, c\<lparr>sha_ctx := t\<rparr>))"

definition cryptoauth_digest_finalize ::
  "'t cryptoauth_lib \<Rightarrow> 't digest_ctx \<Rightarrow> byte list option \<times> 't digest_ctx" where
  "cryptoauth_digest_finalize lib c =
     (case atca_sha2_256_finish lib (sha_ctx c) of (r, h, t) \<Rightarrow>
        (let c' = c\<lparr>sha_ctx := t, sha_result := h\<rparr> in
         (if r \<noteq> 0 then None else Some (sha_result c'), c')))"

definition cryptoauth_get_digest_size :: nat where
  "cryptoauth_get_digest_size = 32"

definition cryptoauth_ecc_verify :: "'t cryptoauth_lib \<Rightarrow>
    byte list \<Rightarrow> byte list \<Rightarrow> byte list \<Rightarrow> byte list \<Rightarrow> byte list \<Rightarrow> nat \<Rightarrow> pull_error" where
  "cryptoauth_ecc_verify lib x y r s data data_len =
     (if data_len \<noteq> 32 then VERIFICATION_FAILED_ERROR
      else (let pub_key = take 32 x @ take 32 y;
                signature = take 32 r @ take 32 s
            in case atcab_verify_extern lib data signature pub_key of (status, is_verified) \<Rightarrow>
              if status \<noteq> 0 then VERIFICATION_FAILED_ERROR
              else if is_verified then PULL_SUCCESS else VERIFICATION_FAILED_ERROR))"

definition cryptoauth_ecc_sign :: "byte list \<Rightarrow> byte list \<Rightarrow> byte list \<Rightarrow> nat \<Rightarrow> pull_error \<times> byte list" where
  "cryptoauth_ecc_sign private_key signature data data_len = (NOT_IMPLEMENTED_ERROR, signature)"

definition cryptoauth_iface :: "'t cryptoauth_lib \<Rightarrow> nat \<Rightarrow> 't digest_ctx \<Rightarrow> 't digest_ctx sec_iface" where
  "cryptoauth_iface lib curve c0 = \<lparr>sec_ctx0 = c0,
     digest_init = cryptoauth_digest_init lib,
     digest_update = cryptoauth_digest_update lib,
     digest_finalize = cryptoauth_digest_finalize lib,
     get_digest_size = cryptoauth_get_digest_size,
     ecc_verify = cryptoauth_ecc_verify lib, ecc_sign = cryptoauth_ecc_sign,
     get_curve_size = curve\<rparr>"

lemmas sec_wrapper_defs =
  tinycrypt_iface_def tinycrypt_digest_init_def tinycrypt_digest_update_def
  tinycrypt_digest_finalize_def tinycrypt_get_digest_size_def
  tinydtls_iface_def tinydtls_digest_init_def tinydtls_digest_update_def
  tinydtls_digest_finalize_def tinydtls_get_digest_size_def
  mbedtls_iface_def mbedtls_digest_init_def mbedtls_digest_update_def
  mbedtls_digest_finalize_def mbedtls_get_digest_size_def
  cryptoauth_iface_def cryptoauth_digest_init_def cryptoauth_digest_update_def
  cryptoauth_digest_finalize_def cryptoauth_get_digest_size_def

section \<open>Contracts\<close>

text \<open>
  An incremental hash: \<open>st t bs\<close> says that the state \<open>t\<close> has absorbed the bytes \<open>bs\<close>, and
  \<open>ok\<close> is the result that stands for success.
\<close>

locale sha_stream =
  fixes init :: "'t \<Rightarrow> int \<times> 't"
    and update :: "'t \<Rightarrow> byte list \<Rightarrow> int \<times> 't"
    and final :: "'t \<Rightarrow> int \<times> byte list \<times> 't"
    and ok :: int
    and hash :: "byte list \<Rightarrow> byte list"
    and st :: "'t \<Rightarrow> byte list \<Rightarrow> bool"
  assumes stream_init: "\<exists>t'. init t = (ok, t') \<and> st t' []"
    and stream_update: "st t bs \<Longrightarrow> \<exists>t'. update t d = (ok, t') \<and> st t' (bs @ d)"
    and stream_final: "st t bs \<Longrightarrow> \<exists>t'. final t = (ok, hash bs, t')"
    and hash_length: "length (hash bs) = 32"

locale digest_contract =
  fixes sec :: "'d sec_iface"
    and hash :: "byte list \<Rightarrow> byte list"
    and absorbed :: "'d \<Rightarrow> byte list \<Rightarrow> bool"
  assumes init_ok: "\<exists>c'. digest_init sec c = (PULL_SUCCESS, c') \<and> absorbed c' []"
    and update_ok: "absorbed c bs \<Longrightarrow> \<exists>c'. digest_update sec c d = (PULL_SUCCESS, c') \<and> absorbed c' (bs @ d)"
    and finalize_ok: "absorbed c bs \<Longrightarrow> \<exists>c'. digest_finalize sec c = (Some (hash bs), c')"
    and size_ok: "get_digest_size sec = 32"
    and hash_size: "length (hash bs) = 32"
begin

text \<open>The digest of one block, computed the way the manifest checks do.\<close>

lemma digest_once:
  obtains c1 c2 c3 where "digest_init sec c = (PULL_SUCCESS, c1)"
    and "digest_update sec c1 d = (PULL_SUCCESS, c2)" and "digest_finalize sec c2 = (Some (hash d), c3)"
proof -
  obtain c1 where 1: "digest_init sec c = (PULL_SUCCESS, c1)" "absorbed c1 []" using init_ok by blast
  obtain c2 where 2: "digest_update sec c1 d = (PULL_SUCCESS, c2)" "absorbed c2 ([] @ d)"
    using update_ok [OF 1(2)] by blast
  obtain c3 where "digest_finalize sec c2 = (Some (hash d), c3)" using finalize_ok [OF 2(2)] by auto
  with 1(1) 2(1) that show ?thesis by blast
qed

end

section \<open>Each wrapper meets the contract\<close>

text \<open>A wrapper that translates the library's results gives a digest from an incremental hash.\<close>

context sha_stream
begin

lemma digest_contractI:
  assumes "\<And>c. digest_init sec c =
      (case init (sha_ctx c) of (r, t) \<Rightarrow> (if r = ok then PULL_SUCCESS else erri r, c\<lparr>sha_ctx := t\<rparr>))"
    and "\<And>c d. digest_update sec c d =
      (case update (sha_ctx c) d of (r, t) \<Rightarrow> (if r = ok then PULL_SUCCESS else erru, c\<lparr>sha_ctx := t\<rparr>))"
    and "\<And>c. digest_finalize sec c = (case final (sha_ctx c) of (r, h, t) \<Rightarrow>
      (if r = ok then Some h else None, c\<lparr>sha_ctx := t, sha_result := h\<rparr>))"
    and "get_digest_size sec = 32"
  shows "digest_contract sec hash (\<lambda>c. st (sha_ctx c))"
proof (unfold_locales, goal_cases)
  case (1 c)
  show ?case using stream_init [of "sha_ctx c"] assms(1) by auto
next
  case (2 c bs d)
  show ?case using stream_update [OF 2, of d] assms(2) by auto
next
  case (3 c bs)
  show ?case using stream_final [OF 3] assms(3) by auto
qed (simp_all add: assms(4) hash_length)

end

locale tinycrypt_sha =
  sha_stream "tc_sha256_init lib" "tc_sha256_update lib" "tc_sha256_final lib" 1 hash st
  for lib :: "('t, 'a) tinycrypt_lib" and hash and st

sublocale tinycrypt_sha \<subseteq> tinycrypt: digest_contract "tinycrypt_iface lib c0" hash "\<lambda>c. st (sha_ctx c)"
  by (rule digest_contractI) (auto simp: sec_wrapper_defs split: prod.splits)

locale tinydtls_sha =
  sha_stream "\<lambda>t. (0, dtls_sha256_init lib t)" "\<lambda>t d. (0, dtls_sha256_update lib t d)"
    "\<lambda>t. (0, dtls_sha256_final lib t)" 0 hash st
  for lib :: "('t, 'a) tinydtls_lib" and hash and st

sublocale tinydtls_sha \<subseteq> tinydtls: digest_contract "tinydtls_iface lib c0" hash "\<lambda>c. st (sha_ctx c)"
  by (rule digest_contractI) (auto simp: sec_wrapper_defs split: prod.splits)

locale mbedtls_sha =
  sha_stream "mbedtls_sha256_starts_ret lib" "mbedtls_sha256_update_ret lib"
    "mbedtls_sha256_finish_ret lib" 0 hash st
  for lib :: "('t, 'e) mbedtls_lib" and hash and st

sublocale mbedtls_sha \<subseteq> mbedtls: digest_contract "mbedtls_iface lib c0" hash "\<lambda>c. st (sha_ctx c)"
  by (rule digest_contractI [where erri = "\<lambda>_. PULL_SUCCESS"]) (auto simp: sec_wrapper_defs split: prod.splits)

locale cryptoauth_sha =
  sha_stream "atca_sha2_256_init lib" "atca_sha2_256_update lib" "atca_sha2_256_finish lib" 0 hash st
  for lib :: "'t cryptoauth_lib" and hash and st

sublocale cryptoauth_sha \<subseteq> cryptoauth: digest_contract "cryptoauth_iface lib curve c0" hash "\<lambda>c. st (sha_ctx c)"
  by (rule digest_contractI) (auto simp: sec_wrapper_defs split: prod.splits)

section \<open>A concrete library\<close>

text \<open>
  Concrete functions with the documented behaviour, which the applications to concrete
  inputs use: the state of the hash is the list of bytes absorbed, the hash folds them to
  32 bytes, and a signature is the sum of the key and the hash.
\<close>

definition demo_hash :: "byte list \<Rightarrow> byte list" where
  "demo_hash bs = foldl (\<lambda>a b. a * 31 + b) 7 bs # replicate 31 (word_of_nat (length bs))"

definition demo_sign :: "byte list \<Rightarrow> byte list \<Rightarrow> byte list" where
  "demo_sign key h = map2 (+) key (h @ h)"

definition demo_tinycrypt :: "(byte list, byte list) tinycrypt_lib" where
  "demo_tinycrypt = \<lparr>tc_sha256_init = (\<lambda>_. (1, [])), tc_sha256_update = (\<lambda>t d. (1, t @ d)),
     tc_sha256_final = (\<lambda>t. (1, demo_hash t, [])),
     uECC_verify = (\<lambda>pk h n s. if s = demo_sign pk (take n h) then 1 else 0),
     uECC_sign = (\<lambda>sk h n s. (1, demo_sign sk (take n h))),
     tc_aes128_set_decrypt_key = (\<lambda>_ k. (1, k)), tc_aes_decrypt = (\<lambda>out inp k. (1, map2 (XOR) inp k))\<rparr>"

definition demo_tinydtls :: "(byte list, byte list) tinydtls_lib" where
  "demo_tinydtls = \<lparr>dtls_sha256_init = (\<lambda>_. []), dtls_sha256_update = (\<lambda>t d. t @ d),
     dtls_sha256_final = (\<lambda>t. (demo_hash t, [])),
     ecc_ecdsa_validate = (\<lambda>x y h r s. if r @ s = demo_sign (x @ y) h then 0 else 1),
     rijndael_set_key = (\<lambda>_ k _. (0, k)), rijndael_decrypt = (\<lambda>k inp out. map2 (XOR) inp k)\<rparr>"

definition demo_mbedtls :: "(byte list, byte list) mbedtls_lib" where
  "demo_mbedtls = \<lparr>mbedtls_sha256_starts_ret = (\<lambda>_. (0, [])), mbedtls_sha256_update_ret = (\<lambda>t d. (0, t @ d)),
     mbedtls_sha256_finish_ret = (\<lambda>t. (0, demo_hash t, [])), mbedtls_ecdsa_init = [],
     mbedtls_ecp_group_load = (\<lambda>e. (0, e)), mbedtls_ecp_point_read_binary = (\<lambda>_ k n. (0, take n k)),
     mbedtls_ecdsa_read_signature = (\<lambda>k h n s sn. if take sn s = demo_sign k (take n h) then 0 else 1),
     mbedtls_ecdsa_write_signature = (\<lambda>k h n s. (0, demo_sign k (take n h)))\<rparr>"

definition demo_cryptoauth :: "byte list cryptoauth_lib" where
  "demo_cryptoauth = \<lparr>atca_sha2_256_init = (\<lambda>_. (0, [])), atca_sha2_256_update = (\<lambda>t d. (0, t @ d)),
     atca_sha2_256_finish = (\<lambda>t. (0, demo_hash t, [])),
     atcab_verify_extern = (\<lambda>h s k. (0, s = demo_sign k h))\<rparr>"

lemma length_demo_hash [simp]: "length (demo_hash bs) = 32"
  by (simp add: demo_hash_def)

interpretation demo_tc: tinycrypt_sha demo_tinycrypt demo_hash "(=)"
  by unfold_locales (simp_all add: demo_tinycrypt_def)

interpretation demo_td: tinydtls_sha demo_tinydtls demo_hash "(=)"
  by unfold_locales (simp_all add: demo_tinydtls_def)

interpretation demo_mb: mbedtls_sha demo_mbedtls demo_hash "(=)"
  by unfold_locales (simp_all add: demo_mbedtls_def)

interpretation demo_ca: cryptoauth_sha demo_cryptoauth demo_hash "(=)"
  by unfold_locales (simp_all add: demo_cryptoauth_def)

end
