(* ===== verification/Verifier.thy ===== *)
theory Verifier
  imports Security Memory_Objects
begin

text \<open>
  Signatures of manifests (\<open>src/core/memory/simple_manifest.c\<close>, \<open>manifest.c\<close>) and the verifier
  (\<open>src/core/security/verifier.c\<close>), over a security interface and a memory interface.

  \<open>None\<close> stands for undefined behaviour or for a loop that does not end: \<open>digest_finalize\<close>
  may return \<open>NULL\<close>, which the callers hand on or dereference without a check.
\<close>

section \<open>Signatures of a manifest\<close>

definition verify_signature_impl :: "'d sec_iface \<Rightarrow> manifest_t \<Rightarrow> keystore_t \<Rightarrow> pull_error option" where
  "verify_signature_impl sec mt ks =
     (case digest_init sec (sec_ctx0 sec) of (err, c) \<Rightarrow>
      if err \<noteq> PULL_SUCCESS then Some GENERIC_ERROR
      else (case digest_update sec c (vendor_bytes (vendor mt)) of (_, c) \<Rightarrow>
        case digest_finalize sec c of
          (None, c) \<Rightarrow> None
        | (Some hash, c) \<Rightarrow>
            if ecc_verify sec (ks_x ks) (ks_y ks) (vendor_signature_r mt) (vendor_signature_s mt) hash
                 (get_digest_size sec) \<noteq> PULL_SUCCESS then Some GENERIC_ERROR
            else (case digest_init sec c of (err, c) \<Rightarrow>
              if err \<noteq> PULL_SUCCESS then Some GENERIC_ERROR
              else (case digest_update sec c (server_bytes (server mt)) of (_, c) \<Rightarrow>
                case digest_finalize sec c of
                  (None, c) \<Rightarrow> None
                | (Some hash, c) \<Rightarrow>
                    if ecc_verify sec (vm_server_key_x (vendor mt)) (vm_server_key_y (vendor mt))
                         (server_signature_r mt) (server_signature_s mt) hash (get_digest_size sec) \<noteq> PULL_SUCCESS
                    then Some GENERIC_ERROR else Some PULL_SUCCESS))))"

definition verify_signature :: "'d sec_iface \<Rightarrow> manifest_t \<Rightarrow> keystore_t \<Rightarrow> pull_error option" where
  "verify_signature sec mt ks = verify_signature_impl sec mt ks"

definition sign_data_impl ::
  "'d sec_iface \<Rightarrow> byte list \<Rightarrow> byte list \<Rightarrow> byte list \<Rightarrow> (pull_error \<times> byte list) option" where
  "sign_data_impl sec data private_key signature_buffer =
     (case digest_init sec (sec_ctx0 sec) of (err, c) \<Rightarrow>
      if err \<noteq> PULL_SUCCESS then Some (GENERIC_ERROR, signature_buffer)
      else (case digest_update sec c data of (_, c) \<Rightarrow>
        case digest_finalize sec c of
          (None, c) \<Rightarrow> None
        | (Some hash, c) \<Rightarrow>
            (case ecc_sign sec private_key signature_buffer hash (get_digest_size sec) of (err, sb) \<Rightarrow>
               Some (if err \<noteq> PULL_SUCCESS then GENERIC_ERROR else PULL_SUCCESS, sb))))"

definition sign_manifest_vendor_impl ::
  "'d sec_iface \<Rightarrow> manifest_t \<Rightarrow> byte list \<Rightarrow> byte list \<Rightarrow> (pull_error \<times> manifest_t \<times> byte list) option" where
  "sign_manifest_vendor_impl sec mt private_key signature_buffer =
     Option.bind (sign_data_impl sec (vendor_bytes (vendor mt)) private_key signature_buffer) (\<lambda>(err, sb).
       let mt1 = snd (set_vendor_signature_r_impl mt sb (get_curve_size sec));
           mt2 = snd (set_vendor_signature_s_impl mt1 (drop (get_curve_size sec) sb) (get_curve_size sec))
       in Some (err, mt2, sb))"

definition sign_manifest_server_impl ::
  "'d sec_iface \<Rightarrow> manifest_t \<Rightarrow> byte list \<Rightarrow> byte list \<Rightarrow> (pull_error \<times> manifest_t \<times> byte list) option" where
  "sign_manifest_server_impl sec mt private_key signature_buffer =
     Option.bind (sign_data_impl sec (server_bytes (server mt)) private_key signature_buffer) (\<lambda>(err, sb).
       let mt1 = snd (set_server_signature_r_impl mt sb (get_curve_size sec));
           mt2 = snd (set_server_signature_s_impl mt1 (drop (get_curve_size sec) sb) (get_curve_size sec))
       in Some (err, mt2, sb))"

definition sign_manifest_vendor ::
  "'d sec_iface \<Rightarrow> manifest_t \<Rightarrow> byte list \<Rightarrow> byte list \<Rightarrow> (pull_error \<times> manifest_t \<times> byte list) option" where
  "sign_manifest_vendor sec mt private_key signature_buffer =
     sign_manifest_vendor_impl sec mt private_key signature_buffer"

definition sign_manifest_server ::
  "'d sec_iface \<Rightarrow> manifest_t \<Rightarrow> byte list \<Rightarrow> byte list \<Rightarrow> (pull_error \<times> manifest_t \<times> byte list) option" where
  "sign_manifest_server sec mt private_key signature_buffer =
     sign_manifest_server_impl sec mt private_key signature_buffer"

section \<open>The verifier\<close>

definition verify_manifest :: "'d sec_iface \<Rightarrow> manifest_t \<Rightarrow> safestore_t \<Rightarrow> pull_error option" where
  "verify_manifest sec mt sf =
     (if vm_appid (vendor mt) \<noteq> sf_appid sf then Some INVALID_SIGNATURE_ERROR
      else Option.bind (verify_signature sec mt (keystore sf)) (\<lambda>err.
        if err \<noteq> PULL_SUCCESS then Some err else Some PULL_SUCCESS))"

text \<open>
  The loop of \<open>verify_digest\<close>. Offsets and the step are \<open>address_t\<close> values and wrap; the step
  is not limited before the first read.
\<close>

partial_function (option) verify_digest_loop ::
  "'d sec_iface \<Rightarrow> ('w, 'o) mem_iface \<Rightarrow> 'o \<Rightarrow> address_t \<Rightarrow> address_t \<Rightarrow> address_t \<Rightarrow> 'd \<Rightarrow> byte list \<Rightarrow> 'w \<Rightarrow>
   (pull_error \<times> 'd \<times> byte list \<times> 'w) option" where
  "verify_digest_loop sec m obj final_offset offset step ctx buffer w =
     (if offset < final_offset
      then (case memory_read m obj buffer (unat step) offset w of (readed, buffer1, w1) \<Rightarrow>
        if readed \<noteq> unat step then Some (MEMORY_READ_ERROR, ctx, buffer1, w1)
        else (case digest_update sec ctx (take readed buffer1) of (err, ctx1) \<Rightarrow>
          if err \<noteq> PULL_SUCCESS then Some (err, ctx1, buffer1, w1)
          else (let offset1 = offset + word_of_nat readed;
                    step1 = (if offset1 + step > final_offset then final_offset - offset1 else step)
                in verify_digest_loop sec m obj final_offset offset1 step1 ctx1 buffer1 w1)))
      else Some (PULL_SUCCESS, ctx, buffer, w))"

declare verify_digest_loop.simps [code]

text \<open>The comparison of the digests, from the last byte to the first.\<close>

fun digest_matches :: "byte list \<Rightarrow> byte list \<Rightarrow> nat \<Rightarrow> bool" where
  "digest_matches hash result 0 = True"
| "digest_matches hash result (Suc i) = (if hash ! i \<noteq> result ! i then False else digest_matches hash result i)"

definition verify_digest ::
  "'d sec_iface \<Rightarrow> ('w, 'o) mem_iface \<Rightarrow> 'o \<Rightarrow> manifest_t \<Rightarrow> byte list \<Rightarrow> 'w \<Rightarrow>
   (pull_error \<times> byte list \<times> 'w) option" where
  "verify_digest sec m obj mt buffer w =
     (case digest_init sec (sec_ctx0 sec) of (err, ctx) \<Rightarrow>
      if err \<noteq> PULL_SUCCESS then Some (err, buffer, w)
      else (let offset = vm_offset (vendor mt); final_offset = offset + vm_size (vendor mt) in
        if offset = final_offset then Some (MEMORY_READ_ERROR, buffer, w)
        else Option.bind (verify_digest_loop sec m obj final_offset offset (word_of_nat (length buffer)) ctx buffer w)
          (\<lambda>(err, ctx, buffer, w).
            if err \<noteq> PULL_SUCCESS then Some (err, buffer, w)
            else (case digest_finalize sec ctx of
                (None, _) \<Rightarrow> None
              | (Some result, _) \<Rightarrow>
                  Some (if digest_matches (vm_digest (vendor mt)) result (get_digest_size sec)
                        then PULL_SUCCESS else VERIFICATION_FAILED_ERROR, buffer, w)))))"

definition verify_object ::
  "'d sec_iface \<Rightarrow> ('w, 'o) mem_iface \<Rightarrow> 'o \<Rightarrow> safestore_t \<Rightarrow> byte list \<Rightarrow> 'w \<Rightarrow>
   (pull_error \<times> byte list \<times> 'w) option" where
  "verify_object sec m obj sf buffer w =
     (case read_firmware_manifest m obj zero_manifest w of (err, mt, w) \<Rightarrow>
      if err \<noteq> PULL_SUCCESS then Some (MEMORY_READ_ERROR, buffer, w)
      else Option.bind (verify_manifest sec mt sf) (\<lambda>err.
        if err \<noteq> PULL_SUCCESS then Some (err, buffer, w)
        else Option.bind (verify_digest sec m obj mt buffer w) (\<lambda>(err, buffer, w).
          if err \<noteq> PULL_SUCCESS then Some (err, buffer, w) else Some (PULL_SUCCESS, buffer, w))))"

section \<open>What the signatures mean\<close>

text \<open>The two signature checks, stated over a hash function and the signature primitive.\<close>

definition vendor_signed :: "'d sec_iface \<Rightarrow> (byte list \<Rightarrow> byte list) \<Rightarrow> keystore_t \<Rightarrow> manifest_t \<Rightarrow> bool" where
  "vendor_signed sec hash ks mt \<longleftrightarrow>
     ecc_verify sec (ks_x ks) (ks_y ks) (vendor_signature_r mt) (vendor_signature_s mt)
       (hash (vendor_bytes (vendor mt))) (get_digest_size sec) = PULL_SUCCESS"

definition server_signed :: "'d sec_iface \<Rightarrow> (byte list \<Rightarrow> byte list) \<Rightarrow> manifest_t \<Rightarrow> bool" where
  "server_signed sec hash mt \<longleftrightarrow>
     ecc_verify sec (vm_server_key_x (vendor mt)) (vm_server_key_y (vendor mt))
       (server_signature_r mt) (server_signature_s mt)
       (hash (server_bytes (server mt))) (get_digest_size sec) = PULL_SUCCESS"

definition authentic ::
  "'d sec_iface \<Rightarrow> (byte list \<Rightarrow> byte list) \<Rightarrow> safestore_t \<Rightarrow> manifest_t \<Rightarrow> bool" where
  "authentic sec hash sf mt \<longleftrightarrow> vm_appid (vendor mt) = sf_appid sf \<and>
     vendor_signed sec hash (keystore sf) mt \<and> server_signed sec hash mt"

text \<open>The verdict on an object, from its content.\<close>

definition object_verdict ::
  "'d sec_iface \<Rightarrow> (byte list \<Rightarrow> byte list) \<Rightarrow> safestore_t \<Rightarrow> nat \<Rightarrow> byte list \<Rightarrow> pull_error" where
  "object_verdict sec hash sf bl v = (let mt = content_manifest v; sz = unat (vm_size (vendor mt)) in
     if vm_appid (vendor mt) \<noteq> sf_appid sf then INVALID_SIGNATURE_ERROR
     else if \<not> authentic sec hash sf mt then GENERIC_ERROR
     else if sz = 0 then MEMORY_READ_ERROR
     else if hash (block (unat (vm_offset (vendor mt))) (max sz bl) v) = vm_digest (vendor mt)
     then PULL_SUCCESS else VERIFICATION_FAILED_ERROR)"

lemma digest_matches_iff: "digest_matches h r n \<longleftrightarrow> (\<forall>i<n. h ! i = r ! i)"
  by (induction n) (auto simp: less_Suc_eq)

lemma digest_matches_eq: "length h = n \<Longrightarrow> length r = n \<Longrightarrow> digest_matches h r n \<longleftrightarrow> h = r"
  by (auto simp: digest_matches_iff list_eq_iff_nth_eq)

context digest_contract
begin

lemma verify_signature_iff:
  "verify_signature sec mt ks =
     Some (if vendor_signed sec hash ks mt \<and> server_signed sec hash mt then PULL_SUCCESS else GENERIC_ERROR)"
proof -
  obtain c1 c2 c3 where v: "digest_init sec (sec_ctx0 sec) = (PULL_SUCCESS, c1)"
    "digest_update sec c1 (vendor_bytes (vendor mt)) = (PULL_SUCCESS, c2)"
    "digest_finalize sec c2 = (Some (hash (vendor_bytes (vendor mt))), c3)"
    by (rule digest_once)
  obtain c4 c5 c6 where s: "digest_init sec c3 = (PULL_SUCCESS, c4)"
    "digest_update sec c4 (server_bytes (server mt)) = (PULL_SUCCESS, c5)"
    "digest_finalize sec c5 = (Some (hash (server_bytes (server mt))), c6)"
    by (rule digest_once)
  from v s show ?thesis
    by (simp add: verify_signature_def verify_signature_impl_def vendor_signed_def server_signed_def)
qed

lemma verify_manifest_iff:
  "verify_manifest sec mt sf =
     Some (if vm_appid (vendor mt) \<noteq> sf_appid sf then INVALID_SIGNATURE_ERROR
           else if authentic sec hash sf mt then PULL_SUCCESS else GENERIC_ERROR)"
  by (simp add: verify_manifest_def verify_signature_iff authentic_def)

end

section \<open>The digest of a memory object\<close>

locale verifier_contract =
  memory_contract m ids content opened indep avail cost oeff weff + digest_contract sec hash absorbed
  for m :: "('w, 'o) mem_iface" and ids content opened indep avail cost oeff weff
    and sec :: "'d sec_iface" and hash absorbed
begin

lemma verify_digest_step:
  assumes "opened obj i md w" and "absorbed ctx bs"
    and "off < F" and "off + st \<le> length (content i w)" and "off + 2 * st < 2 ^ 32" and "F < 2 ^ 32"
    and "st \<le> length buf" and "st < 65536"
  shows "\<exists>ctx1 w1. verify_digest_loop sec m obj (word_of_nat F) (word_of_nat off) (word_of_nat st) ctx buf w =
      verify_digest_loop sec m obj (word_of_nat F) (word_of_nat (off + st))
        (if off + st + st > F then word_of_nat F - word_of_nat (off + st) else word_of_nat st) ctx1
        (block off st (content i w) @ drop st buf) w1 \<and>
      absorbed ctx1 (bs @ block off st (content i w)) \<and> same w w1"
proof -
  have u: "unat (word_of_nat off :: u32) = off" "unat (word_of_nat st :: u32) = st"
    using assms(5) by (simp_all add: unat_word32)
  have "unat (word_of_nat off :: u32) + st \<le> length (content i w)" using assms(4) u by simp
  from memory_read_ok [OF assms(1) this assms(7,8)]
  obtain w1 where r: "memory_read m obj buf st (word_of_nat off) w =
      (st, block off st (content i w) @ drop st buf, w1)" and s: "same w w1"
    unfolding u by blast
  obtain ctx1 where d: "digest_update sec ctx (block off st (content i w)) = (PULL_SUCCESS, ctx1)"
    "absorbed ctx1 (bs @ block off st (content i w))"
    using update_ok [OF assms(2)] by blast
  have l: "take st (block off st (content i w) @ drop st buf) = block off st (content i w)"
    using assms(4) by simp
  have lt: "(word_of_nat off :: u32) < word_of_nat F"
    "(word_of_nat F < (word_of_nat (off + st) + word_of_nat st :: u32)) = (F < off + st + st)"
    using assms(3,5,6) by (simp_all only: word32_less of_nat_add [symmetric])
  from lt r d(1) l u(2)
  have "verify_digest_loop sec m obj (word_of_nat F) (word_of_nat off) (word_of_nat st) ctx buf w =
      verify_digest_loop sec m obj (word_of_nat F) (word_of_nat (off + st))
        (if off + st + st > F then word_of_nat F - word_of_nat (off + st) else word_of_nat st) ctx1
        (block off st (content i w) @ drop st buf) w1"
    by (simp add: verify_digest_loop.simps [of sec m obj "word_of_nat F" "word_of_nat off"] Let_def)
  with d(2) s show ?thesis by blast
qed

lemma verify_digest_done:
  "F \<le> off \<Longrightarrow> F < 2 ^ 32 \<Longrightarrow> off < 2 ^ 32 \<Longrightarrow>
   verify_digest_loop sec m obj (word_of_nat F) (word_of_nat off) st ctx buf w = Some (PULL_SUCCESS, ctx, buf, w)"
  by (simp add: verify_digest_loop.simps [of sec m obj "word_of_nat F" "word_of_nat off"] word32_less)

lemma verify_digest_loop_ok:
  assumes "opened obj i md w" and "absorbed ctx bs"
    and "off < F" and "N = max F (off + st)" and "N \<le> length (content i w)" and "N < 2 ^ 31"
    and "0 < st" and "st \<le> length buf" and "st < 65536"
  shows "\<exists>ctx1 buf1 w1. verify_digest_loop sec m obj (word_of_nat F) (word_of_nat off) (word_of_nat st) ctx buf w =
      Some (PULL_SUCCESS, ctx1, buf1, w1) \<and> absorbed ctx1 (bs @ block off (N - off) (content i w)) \<and>
      same w w1 \<and> length buf1 = length buf"
  using assms
proof (induction "F - off" arbitrary: off st N bs ctx buf w rule: less_induct)
  case less
  have rng: "off + st \<le> length (content i w)" "off + 2 * st < 2 ^ 32" "F < 2 ^ 32"
    using less.prems(4-6,9) by simp_all
  let ?b = "block off st (content i w) @ drop st buf"
  obtain ctx1 w1 where s: "verify_digest_loop sec m obj (word_of_nat F) (word_of_nat off) (word_of_nat st) ctx buf w =
      verify_digest_loop sec m obj (word_of_nat F) (word_of_nat (off + st))
        (if off + st + st > F then word_of_nat F - word_of_nat (off + st) else word_of_nat st) ctx1 ?b w1"
      "absorbed ctx1 (bs @ block off st (content i w))" "same w w1"
    using verify_digest_step [OF less.prems(1-3) rng less.prems(8,9)] by blast
  have lb: "length ?b = length buf" using rng(1) less.prems(8) by simp
  show ?case
  proof (cases "off + st < F")
    case False
    then have "N = off + st" using less.prems(4) by simp
    moreover have "F \<le> off + st" "off + st < 2 ^ 32" using False rng(2) by simp_all
    note verify_digest_done [OF this(1) rng(3) this(2)]
    ultimately show ?thesis unfolding s(1) using s(2,3) lb by simp
  next
    case True
    define st' where "st' = (if off + st + st > F then F - (off + st) else st)"
    have st': "0 < st'" "off + st + st' \<le> F" "st' \<le> st"
      using True less.prems(7) by (auto simp: st'_def)
    have "(word_of_nat F - word_of_nat (off + st) :: u32) = word_of_nat (F - (off + st))"
      using True by (simp only: of_nat_diff [OF less_imp_le])
    then have step: "(if off + st + st > F then word_of_nat F - word_of_nat (off + st) else word_of_nat st) =
        (word_of_nat st' :: u32)"
      by (simp add: st'_def)
    have NF: "N = F" using less.prems(4) True by simp
    have "\<exists>ctx2 buf2 w2. verify_digest_loop sec m obj (word_of_nat F) (word_of_nat (off + st)) (word_of_nat st') ctx1 ?b w1 =
        Some (PULL_SUCCESS, ctx2, buf2, w2) \<and>
        absorbed ctx2 ((bs @ block off st (content i w)) @ block (off + st) (F - (off + st)) (content i w1)) \<and>
        same w1 w2 \<and> length buf2 = length ?b"
    proof (rule less.hyps)
      show "F - (off + st) < F - off" using True less.prems(7) by simp
      show "opened obj i md w1" using less.prems(1) s(3) by (simp add: same_opened)
      show "F = max F (off + st + st')" using st'(2) by simp
      show "F \<le> length (content i w1)" using less.prems(5) NF s(3) by (simp add: same_content)
      show "F < 2 ^ 31" "st' \<le> length ?b" "st' < 65536" using less.prems(6,8,9) NF st'(3) lb by simp_all
    qed (fact s(2) True st'(1))+
    moreover have "block off st (content i w) @ block (off + st) (F - (off + st)) (content i w1) =
        block off (N - off) (content i w)"
      using True NF s(3) by (simp add: same_content block_append_block)
    ultimately show ?thesis
      unfolding s(1) step using s(3) lb by (auto intro: same_trans)
  qed
qed

text \<open>
  The bytes hashed are those of the firmware, or one whole buffer where the firmware is
  shorter than the buffer.
\<close>

lemma verify_digest_ok:
  assumes "opened obj i md w" and "wf_manifest mt"
    and "off = unat (vm_offset (vendor mt))" and "sz = unat (vm_size (vendor mt))" and "0 < sz"
    and "0 < length buf" and "length buf < 65536"
    and "off + max sz (length buf) \<le> length (content i w)" and "off + max sz (length buf) < 2 ^ 31"
  shows "\<exists>buf1 w1. verify_digest sec m obj mt buf w =
      Some (if hash (block off (max sz (length buf)) (content i w)) = vm_digest (vendor mt)
            then PULL_SUCCESS else VERIFICATION_FAILED_ERROR, buf1, w1) \<and>
      same w w1 \<and> length buf1 = length buf"
proof -
  have o: "vm_offset (vendor mt) = word_of_nat off" "vm_size (vendor mt) = word_of_nat sz"
    using assms(3,4) by simp_all
  have ne: "(word_of_nat off :: u32) \<noteq> word_of_nat (off + sz)"
    using assms(5,9) by (simp add: word32_eq del: of_nat_add)
  obtain c1 where c1: "digest_init sec (sec_ctx0 sec) = (PULL_SUCCESS, c1)" "absorbed c1 []"
    using init_ok by blast
  let ?N = "max (off + sz) (off + length buf)"
  have N: "?N - off = max sz (length buf)" "?N \<le> length (content i w)" "?N < 2 ^ 31" "off < off + sz"
    using assms(5,8,9) by (simp_all add: max_def split: if_splits)
  obtain c2 buf1 w1 where l: "verify_digest_loop sec m obj (word_of_nat (off + sz)) (word_of_nat off)
        (word_of_nat (length buf)) c1 buf w = Some (PULL_SUCCESS, c2, buf1, w1)"
    "absorbed c2 ([] @ block off (?N - off) (content i w))" "same w w1" "length buf1 = length buf"
    using verify_digest_loop_ok [OF assms(1) c1(2) N(4) refl N(2,3) assms(6) order_refl assms(7)] by blast
  obtain c3 where f: "digest_finalize sec c2 = (Some (hash (block off (max sz (length buf)) (content i w))), c3)"
    using finalize_ok [OF l(2)] N(1) by auto
  have "length (vm_digest (vendor mt)) = 32" using assms(2) by (simp add: wf_manifest_def wf_vendor_def)
  with f have "verify_digest sec m obj mt buf w =
      Some (if hash (block off (max sz (length buf)) (content i w)) = vm_digest (vendor mt)
            then PULL_SUCCESS else VERIFICATION_FAILED_ERROR, buf1, w1)"
    using c1(1) ne l(1) unfolding verify_digest_def Let_def o of_nat_add [symmetric]
    by (auto simp: size_ok hash_size digest_matches_eq)
  with l(3,4) show ?thesis by blast
qed

lemma verify_digest_empty:
  "vm_size (vendor mt) = 0 \<Longrightarrow> verify_digest sec m obj mt buf w = Some (MEMORY_READ_ERROR, buf, w)"
  using init_ok [of "sec_ctx0 sec"] by (auto simp: verify_digest_def)

lemma verify_object_ok:
  assumes "opened obj i md w" and "sizeof_manifest \<le> length (content i w)"
    and "off = unat (vm_offset (vendor (content_manifest (content i w))))"
    and "sz = unat (vm_size (vendor (content_manifest (content i w))))"
    and "0 < length buf" and "length buf < 65536"
    and "off + max sz (length buf) \<le> length (content i w)" and "off + max sz (length buf) < 2 ^ 31"
  shows "\<exists>buf1 w1. verify_object sec m obj sf buf w =
      Some (object_verdict sec hash sf (length buf) (content i w), buf1, w1) \<and>
      same w w1 \<and> length buf1 = length buf"
proof -
  let ?mt = "content_manifest (content i w)"
  obtain w1 where r: "read_firmware_manifest m obj zero_manifest w = (PULL_SUCCESS, ?mt, w1)" and s: "same w w1"
    using read_firmware_manifest_ok [OF assms(1,2) wf_zero_manifest] unfolding content_manifest_def by blast
  have wf: "wf_manifest ?mt" using assms(2) by (rule wf_content_manifest)
  have o1: "opened obj i md w1" and c1: "content i w1 = content i w"
    using assms(1) s by (simp_all add: same_opened same_content)
  show ?thesis
  proof (cases "authentic sec hash sf ?mt \<and> 0 < sz")
    case False
    then show ?thesis
      using r s assms(4) by (auto simp: verify_object_def verify_manifest_iff object_verdict_def Let_def
          verify_digest_empty unat_eq_zero)
  next
    case True
    obtain buf2 w2 where d: "verify_digest sec m obj ?mt buf w1 =
        Some (if hash (block off (max sz (length buf)) (content i w)) = vm_digest (vendor ?mt)
            then PULL_SUCCESS else VERIFICATION_FAILED_ERROR, buf2, w2)" "same w1 w2" "length buf2 = length buf"
      using verify_digest_ok [OF o1 wf assms(3,4) _ assms(5,6), unfolded c1, OF _ assms(7,8)] True by blast
    have "verify_object sec m obj sf buf w =
        Some (object_verdict sec hash sf (length buf) (content i w), buf2, w2)"
      using r d(1) True assms(3,4)
      by (auto simp: verify_object_def verify_manifest_iff object_verdict_def Let_def authentic_def)
    with d(2,3) s show ?thesis by (auto intro: same_trans)
  qed
qed

end

section \<open>Signing and verifying\<close>

text \<open>
  A signature scheme on top of the digest: \<open>keypair sk x y\<close> says that the private key \<open>sk\<close>
  belongs to the public key with coordinates \<open>x\<close> and \<open>y\<close>.
\<close>

locale signing_contract = digest_contract sec hash absorbed
  for sec :: "'d sec_iface" and hash absorbed +
  fixes keypair :: "byte list \<Rightarrow> byte list \<Rightarrow> byte list \<Rightarrow> bool"
  assumes curve_size: "get_curve_size sec = 32"
    and sign_ok: "\<lbrakk>keypair sk x y; length sb = 64; length h = 32\<rbrakk> \<Longrightarrow>
      \<exists>sig. ecc_sign sec sk sb h 32 = (PULL_SUCCESS, sig) \<and> length sig = 64 \<and>
        ecc_verify sec x y (take 32 sig) (drop 32 sig) h 32 = PULL_SUCCESS"
begin

lemma sign_data_ok:
  assumes "keypair sk x y" and "length sb = 64"
  obtains sig where "sign_data_impl sec d sk sb = Some (PULL_SUCCESS, sig)" and "length sig = 64"
    and "ecc_verify sec x y (take 32 sig) (drop 32 sig) (hash d) 32 = PULL_SUCCESS"
proof -
  obtain c1 c2 c3 where "digest_init sec (sec_ctx0 sec) = (PULL_SUCCESS, c1)"
    "digest_update sec c1 d = (PULL_SUCCESS, c2)" "digest_finalize sec c2 = (Some (hash d), c3)"
    by (rule digest_once)
  then show ?thesis
    using sign_ok [OF assms hash_size [of d]] that by (auto simp: sign_data_impl_def size_ok)
qed

lemma sign_manifest_vendor_ok:
  assumes "keypair sk (ks_x ks) (ks_y ks)" and "length sb = 64" and "wf_manifest mt"
  obtains mt' sb' where "sign_manifest_vendor sec mt sk sb = Some (PULL_SUCCESS, mt', sb')"
    and "vendor mt' = vendor mt" and "server mt' = server mt" and "vendor_signed sec hash ks mt'"
    and "server_signed sec hash mt' = server_signed sec hash mt" and "wf_manifest mt'" and "length sb' = 64"
proof -
  obtain sig where sig: "sign_data_impl sec (vendor_bytes (vendor mt)) sk sb = Some (PULL_SUCCESS, sig)"
    "length sig = 64"
    "ecc_verify sec (ks_x ks) (ks_y ks) (take 32 sig) (drop 32 sig) (hash (vendor_bytes (vendor mt))) 32 = PULL_SUCCESS"
    using assms(1,2) by (rule sign_data_ok)
  define mt' where "mt' = mt\<lparr>vendor_signature_r := take 32 sig, vendor_signature_s := drop 32 sig\<rparr>"
  have "length (vendor_signature_r mt) = 32" "length (vendor_signature_s mt) = 32"
    using assms(3) by (simp_all add: wf_manifest_def)
  with sig(1,2) have "sign_manifest_vendor sec mt sk sb = Some (PULL_SUCCESS, mt', sig)"
    by (simp add: sign_manifest_vendor_def sign_manifest_vendor_impl_def curve_size mt'_def Let_def
        set_vendor_signature_r_impl_def set_vendor_signature_s_impl_def splice_at_0)
  then show ?thesis
  proof (rule that)
    show "vendor_signed sec hash ks mt'" using sig(3) by (simp add: vendor_signed_def mt'_def size_ok)
    show "wf_manifest mt'" using assms(3) sig(2) by (simp add: wf_manifest_def mt'_def)
  qed (simp_all add: mt'_def server_signed_def sig(2))
qed

lemma sign_manifest_server_ok:
  assumes "keypair sk (vm_server_key_x (vendor mt)) (vm_server_key_y (vendor mt))"
    and "length sb = 64" and "wf_manifest mt"
  obtains mt' sb' where "sign_manifest_server sec mt sk sb = Some (PULL_SUCCESS, mt', sb')"
    and "vendor mt' = vendor mt" and "server mt' = server mt" and "server_signed sec hash mt'"
    and "\<And>ks. vendor_signed sec hash ks mt' = vendor_signed sec hash ks mt"
    and "wf_manifest mt'" and "length sb' = 64"
proof -
  obtain sig where sig: "sign_data_impl sec (server_bytes (server mt)) sk sb = Some (PULL_SUCCESS, sig)"
    "length sig = 64"
    "ecc_verify sec (vm_server_key_x (vendor mt)) (vm_server_key_y (vendor mt)) (take 32 sig) (drop 32 sig)
       (hash (server_bytes (server mt))) 32 = PULL_SUCCESS"
    using assms(1,2) by (rule sign_data_ok)
  define mt' where "mt' = mt\<lparr>server_signature_r := take 32 sig, server_signature_s := drop 32 sig\<rparr>"
  have "length (server_signature_r mt) = 32" "length (server_signature_s mt) = 32"
    using assms(3) by (simp_all add: wf_manifest_def)
  with sig(1,2) have "sign_manifest_server sec mt sk sb = Some (PULL_SUCCESS, mt', sig)"
    by (simp add: sign_manifest_server_def sign_manifest_server_impl_def curve_size mt'_def Let_def
        set_server_signature_r_impl_def set_server_signature_s_impl_def splice_at_0)
  then show ?thesis
  proof (rule that)
    show "server_signed sec hash mt'" using sig(3) by (simp add: server_signed_def mt'_def size_ok)
    show "wf_manifest mt'" using assms(3) sig(2) by (simp add: wf_manifest_def mt'_def)
  qed (simp_all add: mt'_def vendor_signed_def sig(2))
qed

text \<open>A manifest signed by the vendor and then by the server is accepted.\<close>

lemma sign_verify_roundtrip:
  assumes "keypair vsk (ks_x (keystore sf)) (ks_y (keystore sf))"
    and "keypair ssk (vm_server_key_x (vendor mt)) (vm_server_key_y (vendor mt))"
    and "length sb = 64" and "length sb' = 64" and "wf_manifest mt" and "vm_appid (vendor mt) = sf_appid sf"
  shows "\<exists>mt1 mt2 sb1 sb2. sign_manifest_vendor sec mt vsk sb = Some (PULL_SUCCESS, mt1, sb1) \<and>
      sign_manifest_server sec mt1 ssk sb' = Some (PULL_SUCCESS, mt2, sb2) \<and>
      vendor mt2 = vendor mt \<and> server mt2 = server mt \<and> verify_manifest sec mt2 sf = Some PULL_SUCCESS"
proof -
  obtain mt1 sb1 where 1: "sign_manifest_vendor sec mt vsk sb = Some (PULL_SUCCESS, mt1, sb1)"
    "vendor mt1 = vendor mt" "server mt1 = server mt" "vendor_signed sec hash (keystore sf) mt1" "wf_manifest mt1"
    by (rule sign_manifest_vendor_ok [OF assms(1,3,5)]) (rule that)
  obtain mt2 sb2 where 2: "sign_manifest_server sec mt1 ssk sb' = Some (PULL_SUCCESS, mt2, sb2)"
    "vendor mt2 = vendor mt" "server mt2 = server mt" "server_signed sec hash mt2"
    "vendor_signed sec hash (keystore sf) mt2"
    using sign_manifest_server_ok [OF assms(2) [folded 1(2)] assms(4) 1(5)] 1(2,3,4) by metis
  with assms(6) have "verify_manifest sec mt2 sf = Some PULL_SUCCESS"
    by (simp add: verify_manifest_iff authentic_def)
  with 1(1) 2(1,2,3) show ?thesis by blast
qed

end

text \<open>The TinyCrypt build, over an elliptic-curve library whose signatures verify.\<close>

locale tinycrypt_ecdsa = tinycrypt_sha lib hash st
  for lib :: "('t, 'a) tinycrypt_lib" and hash st +
  fixes keypair :: "byte list \<Rightarrow> byte list \<Rightarrow> byte list \<Rightarrow> bool"
  assumes keypair_length: "keypair sk x y \<Longrightarrow> length x = 32 \<and> length y = 32"
    and uECC_ok: "\<lbrakk>keypair sk x y; length sb = 64; length h = 32\<rbrakk> \<Longrightarrow>
      \<exists>sig. uECC_sign lib sk h 32 sb = (1, sig) \<and> length sig = 64 \<and> uECC_verify lib (x @ y) h 32 sig = 1"

sublocale tinycrypt_ecdsa \<subseteq> tinycrypt_sig: signing_contract "tinycrypt_iface lib c0" hash "\<lambda>c. st (sha_ctx c)" keypair
proof (unfold_locales, goal_cases)
  case 1
  show ?case by (simp add: tinycrypt_iface_def tinycrypt_get_curve_size_def)
next
  case (2 sk x y sb h)
  obtain sig where sig: "uECC_sign lib sk h 32 sb = (1, sig)" "length sig = 64"
    "uECC_verify lib (x @ y) h 32 sig = 1"
    using uECC_ok [OF 2] by blast
  have "take 32 sig @ take 32 (drop 32 sig) = sig"
    using sig(2) take_add [of 32 32 sig] by simp
  with sig keypair_length [OF 2(1)] show ?case
    by (intro exI [of _ sig])
      (simp add: tinycrypt_iface_def tinycrypt_ecc_sign_def tinycrypt_ecc_verify_def)
qed

definition demo_keypair :: "byte list \<Rightarrow> byte list \<Rightarrow> byte list \<Rightarrow> bool" where
  "demo_keypair sk x y \<longleftrightarrow> sk = x @ y \<and> length x = 32 \<and> length y = 32"

interpretation demo_sig: tinycrypt_ecdsa demo_tinycrypt demo_hash "(=)" demo_keypair
  by unfold_locales (auto simp: demo_keypair_def demo_tinycrypt_def demo_sign_def)

end
