(* ===== verification/Pipeline_Lzss.thy ===== *)
theory Pipeline_Lzss
  imports Pipeline_Buffer
begin

text \<open>
  The LZSS decompression stage (\<open>src/core/pipeline/lzss.c\<close>, \<open>include/libpull/pipeline/lzss.h\<close>).

  The code is a coroutine: \<open>pipelineReturn\<close> stores the source line in \<open>ctx->state\<close> and the next
  call jumps there. The four uses of the macro \<open>getbit\<close> are the four points where the
  function can wait for input, so a resume point is one of them or the start. The static
  variables of the function are the record \<open>lzss_static\<close>.
\<close>

definition EI :: nat where "EI = 10"

definition EJ :: nat where "EJ = 4"

definition lzss_N :: nat where "lzss_N = 2 ^ EI"

definition lzss_F :: nat where "lzss_F = 2 ^ EJ + 1"

lemmas lzss_consts = EI_def EJ_def lzss_N_def lzss_F_def

datatype lzss_point = LZ_BEGIN | LZ_FLAG | LZ_CHAR | LZ_POS | LZ_LEN

record lzss_static =
  lz_i :: nat
  lz_j :: nat
  lz_k :: nat
  lz_r :: nat
  lz_c :: nat
  lz_s :: nat
  lz_buffer :: "byte list"
  lz_b :: nat
  lz_mask :: nat

record lzss_ctx =
  lz_state :: lzss_point
  lz_finish :: bool
  lz_static :: lzss_static

definition pipeline_lzss_init :: "lzss_ctx \<Rightarrow> lzss_ctx" where
  "pipeline_lzss_init ctx = ctx\<lparr>lz_state := LZ_BEGIN, lz_finish := False\<rparr>"

section \<open>Reading bits\<close>

text \<open>
  The loop of \<open>getbit(n, x)\<close> from the values \<open>s\<close>, \<open>x\<close>, \<open>b\<close> and \<open>mask\<close>. It is \<open>Inl\<close> where the
  input ends inside the loop, with the values to resume from, and \<open>Inr\<close> with \<open>x\<close>, \<open>b\<close>, \<open>mask\<close> and
  the remaining input otherwise.
\<close>

function getbit :: "nat \<Rightarrow> nat \<Rightarrow> nat \<Rightarrow> nat \<Rightarrow> nat \<Rightarrow> byte list \<Rightarrow>
    (nat \<times> nat \<times> nat) + (nat \<times> nat \<times> nat \<times> byte list)" where
  "getbit n s x b msk bufp =
     (if s < n
      then if msk = 0
        then (case bufp of
            [] \<Rightarrow> Inl (s, x, b)
          | y # ys \<Rightarrow> getbit n (s + 1) (2 * x + (if and (unat y) 128 \<noteq> 0 then 1 else 0)) (unat y) (drop_bit 1 128) ys)
        else getbit n (s + 1) (2 * x + (if and b msk \<noteq> 0 then 1 else 0)) b (drop_bit 1 msk) bufp
      else Inr (x, b, msk, bufp))"
  by pat_completeness auto
termination
  by (relation "measure (\<lambda>(n, s, _). n - s)") auto

declare getbit.simps [simp del]

text \<open>How many bits can still be read.\<close>

fun mask_bits :: "nat \<Rightarrow> nat" where
  "mask_bits 0 = 0"
| "mask_bits (Suc m) = Suc (mask_bits (Suc m div 2))"

definition bits_left :: "nat \<Rightarrow> byte list \<Rightarrow> nat" where
  "bits_left msk bufp = mask_bits msk + 8 * length bufp"

lemma mask_bits_pos: "0 < msk \<Longrightarrow> mask_bits msk = Suc (mask_bits (msk div 2))"
  by (cases msk) simp_all

lemma mask_bits_64: "mask_bits 64 = 7"
  by (simp add: mask_bits_pos)

lemma getbit_bits:
  "getbit n s x b msk bufp = Inr (x', b', msk', bufp') \<Longrightarrow>
   bits_left msk bufp = bits_left msk' bufp' + (n - s)"
proof (induction n s x b msk bufp rule: getbit.induct)
  case (1 n s x b msk bufp)
  show ?case
  proof (cases "s < n")
    case False
    with 1(3) show ?thesis by (simp add: getbit.simps [of n s])
  next
    case True
    show ?thesis
    proof (cases "msk = 0")
      case False
      have "bits_left (drop_bit 1 msk) bufp = bits_left msk' bufp' + (n - (s + 1))"
        using 1(2) [OF True False] 1(3) True False by (simp add: getbit.simps [of n s])
      with True False show ?thesis by (simp add: bits_left_def mask_bits_pos drop_bit_Suc)
    next
      case m: True
      obtain y ys where y: "bufp = y # ys" using 1(3) True m by (cases bufp) (simp_all add: getbit.simps [of n s])
      have "bits_left (drop_bit 1 128) ys = bits_left msk' bufp' + (n - (s + 1))"
        using 1(1) [OF True m y] 1(3) True m y by (simp add: getbit.simps [of n s])
      with True m y show ?thesis by (simp add: bits_left_def mask_bits_64 drop_bit_Suc)
    qed
  qed
qed

section \<open>The decoder\<close>

text \<open>The statements before the main loop, up to the assignments of the first \<open>getbit\<close>.\<close>

definition lzss_begin :: "lzss_static \<Rightarrow> lzss_static" where
  "lzss_begin st = st\<lparr>lz_buffer := replicate (lzss_N - lzss_F) 32 @ drop (lzss_N - lzss_F) (lz_buffer st),
     lz_i := lzss_N - lzss_F, lz_mask := 0, lz_r := lzss_N - lzss_F, lz_c := 0, lz_s := 0\<rparr>"

text \<open>\<open>buffer[r++] = c; r &= (N - 1)\<close>\<close>

definition lzss_put :: "lzss_static \<Rightarrow> lzss_static" where
  "lzss_put st = st\<lparr>lz_buffer := (lz_buffer st)[lz_r st := word_of_nat (lz_c st)],
     lz_r := and (lz_r st + 1) (lzss_N - 1)\<rparr>"

text \<open>The copy loop, with \<open>n\<close> iterations left; the result of the next stage is ignored.\<close>

fun lzss_copy :: "'s stage \<Rightarrow> nat \<Rightarrow> lzss_static \<Rightarrow> 's \<Rightarrow> (lzss_static \<times> 's) option" where
  "lzss_copy next_stage 0 st s = Some (st, s)"
| "lzss_copy next_stage (Suc n) st s =
     (let c = unat (lz_buffer st ! and (lz_i st + lz_k st) (lzss_N - 1)) in
      Option.bind (next_stage [word_of_nat c] s) (\<lambda>(_, s').
        lzss_copy next_stage n ((lzss_put (st\<lparr>lz_c := c\<rparr>))\<lparr>lz_k := lz_k st + 1\<rparr>) s'))"

lemma lzss_put_mask [simp]: "lz_mask (lzss_put st) = lz_mask st"
  by (simp add: lzss_put_def)

lemma lzss_copy_mask: "lzss_copy nx n st s = Some (st', s') \<Longrightarrow> lz_mask st' = lz_mask st"
  by (induction nx n st s rule: lzss_copy.induct) (auto simp: Let_def split: bind_splits)

text \<open>
  Execution from a resume point. The result holds the point where the function waits, or
  no point where it has returned -1.
\<close>

definition lzss_need :: "lzss_point \<Rightarrow> nat" where
  "lzss_need p = (case p of LZ_BEGIN \<Rightarrow> 0 | LZ_FLAG \<Rightarrow> 1 | LZ_CHAR \<Rightarrow> 8 | LZ_POS \<Rightarrow> EI | LZ_LEN \<Rightarrow> EJ)"

function lzss_exec :: "'s stage \<Rightarrow> lzss_point \<Rightarrow> lzss_static \<Rightarrow> byte list \<Rightarrow> 's \<Rightarrow>
    (lzss_point option \<times> lzss_static \<times> 's) option" where
  "lzss_exec next_stage LZ_BEGIN st bufp s = lzss_exec next_stage LZ_FLAG (lzss_begin st) bufp s"
| "lzss_exec next_stage LZ_FLAG st bufp s =
     (case getbit 1 (lz_s st) (lz_c st) (lz_b st) (lz_mask st) bufp of
        Inl (n, x, b) \<Rightarrow> Some (Some LZ_FLAG, st\<lparr>lz_s := n, lz_c := x, lz_b := b, lz_mask := 0\<rparr>, s)
      | Inr (x, b, msk, rest) \<Rightarrow>
          if x \<noteq> 0
          then lzss_exec next_stage LZ_CHAR (st\<lparr>lz_c := 0, lz_s := 0, lz_b := b, lz_mask := msk\<rparr>) rest s
          else lzss_exec next_stage LZ_POS (st\<lparr>lz_c := x, lz_i := 0, lz_s := 0, lz_b := b, lz_mask := msk\<rparr>) rest s)"
| "lzss_exec next_stage LZ_CHAR st bufp s =
     (case getbit 8 (lz_s st) (lz_c st) (lz_b st) (lz_mask st) bufp of
        Inl (n, x, b) \<Rightarrow> Some (Some LZ_CHAR, st\<lparr>lz_s := n, lz_c := x, lz_b := b, lz_mask := 0\<rparr>, s)
      | Inr (x, b, msk, rest) \<Rightarrow>
          Option.bind (next_stage [word_of_nat x] s) (\<lambda>(ret, s').
            let st' = st\<lparr>lz_c := x, lz_s := 8, lz_b := b, lz_mask := msk\<rparr> in
            if ret < 0 then Some (None, st', s')
            else lzss_exec next_stage LZ_FLAG ((lzss_put st')\<lparr>lz_c := 0, lz_s := 0\<rparr>) rest s'))"
| "lzss_exec next_stage LZ_POS st bufp s =
     (case getbit EI (lz_s st) (lz_i st) (lz_b st) (lz_mask st) bufp of
        Inl (n, x, b) \<Rightarrow> Some (Some LZ_POS, st\<lparr>lz_s := n, lz_i := x, lz_b := b, lz_mask := 0\<rparr>, s)
      | Inr (x, b, msk, rest) \<Rightarrow>
          lzss_exec next_stage LZ_LEN (st\<lparr>lz_i := x, lz_j := 0, lz_s := 0, lz_b := b, lz_mask := msk\<rparr>) rest s)"
| "lzss_exec next_stage LZ_LEN st bufp s =
     (case getbit EJ (lz_s st) (lz_j st) (lz_b st) (lz_mask st) bufp of
        Inl (n, x, b) \<Rightarrow> Some (Some LZ_LEN, st\<lparr>lz_s := n, lz_j := x, lz_b := b, lz_mask := 0\<rparr>, s)
      | Inr (x, b, msk, rest) \<Rightarrow>
          Option.bind (lzss_copy next_stage (x + 2) (st\<lparr>lz_j := x, lz_k := 0, lz_s := EJ, lz_b := b, lz_mask := msk\<rparr>) s)
            (\<lambda>(st', s'). lzss_exec next_stage LZ_FLAG (st'\<lparr>lz_c := 0, lz_s := 0\<rparr>) rest s'))"
  by pat_completeness auto
termination
proof (relation "measure (\<lambda>(_, p, st, bufp, _). 2 * bits_left (lz_mask st) bufp +
    (if p = LZ_BEGIN \<or> lzss_need p \<le> lz_s st then 1 else 0))", goal_cases)
  case 1
  show ?case by simp
next
  case (2 nx st bufp s)
  show ?case by (simp add: lzss_begin_def lzss_need_def bits_left_def)
qed (auto dest!: getbit_bits lzss_copy_mask simp: lzss_need_def lzss_consts simp del: lzss_copy.simps)

definition lzss_pipeline :: "'s stage \<Rightarrow> (lzss_ctx \<times> 's) stage" where
  "lzss_pipeline next_stage buf cs =
     Option.bind (lzss_exec next_stage (lz_state (fst cs)) (lz_static (fst cs)) buf (snd cs)) (\<lambda>(p, st, s').
       case p of
         Some p' \<Rightarrow> Some (int (length buf), (fst cs)\<lparr>lz_state := p', lz_static := st\<rparr>, s')
       | None \<Rightarrow> Some (- 1, (fst cs)\<lparr>lz_static := st\<rparr>, s'))"

section \<open>The input may be cut anywhere\<close>

lemma getbit_append:
  "getbit n s x b msk (xs @ ys) =
     (case getbit n s x b msk xs of
        Inl (s', x', b') \<Rightarrow> getbit n s' x' b' 0 ys
      | Inr (x', b', msk', r) \<Rightarrow> Inr (x', b', msk', r @ ys))"
proof (induction n s x b msk xs rule: getbit.induct)
  case (1 n s x b msk xs)
  then show ?case
    by (cases "s < n"; cases "msk = 0"; cases xs) (simp_all add: getbit.simps [of n s x b])
qed

text \<open>Executing a block is executing its first part and resuming on the second.\<close>

definition lzss_resume :: "'s stage \<Rightarrow> byte list \<Rightarrow> lzss_point option \<times> lzss_static \<times> 's \<Rightarrow>
    (lzss_point option \<times> lzss_static \<times> 's) option" where
  "lzss_resume next_stage ys r =
     (case r of (None, st, s) \<Rightarrow> Some r | (Some p, st, s) \<Rightarrow> lzss_exec next_stage p st ys s)"

lemma lzss_exec_append:
  "lzss_exec next_stage p st (xs @ ys) s =
     Option.bind (lzss_exec next_stage p st xs s) (lzss_resume next_stage ys)"
proof (induction next_stage p st xs s rule: lzss_exec.induct)
  case (1 nx st xs s)
  then show ?case by simp
next
  case (2 nx st xs s)
  show ?case
  proof (cases "getbit 1 (lz_s st) (lz_c st) (lz_b st) (lz_mask st) xs")
    case (Inl a)
    then show ?thesis by (cases a) (simp add: getbit_append lzss_resume_def split: sum.splits prod.splits)
  next
    case (Inr a)
    then show ?thesis using 2 by (cases a) (simp add: getbit_append)
  qed
next
  case (3 nx st xs s)
  show ?case
  proof (cases "getbit 8 (lz_s st) (lz_c st) (lz_b st) (lz_mask st) xs")
    case (Inl a)
    then show ?thesis by (cases a) (simp add: getbit_append lzss_resume_def split: sum.splits prod.splits)
  next
    case (Inr a)
    obtain x b msk r where a: "a = (x, b, msk, r)" by (cases a)
    show ?thesis
      using Inr 3 [OF Inr [unfolded a] refl refl refl _ refl refl] unfolding a
      by (cases "nx [word_of_nat x] s") (auto simp: getbit_append lzss_resume_def Let_def)
  qed
next
  case (4 nx st xs s)
  show ?case
  proof (cases "getbit EI (lz_s st) (lz_i st) (lz_b st) (lz_mask st) xs")
    case (Inl a)
    then show ?thesis by (cases a) (simp add: getbit_append lzss_resume_def split: sum.splits prod.splits)
  next
    case (Inr a)
    then show ?thesis using 4 by (cases a) (simp add: getbit_append)
  qed
next
  case (5 nx st xs s)
  show ?case
  proof (cases "getbit EJ (lz_s st) (lz_j st) (lz_b st) (lz_mask st) xs")
    case (Inl a)
    then show ?thesis by (cases a) (simp add: getbit_append lzss_resume_def split: sum.splits prod.splits)
  next
    case (Inr a)
    obtain x b msk r where a: "a = (x, b, msk, r)" by (cases a)
    show ?thesis
      using Inr 5 [OF Inr [unfolded a] refl refl refl] unfolding a
      by (cases "lzss_copy nx (x + 2) (st\<lparr>lz_j := x, lz_k := 0, lz_s := EJ, lz_b := b, lz_mask := msk\<rparr>) s")
        (auto simp: getbit_append lzss_resume_def simp del: lzss_copy.simps)
  qed
qed

section \<open>The bits of the input\<close>

text \<open>The bits of \<open>b\<close> from the position of \<open>mask\<close> down, and the bits of a whole input.\<close>

fun pend :: "nat \<Rightarrow> nat \<Rightarrow> bool list" where
  "pend b 0 = []"
| "pend b (Suc m) = (and b (Suc m) \<noteq> 0) # pend b (Suc m div 2)"

definition bits_of :: "byte list \<Rightarrow> bool list" where
  "bits_of bs = concat (map (\<lambda>y. pend (unat y) 128) bs)"

definition bitstream :: "nat \<Rightarrow> nat \<Rightarrow> byte list \<Rightarrow> bool list" where
  "bitstream b msk bufp = pend b msk @ bits_of bufp"

definition acc :: "nat \<Rightarrow> bool list \<Rightarrow> nat" where
  "acc x bits = foldl (\<lambda>x c. 2 * x + (if c then 1 else 0)) x bits"

lemma acc_simps [simp]: "acc x [] = x" "acc x (c # cs) = acc (2 * x + (if c then 1 else 0)) cs"
  by (simp_all add: acc_def)

lemma pend_pos: "msk \<noteq> 0 \<Longrightarrow> pend b msk = (and b msk \<noteq> 0) # pend b (drop_bit 1 msk)"
  by (cases msk) (simp_all add: drop_bit_Suc)

lemma bits_of_Cons: "bits_of (y # ys) = pend (unat y) 128 @ bits_of ys"
  by (simp add: bits_of_def)

lemma getbit_Inr:
  "n - s \<le> length (bitstream b msk bufp) \<Longrightarrow>
   \<exists>b' msk' r. getbit n s x b msk bufp = Inr (acc x (take (n - s) (bitstream b msk bufp)), b', msk', r) \<and>
     bitstream b' msk' r = drop (n - s) (bitstream b msk bufp)"
proof (induction n s x b msk bufp rule: getbit.induct)
  case (1 n s x b msk bufp)
  consider "\<not> s < n" | "s < n" "msk \<noteq> 0" | "s < n" "msk = 0" by blast
  then show ?case
  proof cases
    case 1
    then show ?thesis by (simp add: getbit.simps [of n s x b])
  next
    case 2
    then have str: "bitstream b msk bufp = (and b msk \<noteq> 0) # bitstream b (drop_bit 1 msk) bufp"
      and n: "n - s = Suc (n - (s + 1))"
      by (simp_all add: bitstream_def pend_pos)
    have "n - (s + 1) \<le> length (bitstream b (drop_bit 1 msk) bufp)" using 1(3) str n by simp
    from 1(2) [OF 2 this] show ?thesis
      using 2 unfolding str n by (simp add: getbit.simps [of n s x b])
  next
    case 3
    obtain y ys where y: "bufp = y # ys" using 1(3) 3 by (cases bufp) (simp_all add: bitstream_def bits_of_def)
    have str: "bitstream b msk bufp = (and (unat y) 128 \<noteq> 0) # bitstream (unat y) (drop_bit 1 128) ys"
      and n: "n - s = Suc (n - (s + 1))"
      using 3 y by (simp_all add: bitstream_def bits_of_Cons pend_pos)
    have "n - (s + 1) \<le> length (bitstream (unat y) (drop_bit 1 128) ys)" using 1(3) str n by simp
    from 1(1) [OF 3 y this] show ?thesis
      using 3 y unfolding str n by (simp add: getbit.simps [of n s x b])
  qed
qed

lemma getbit_Inl:
  "length (bitstream b msk bufp) < n - s \<Longrightarrow> \<exists>r. getbit n s x b msk bufp = Inl r"
proof (induction n s x b msk bufp rule: getbit.induct)
  case (1 n s x b msk bufp)
  have s: "s < n" using 1(3) by simp
  show ?case
  proof (cases "msk = 0")
    case False
    then have "length (bitstream b (drop_bit 1 msk) bufp) < n - (s + 1)"
      using 1(3) by (simp add: bitstream_def pend_pos)
    with 1(2) [OF s False] s False show ?thesis by (simp add: getbit.simps [of n s x b])
  next
    case True
    show ?thesis
    proof (cases bufp)
      case Nil
      with s True show ?thesis by (simp add: getbit.simps [of n s x b])
    next
      case (Cons y ys)
      then have "length (bitstream (unat y) (drop_bit 1 128) ys) < n - (s + 1)"
        using 1(3) True by (simp add: bitstream_def bits_of_Cons pend_pos)
      with 1(1) [OF s True Cons] s True Cons show ?thesis by (simp add: getbit.simps [of n s x b])
    qed
  qed
qed

section \<open>The format\<close>

text \<open>
  A compressed stream is a sequence of tokens: a literal byte, or a reference to a position
  of the window (10 bits) with a length code (4 bits, two less than the length).
\<close>

datatype lz_token = Lit byte | Ref nat nat

fun nat_bits :: "nat \<Rightarrow> nat \<Rightarrow> bool list" where
  "nat_bits 0 v = []"
| "nat_bits (Suc n) v = (v div 2 ^ n mod 2 = 1) # nat_bits n v"

fun token_bits :: "lz_token \<Rightarrow> bool list" where
  "token_bits (Lit c) = True # nat_bits 8 (unat c)"
| "token_bits (Ref i j) = False # nat_bits EI i @ nat_bits EJ j"

definition lzss_encode :: "lz_token list \<Rightarrow> bool list" where
  "lzss_encode ts = concat (map token_bits ts)"

text \<open>
  What a stream stands for, as a function of the history \<open>h\<close>: the bytes produced so far after
  the \<open>N - F\<close> initial blanks. A window position names the last byte of the history at an
  index that is equal to it modulo \<open>N\<close>; a stream that refers to a position before the start of the history
  stands for nothing.
\<close>

definition last_at :: "byte list \<Rightarrow> nat \<Rightarrow> nat" where
  "last_at h p = length h - 1 - (length h - 1 - p) mod lzss_N"

fun expand_ref :: "nat \<Rightarrow> nat \<Rightarrow> byte list \<Rightarrow> byte list option" where
  "expand_ref 0 p h = Some h"
| "expand_ref (Suc n) p h =
     (if p mod lzss_N < length h then expand_ref n (p + 1) (h @ [h ! last_at h (p mod lzss_N)]) else None)"

fun lzss_expand :: "lz_token list \<Rightarrow> byte list \<Rightarrow> byte list option" where
  "lzss_expand [] h = Some h"
| "lzss_expand (Lit c # ts) h = lzss_expand ts (h @ [c])"
| "lzss_expand (Ref i j # ts) h =
     (if i < lzss_N \<and> j < 2 ^ EJ then Option.bind (expand_ref (j + 2) i h) (lzss_expand ts) else None)"

definition blanks :: "byte list" where
  "blanks = replicate (lzss_N - lzss_F) 32"

lemma expand_ref_length: "expand_ref n p h = Some h' \<Longrightarrow> length h' = length h + n"
  by (induction n p h rule: expand_ref.induct) (auto split: if_splits)

lemma expand_ref_prefix: "expand_ref n p h = Some h' \<Longrightarrow> \<exists>t. h' = h @ t"
  by (induction n p h rule: expand_ref.induct) (auto split: if_splits)

lemma lzss_expand_prefix: "lzss_expand ts h = Some h' \<Longrightarrow> \<exists>t. h' = h @ t"
  by (induction ts h rule: lzss_expand.induct)
    (auto split: if_splits bind_splits dest: expand_ref_prefix simp del: expand_ref.simps)

lemma length_nat_bits [simp]: "length (nat_bits n v) = n"
  by (induction n) simp_all

lemma acc_nat_bits: "acc x (nat_bits n v) = x * 2 ^ n + v mod 2 ^ n"
proof (induction n arbitrary: x)
  case 0
  show ?case by simp
next
  case (Suc n)
  have "v mod 2 ^ Suc n = 2 ^ n * (v div 2 ^ n mod 2) + v mod 2 ^ n"
    using mod_mult2_eq [of v "2 ^ n" 2] by (simp add: mult.commute)
  with Suc.IH show ?case by (auto simp: algebra_simps)
qed

lemma nat_bits_val: "v < 2 ^ n \<Longrightarrow> acc 0 (nat_bits n v) = v"
  by (simp add: acc_nat_bits)

section \<open>The decoder produces what the stream stands for\<close>

text \<open>
  The window holds the last \<open>N\<close> bytes of the history, each at its index modulo \<open>N\<close>, and \<open>r\<close> is
  the place of the next byte.
\<close>

definition window :: "byte list \<Rightarrow> lzss_static \<Rightarrow> bool" where
  "window h st \<longleftrightarrow> h \<noteq> [] \<and> lzss_N \<le> length (lz_buffer st) \<and> lz_r st = length h mod lzss_N \<and>
     (\<forall>t<length h. length h \<le> t + lzss_N \<longrightarrow> lz_buffer st ! (t mod lzss_N) = h ! t)"

lemma and_lzss_N: "and a (lzss_N - 1) = a mod lzss_N"
  using take_bit_eq_mask [of EI a] by (simp add: lzss_N_def take_bit_eq_mod mask_eq_exp_minus_1)

lemma and_lzss_N': "and a (lzss_N - Suc 0) = a mod lzss_N"
  using and_lzss_N by simp

lemma window_put:
  assumes "window h st" and "lz_c st = unat c"
  shows "window (h @ [c]) (lzss_put st)"
proof -
  have N: "0 < lzss_N" by (simp add: lzss_consts)
  have r: "lz_r st = length h mod lzss_N" "lz_r st < length (lz_buffer st)"
    using assms(1) N by (auto simp: window_def intro: less_le_trans [OF mod_less_divisor])
  have "(lz_buffer st)[lz_r st := c] ! (t mod lzss_N) = (h @ [c]) ! t"
    if t: "t < length (h @ [c])" "length (h @ [c]) \<le> t + lzss_N" for t
  proof (cases "t = length h")
    case True
    with r show ?thesis by simp
  next
    case False
    then have th: "t < length h" using t by simp
    have "t mod lzss_N \<noteq> length h mod lzss_N"
    proof
      assume "t mod lzss_N = length h mod lzss_N"
      then have "lzss_N dvd length h - t" using th by (metis less_imp_le mod_eq_dvd_iff_nat)
      then have "lzss_N \<le> length h - t" using th by (simp add: dvd_imp_le)
      with t show False by simp
    qed
    moreover have "lz_buffer st ! (t mod lzss_N) = h ! t"
      using assms(1) th t(2) by (simp add: window_def)
    ultimately show ?thesis using th r(1) by (simp add: nth_append)
  qed
  then show ?thesis
    using assms r(1) unfolding window_def lzss_put_def
    by (simp add: and_lzss_N' mod_Suc_eq)
qed

lemma window_read:
  assumes "window h st" and "p mod lzss_N < length h"
  shows "lz_buffer st ! and p (lzss_N - 1) = h ! last_at h (p mod lzss_N)"
proof -
  let ?q = "p mod lzss_N"
  define L where "L = length h - 1"
  define e where "e = (L - ?q) mod lzss_N"
  define t where "t = L - e"
  have q: "?q \<le> L" and L: "Suc L = length h" using assms(2) by (simp_all add: L_def)
  have e: "e < lzss_N" "e \<le> L - ?q" by (simp_all add: e_def lzss_consts)
  have tq: "?q \<le> t" "t < length h" "length h \<le> t + lzss_N"
    using e q L unfolding t_def by simp_all
  have "t - ?q = (L - ?q) - e" using e(2) q unfolding t_def by simp
  then have "lzss_N dvd t - ?q" by (simp add: e_def minus_mod_eq_mult_div)
  then have "t mod lzss_N = ?q" using tq(1) by (metis mod_eq_dvd_iff_nat mod_mod_trivial)
  moreover have "lz_buffer st ! (t mod lzss_N) = h ! t" using tq assms(1) by (simp add: window_def)
  moreover have "last_at h ?q = t" by (simp add: last_at_def t_def e_def L_def)
  ultimately show ?thesis unfolding and_lzss_N by simp
qed

context sink
begin

lemma lzss_copy_ok:
  assumes "expand_ref n (lz_i st + lz_k st) h = Some h'" and "window h st"
    and "holds out s" and "length out + n \<le> cap" and "0 < lim"
  shows "\<exists>st' s'. lzss_copy next_stage n st s = Some (st', s') \<and> window h' st' \<and>
    lz_b st' = lz_b st \<and> lz_mask st' = lz_mask st \<and>
    length h' = length h + n \<and> take (length h) h' = h \<and> holds (out @ drop (length h) h') s'"
  using assms
proof (induction n arbitrary: st h out s)
  case 0
  then show ?case by simp
next
  case (Suc n)
  let ?p = "lz_i st + lz_k st"
  define c where "c = h ! last_at h (?p mod lzss_N)"
  have p: "?p mod lzss_N < length h" and e: "expand_ref n (?p + 1) (h @ [c]) = Some h'"
    using Suc.prems(1) by (simp_all add: c_def split: if_splits)
  have rd: "lz_buffer st ! and ?p (lzss_N - 1) = c"
    unfolding c_def using Suc.prems(2) p by (rule window_read)
  define st1 where "st1 = (lzss_put (st\<lparr>lz_c := unat c\<rparr>))\<lparr>lz_k := lz_k st + 1\<rparr>"
  have "window (h @ [c]) (lzss_put (st\<lparr>lz_c := unat c\<rparr>))"
    by (rule window_put) (use Suc.prems(2) in \<open>simp_all add: window_def\<close>)
  then have w1: "window (h @ [c]) st1" by (simp add: window_def st1_def)
  obtain s1 where s1: "next_stage [c] s = Some (1, s1)" "holds (out @ [c]) s1"
    using next_ok [OF Suc.prems(3), of "[c]"] Suc.prems(4,5) by auto
  have i1: "expand_ref n (lz_i st1 + lz_k st1) (h @ [c]) = Some h'"
    using e by (simp add: st1_def lzss_put_def)
  obtain st2 s2 where r: "lzss_copy next_stage n st1 s1 = Some (st2, s2)" "window h' st2"
    "lz_b st2 = lz_b st1" "lz_mask st2 = lz_mask st1"
    "length h' = length (h @ [c]) + n" "take (length (h @ [c])) h' = h @ [c]"
    "holds ((out @ [c]) @ drop (length (h @ [c])) h') s2"
    using Suc.IH [OF i1 w1 s1(2)] Suc.prems(4,5) by auto
  have "h' = (h @ [c]) @ drop (length (h @ [c])) h'" using r(6) by (metis append_take_drop_id)
  then have d: "drop (length h) h' = c # drop (length (h @ [c])) h'" "take (length h) h' = h"
    by (metis append.assoc append_Cons append_Nil append_eq_conv_conj)+
  have "lzss_copy next_stage (Suc n) st s = lzss_copy next_stage n st1 s1"
    using s1(1) rd by (simp add: st1_def Let_def)
  then show ?case
    using r d by (simp add: st1_def lzss_put_def)
qed

text \<open>One token read from the input, and the input that ends inside a token.\<close>

definition at_flag :: "lzss_static \<Rightarrow> byte list \<Rightarrow> bool list \<Rightarrow> bool" where
  "at_flag st bufp bits \<longleftrightarrow> lz_s st = 0 \<and> lz_c st = 0 \<and> bitstream (lz_b st) (lz_mask st) bufp = bits"

lemma read_bits:
  assumes "bitstream b msk bufp = bits @ rest" and "length bits = n"
  obtains b' msk' r where "getbit n 0 0 b msk bufp = Inr (acc 0 bits, b', msk', r)" and "bitstream b' msk' r = rest"
  using getbit_Inr [of n 0 b msk bufp 0] assms by auto

lemma exec_end:
  assumes "at_flag st bufp pad" and "length pad < 8"
  shows "\<exists>p st'. lzss_exec next_stage LZ_FLAG st bufp s = Some (Some p, st', s)"
proof (cases pad)
  case Nil
  then obtain r where "getbit 1 0 0 (lz_b st) (lz_mask st) bufp = Inl r"
    using assms getbit_Inl [of "lz_b st" "lz_mask st" bufp 1 0 0] by (auto simp: at_flag_def)
  with assms(1) show ?thesis by (cases r) (simp add: at_flag_def)
next
  case (Cons c cs)
  have "bitstream (lz_b st) (lz_mask st) bufp = [c] @ cs" using assms(1) Cons by (simp add: at_flag_def)
  then obtain b msk r where g: "getbit 1 0 0 (lz_b st) (lz_mask st) bufp = Inr (acc 0 [c], b, msk, r)"
    and bs: "bitstream b msk r = cs"
    by (rule read_bits) simp_all
  obtain a where a: "getbit 8 0 0 b msk r = Inl a" using getbit_Inl [of b msk r 8 0 0] bs assms(2) Cons by auto
  obtain a' where a': "getbit EI 0 0 b msk r = Inl a'"
    using getbit_Inl [of b msk r EI 0 0] bs assms(2) Cons by (auto simp: lzss_consts)
  show ?thesis using g a a' assms(1) by (cases a; cases a'; cases c) (simp_all add: at_flag_def)
qed

lemma exec_literal:
  assumes "at_flag st bufp (token_bits (Lit c) @ bits)" and "window h st" and "holds out s"
    and "length out < cap" and "0 < lim"
  shows "\<exists>st' r s'. lzss_exec next_stage LZ_FLAG st bufp s = lzss_exec next_stage LZ_FLAG st' r s' \<and>
    at_flag st' r bits \<and> window (h @ [c]) st' \<and> holds (out @ [c]) s'"
proof -
  have "bitstream (lz_b st) (lz_mask st) bufp = [True] @ nat_bits 8 (unat c) @ bits"
    using assms(1) by (simp add: at_flag_def)
  then obtain b msk r where g: "getbit 1 0 0 (lz_b st) (lz_mask st) bufp = Inr (acc 0 [True], b, msk, r)"
    and bs: "bitstream b msk r = nat_bits 8 (unat c) @ bits"
    by (rule read_bits) simp_all
  have v: "acc 0 (nat_bits 8 (unat c)) = unat c"
    using unsigned_less [of c] by (intro nat_bits_val) simp
  obtain b' msk' r' where g': "getbit 8 0 0 b msk r = Inr (unat c, b', msk', r')"
    and bs': "bitstream b' msk' r' = bits"
    by (rule read_bits [OF bs, of 8]) (simp_all add: v)
  obtain s1 where s1: "next_stage [c] s = Some (1, s1)" "holds (out @ [c]) s1"
    using next_ok [OF assms(3), of "[c]"] assms(4,5) by auto
  define st1 where "st1 = st\<lparr>lz_c := unat c, lz_s := 8, lz_b := b', lz_mask := msk'\<rparr>"
  have "window (h @ [c]) (lzss_put st1)"
    by (rule window_put) (use assms(2) in \<open>simp_all add: window_def st1_def\<close>)
  then have "window (h @ [c]) ((lzss_put st1)\<lparr>lz_c := 0, lz_s := 0\<rparr>)" by (simp add: window_def)
  moreover have "at_flag ((lzss_put st1)\<lparr>lz_c := 0, lz_s := 0\<rparr>) r' bits"
    using bs' by (simp add: at_flag_def lzss_put_def st1_def)
  moreover have "lzss_exec next_stage LZ_FLAG st bufp s =
      lzss_exec next_stage LZ_FLAG ((lzss_put st1)\<lparr>lz_c := 0, lz_s := 0\<rparr>) r' s1"
    using g g' s1(1) assms(1) by (simp add: at_flag_def Let_def st1_def)
  ultimately show ?thesis using s1(2) by blast
qed

lemma exec_reference:
  assumes "at_flag st bufp (token_bits (Ref i j) @ bits)" and "window h st" and "holds out s"
    and "i < lzss_N" and "j < 2 ^ EJ" and "expand_ref (j + 2) i h = Some h'"
    and "length out + (length h' - length h) \<le> cap" and "0 < lim"
  shows "\<exists>st' r s'. lzss_exec next_stage LZ_FLAG st bufp s = lzss_exec next_stage LZ_FLAG st' r s' \<and>
    at_flag st' r bits \<and> window h' st' \<and> holds (out @ drop (length h) h') s' \<and> take (length h) h' = h"
proof -
  have "bitstream (lz_b st) (lz_mask st) bufp = [False] @ nat_bits EI i @ nat_bits EJ j @ bits"
    using assms(1) by (simp add: at_flag_def)
  then obtain b1 msk1 r1 where g1: "getbit 1 0 0 (lz_b st) (lz_mask st) bufp = Inr (acc 0 [False], b1, msk1, r1)"
    and bs1: "bitstream b1 msk1 r1 = nat_bits EI i @ nat_bits EJ j @ bits"
    by (rule read_bits) simp_all
  have v: "acc 0 (nat_bits EI i) = i" "acc 0 (nat_bits EJ j) = j"
    using assms(4,5) by (simp_all add: nat_bits_val lzss_N_def)
  obtain b2 msk2 r2 where g2: "getbit EI 0 0 b1 msk1 r1 = Inr (i, b2, msk2, r2)"
    and bs2: "bitstream b2 msk2 r2 = nat_bits EJ j @ bits"
    by (rule read_bits [OF bs1, of EI]) (simp_all add: v)
  obtain b3 msk3 r3 where g3: "getbit EJ 0 0 b2 msk2 r2 = Inr (j, b3, msk3, r3)"
    and bs3: "bitstream b3 msk3 r3 = bits"
    by (rule read_bits [OF bs2, of EJ]) (simp_all add: v)
  define st1 where "st1 = st\<lparr>lz_c := 0, lz_i := i, lz_j := j, lz_k := 0, lz_s := EJ, lz_b := b3, lz_mask := msk3\<rparr>"
  have e: "expand_ref (j + 2) (lz_i st1 + lz_k st1) h = Some h'" using assms(6) by (simp add: st1_def)
  have w: "window h st1" using assms(2) by (simp add: window_def st1_def)
  have "length h' = length h + (j + 2)"
    using assms(6) by (rule expand_ref_length)
  then have "length out + (j + 2) \<le> cap" using assms(7) by simp
  from lzss_copy_ok [OF e w assms(3) this assms(8)]
  obtain st2 s2 where c: "lzss_copy next_stage (j + 2) st1 s = Some (st2, s2)" "window h' st2"
    "lz_b st2 = b3" "lz_mask st2 = msk3" "take (length h) h' = h" "holds (out @ drop (length h) h') s2"
    by (auto simp: st1_def)
  have "lzss_exec next_stage LZ_FLAG st bufp s =
      lzss_exec next_stage LZ_FLAG (st2\<lparr>lz_c := 0, lz_s := 0\<rparr>) r3 s2"
    using g1 g2 g3 c(1) assms(1) by (simp add: at_flag_def st1_def del: lzss_copy.simps)
  moreover have "at_flag (st2\<lparr>lz_c := 0, lz_s := 0\<rparr>) r3 bits" using bs3 c(3,4) by (simp add: at_flag_def)
  moreover have "window h' (st2\<lparr>lz_c := 0, lz_s := 0\<rparr>)" using c(2) by (simp add: window_def)
  ultimately show ?thesis using c(5,6) by blast
qed

lemma lzss_tokens_ok:
  assumes "lzss_expand ts h = Some h'" and "at_flag st bufp (lzss_encode ts @ pad)" and "length pad < 8"
    and "window h st" and "holds out s" and "length out + (length h' - length h) \<le> cap" and "0 < lim"
  shows "\<exists>p st' s'. lzss_exec next_stage LZ_FLAG st bufp s = Some (Some p, st', s') \<and>
    holds (out @ drop (length h) h') s'"
  using assms
proof (induction ts h arbitrary: st bufp out s rule: lzss_expand.induct)
  case (1 h)
  then have "at_flag st bufp pad" by (simp add: lzss_encode_def)
  from exec_end [OF this 1(3), of s] 1(1,5) show ?case by (auto simp del: lzss_exec.simps)
next
  case (2 c ts h)
  obtain t where t: "h' = (h @ [c]) @ t" using lzss_expand_prefix 2(2) by fastforce
  have "at_flag st bufp (token_bits (Lit c) @ (lzss_encode ts @ pad))"
    using 2(3) by (simp add: lzss_encode_def)
  moreover have "length out < cap" using 2(7) t by simp
  ultimately obtain st' r s' where s: "lzss_exec next_stage LZ_FLAG st bufp s = lzss_exec next_stage LZ_FLAG st' r s'"
    "at_flag st' r (lzss_encode ts @ pad)" "window (h @ [c]) st'" "holds (out @ [c]) s'"
    using exec_literal [OF _ 2(5,6) _ 2(8)] by blast
  from 2(1) [OF _ s(2) 2(4) s(3,4) _ 2(8)] 2(2,7) t show ?case
    unfolding s(1) by (auto simp del: lzss_exec.simps)
next
  case (3 i j ts h)
  then obtain h1 where h1: "i < lzss_N" "j < 2 ^ EJ" "expand_ref (j + 2) i h = Some h1" "lzss_expand ts h1 = Some h'"
    by (auto split: if_splits bind_splits simp del: expand_ref.simps)
  obtain t where t: "h1 = h @ t" using expand_ref_prefix h1(3) by blast
  obtain t' where t': "h' = h1 @ t'" using lzss_expand_prefix h1(4) by blast
  have "at_flag st bufp (token_bits (Ref i j) @ (lzss_encode ts @ pad))"
    using 3(3) by (simp add: lzss_encode_def)
  moreover have "length out + (length h1 - length h) \<le> cap" using 3(7) t t' by simp
  ultimately obtain st' r s' where s: "lzss_exec next_stage LZ_FLAG st bufp s = lzss_exec next_stage LZ_FLAG st' r s'"
    "at_flag st' r (lzss_encode ts @ pad)" "window h1 st'" "holds (out @ drop (length h) h1) s'"
    using exec_reference [OF _ 3(5,6) h1(1,2,3) _ 3(8)] by blast
  have "length (out @ drop (length h) h1) + (length h' - length h1) \<le> cap" using 3(7) t t' by simp
  from 3(1) [OF conjI [OF h1(1,2)] h1(3,4) s(2) 3(4) s(3,4) this 3(8)] show ?case
    unfolding s(1) using t t' by (auto simp del: lzss_exec.simps)
qed

lemma window_begin: "lzss_N \<le> length (lz_buffer st) \<Longrightarrow> window blanks (lzss_begin st)"
  by (auto simp: window_def blanks_def lzss_begin_def lzss_consts nth_append)

end

lemma lzss_feed:
  assumes "cs \<noteq> []" and "lzss_exec nx (lz_state ctx) (lz_static ctx) (concat cs) s = Some (Some p, st, s')"
  shows "feed (lzss_pipeline nx) cs (ctx, s) = Some (ctx\<lparr>lz_state := p, lz_static := st\<rparr>, s')"
  using assms
proof (induction cs arbitrary: ctx s rule: list_nonempty_induct)
  case (single c)
  then show ?case by (simp add: lzss_pipeline_def)
next
  case (cons c cs)
  from cons.prems obtain p1 st1 s1 where
    1: "lzss_exec nx (lz_state ctx) (lz_static ctx) c s = Some (Some p1, st1, s1)"
    and 2: "lzss_exec nx p1 st1 (concat cs) s1 = Some (Some p, st, s')"
    by (auto simp: lzss_exec_append lzss_resume_def split: bind_splits option.splits)
  from 1 cons.IH [of "ctx\<lparr>lz_state := p1, lz_static := st1\<rparr>" s1] 2 show ?case
    by (simp add: lzss_pipeline_def)
qed

context sink
begin

text \<open>
  However the compressed input is cut into blocks, the next stage receives what the stream
  stands for.
\<close>

lemma lzss_decodes:
  assumes "lzss_expand ts blanks = Some (blanks @ data)" and "bits_of (concat cs) = lzss_encode ts @ pad"
    and "length pad < 8" and "cs \<noteq> []" and "lz_state ctx = LZ_BEGIN" and "lzss_N \<le> length (lz_buffer (lz_static ctx))"
    and "holds out s" and "length out + length data \<le> cap" and "0 < lim"
  shows "\<exists>ctx' s'. feed (lzss_pipeline next_stage) cs (ctx, s) = Some (ctx', s') \<and> holds (out @ data) s'"
proof -
  let ?st = "lzss_begin (lz_static ctx)"
  have "at_flag ?st (concat cs) (lzss_encode ts @ pad)"
    using assms(2) by (simp add: at_flag_def lzss_begin_def bitstream_def)
  from lzss_tokens_ok [OF assms(1) this assms(3) window_begin [OF assms(6)] assms(7) _ assms(9)] assms(8)
  obtain p st' s' where "lzss_exec next_stage LZ_FLAG ?st (concat cs) s = Some (Some p, st', s')"
    "holds (out @ data) s'"
    by auto
  moreover have "lzss_exec next_stage (lz_state ctx) (lz_static ctx) (concat cs) s =
      lzss_exec next_stage LZ_FLAG ?st (concat cs) s"
    using assms(5) by simp
  ultimately show ?thesis using lzss_feed [OF assms(4)] by metis
qed

end

end
