(* ===== verification/Pipeline_Bspatch.thy ===== *)
theory Pipeline_Bspatch
  imports Pipeline_Buffer
begin

text \<open>
  The patch stage (\<open>src/core/pipeline/bspatch.c\<close>, \<open>include/libpull/pipeline/bspatch.h\<close>).

  The function is a coroutine like the LZSS stage. It waits for input at four places, each
  of which takes one byte and runs to the next place, so the model is a step on one byte.
  The static variables are the record \<open>bspatch_static\<close>; the bytes of the old image come
  from \<open>read_old\<close>, the call of \<open>memory_read\<close> on \<open>ctx->stage_data\<close> with size 1.

  \<open>int64_t\<close> variables are integers: each is a sum of at most one 32-bit value per 24 input
  bytes. The union \<open>ctrl_t\<close> is its eight bytes, \<open>y\<close> being the first four as an \<open>int32_t\<close>.
\<close>

datatype bspatch_point = BS_BEGIN | BS_HEADER | BS_CTRL | BS_SUM | BS_EXTRA

record bspatch_static =
  bs_oldpos :: int
  bs_newpos :: int
  bs_ctrl :: "byte list list"
  bs_i :: int
  bs_j :: nat
  bs_newsize :: "byte list"

record bspatch_ctx =
  bs_state :: bspatch_point
  bs_finish :: bool
  bs_static :: bspatch_static

definition pipeline_bspatch_init :: "bspatch_ctx \<Rightarrow> bspatch_ctx" where
  "pipeline_bspatch_init ctx = ctx\<lparr>bs_finish := False, bs_state := BS_BEGIN\<rparr>"

definition ctrl_y :: "byte list \<Rightarrow> int" where
  "ctrl_y c = sint (word_of_nat (le_dec (take 4 c)) :: 32 word)"

text \<open>Storing byte \<open>j\<close> of a control value; the last byte carries the sign.\<close>

definition ctrl_store :: "byte list \<Rightarrow> nat \<Rightarrow> byte \<Rightarrow> byte list" where
  "ctrl_store c j y =
     (if j \<noteq> 7 then c[j := y]
      else (let c' = c[j := and y 0x7F]; v = word_of_nat (le_dec (take 4 c')) :: 32 word in
        splice_at 0 (le_enc 4 (unat (if and y 0x80 \<noteq> 0 then - v else v))) c'))"

text \<open>What one step leads to: waiting at a place, the end of the patch, or an error code.\<close>

datatype bspatch_next = Wait bspatch_point | Finished | Failed int

definition bs_loop_top :: "bspatch_static \<Rightarrow> bspatch_next \<times> bspatch_static" where
  "bs_loop_top st =
     (if bs_newpos st < ctrl_y (bs_newsize st) then (Wait BS_CTRL, st\<lparr>bs_i := 0, bs_j := 0\<rparr>)
      else (Finished, st))"

definition bs_extra_top :: "bspatch_static \<Rightarrow> bspatch_next \<times> bspatch_static" where
  "bs_extra_top st =
     (if bs_i st < ctrl_y (bs_ctrl st ! 1) then (Wait BS_EXTRA, st)
      else bs_loop_top (st\<lparr>bs_newpos := bs_newpos st + ctrl_y (bs_ctrl st ! 1),
        bs_oldpos := bs_oldpos st + ctrl_y (bs_ctrl st ! 2)\<rparr>))"

definition bs_sum_top :: "bspatch_static \<Rightarrow> bspatch_next \<times> bspatch_static" where
  "bs_sum_top st =
     (if bs_i st < ctrl_y (bs_ctrl st ! 0) then (Wait BS_SUM, st)
      else (let st' = st\<lparr>bs_newpos := bs_newpos st + ctrl_y (bs_ctrl st ! 0),
              bs_oldpos := bs_oldpos st + ctrl_y (bs_ctrl st ! 0)\<rparr>
            in if bs_newpos st' + ctrl_y (bs_ctrl st' ! 1) > ctrl_y (bs_newsize st') then (Failed (- 1), st')
               else bs_extra_top (st'\<lparr>bs_i := 0\<rparr>)))"

definition bs_header_byte :: "byte \<Rightarrow> bspatch_static \<Rightarrow> bspatch_next \<times> bspatch_static" where
  "bs_header_byte y st =
     (if bs_j st < 16 \<and> y \<noteq> 0x2a then (Failed (- 1), st)
      else (let st1 = (if bs_j st < 16 then st
                       else st\<lparr>bs_newsize := ctrl_store (bs_newsize st) (bs_j st - 16) y\<rparr>);
                st2 = st1\<lparr>bs_j := bs_j st + 1\<rparr>
            in if bs_j st2 < 24 then (Wait BS_HEADER, st2)
               else if ctrl_y (bs_newsize st2) < 0 then (Failed (- 2), st2)
               else bs_loop_top st2))"

definition bs_ctrl_byte :: "byte \<Rightarrow> bspatch_static \<Rightarrow> bspatch_next \<times> bspatch_static" where
  "bs_ctrl_byte y st =
     (let k = nat (bs_i st);
          st1 = st\<lparr>bs_ctrl := (bs_ctrl st)[k := ctrl_store (bs_ctrl st ! k) (bs_j st) y], bs_j := bs_j st + 1\<rparr>
      in if bs_j st1 < 8 then (Wait BS_CTRL, st1)
         else (let st2 = st1\<lparr>bs_i := bs_i st + 1\<rparr> in
           if bs_i st2 \<le> 2 then (Wait BS_CTRL, st2\<lparr>bs_j := 0\<rparr>)
           else if bs_newpos st2 + ctrl_y (bs_ctrl st2 ! 0) > ctrl_y (bs_newsize st2) then (Failed (- 1), st2)
           else bs_sum_top (st2\<lparr>bs_i := 0\<rparr>)))"

definition bs_byte ::
  "'s stage \<Rightarrow> (address_t \<Rightarrow> 's \<Rightarrow> nat \<times> byte \<times> 's) \<Rightarrow> bspatch_point \<Rightarrow> byte \<Rightarrow> bspatch_static \<Rightarrow> 's \<Rightarrow>
   (bspatch_next \<times> bspatch_static \<times> 's) option" where
  "bs_byte next_stage read_old p y st s =
     (case p of
        BS_SUM \<Rightarrow>
          (case read_old (word_of_int (bs_oldpos st + bs_i st)) s of (n, oldbuf, s1) \<Rightarrow>
             if n \<noteq> 1 then Some (Failed (- 1), st, s1)
             else Option.bind (next_stage [y + oldbuf] s1) (\<lambda>(_, s2).
               case bs_sum_top (st\<lparr>bs_i := bs_i st + 1\<rparr>) of (r, st') \<Rightarrow> Some (r, st', s2)))
      | BS_EXTRA \<Rightarrow>
          Option.bind (next_stage [y] s) (\<lambda>(_, s1).
            case bs_extra_top (st\<lparr>bs_i := bs_i st + 1\<rparr>) of (r, st') \<Rightarrow> Some (r, st', s1))
      | BS_CTRL \<Rightarrow> (case bs_ctrl_byte y st of (r, st') \<Rightarrow> Some (r, st', s))
      | _ \<Rightarrow> (case bs_header_byte y st of (r, st') \<Rightarrow> Some (r, st', s)))"

text \<open>
  Running over a block: where it stops, the number of bytes used, the static variables and
  the next stage. After an error the call returns the code, and the count is not used.
\<close>

fun bs_run ::
  "'s stage \<Rightarrow> (address_t \<Rightarrow> 's \<Rightarrow> nat \<times> byte \<times> 's) \<Rightarrow> bspatch_point \<Rightarrow> byte list \<Rightarrow> nat \<Rightarrow> bspatch_static \<Rightarrow> 's \<Rightarrow>
   (bspatch_next \<times> nat \<times> bspatch_static \<times> 's) option" where
  "bs_run next_stage read_old p [] used st s = Some (Wait p, used, st, s)"
| "bs_run next_stage read_old p (y # ys) used st s =
     Option.bind (bs_byte next_stage read_old p y st s) (\<lambda>(r, st', s').
       case r of
         Wait p' \<Rightarrow> bs_run next_stage read_old p' ys (used + 1) st' s'
       | Finished \<Rightarrow> Some (Finished, used + 1, st', s')
       | Failed c \<Rightarrow> Some (Failed c, used + 1, st', s'))"

definition bs_enter :: "bspatch_ctx \<Rightarrow> bspatch_point \<times> bspatch_static" where
  "bs_enter ctx =
     (if bs_state ctx = BS_BEGIN
      then (BS_HEADER, (bs_static ctx)\<lparr>bs_oldpos := 0, bs_newpos := 0, bs_j := 0\<rparr>)
      else (bs_state ctx, bs_static ctx))"

definition bspatch_pipeline ::
  "'s stage \<Rightarrow> (address_t \<Rightarrow> 's \<Rightarrow> nat \<times> byte \<times> 's) \<Rightarrow> (bspatch_ctx \<times> 's) stage" where
  "bspatch_pipeline next_stage read_old buf cs =
     (if bs_finish (fst cs) then Some (0, cs)
      else (case bs_enter (fst cs) of (p, st) \<Rightarrow>
        Option.bind (bs_run next_stage read_old p buf 0 st (snd cs)) (\<lambda>(r, used, st', s').
          Some (case r of
              Wait p' \<Rightarrow> (int used, (fst cs)\<lparr>bs_state := p', bs_static := st'\<rparr>, s')
            | Finished \<Rightarrow> (int used, (fst cs)\<lparr>bs_finish := True, bs_static := st'\<rparr>, s')
            | Failed c \<Rightarrow> (c, (fst cs)\<lparr>bs_static := st'\<rparr>, s')))))"

section \<open>Blocks\<close>

lemma bs_run_append:
  "bs_run nx rd p (xs @ ys) used st s =
     Option.bind (bs_run nx rd p xs used st s) (\<lambda>(r, used', st', s').
       case r of Wait p' \<Rightarrow> bs_run nx rd p' ys used' st' s' | _ \<Rightarrow> Some (r, used', st', s'))"
  by (induction nx rd p xs used st s rule: bs_run.induct)
    (auto split: bind_splits bspatch_next.splits)

lemma bs_run_used:
  "bs_run nx rd p xs (used + k) st s =
     Option.bind (bs_run nx rd p xs used st s) (\<lambda>(r, u, st', s'). Some (r, u + k, st', s'))"
  by (induction nx rd p xs used st s rule: bs_run.induct)
    (auto split: bind_splits bspatch_next.splits)

text \<open>Going on from the outcome of a step.\<close>

definition bs_go ::
  "'s stage \<Rightarrow> (address_t \<Rightarrow> 's \<Rightarrow> nat \<times> byte \<times> 's) \<Rightarrow> bspatch_next \<times> bspatch_static \<Rightarrow> byte list \<Rightarrow> nat \<Rightarrow> 's \<Rightarrow>
   (bspatch_next \<times> nat \<times> bspatch_static \<times> 's) option" where
  "bs_go nx rd r ys used s =
     (case fst r of Wait p \<Rightarrow> bs_run nx rd p ys used (snd r) s | _ \<Rightarrow> Some (fst r, used, snd r, s))"

lemma bs_run_Cons:
  "bs_run nx rd p (y # ys) used st s =
     Option.bind (bs_byte nx rd p y st s) (\<lambda>(r, st', s'). bs_go nx rd (r, st') ys (used + 1) s')"
  by (auto simp: bs_go_def split: bind_splits bspatch_next.splits)

lemma bs_go_Wait [simp]: "bs_go nx rd (Wait p, st) ys used s = bs_run nx rd p ys used st s"
  by (simp add: bs_go_def)

declare bs_run.simps(2) [simp del]

section \<open>The format\<close>

text \<open>
  A patch is a magic number, the size of the new image and a list of entries. An entry
  has a block of differences, which are added to bytes of the old image from the current
  position, a block of extra bytes, and a signed move of the position. Numbers are stored
  as sign and magnitude.
\<close>

type_synonym patch_entry = "byte list \<times> byte list \<times> int"

definition enc_int :: "int \<Rightarrow> byte list" where
  "enc_int k = le_enc 4 (nat \<bar>k\<bar>) @ [0, 0, 0, if k < 0 then 0x80 else 0]"

fun enc_entry :: "patch_entry \<Rightarrow> byte list" where
  "enc_entry (ds, es, k) = enc_int (int (length ds)) @ enc_int (int (length es)) @ enc_int k @ ds @ es"

definition enc_patch :: "nat \<Rightarrow> patch_entry list \<Rightarrow> byte list" where
  "enc_patch n entries = replicate 16 0x2a @ enc_int (int n) @ concat (map enc_entry entries)"

fun patch_apply :: "byte list \<Rightarrow> int \<Rightarrow> patch_entry list \<Rightarrow> byte list option" where
  "patch_apply old pos [] = Some []"
| "patch_apply old pos ((ds, es, k) # r) =
     (if 0 \<le> pos \<and> pos + int (length ds) \<le> int (length old) \<or> ds = []
      then map_option (\<lambda>t. map2 (+) ds (block (nat pos) (length ds) old) @ es @ t)
        (patch_apply old (pos + int (length ds) + k) r)
      else None)"

fun wf_entry :: "patch_entry \<Rightarrow> bool" where
  "wf_entry (ds, es, k) \<longleftrightarrow> length ds < 2 ^ 31 \<and> length es < 2 ^ 31 \<and> - (2 ^ 31) < k \<and> k < 2 ^ 31"

section \<open>Reading numbers\<close>

lemma length_enc_int [simp]: "length (enc_int k) = 8"
  by (simp add: enc_int_def)

lemma list8: "length c = 8 \<Longrightarrow> \<exists>a b c' d e f g h. c = [a, b, c', d, e, f, g, h]"
  by (auto simp: length_Suc_conv numeral_eq_Suc)

lemma le_enc4: "\<exists>a b c d. le_enc 4 n = [a, b, c, d]"
proof -
  have four: "(4 :: nat) = Suc (Suc (Suc (Suc 0)))" by simp
  show ?thesis unfolding four le_enc.simps by blast
qed

lemma enc_int_bytes:
  obtains a b c d where "enc_int k = [a, b, c, d, 0, 0, 0, if k < 0 then 0x80 else 0]"
    and "le_dec [a, b, c, d] = nat \<bar>k\<bar> mod 2 ^ 32"
proof -
  obtain a b c d where e: "le_enc 4 (nat \<bar>k\<bar>) = [a, b, c, d]"
    using le_enc4 by blast
  have "le_dec [a, b, c, d] = nat \<bar>k\<bar> mod 2 ^ 32"
    using le_dec_enc [of 4 "nat \<bar>k\<bar>"] by (simp add: e)
  with e show ?thesis by (intro that [of a b c d]) (simp_all add: enc_int_def)
qed

lemma ctrl_y_store:
  assumes "le_dec [a, b, c, d] = nat \<bar>k\<bar> mod 2 ^ 32" and "- (2 ^ 31) < k" and "k < 2 ^ 31"
  shows "ctrl_y (ctrl_store [a, b, c, d, x, y, z, u] 7 (if k < 0 then 0x80 else 0)) = k"
proof -
  define v where "v = (word_of_nat (nat \<bar>k\<bar>) :: 32 word)"
  have "le_dec [a, b, c, d] = nat \<bar>k\<bar>" using assms by simp
  then have v: "(word_of_nat (le_dec [a, b, c, d]) :: 32 word) = v" by (simp add: v_def)
  have y: "ctrl_y (splice_at 0 (le_enc 4 (unat w)) [a, b, c, d, x, y, z, e]) = sint (w :: 32 word)" for w e
  proof -
    have "take 4 (splice_at 0 (le_enc 4 (unat w)) [a, b, c, d, x, y, z, e]) = le_enc 4 (unat w)"
      by (simp add: splice_at_def)
    moreover have "unat w < 2 ^ 32" using unsigned_less [of w] by simp
    then have "unat w mod 256 ^ 4 = unat w" by simp
    ultimately show ?thesis by (simp add: ctrl_y_def le_dec_enc)
  qed
  have k: "sint (word_of_int k :: 32 word) = k"
    using assms(2,3) by (simp add: signed_of_int signed_take_bit_int_eq_self)
  show ?thesis
  proof (cases "k < 0")
    case True
    have "- v = word_of_int k" using True by (simp add: v_def)
    with True show ?thesis by (simp add: ctrl_store_def Let_def v [simplified] y k)
  next
    case False
    have "v = word_of_int k" using False by (simp add: v_def)
    with False show ?thesis by (simp add: ctrl_store_def Let_def v [simplified] y k)
  qed
qed

text \<open>A control value read from its eight bytes.\<close>

lemma ctrl_updates:
  "length c = 8 \<Longrightarrow> ctrl_store ((((((((c[0 := a])[1 := b])[2 := x])[3 := d])[4 := e])[5 := f])[6 := g])) 7 y =
     ctrl_store [a, b, x, d, e, f, g, c ! 7] 7 y"
  by (drule list8) auto

lemma ctrl_store_low: "j \<noteq> 7 \<Longrightarrow> ctrl_store c j y = c[j := y]"
  by (simp add: ctrl_store_def)

lemma length_ctrl_store [simp]: "length c = 8 \<Longrightarrow> length (ctrl_store c j y) = 8"
  by (simp add: ctrl_store_def Let_def)

definition wf_bs :: "bspatch_static \<Rightarrow> bool" where
  "wf_bs st \<longleftrightarrow> length (bs_ctrl st) = 3 \<and> (\<forall>c\<in>set (bs_ctrl st). length c = 8) \<and> length (bs_newsize st) = 8"

text \<open>The state after the last byte of control value \<open>i\<close>.\<close>

definition ctrl_done :: "bspatch_static \<Rightarrow> bspatch_next \<times> bspatch_static" where
  "ctrl_done st =
     (let st2 = st\<lparr>bs_i := bs_i st + 1\<rparr> in
      if bs_i st2 \<le> 2 then (Wait BS_CTRL, st2\<lparr>bs_j := 0\<rparr>)
      else if bs_newpos st2 + ctrl_y (bs_ctrl st2 ! 0) > ctrl_y (bs_newsize st2) then (Failed (- 1), st2)
      else bs_sum_top (st2\<lparr>bs_i := 0\<rparr>))"

lemma bs_ctrl_low:
  "bs_j st < 7 \<Longrightarrow> bs_byte nx rd BS_CTRL y st s =
     Some (Wait BS_CTRL, st\<lparr>bs_ctrl := (bs_ctrl st)[nat (bs_i st) := (bs_ctrl st ! nat (bs_i st))[bs_j st := y]],
       bs_j := bs_j st + 1\<rparr>, s)"
  by (simp add: bs_byte_def bs_ctrl_byte_def ctrl_store_low Let_def)

lemma bs_ctrl_high:
  "bs_j st = 7 \<Longrightarrow> bs_byte nx rd BS_CTRL y st s =
     (let r = ctrl_done (st\<lparr>bs_ctrl := (bs_ctrl st)[nat (bs_i st) := ctrl_store (bs_ctrl st ! nat (bs_i st)) 7 y],
       bs_j := 8\<rparr>) in Some (fst r, snd r, s))"
  by (simp add: bs_byte_def bs_ctrl_byte_def ctrl_done_def Let_def split: prod.splits)

lemma read_ctrl:
  assumes "wf_bs st" and "bs_j st = 0" and "0 \<le> bs_i st" and "bs_i st \<le> 2" and "- (2 ^ 31) < k" and "k < 2 ^ 31"
  shows "\<exists>c. ctrl_y c = k \<and> length c = 8 \<and>
    bs_run nx rd BS_CTRL (enc_int k @ ys) used st s =
      bs_go nx rd (ctrl_done (st\<lparr>bs_ctrl := (bs_ctrl st)[nat (bs_i st) := c], bs_j := 8\<rparr>)) ys (used + 8) s"
proof -
  obtain a b x d where e: "enc_int k = [a, b, x, d, 0, 0, 0, if k < 0 then 0x80 else 0]"
    and l: "le_dec [a, b, x, d] = nat \<bar>k\<bar> mod 2 ^ 32"
    by (rule enc_int_bytes)
  let ?i = "nat (bs_i st)"
  have i: "?i < length (bs_ctrl st)" and c8: "length (bs_ctrl st ! ?i) = 8"
    using assms(1,3,4) by (auto simp: wf_bs_def)
  define y where "y = (if k < 0 then 0x80 else 0 :: byte)"
  let ?c = "ctrl_store [a, b, x, d, 0, 0, 0, bs_ctrl st ! ?i ! 7] 7 y"
  have "ctrl_y ?c = k" unfolding y_def by (rule ctrl_y_store [OF l assms(5,6)])
  moreover have "bs_run nx rd BS_CTRL (enc_int k @ ys) used st s =
      bs_go nx rd (ctrl_done (st\<lparr>bs_ctrl := (bs_ctrl st)[?i := ?c], bs_j := 8\<rparr>)) ys (used + 8) s"
    unfolding e y_def [symmetric] using assms(2) i ctrl_updates [OF c8, of a b x d 0 0 0 y]
    by (simp add: bs_run_Cons bs_ctrl_low bs_ctrl_high Let_def numeral_eq_Suc)
  ultimately show ?thesis by (intro exI [of _ ?c]) simp
qed

text \<open>The three control values of an entry, up to the test that follows them.\<close>

definition entry_start :: "bspatch_static \<Rightarrow> byte list list \<Rightarrow> bspatch_static" where
  "entry_start st cs = st\<lparr>bs_ctrl := cs, bs_j := 8, bs_i := 0\<rparr>"

lemma read_three:
  assumes "wf_bs st" and "\<forall>k\<in>{k0, k1, k2}. - (2 ^ 31) < k \<and> k < 2 ^ 31"
    and "bs_newpos st < ctrl_y (bs_newsize st)" and "bs_newpos st + k0 \<le> ctrl_y (bs_newsize st)"
  shows "\<exists>cs. map ctrl_y cs = [k0, k1, k2] \<and> (\<forall>c\<in>set cs. length c = 8) \<and>
    bs_go nx rd (bs_loop_top st) (enc_int k0 @ enc_int k1 @ enc_int k2 @ ys) used s =
      bs_go nx rd (bs_sum_top (entry_start st cs)) ys (used + 24) s"
proof -
  obtain c0 c1 c2 where ct: "bs_ctrl st = [c0, c1, c2]"
    using assms(1) by (auto simp: wf_bs_def length_Suc_conv numeral_eq_Suc)
  have w8: "length c0 = 8" "length c1 = 8" "length c2 = 8" "length (bs_newsize st) = 8"
    using assms(1) ct by (simp_all add: wf_bs_def)
  let ?st0 = "st\<lparr>bs_i := 0, bs_j := 0\<rparr>"
  obtain a0 where a0: "ctrl_y a0 = k0" "length a0 = 8" "bs_run nx rd BS_CTRL (enc_int k0 @ enc_int k1 @ enc_int k2 @ ys) used ?st0 s =
      bs_go nx rd (ctrl_done (?st0\<lparr>bs_ctrl := (bs_ctrl ?st0)[nat (bs_i ?st0) := a0], bs_j := 8\<rparr>))
        (enc_int k1 @ enc_int k2 @ ys) (used + 8) s"
    using read_ctrl [of ?st0 k0 nx rd "enc_int k1 @ enc_int k2 @ ys" used s] assms(1,2) by (auto simp: wf_bs_def)
  let ?st1 = "st\<lparr>bs_ctrl := [a0, c1, c2], bs_i := 1, bs_j := 0\<rparr>"
  obtain a1 where a1: "ctrl_y a1 = k1" "length a1 = 8" "bs_run nx rd BS_CTRL (enc_int k1 @ enc_int k2 @ ys) (used + 8) ?st1 s =
      bs_go nx rd (ctrl_done (?st1\<lparr>bs_ctrl := (bs_ctrl ?st1)[nat (bs_i ?st1) := a1], bs_j := 8\<rparr>))
        (enc_int k2 @ ys) (used + 8 + 8) s"
    using read_ctrl [of ?st1 k1 nx rd "enc_int k2 @ ys" "used + 8" s] assms(2) w8 a0 by (auto simp: wf_bs_def)
  let ?st2 = "st\<lparr>bs_ctrl := [a0, a1, c2], bs_i := 2, bs_j := 0\<rparr>"
  obtain a2 where a2: "ctrl_y a2 = k2" "length a2 = 8" "bs_run nx rd BS_CTRL (enc_int k2 @ ys) (used + 8 + 8) ?st2 s =
      bs_go nx rd (ctrl_done (?st2\<lparr>bs_ctrl := (bs_ctrl ?st2)[nat (bs_i ?st2) := a2], bs_j := 8\<rparr>))
        ys (used + 8 + 8 + 8) s"
    using read_ctrl [of ?st2 k2 nx rd ys "used + 8 + 8" s] assms(2) w8 a0 a1 by (auto simp: wf_bs_def)
  have 0: "bs_loop_top st = (Wait BS_CTRL, ?st0)" using assms(3) by (simp add: bs_loop_top_def)
  have 1: "ctrl_done (?st0\<lparr>bs_ctrl := (bs_ctrl ?st0)[nat (bs_i ?st0) := a0], bs_j := 8\<rparr>) = (Wait BS_CTRL, ?st1)"
    by (simp add: ctrl_done_def ct)
  have 2: "ctrl_done (?st1\<lparr>bs_ctrl := (bs_ctrl ?st1)[nat (bs_i ?st1) := a1], bs_j := 8\<rparr>) = (Wait BS_CTRL, ?st2)"
    by (simp add: ctrl_done_def)
  have 3: "ctrl_done (?st2\<lparr>bs_ctrl := (bs_ctrl ?st2)[nat (bs_i ?st2) := a2], bs_j := 8\<rparr>) =
      bs_sum_top (entry_start st [a0, a1, a2])"
    using assms(4) a0(1) by (simp add: ctrl_done_def entry_start_def numeral_2_eq_2)
  have "used + 8 + 8 + 8 = used + 24" by simp
  with a0 a1 a2 show ?thesis
    unfolding 0 bs_go_Wait a0(3) 1 a1(3) 2 a2(3) 3 by (intro exI [of _ "[a0, a1, a2]"]) (simp add: add.commute)
qed

section \<open>The patch is applied\<close>

text \<open>
  A sink together with an old image that can be read without disturbing it.
\<close>

text \<open>The length of the output of a patch, and a patch whose last entry produces output.\<close>

definition patch_out :: "patch_entry list \<Rightarrow> nat" where
  "patch_out entries = (\<Sum>(ds, es, k)\<leftarrow>entries. length ds + length es)"

definition live :: "patch_entry list \<Rightarrow> bool" where
  "live entries \<longleftrightarrow> entries = [] \<or> (case last entries of (ds, es, k) \<Rightarrow> ds \<noteq> [] \<or> es \<noteq> [])"

lemma live_out: "live (e # r) \<Longrightarrow> 0 < patch_out (e # r)"
proof (induction r arbitrary: e)
  case Nil
  then show ?case by (auto simp: live_def patch_out_def)
next
  case (Cons f r)
  then have "0 < patch_out (f # r)" by (simp add: live_def)
  then show ?case by (auto simp: patch_out_def)
qed

lemma patch_apply_length: "patch_apply old pos entries = Some new \<Longrightarrow> length new = patch_out entries"
proof (induction old pos entries arbitrary: new rule: patch_apply.induct)
  case (1 old pos)
  then show ?case by (simp add: patch_out_def)
next
  case (2 old pos ds es k r)
  from 2(2) obtain t where ok: "0 \<le> pos \<and> pos + int (length ds) \<le> int (length old) \<or> ds = []"
    and t: "patch_apply old (pos + int (length ds) + k) r = Some t"
    and new: "new = map2 (+) ds (block (nat pos) (length ds) old) @ es @ t"
    by (auto split: if_splits)
  have "length (map2 (+) ds (block (nat pos) (length ds) old)) = length ds"
    using ok by (auto simp: block_def)
  with 2(1) [OF ok t] new show ?case by (simp add: patch_out_def)
qed

locale patch_source = sink +
  fixes read_old :: "address_t \<Rightarrow> 'a \<Rightarrow> nat \<times> byte \<times> 'a"
    and old :: "byte list"
  assumes read_old_ok: "\<lbrakk>holds bs s; k < length old\<rbrakk> \<Longrightarrow>
      \<exists>s'. read_old (word_of_nat k) s = (1, old ! k, s') \<and> holds bs s'"
    and one_byte: "0 < lim"
begin

lemma sum_phase:
  assumes "ctrl_y (bs_ctrl st ! 0) = bs_i st + int (length ds)"
    and "bs_oldpos st + bs_i st = int q" and "q + length ds \<le> length old"
    and "holds out s" and "length out + length ds \<le> cap"
  shows "\<exists>s'. bs_go next_stage read_old (bs_sum_top st) (ds @ ys) used s =
      bs_go next_stage read_old (bs_sum_top (st\<lparr>bs_i := bs_i st + int (length ds)\<rparr>)) ys (used + length ds) s' \<and>
    holds (out @ map2 (+) ds (block q (length ds) old)) s'"
  using assms
proof (induction ds arbitrary: st q out s used)
  case Nil
  then show ?case by auto
next
  case (Cons d ds)
  have top: "bs_sum_top st = (Wait BS_SUM, st)" using Cons.prems(1) by (simp add: bs_sum_top_def)
  obtain s1 where s1: "read_old (word_of_int (bs_oldpos st + bs_i st)) s = (1, old ! q, s1)" "holds out s1"
    using read_old_ok [OF Cons.prems(4), of q] Cons.prems(2,3) by auto
  obtain s2 where s2: "next_stage [d + old ! q] s1 = Some (1, s2)" "holds (out @ [d + old ! q]) s2"
    using next_ok [OF s1(2), of "[d + old ! q]"] Cons.prems(5) one_byte by auto
  let ?st = "st\<lparr>bs_i := bs_i st + 1\<rparr>"
  have "bs_go next_stage read_old (bs_sum_top st) ((d # ds) @ ys) used s =
      bs_go next_stage read_old (bs_sum_top ?st) (ds @ ys) (used + 1) s2"
    using s1(1) s2(1) by (simp add: top bs_run_Cons bs_byte_def split: prod.splits)
  moreover have "block q (Suc (length ds)) old = old ! q # block (Suc q) (length ds) old"
    using Cons.prems(3) by (simp add: block_def flip: Cons_nth_drop_Suc)
  moreover have "\<exists>s'. bs_go next_stage read_old (bs_sum_top ?st) (ds @ ys) (used + 1) s2 =
      bs_go next_stage read_old (bs_sum_top (?st\<lparr>bs_i := bs_i ?st + int (length ds)\<rparr>)) ys (used + 1 + length ds) s' \<and>
    holds ((out @ [d + old ! q]) @ map2 (+) ds (block (Suc q) (length ds) old)) s'"
    by (rule Cons.IH) (use Cons.prems s2(2) in \<open>simp_all add: algebra_simps\<close>)
  ultimately show ?case by (auto simp: algebra_simps)
qed

lemma extra_phase:
  assumes "ctrl_y (bs_ctrl st ! 1) = bs_i st + int (length es)"
    and "holds out s" and "length out + length es \<le> cap"
  shows "\<exists>s'. bs_go next_stage read_old (bs_extra_top st) (es @ ys) used s =
      bs_go next_stage read_old (bs_extra_top (st\<lparr>bs_i := bs_i st + int (length es)\<rparr>)) ys (used + length es) s' \<and>
    holds (out @ es) s'"
  using assms
proof (induction es arbitrary: st out s used)
  case Nil
  then show ?case by auto
next
  case (Cons e es)
  have top: "bs_extra_top st = (Wait BS_EXTRA, st)" using Cons.prems(1) by (simp add: bs_extra_top_def)
  obtain s1 where s1: "next_stage [e] s = Some (1, s1)" "holds (out @ [e]) s1"
    using next_ok [OF Cons.prems(2), of "[e]"] Cons.prems(3) one_byte by auto
  let ?st = "st\<lparr>bs_i := bs_i st + 1\<rparr>"
  have "bs_go next_stage read_old (bs_extra_top st) ((e # es) @ ys) used s =
      bs_go next_stage read_old (bs_extra_top ?st) (es @ ys) (used + 1) s1"
    using s1(1) by (simp add: top bs_run_Cons bs_byte_def split: prod.splits)
  moreover have "\<exists>s'. bs_go next_stage read_old (bs_extra_top ?st) (es @ ys) (used + 1) s1 =
      bs_go next_stage read_old (bs_extra_top (?st\<lparr>bs_i := bs_i ?st + int (length es)\<rparr>)) ys (used + 1 + length es) s' \<and>
    holds ((out @ [e]) @ es) s'"
    by (rule Cons.IH) (use Cons.prems s1(2) in \<open>simp_all add: algebra_simps\<close>)
  ultimately show ?case by (auto simp: algebra_simps)
qed

lemma patch_entry_ok:
  assumes "wf_bs st" and "wf_entry (ds, es, k)" and "bs_newpos st < ctrl_y (bs_newsize st)"
    and "bs_newpos st + int (length ds) + int (length es) \<le> ctrl_y (bs_newsize st)"
    and "0 \<le> bs_oldpos st \<and> bs_oldpos st + int (length ds) \<le> int (length old) \<or> ds = []"
    and "holds out s" and "length out + length ds + length es \<le> cap"
  shows "\<exists>st' s'. bs_go next_stage read_old (bs_loop_top st) (enc_entry (ds, es, k) @ ys) used s =
      bs_go next_stage read_old (bs_loop_top st') ys (used + length (enc_entry (ds, es, k))) s' \<and>
    wf_bs st' \<and> bs_newpos st' = bs_newpos st + int (length ds) + int (length es) \<and>
    bs_oldpos st' = bs_oldpos st + int (length ds) + k \<and> bs_newsize st' = bs_newsize st \<and>
    holds (out @ map2 (+) ds (block (nat (bs_oldpos st)) (length ds) old) @ es) s'"
proof -
  let ?n = "int (length ds)" and ?m = "int (length es)"
  have b: "\<forall>v\<in>{?n, ?m, k}. - (2 ^ 31) < v \<and> v < 2 ^ 31" using assms(2) by auto
  have f: "bs_newpos st + ?n \<le> ctrl_y (bs_newsize st)" using assms(4) by simp
  obtain cs where cs: "map ctrl_y cs = [?n, ?m, k]" "\<forall>c\<in>set cs. length c = 8"
    and r: "bs_go next_stage read_old (bs_loop_top st) (enc_int ?n @ enc_int ?m @ enc_int k @ (ds @ es @ ys)) used s =
      bs_go next_stage read_old (bs_sum_top (entry_start st cs)) (ds @ es @ ys) (used + 24) s"
    using read_three [OF assms(1) b assms(3) f, of next_stage read_old "ds @ es @ ys" used s]
    by (elim exE conjE) (rule that)
  have c: "ctrl_y (cs ! 0) = ?n" "ctrl_y (cs ! 1) = ?m" "ctrl_y (cs ! 2) = k" "length cs = 3"
    using cs(1) by (auto simp: map_eq_Cons_conv)
  define st1 where "st1 = entry_start st cs"
  have s1: "bs_ctrl st1 = cs" "bs_i st1 = 0" "bs_newpos st1 = bs_newpos st" "bs_oldpos st1 = bs_oldpos st"
    "bs_newsize st1 = bs_newsize st" by (simp_all add: st1_def entry_start_def)
  have sum: "\<exists>s'. bs_go next_stage read_old (bs_sum_top st1) (ds @ es @ ys) (used + 24) s =
        bs_go next_stage read_old (bs_sum_top (st1\<lparr>bs_i := bs_i st1 + ?n\<rparr>)) (es @ ys) (used + 24 + length ds) s' \<and>
      holds (out @ map2 (+) ds (block (nat (bs_oldpos st)) (length ds) old)) s'"
  proof (cases "ds = []")
    case True
    then show ?thesis using assms(6) s1(2) by (intro exI [of _ s]) (simp add: st1_def entry_start_def)
  next
    case False
    then have "nat (bs_oldpos st) + length ds \<le> length old" using assms(5) by linarith
    with False show ?thesis
      using sum_phase [of st1 ds "nat (bs_oldpos st)" out s "es @ ys" "used + 24"] assms(5,6,7) c(1)
      by (simp add: s1)
  qed
  then obtain s2 where s2: "bs_go next_stage read_old (bs_sum_top st1) (ds @ es @ ys) (used + 24) s =
        bs_go next_stage read_old (bs_sum_top (st1\<lparr>bs_i := ?n\<rparr>)) (es @ ys) (used + 24 + length ds) s2"
      "holds (out @ map2 (+) ds (block (nat (bs_oldpos st)) (length ds) old)) s2"
    by (auto simp: s1)
  define st2 where "st2 = st1\<lparr>bs_newpos := bs_newpos st + ?n, bs_oldpos := bs_oldpos st + ?n, bs_i := 0\<rparr>"
  have top: "bs_sum_top (st1\<lparr>bs_i := ?n\<rparr>) = bs_extra_top st2"
    using assms(4) c by (simp add: bs_sum_top_def s1 st2_def)
  have "length (block (nat (bs_oldpos st)) (length ds) old) \<le> length ds" by (simp add: block_def)
  then obtain s3 where s3: "bs_go next_stage read_old (bs_extra_top st2) (es @ ys) (used + 24 + length ds) s2 =
        bs_go next_stage read_old (bs_extra_top (st2\<lparr>bs_i := ?m\<rparr>)) ys (used + 24 + length ds + length es) s3"
      "holds ((out @ map2 (+) ds (block (nat (bs_oldpos st)) (length ds) old)) @ es) s3"
    using extra_phase [of st2 es _ s2 ys "used + 24 + length ds", OF _ s2(2)] c(2) assms(7)
    by (auto simp: st2_def s1)
  define st3 where "st3 = st2\<lparr>bs_i := ?m, bs_newpos := bs_newpos st2 + ?m, bs_oldpos := bs_oldpos st2 + k\<rparr>"
  have "bs_extra_top (st2\<lparr>bs_i := ?m\<rparr>) = bs_loop_top st3"
    using c by (simp add: bs_extra_top_def st2_def st3_def s1)
  moreover have "length (enc_entry (ds, es, k)) = 24 + length ds + length es" by simp
  ultimately have "bs_go next_stage read_old (bs_loop_top st) (enc_entry (ds, es, k) @ ys) used s =
      bs_go next_stage read_old (bs_loop_top st3) ys (used + length (enc_entry (ds, es, k))) s3"
    using r s2(1) s3(1) top by (simp add: st1_def [symmetric] add.assoc del: enc_entry.simps)
      (simp add: add.assoc)
  moreover have "wf_bs st3" using assms(1) cs(2) c(4) by (simp add: wf_bs_def st3_def st2_def s1)
  ultimately show ?thesis
    using s3(2) by (intro exI [of _ st3] exI [of _ s3]) (simp add: st3_def st2_def s1)
qed

text \<open>All entries: the loop stops exactly at the end of the last one.\<close>

lemma patch_entries_ok:
  assumes "wf_bs st" and "list_all wf_entry entries" and "live entries"
    and "patch_apply old (bs_oldpos st) entries = Some new"
    and "bs_newpos st + int (length new) = ctrl_y (bs_newsize st)"
    and "holds out s" and "length out + length new \<le> cap"
  shows "\<exists>st' s'. bs_go next_stage read_old (bs_loop_top st) (concat (map enc_entry entries)) used s =
      Some (Finished, used + length (concat (map enc_entry entries)), st', s') \<and> holds (out @ new) s'"
  using assms
proof (induction entries arbitrary: st new out s used)
  case Nil
  then show ?case by (simp add: bs_loop_top_def bs_go_def)
next
  case (Cons e r)
  obtain ds es k where e: "e = (ds, es, k)" by (cases e)
  from Cons.prems(4) obtain t where
    ok: "0 \<le> bs_oldpos st \<and> bs_oldpos st + int (length ds) \<le> int (length old) \<or> ds = []"
    and t: "patch_apply old (bs_oldpos st + int (length ds) + k) r = Some t"
    and new: "new = map2 (+) ds (block (nat (bs_oldpos st)) (length ds) old) @ es @ t"
    by (auto simp: e split: if_splits)
  have l: "length new = length ds + length es + length t"
    using ok new by (auto simp: block_def)
  have "0 < length new"
    using live_out [OF Cons.prems(3)] patch_apply_length [OF Cons.prems(4)] by simp
  then have lt: "bs_newpos st < ctrl_y (bs_newsize st)" using Cons.prems(5) by linarith
  have pre: "wf_entry (ds, es, k)" "bs_newpos st + int (length ds) + int (length es) \<le> ctrl_y (bs_newsize st)"
    "length out + length ds + length es \<le> cap"
    using Cons.prems(2,5,7) l e by simp_all
  obtain st' s' where s: "bs_go next_stage read_old (bs_loop_top st) (enc_entry e @ concat (map enc_entry r)) used s =
      bs_go next_stage read_old (bs_loop_top st') (concat (map enc_entry r)) (used + length (enc_entry e)) s'"
    "wf_bs st'" "bs_newpos st' = bs_newpos st + int (length ds) + int (length es)"
    "bs_oldpos st' = bs_oldpos st + int (length ds) + k" "bs_newsize st' = bs_newsize st"
    "holds (out @ map2 (+) ds (block (nat (bs_oldpos st)) (length ds) old) @ es) s'"
    using patch_entry_ok [OF Cons.prems(1) pre(1) lt pre(2) ok Cons.prems(6) pre(3), of "concat (map enc_entry r)" used,
        folded e]
    by (elim exE conjE) (rule that)
  have "live r" using Cons.prems(3) by (simp add: live_def split: if_splits)
  with Cons.IH [OF s(2) _ _ t [folded s(4)] _ s(6), of "used + length (enc_entry e)"] s(1,3,5) Cons.prems(2,5,7) l new
  show ?case by (auto simp: add.assoc)
qed

end

section \<open>The header and the stage\<close>

lemma header_magic:
  "bs_j st + n \<le> 16 \<Longrightarrow>
   bs_run nx rd BS_HEADER (replicate n 0x2a @ ys) used st s =
     bs_run nx rd BS_HEADER ys (used + n) (st\<lparr>bs_j := bs_j st + n\<rparr>) s"
proof (induction n arbitrary: st used)
  case 0
  show ?case by simp
next
  case (Suc n)
  then show ?case
    using Suc.IH [of "st\<lparr>bs_j := bs_j st + 1\<rparr>" "used + 1"]
    by (simp add: bs_run_Cons bs_byte_def bs_header_byte_def Let_def)
qed

lemma header_low:
  "16 \<le> bs_j st \<Longrightarrow> bs_j st < 23 \<Longrightarrow> bs_byte nx rd BS_HEADER y st s =
     Some (Wait BS_HEADER, st\<lparr>bs_newsize := (bs_newsize st)[bs_j st - 16 := y], bs_j := bs_j st + 1\<rparr>, s)"
  by (simp add: bs_byte_def bs_header_byte_def ctrl_store_low Let_def)

lemma header_high:
  "bs_j st = 23 \<Longrightarrow> 0 \<le> ctrl_y (ctrl_store (bs_newsize st) 7 y) \<Longrightarrow> bs_byte nx rd BS_HEADER y st s =
     (let r = bs_loop_top (st\<lparr>bs_newsize := ctrl_store (bs_newsize st) 7 y, bs_j := 24\<rparr>) in Some (fst r, snd r, s))"
  by (simp add: bs_byte_def bs_header_byte_def Let_def split: prod.splits)

lemma read_header:
  assumes "wf_bs st" and "n < 2 ^ 31" and "bs_j st = 0"
  shows "\<exists>c. ctrl_y c = int n \<and> length c = 8 \<and>
    bs_run nx rd BS_HEADER (replicate 16 0x2a @ enc_int (int n) @ ys) used st s =
      bs_go nx rd (bs_loop_top (st\<lparr>bs_newsize := c, bs_j := 24\<rparr>)) ys (used + 24) s"
proof -
  obtain a b x d where e: "enc_int (int n) = [a, b, x, d, 0, 0, 0, if int n < 0 then 0x80 else 0]"
    and l: "le_dec [a, b, x, d] = nat \<bar>int n\<bar> mod 2 ^ 32"
    by (rule enc_int_bytes)
  have w8: "length (bs_newsize st) = 8" using assms(1) by (simp add: wf_bs_def)
  let ?c = "ctrl_store [a, b, x, d, 0, 0, 0, bs_newsize st ! 7] 7 0"
  have y: "ctrl_y ?c = int n" using ctrl_y_store [OF l, of 0 0 0 "bs_newsize st ! 7"] assms(2) by simp
  have "bs_run nx rd BS_HEADER (replicate 16 0x2a @ enc_int (int n) @ ys) used st s =
      bs_run nx rd BS_HEADER (enc_int (int n) @ ys) (used + 16) (st\<lparr>bs_j := 16\<rparr>) s"
    using header_magic [of st 16] assms(3) by simp
  also have "\<dots> = bs_go nx rd (bs_loop_top (st\<lparr>bs_newsize := ?c, bs_j := 24\<rparr>)) ys (used + 24) s"
    unfolding e using ctrl_updates [OF w8, of a b x d 0 0 0 0] y
    by (simp add: bs_run_Cons header_low header_high Let_def numeral_eq_Suc)
  finally show ?thesis using y by (intro exI [of _ ?c]) simp
qed

lemma bs_byte_wait: "bs_byte nx rd p y st s = Some (Wait q, st', s') \<Longrightarrow> q \<noteq> BS_BEGIN"
  by (cases p)
    (auto simp: bs_byte_def bs_sum_top_def bs_extra_top_def bs_loop_top_def bs_ctrl_byte_def bs_header_byte_def Let_def
      split: prod.splits if_splits bind_splits)

lemma bs_run_wait:
  "bs_run nx rd p xs u st s = Some (Wait q, u', st', s') \<Longrightarrow>
   u' = u + length xs \<and> (p \<noteq> BS_BEGIN \<longrightarrow> q \<noteq> BS_BEGIN)"
proof (induction nx rd p xs u st s rule: bs_run.induct)
  case (1 nx rd p u st s)
  then show ?case by simp
next
  case (2 nx rd p y ys u st s)
  from 2(2) obtain r st1 s1 where b: "bs_byte nx rd p y st s = Some (r, st1, s1)"
    and g: "bs_go nx rd (r, st1) ys (u + 1) s1 = Some (Wait q, u', st', s')"
    by (auto simp: bs_run_Cons split: bind_splits)
  obtain p' where r: "r = Wait p'" using g unfolding bs_go_def by (cases r) simp_all
  have p': "p' \<noteq> BS_BEGIN" by (rule bs_byte_wait [OF b [unfolded r]])
  have "bs_run nx rd p' ys (u + 1) st1 s1 = Some (Wait q, u', st', s')" using g r by simp
  from 2(1) [OF b refl refl r this] p' show ?case by simp
qed

lemma bs_run_bound: "bs_run nx rd p xs u st s = Some (r, u', st', s') \<Longrightarrow> u' \<le> u + length xs"
proof (induction nx rd p xs u st s rule: bs_run.induct)
  case (1 nx rd p u st s)
  then show ?case by simp
next
  case (2 nx rd p y ys u st s)
  from 2(2) obtain r1 st1 s1 where b: "bs_byte nx rd p y st s = Some (r1, st1, s1)"
    and g: "bs_go nx rd (r1, st1) ys (u + 1) s1 = Some (r, u', st', s')"
    by (auto simp: bs_run_Cons split: bind_splits)
  show ?case
  proof (cases r1)
    case (Wait p')
    with 2(1) [OF b refl refl Wait] g show ?thesis by simp
  qed (use g in \<open>auto simp: bs_go_def\<close>)
qed

lemma bs_feed_done: "bs_finish ctx \<Longrightarrow> feed (bspatch_pipeline nx rd) cs (ctx, s) = Some (ctx, s)"
  by (induction cs) (simp_all add: bspatch_pipeline_def)

lemma bs_feed:
  assumes "cs \<noteq> []" and "\<not> bs_finish ctx" and "bs_enter ctx = (p, st)" and "p \<noteq> BS_BEGIN"
    and "bs_run nx rd p (concat cs) 0 st s = Some (Finished, length (concat cs), st', s')"
  shows "\<exists>ctx'. feed (bspatch_pipeline nx rd) cs (ctx, s) = Some (ctx', s') \<and> bs_finish ctx'"
  using assms
proof (induction cs arbitrary: ctx p st s rule: list_nonempty_induct)
  case (single c)
  then show ?case by (simp add: bspatch_pipeline_def)
next
  case (cons c cs)
  from cons.prems(4) obtain r u st1 s1 where r: "bs_run nx rd p c 0 st s = Some (r, u, st1, s1)"
    by (auto simp: bs_run_append split: bind_splits)
  show ?case
  proof (cases r)
    case (Wait q)
    let ?ctx = "ctx\<lparr>bs_state := q, bs_static := st1\<rparr>"
    have u: "u = length c" "q \<noteq> BS_BEGIN" using bs_run_wait r Wait cons.prems(3) by fastforce+
    have "bs_run nx rd q (concat cs) (0 + u) st1 s1 = Some (Finished, length c + length (concat cs), st', s')"
      using cons.prems(4) r Wait by (simp add: bs_run_append)
    then have "bs_run nx rd q (concat cs) 0 st1 s1 = Some (Finished, length (concat cs), st', s')"
      using u(1) by (auto simp only: bs_run_used split: bind_splits)
    moreover have "bs_enter ?ctx = (q, st1)" using u(2) by (simp add: bs_enter_def)
    ultimately show ?thesis
      using cons.IH [of ?ctx q st1 s1] cons.prems(1,2) u r Wait by (simp add: bspatch_pipeline_def)
  next
    case Finished
    with cons.prems(4) r have "u = length c + length (concat cs)" "st1 = st'" "s1 = s'"
      by (auto simp: bs_run_append)
    with cons.prems(1,2) r Finished
    have "bspatch_pipeline nx rd c (ctx, s) = Some (int u, ctx\<lparr>bs_finish := True, bs_static := st'\<rparr>, s')"
      by (simp add: bspatch_pipeline_def)
    then show ?thesis by (simp add: bs_feed_done)
  next
    case (Failed k)
    with cons.prems(4) r show ?thesis by (simp add: bs_run_append)
  qed
qed

context patch_source
begin

text \<open>However the patch is cut into blocks, the next stage receives the new image.\<close>

lemma bspatch_applies:
  assumes "patch_apply old 0 entries = Some new" and "concat cs = enc_patch (length new) entries"
    and "list_all wf_entry entries" and "live entries" and "length new < 2 ^ 31"
    and "bs_state ctx = BS_BEGIN" and "\<not> bs_finish ctx" and "wf_bs (bs_static ctx)"
    and "holds out s" and "length out + length new \<le> cap"
  shows "\<exists>ctx' s'. feed (bspatch_pipeline next_stage read_old) cs (ctx, s) = Some (ctx', s') \<and>
    bs_finish ctx' \<and> holds (out @ new) s'"
proof -
  let ?st = "(bs_static ctx)\<lparr>bs_oldpos := 0, bs_newpos := 0, bs_j := 0\<rparr>"
  have wf: "wf_bs ?st" using assms(8) by (simp add: wf_bs_def)
  have ent: "bs_enter ctx = (BS_HEADER, ?st)" using assms(6) by (simp add: bs_enter_def)
  obtain c where c: "ctrl_y c = int (length new)" "length c = 8"
    "bs_run next_stage read_old BS_HEADER (enc_patch (length new) entries) 0 ?st s =
      bs_go next_stage read_old (bs_loop_top (?st\<lparr>bs_newsize := c, bs_j := 24\<rparr>)) (concat (map enc_entry entries)) (0 + 24) s"
    unfolding enc_patch_def using read_header [OF wf assms(5)] by fastforce
  have "wf_bs (?st\<lparr>bs_newsize := c, bs_j := 24\<rparr>)" using wf c(2) by (simp add: wf_bs_def)
  then obtain st' s' where e: "bs_go next_stage read_old (bs_loop_top (?st\<lparr>bs_newsize := c, bs_j := 24\<rparr>))
      (concat (map enc_entry entries)) 24 s =
        Some (Finished, 24 + length (concat (map enc_entry entries)), st', s')" "holds (out @ new) s'"
    using patch_entries_ok [of "?st\<lparr>bs_newsize := c, bs_j := 24\<rparr>" entries new out s 24] assms(1,3,4,9,10) c(1) by auto
  have "length (concat cs) = 24 + length (concat (map enc_entry entries))"
    unfolding assms(2) by (simp add: enc_patch_def)
  then have "bs_run next_stage read_old BS_HEADER (concat cs) 0 ?st s = Some (Finished, length (concat cs), st', s')"
    using c(3) e(1) assms(2) by simp
  moreover have "cs \<noteq> []" using assms(2) by (auto simp: enc_patch_def)
  ultimately obtain ctx' where "feed (bspatch_pipeline next_stage read_old) cs (ctx, s) = Some (ctx', s')" "bs_finish ctx'"
    using bs_feed [OF _ assms(7) ent, of cs next_stage read_old s st' s'] by auto
  with e(2) show ?thesis by blast
qed

end

end
