(* ===== verification/Rng.thy ===== *)
theory Rng
  imports Upkit_Types
begin

text \<open>
  The random number generators of the platforms (\<open>src/platform/*/rng*.c\<close>, declared in
  \<open>include/libpull/security/rng.h\<close>). The generator a platform calls (the C library's \<open>rand\<close>, RIOT's
  \<open>random_uint32\<close>, the TRNG of the CC2650, Zephyr's \<open>sys_rand32_get\<close>) is a parameter: a function of the state of
  the generator, which stands in the place of the empty \<open>rng_ctx_t\<close>.
\<close>

record 'r rng_iface =
  rng_init :: "'r \<Rightarrow> pull_error \<times> 'r"
  rng_generate :: "'r \<Rightarrow> pull_error \<times> nonce_t \<times> 'r"

section \<open>The four platforms\<close>

text \<open>POSIX: \<open>srand(time(NULL))\<close> seeds the generator, and the \<open>int\<close> that \<open>rand\<close> returns is cast to \<open>uint32_t\<close>.\<close>

definition posix_rng :: "('r \<Rightarrow> 'r) \<Rightarrow> ('r \<Rightarrow> int \<times> 'r) \<Rightarrow> 'r rng_iface" where
  "posix_rng srand_time rand = \<lparr>rng_init = (\<lambda>r. (PULL_SUCCESS, srand_time r)),
     rng_generate = (\<lambda>r. case rand r of (n, r') \<Rightarrow> (PULL_SUCCESS, word_of_int n, r'))\<rparr>"

definition cc2538_rng :: "('r \<Rightarrow> u32 \<times> 'r) \<Rightarrow> 'r rng_iface" where
  "cc2538_rng random_uint32 = \<lparr>rng_init = (\<lambda>r. (PULL_SUCCESS, r)),
     rng_generate = (\<lambda>r. case random_uint32 r of (n, r') \<Rightarrow> (PULL_SUCCESS, n, r'))\<rparr>"

datatype trng_word = TRNG_HI_WORD | TRNG_LOW_WORD

definition cc2650_rng :: "(trng_word \<Rightarrow> 'r \<Rightarrow> u32 \<times> 'r) \<Rightarrow> 'r rng_iface" where
  "cc2650_rng trng_number_get = \<lparr>rng_init = (\<lambda>r. (PULL_SUCCESS, r)),
     rng_generate = (\<lambda>r. case trng_number_get TRNG_HI_WORD r of (n, r') \<Rightarrow> (PULL_SUCCESS, n, r'))\<rparr>"

definition nrf52840_rng :: "('r \<Rightarrow> u32 \<times> 'r) \<Rightarrow> 'r rng_iface" where
  "nrf52840_rng sys_rand32_get = \<lparr>rng_init = (\<lambda>r. (PULL_SUCCESS, r)),
     rng_generate = (\<lambda>r. case sys_rand32_get r of (n, r') \<Rightarrow> (PULL_SUCCESS, n, r'))\<rparr>"

section \<open>The contract\<close>

text \<open>Neither operation fails.\<close>

locale rng_contract =
  fixes rng :: "'r rng_iface"
  assumes rng_init_ok: "\<exists>r'. rng_init rng r = (PULL_SUCCESS, r')"
    and rng_generate_ok: "\<exists>n r'. rng_generate rng r = (PULL_SUCCESS, n, r')"

interpretation posix_rng: rng_contract "posix_rng srand_time rand"
  by unfold_locales (auto simp: posix_rng_def split: prod.splits)

interpretation cc2538_rng: rng_contract "cc2538_rng random_uint32"
  by unfold_locales (auto simp: cc2538_rng_def split: prod.splits)

interpretation cc2650_rng: rng_contract "cc2650_rng trng_number_get"
  by unfold_locales (auto simp: cc2650_rng_def split: prod.splits)

interpretation nrf52840_rng: rng_contract "nrf52840_rng sys_rand32_get"
  by unfold_locales (auto simp: nrf52840_rng_def split: prod.splits)

end
