(* ===== verification/Fsm.thy ===== *)
theory Fsm
  imports Verifier Pipeline_Lzss Pipeline_Bspatch Rng
begin

text \<open>
  The update state machine (\<open>src/core/network/fsm.c\<close>, \<open>include/libpull/network/fsm.h\<close>,
  \<open>receiver.h\<close>).

  \<open>fsm_ctx\<close> is \<open>fsm_ctx_t\<close>; the pointers \<open>sf\<close>, \<open>obj\<close> and \<open>old_obj\<close> are the structures they point to.
  \<open>fsm_static\<close> is the static memory of the file: the array \<open>buffer\<close>, which holds the internal
  state at its start and is handed to \<open>verify_object\<close> as its work buffer, and the static
  contexts of the pipeline stages. The manifest and the nonce are the bytes 0 to 255 and 256
  to 259 of the array; the part of it that holds the pipeline configuration is
  \<open>is_pipe\<close>, which is lost (\<open>None\<close>) when the verifier has used the array. The parameters of the
  model are the memory and the security interface, the slot table, and the random number
  generator of the platform.

  The handler returns \<open>None\<close> where the code has undefined behaviour or does not return.
\<close>

section \<open>State\<close>

datatype fsm_state_t = STATE_CLEAN | STATE_IDLE | STATE_START_UPDATE | STATE_RECEIVE_MANIFEST
  | STATE_VERIFY_MANIFEST | STATE_RECEIVE_FIRMWARE | STATE_VERIFY_FIRMWARE | STATE_REBOOT

record ('o, 'r) fsm_ctx =
  fsm_state :: fsm_state_t
  fsm_version :: version_t
  fsm_sf :: safestore_t
  fsm_processed :: nat
  fsm_expected :: nat
  fsm_id :: mem_id_t
  fsm_obj :: 'o
  fsm_rctx :: 'r
  fsm_old_id :: mem_id_t
  fsm_old_obj :: 'o

record receiver_msg_t =
  msg_udid :: udid_t
  msg_nonce :: nonce_t
  msg_version :: version_t
  msg_offset :: address_t

datatype fsm_pipe = PIPE_FULL | PIPE_DIFF

record 'o fsm_static =
  is_buffer :: "byte list"
  is_pipe :: "fsm_pipe option"
  st_buffer :: buffer_ctx
  st_writer :: "'o writer_ctx"
  st_lzss :: lzss_ctx
  st_bspatch :: bspatch_ctx

definition FSM_BUFFER_SIZE :: nat where "FSM_BUFFER_SIZE = 1024"

definition sizeof_receiver_msg :: nat where "sizeof_receiver_msg = 16"

text \<open>What a platform links in.\<close>

record ('w, 'o, 'd, 'r) platform =
  pl_mem :: "('w, 'o) mem_iface"
  pl_sec :: "'d sec_iface"
  pl_slots :: "mem_slot_t list"
  pl_rng :: "'r rng_iface"

section \<open>Views of the static memory\<close>

definition is_mt :: "'o fsm_static \<Rightarrow> manifest_t" where
  "is_mt fs = manifest_of_bytes (take sizeof_manifest (is_buffer fs))"

definition set_is_mt :: "manifest_t \<Rightarrow> 'o fsm_static \<Rightarrow> 'o fsm_static" where
  "set_is_mt mt fs = fs\<lparr>is_buffer := splice_at 0 (manifest_bytes mt) (is_buffer fs)\<rparr>"

definition set_is_nonce :: "nonce_t \<Rightarrow> 'o fsm_static \<Rightarrow> 'o fsm_static" where
  "set_is_nonce n fs = fs\<lparr>is_buffer := splice_at sizeof_manifest (le_enc 4 (unat n)) (is_buffer fs)\<rparr>"

text \<open>The fields of a \<open>receiver_msg_t\<close> inside a byte buffer.\<close>

definition put_msg :: "udid_t \<Rightarrow> version_t \<Rightarrow> nonce_t \<Rightarrow> byte list \<Rightarrow> byte list" where
  "put_msg udid version nonce buf =
     splice_at 4 (le_enc 4 (unat nonce)) (splice_at 8 (le_enc 2 (unat version)) (splice_at 0 (le_enc 2 (unat udid)) buf))"

section \<open>The pipelines\<close>

definition read_old ::
  "('w, 'o) mem_iface \<Rightarrow> 'o \<Rightarrow> address_t \<Rightarrow> buffer_ctx \<times> 'o writer_ctx \<times> 'w \<Rightarrow>
   nat \<times> byte \<times> (buffer_ctx \<times> 'o writer_ctx \<times> 'w)" where
  "read_old m old a s =
     (case s of (bc, wc, w) \<Rightarrow> case memory_read m old [0] 1 a w of (n, bs, w') \<Rightarrow> (n, hd bs, (bc, wc, w')))"

text \<open>A call of \<open>buffer_pipeline\<close> on the buffer context, with the writer behind it.\<close>

definition fsm_store ::
  "('w, 'o) mem_iface \<Rightarrow> byte list \<Rightarrow> 'o fsm_static \<Rightarrow> 'w \<Rightarrow> (int \<times> 'o fsm_static \<times> 'w) option" where
  "fsm_store m data fs w =
     Option.bind (buffer_pipeline (writer_pipeline m) data (st_buffer fs, st_writer fs, w))
       (\<lambda>(ret, bc, wc, w'). Some (ret, fs\<lparr>st_buffer := bc, st_writer := wc\<rparr>, w'))"

text \<open>\<open>is->pipeline(is->pipeline_ctx, buf, len)\<close>\<close>

definition fsm_pipeline ::
  "('w, 'o) mem_iface \<Rightarrow> 'o \<Rightarrow> byte list \<Rightarrow> 'o fsm_static \<Rightarrow> 'w \<Rightarrow> (int \<times> 'o fsm_static \<times> 'w) option" where
  "fsm_pipeline m old data fs w =
     (case is_pipe fs of
        None \<Rightarrow> None
      | Some PIPE_FULL \<Rightarrow> fsm_store m data fs w
      | Some PIPE_DIFF \<Rightarrow>
          Option.bind (lzss_pipeline (bspatch_pipeline (buffer_pipeline (writer_pipeline m)) (read_old m old)) data
              (st_lzss fs, st_bspatch fs, st_buffer fs, st_writer fs, w))
            (\<lambda>(ret, lc, pc, bc, wc, w').
              Some (ret, fs\<lparr>st_lzss := lc, st_bspatch := pc, st_buffer := bc, st_writer := wc\<rparr>, w')))"

definition fsm_clear ::
  "('w, 'o) mem_iface \<Rightarrow> 'o fsm_static \<Rightarrow> 'w \<Rightarrow> ('o fsm_static \<times> 'w) option" where
  "fsm_clear m fs w =
     Option.bind (pipeline_buffer_clear (writer_pipeline m) (st_buffer fs, st_writer fs, w))
       (\<lambda>(_, bc, wc, w'). Some (fs\<lparr>st_buffer := bc, st_writer := wc\<rparr>, w'))"

section \<open>Initialisation\<close>

definition fsm_init ::
  "('w, 'o, 'd, 'r) platform \<Rightarrow> ('o, 'r) fsm_ctx \<Rightarrow> safestore_t \<Rightarrow> 'o \<Rightarrow> 'o \<Rightarrow> 'w \<Rightarrow>
   pull_error \<times> ('o, 'r) fsm_ctx \<times> 'w" where
  "fsm_init pl ctx sf obj old_obj w =
     (let ctx1 = ctx\<lparr>fsm_obj := obj, fsm_old_obj := old_obj, fsm_state := STATE_IDLE, fsm_processed := 0, fsm_sf := sf\<rparr> in
      case get_newest_firmware (pl_mem pl) (pl_slots pl) (fsm_old_id ctx1) (fsm_version ctx1) (fsm_obj ctx1) True w of
        (err, i, v, obj', w') \<Rightarrow>
          let ctx2 = ctx1\<lparr>fsm_old_id := i, fsm_version := v, fsm_obj := obj'\<rparr> in
          if err \<noteq> PULL_SUCCESS then (err, ctx2, w')
          else (case rng_init (pl_rng pl) (fsm_rctx ctx2) of (err, r) \<Rightarrow> (err, ctx2\<lparr>fsm_rctx := r\<rparr>, w')))"

definition update_receiver_msg :: "('o, 'r) fsm_ctx \<Rightarrow> receiver_msg_t \<Rightarrow> pull_error \<times> receiver_msg_t" where
  "update_receiver_msg ctx msg = (PULL_SUCCESS, msg\<lparr>msg_offset := word_of_nat (fsm_processed ctx)\<rparr>)"

section \<open>The states\<close>

type_synonym ('o, 'r, 'w) fsm_result =
  "(pull_error \<times> ('o, 'r) fsm_ctx \<times> 'o fsm_static \<times> byte list \<times> 'w) option"

definition fsm_idle ::
  "('o, 'r) fsm_ctx \<Rightarrow> 'o fsm_static \<Rightarrow> byte list \<Rightarrow> 'w \<Rightarrow> ('o, 'r, 'w) fsm_result" where
  "fsm_idle ctx fs buf w =
     (if length buf \<noteq> 2 then Some (INVALID_VERSION_ERROR, ctx\<lparr>fsm_state := STATE_CLEAN\<rparr>, fs, buf, w)
      else if (word_of_nat (le_dec (take 2 buf)) :: version_t) \<le> fsm_version ctx
      then Some (PULL_SUCCESS, ctx, fs, buf, w)
      else Some (PULL_SUCCESS, ctx\<lparr>fsm_state := STATE_START_UPDATE\<rparr>, fs, buf, w))"

definition fsm_clean ::
  "('o, 'r) fsm_ctx \<Rightarrow> 'o fsm_static \<Rightarrow> byte list \<Rightarrow> 'w \<Rightarrow> ('o, 'r, 'w) fsm_result" where
  "fsm_clean ctx fs buf w =
     fsm_idle (ctx\<lparr>fsm_processed := 0, fsm_id := 0, fsm_state := STATE_IDLE\<rparr>) (set_is_mt zero_manifest fs) buf w"

definition fsm_start_update ::
  "('w, 'o, 'd, 'r) platform \<Rightarrow> ('o, 'r) fsm_ctx \<Rightarrow> 'o fsm_static \<Rightarrow> byte list \<Rightarrow> 'w \<Rightarrow> ('o, 'r, 'w) fsm_result" where
  "fsm_start_update pl ctx fs buf w =
     (if length buf < sizeof_receiver_msg
      then Some (INVALID_STATE_ERROR, ctx\<lparr>fsm_state := STATE_CLEAN\<rparr>, fs, buf, w)
      else (case rng_generate (pl_rng pl) (fsm_rctx ctx) of (err, nonce, r) \<Rightarrow>
        let ctx1 = ctx\<lparr>fsm_rctx := r\<rparr>; fs1 = set_is_nonce nonce fs in
        if err \<noteq> PULL_SUCCESS then Some (err, ctx1\<lparr>fsm_state := STATE_CLEAN\<rparr>, fs1, buf, w)
        else Some (PULL_SUCCESS, ctx1\<lparr>fsm_state := STATE_RECEIVE_MANIFEST\<rparr>, fs1,
               put_msg (sf_udid (fsm_sf ctx)) (fsm_version ctx) nonce buf, w)))"

text \<open>
  Configuring the pipeline: the differential update is written out although the assignment
  of 0 to \<open>diff_version\<close> just before makes the first branch the only one taken.
\<close>

definition fsm_configure ::
  "('w, 'o, 'd, 'r) platform \<Rightarrow> manifest_t \<Rightarrow> ('o, 'r) fsm_ctx \<Rightarrow> 'o fsm_static \<Rightarrow> 'w \<Rightarrow>
   pull_error \<times> ('o, 'r) fsm_ctx \<times> 'o fsm_static \<times> 'w" where
  "fsm_configure pl mt ctx fs w =
     (if sm_diff_version (server mt) = 0 then (PULL_SUCCESS, ctx, fs\<lparr>is_pipe := Some PIPE_FULL\<rparr>, w)
      else if sm_diff_version (server mt) = fsm_version ctx
      then (let fs1 = fs\<lparr>st_bspatch := pipeline_bspatch_init (st_bspatch fs)\<rparr> in
        case memory_open (pl_mem pl) (fsm_old_obj ctx) (fsm_old_id ctx) READ_ONLY w of (err, old, w') \<Rightarrow>
          let ctx1 = ctx\<lparr>fsm_old_obj := old\<rparr> in
          if err \<noteq> PULL_SUCCESS then (MEMORY_READ_ERROR, ctx1, fs1, w')
          else (PULL_SUCCESS, ctx1, fs1\<lparr>is_pipe := Some PIPE_DIFF\<rparr>, w'))
      else (INVALID_SIGNATURE_ERROR, ctx\<lparr>fsm_state := STATE_CLEAN\<rparr>, fs, w))"

text \<open>From the choice of the slot to the end of the state; \<open>bufp\<close> are the bytes after the manifest.\<close>

definition fsm_open_slot ::
  "('w, 'o, 'd, 'r) platform \<Rightarrow> manifest_t \<Rightarrow> ('o, 'r) fsm_ctx \<Rightarrow> 'o fsm_static \<Rightarrow> byte list \<Rightarrow> byte list \<Rightarrow> 'w \<Rightarrow>
   ('o, 'r, 'w) fsm_result" where
  "fsm_open_slot pl mt ctx fs bufp buf w =
     (case get_oldest_firmware (pl_mem pl) (pl_slots pl) (fsm_id ctx) 0 (fsm_obj ctx) False w of
        (err, i, _, obj, w1) \<Rightarrow>
        let ctx1 = ctx\<lparr>fsm_id := i, fsm_obj := obj\<rparr> in
        if err \<noteq> PULL_SUCCESS then Some (err, ctx1\<lparr>fsm_state := STATE_CLEAN\<rparr>, fs, buf, w1)
        else (case memory_open (pl_mem pl) obj i WRITE_ALL w1 of (err, obj, w2) \<Rightarrow>
          let ctx2 = ctx1\<lparr>fsm_obj := obj\<rparr> in
          if err \<noteq> PULL_SUCCESS then Some (err, ctx2\<lparr>fsm_state := STATE_CLEAN\<rparr>, fs, buf, w2)
          else Option.bind (fsm_store (pl_mem pl) (manifest_bytes mt) (fs\<lparr>st_writer := pipeline_writer_init obj\<rparr>) w2)
            (\<lambda>(ret, fs, w3).
              if ret \<noteq> int sizeof_manifest then Some (err, ctx2\<lparr>fsm_state := STATE_CLEAN\<rparr>, fs, buf, w3)
              else (let expected = unat (vm_offset (vendor mt) + sm_prop_size (server mt)) in
                if bufp \<noteq> []
                then Option.bind (fsm_pipeline (pl_mem pl) (fsm_old_obj ctx2) bufp fs w3) (\<lambda>(ret, fs, w4).
                  if ret \<noteq> int (length bufp)
                  then Some (PIPELINE_ERROR, ctx2\<lparr>fsm_state := STATE_CLEAN\<rparr>, fs, buf, w4)
                  else Some (PULL_SUCCESS, ctx2\<lparr>fsm_processed := u32 (fsm_processed ctx2 + length bufp),
                         fsm_expected := expected, fsm_state := STATE_RECEIVE_FIRMWARE\<rparr>, fs, buf, w4))
                else Some (PULL_SUCCESS, ctx2\<lparr>fsm_expected := expected, fsm_state := STATE_RECEIVE_FIRMWARE\<rparr>,
                       fs, buf, w3)))))"

definition fsm_verify_manifest ::
  "('w, 'o, 'd, 'r) platform \<Rightarrow> ('o, 'r) fsm_ctx \<Rightarrow> 'o fsm_static \<Rightarrow> byte list \<Rightarrow> byte list \<Rightarrow> 'w \<Rightarrow>
   ('o, 'r, 'w) fsm_result" where
  "fsm_verify_manifest pl ctx fs bufp buf w =
     (if vm_version (vendor (is_mt fs)) \<le> fsm_version ctx
      then Some (INVALID_SIGNATURE_ERROR, ctx\<lparr>fsm_state := STATE_CLEAN\<rparr>, fs, buf, w)
      else Option.bind (verify_manifest (pl_sec pl) (is_mt fs) (fsm_sf ctx)) (\<lambda>err.
        if err \<noteq> PULL_SUCCESS
        then Some (INVALID_SIGNATURE_ERROR, ctx\<lparr>fsm_state := STATE_CLEAN\<rparr>, fs, buf, w)
        else (let mt = set_diff_version_impl (is_mt fs) 0;
                  fs1 = set_is_mt mt (fs\<lparr>st_buffer := pipeline_buffer_init (st_buffer fs)\<rparr>)
              in case fsm_configure pl mt ctx fs1 w of (err, ctx1, fs2, w1) \<Rightarrow>
                if err \<noteq> PULL_SUCCESS then Some (err, ctx1, fs2, buf, w1)
                else fsm_open_slot pl mt ctx1 fs2 bufp buf w1)))"

text \<open>The copying loop of the state: the number of bytes processed, the rest, and the array.\<close>

fun receive_manifest_loop :: "nat \<Rightarrow> byte list \<Rightarrow> byte list \<Rightarrow> nat \<times> byte list \<times> byte list" where
  "receive_manifest_loop processed [] mem = (processed, [], mem)"
| "receive_manifest_loop processed (b # bufp) mem =
     (if processed < sizeof_manifest
      then receive_manifest_loop (processed + 1) bufp (mem[processed := b])
      else (processed, b # bufp, mem))"

definition fsm_receive_manifest ::
  "('w, 'o, 'd, 'r) platform \<Rightarrow> ('o, 'r) fsm_ctx \<Rightarrow> 'o fsm_static \<Rightarrow> byte list \<Rightarrow> 'w \<Rightarrow> ('o, 'r, 'w) fsm_result" where
  "fsm_receive_manifest pl ctx fs buf w =
     (if fsm_processed ctx > sizeof_manifest
      then Some (INVALID_STATE_ERROR, ctx\<lparr>fsm_state := STATE_CLEAN\<rparr>, fs, buf, w)
      else (case receive_manifest_loop (fsm_processed ctx) buf (is_buffer fs) of (processed, bufp, mem) \<Rightarrow>
        let ctx1 = ctx\<lparr>fsm_processed := processed\<rparr>; fs1 = fs\<lparr>is_buffer := mem\<rparr> in
        if processed < sizeof_manifest then Some (PULL_SUCCESS, ctx1, fs1, buf, w)
        else fsm_verify_manifest pl ctx1 fs1 bufp buf w))"

definition fsm_verify_firmware ::
  "('w, 'o, 'd, 'r) platform \<Rightarrow> ('o, 'r) fsm_ctx \<Rightarrow> 'o fsm_static \<Rightarrow> byte list \<Rightarrow> 'w \<Rightarrow> ('o, 'r, 'w) fsm_result" where
  "fsm_verify_firmware pl ctx fs buf w =
     (case memory_open (pl_mem pl) (fsm_obj ctx) (fsm_id ctx) READ_ONLY w of (_, obj, w1) \<Rightarrow>
        let ctx1 = ctx\<lparr>fsm_obj := obj\<rparr> in
        Option.bind (verify_object (pl_sec pl) (pl_mem pl) obj (fsm_sf ctx) (is_buffer fs) w1) (\<lambda>(err, mem, w2).
          case memory_close (pl_mem pl) obj w2 of (_, w3) \<Rightarrow>
          let fs1 = fs\<lparr>is_buffer := mem, is_pipe := None\<rparr> in
          if err \<noteq> PULL_SUCCESS then Some (err, ctx1\<lparr>fsm_state := STATE_IDLE\<rparr>, fs1, buf, w3)
          else Some (PULL_SUCCESS, ctx1\<lparr>fsm_state := STATE_REBOOT\<rparr>, fs1, buf, w3)))"

definition fsm_receive_firmware ::
  "('w, 'o, 'd, 'r) platform \<Rightarrow> ('o, 'r) fsm_ctx \<Rightarrow> 'o fsm_static \<Rightarrow> byte list \<Rightarrow> 'w \<Rightarrow> ('o, 'r, 'w) fsm_result" where
  "fsm_receive_firmware pl ctx fs buf w =
     (if u32 (fsm_processed ctx + length buf) > fsm_expected ctx
      then Some (INVALID_SIZE_ERROR, ctx\<lparr>fsm_state := STATE_CLEAN\<rparr>, fs, buf, w)
      else Option.bind (fsm_pipeline (pl_mem pl) (fsm_old_obj ctx) buf fs w) (\<lambda>(ret, fs1, w1).
        if ret \<noteq> int (length buf) then Some (PIPELINE_ERROR, ctx\<lparr>fsm_state := STATE_CLEAN\<rparr>, fs1, buf, w1)
        else (let ctx1 = ctx\<lparr>fsm_processed := u32 (fsm_processed ctx + length buf)\<rparr> in
          if fsm_processed ctx1 \<noteq> fsm_expected ctx1 then Some (PULL_SUCCESS, ctx1, fs1, buf, w1)
          else Option.bind (fsm_clear (pl_mem pl) fs1 w1) (\<lambda>(fs2, w2).
            case memory_close (pl_mem pl) (fsm_obj ctx1) w2 of (_, w3) \<Rightarrow>
            fsm_verify_firmware pl (ctx1\<lparr>fsm_state := STATE_VERIFY_FIRMWARE\<rparr>) fs2 buf w3))))"

definition fsm ::
  "('w, 'o, 'd, 'r) platform \<Rightarrow> ('o, 'r) fsm_ctx \<Rightarrow> 'o fsm_static \<Rightarrow> byte list \<Rightarrow> 'w \<Rightarrow> ('o, 'r, 'w) fsm_result" where
  "fsm pl ctx fs buf w =
     (case fsm_state ctx of
        STATE_CLEAN \<Rightarrow> fsm_clean ctx fs buf w
      | STATE_IDLE \<Rightarrow> fsm_idle ctx fs buf w
      | STATE_START_UPDATE \<Rightarrow> fsm_start_update pl ctx fs buf w
      | STATE_RECEIVE_MANIFEST \<Rightarrow> fsm_receive_manifest pl ctx fs buf w
      | STATE_VERIFY_MANIFEST \<Rightarrow> None
      | STATE_RECEIVE_FIRMWARE \<Rightarrow> fsm_receive_firmware pl ctx fs buf w
      | STATE_VERIFY_FIRMWARE \<Rightarrow> fsm_verify_firmware pl ctx fs buf w
      | STATE_REBOOT \<Rightarrow> Some (PULL_SUCCESS, ctx, fs, buf, w))"

section \<open>What the machine never does\<close>

text \<open>
  These facts hold for every platform, whether or not its memory and its libraries work.
\<close>

lemmas fsm_defs = fsm_def fsm_clean_def fsm_idle_def fsm_start_update_def fsm_receive_manifest_def
  fsm_verify_manifest_def fsm_configure_def fsm_open_slot_def fsm_receive_firmware_def fsm_verify_firmware_def

lemmas fsm_splits = if_splits bind_splits prod.splits option.splits

lemma fsm_idle_state:
  "fsm_idle ctx fs buf w = Some (e, ctx', fs', buf', w') \<Longrightarrow>
   fsm_state ctx' \<in> {fsm_state ctx, STATE_CLEAN, STATE_START_UPDATE} \<and> w' = w \<and> fsm_sf ctx' = fsm_sf ctx"
  by (auto simp: fsm_idle_def split: if_splits)

lemma fsm_open_slot_state:
  "fsm_open_slot pl mt ctx fs bufp buf w = Some (e, ctx', fs', buf', w') \<Longrightarrow>
   fsm_state ctx' \<in> {STATE_CLEAN, STATE_RECEIVE_FIRMWARE}"
  by (auto simp: fsm_open_slot_def Let_def split: fsm_splits)

lemma fsm_verify_manifest_state:
  "fsm_verify_manifest pl ctx fs bufp buf w = Some (e, ctx', fs', buf', w') \<Longrightarrow>
   fsm_state ctx' \<in> {fsm_state ctx, STATE_CLEAN, STATE_RECEIVE_FIRMWARE}"
  by (auto simp: fsm_verify_manifest_def fsm_configure_def Let_def dest!: fsm_open_slot_state
      split: fsm_splits)

text \<open>The outcome of the last state.\<close>

lemma fsm_verify_firmware_state:
  assumes "fsm_verify_firmware pl ctx fs buf w = Some (e, ctx', fs', buf', w')"
  shows "fsm_state ctx' = (if e = PULL_SUCCESS then STATE_REBOOT else STATE_IDLE)"
    and "e = PULL_SUCCESS \<Longrightarrow> \<exists>e0 obj w1 buf1 w2. memory_open (pl_mem pl) (fsm_obj ctx) (fsm_id ctx) READ_ONLY w = (e0, obj, w1) \<and>
      verify_object (pl_sec pl) (pl_mem pl) obj (fsm_sf ctx) (is_buffer fs) w1 = Some (PULL_SUCCESS, buf1, w2)"
    and "fsm_id ctx' = fsm_id ctx" and "fsm_sf ctx' = fsm_sf ctx"
  using assms by (auto simp: fsm_verify_firmware_def Let_def split: fsm_splits)

lemma fsm_receive_firmware_state:
  assumes "fsm_receive_firmware pl ctx fs buf w = Some (e, ctx', fs', buf', w')"
    and "fsm_state ctx' = STATE_REBOOT" and "fsm_state ctx \<noteq> STATE_REBOOT"
  shows "\<exists>ctx1 fs1 w1. fsm_verify_firmware pl ctx1 fs1 buf w1 = Some (e, ctx', fs', buf', w') \<and>
    fsm_id ctx1 = fsm_id ctx \<and> fsm_sf ctx1 = fsm_sf ctx"
proof -
  let ?ctx = "ctx\<lparr>fsm_processed := u32 (fsm_processed ctx + length buf)\<rparr>\<lparr>fsm_state := STATE_VERIFY_FIRMWARE\<rparr>"
  from assms obtain fs1 w1 where "fsm_verify_firmware pl ?ctx fs1 buf w1 = Some (e, ctx', fs', buf', w')"
    unfolding fsm_receive_firmware_def Let_def by (auto split: fsm_splits)
  then show ?thesis by (intro exI [of _ ?ctx]) auto
qed

section \<open>Reachable states\<close>

text \<open>Static memory as the program starts with it: the stage contexts have their arrays.\<close>

definition wf_static :: "'o fsm_static \<Rightarrow> bool" where
  "wf_static fs \<longleftrightarrow> wf_buffer (st_buffer fs)"

inductive fsm_reachable :: "('w, 'o, 'd, 'r) platform \<Rightarrow> ('o, 'r) fsm_ctx \<Rightarrow> 'o fsm_static \<Rightarrow> 'w \<Rightarrow> bool"
  for pl where
  fsm_start: "fsm_init pl ctx0 sf obj old w0 = (PULL_SUCCESS, ctx, w) \<Longrightarrow> wf_static fs \<Longrightarrow> fsm_reachable pl ctx fs w"
| fsm_call: "fsm_reachable pl ctx fs w \<Longrightarrow> fsm pl ctx fs buf w = Some (e, ctx', fs', buf', w') \<Longrightarrow>
    fsm_reachable pl ctx' fs' w'"

text \<open>
  Between two calls the machine is never in one of the two states that it only passes
  through, and while it receives the firmware the pipeline is the one for full images.
\<close>

definition fsm_inv :: "('o, 'r) fsm_ctx \<Rightarrow> 'o fsm_static \<Rightarrow> bool" where
  "fsm_inv ctx fs \<longleftrightarrow> wf_static fs \<and> fsm_state ctx \<notin> {STATE_VERIFY_MANIFEST, STATE_VERIFY_FIRMWARE} \<and>
     (fsm_state ctx = STATE_RECEIVE_FIRMWARE \<longrightarrow> is_pipe fs = Some PIPE_FULL)"

lemma fsm_store_wf:
  assumes "wf_static fs"
  shows "\<exists>fs' w'. fsm_store m data fs w = Some (int (length data), fs', w') \<and> wf_static fs' \<and>
    is_pipe fs' = is_pipe fs \<and> is_buffer fs' = is_buffer fs"
proof -
  obtain bc s' where "buffer_loop (writer_pipeline m) data (st_buffer fs) (st_writer fs, w) = Some (bc, s')"
    "wf_buffer bc"
    using buffer_loop_total [where next_stage = "writer_pipeline m", OF writer_pipeline_total, of "st_buffer fs"]
      assms unfolding wf_static_def by blast
  then show ?thesis
    by (cases s') (simp add: fsm_store_def buffer_pipeline_def wf_static_def)
qed

lemma fsm_clear_wf:
  "wf_static fs \<Longrightarrow> \<exists>fs' w'. fsm_clear m fs w = Some (fs', w') \<and> wf_static fs'"
  using writer_pipeline_total [of m "take (bufferp (st_buffer fs)) (buffer (st_buffer fs))" "(st_writer fs, w)"]
  by (auto simp: fsm_clear_def pipeline_buffer_clear_def wf_static_def)

lemma fsm_configure_full:
  "sm_diff_version (server mt) = 0 \<Longrightarrow>
   fsm_configure pl mt ctx fs w = (PULL_SUCCESS, ctx, fs\<lparr>is_pipe := Some PIPE_FULL\<rparr>, w)"
  by (simp add: fsm_configure_def)

lemma fsm_open_slot_inv:
  assumes "wf_static fs" and "is_pipe fs = Some PIPE_FULL"
  shows "\<exists>e ctx' fs' buf' w'. fsm_open_slot pl mt ctx fs bufp buf w = Some (e, ctx', fs', buf', w') \<and> fsm_inv ctx' fs'"
proof -
  obtain e i v ob w1 where g: "get_oldest_firmware (pl_mem pl) (pl_slots pl) (fsm_id ctx) 0 (fsm_obj ctx) False w =
      (e, i, v, ob, w1)" by (metis prod_cases5)
  obtain e2 ob2 w2 where o: "memory_open (pl_mem pl) ob i WRITE_ALL w1 = (e2, ob2, w2)" by (metis prod_cases3)
  let ?fs = "fs\<lparr>st_writer := pipeline_writer_init ob2\<rparr>"
  have "wf_static ?fs" using assms(1) by (simp add: wf_static_def)
  from fsm_store_wf [OF this] obtain fs3 w3 where
    s: "fsm_store (pl_mem pl) (manifest_bytes mt) ?fs w2 = Some (int (length (manifest_bytes mt)), fs3, w3)"
    "wf_static fs3" "is_pipe fs3 = Some PIPE_FULL"
    using assms(2) by fastforce
  obtain fs4 w4 where p: "fsm_pipeline (pl_mem pl) old bufp fs3 w3 = Some (int (length bufp), fs4, w4)"
    "wf_static fs4" "is_pipe fs4 = Some PIPE_FULL" for old
    using fsm_store_wf [OF s(2), of "pl_mem pl" bufp w3] s(3) by (fastforce simp: fsm_pipeline_def)
  show ?thesis
    using assms g o s p by (auto simp: fsm_open_slot_def fsm_inv_def Let_def wf_static_def)
qed

lemma wf_static_simps [simp]:
  "wf_static (fs\<lparr>is_buffer := b\<rparr>) = wf_static fs" "wf_static (fs\<lparr>is_pipe := p\<rparr>) = wf_static fs"
  "wf_static (set_is_mt mt fs) = wf_static fs" "wf_static (set_is_nonce n fs) = wf_static fs"
  by (simp_all add: wf_static_def set_is_mt_def set_is_nonce_def)

text \<open>
  A call of the machine returns with the invariant, unless one of the two verifications does
  not return.
\<close>

definition fsm_ok :: "('w, 'o, 'd, 'r) platform \<Rightarrow> safestore_t \<Rightarrow> ('o, 'r, 'w) fsm_result \<Rightarrow> bool" where
  "fsm_ok pl sf r \<longleftrightarrow>
     (case r of
        None \<Rightarrow> (\<exists>mt. verify_manifest (pl_sec pl) mt sf = None) \<or>
          (\<exists>ob mem w. verify_object (pl_sec pl) (pl_mem pl) ob sf mem w = None)
      | Some (e, ctx', fs', buf', w') \<Rightarrow> fsm_inv ctx' fs')"

lemma fsm_verify_manifest_inv:
  assumes "wf_static fs" and "fsm_state ctx = STATE_RECEIVE_MANIFEST"
  shows "fsm_ok pl (fsm_sf ctx) (fsm_verify_manifest pl ctx fs bufp buf w)"
proof (cases "vm_version (vendor (is_mt fs)) \<le> fsm_version ctx \<or>
    verify_manifest (pl_sec pl) (is_mt fs) (fsm_sf ctx) \<noteq> Some PULL_SUCCESS")
  case True
  with assms show ?thesis
    by (auto simp: fsm_ok_def fsm_verify_manifest_def fsm_inv_def split: bind_splits option.splits)
next
  case False
  let ?mt = "set_diff_version_impl (is_mt fs) 0"
  let ?fs = "set_is_mt ?mt (fs\<lparr>st_buffer := pipeline_buffer_init (st_buffer fs)\<rparr>)\<lparr>is_pipe := Some PIPE_FULL\<rparr>"
  have d: "sm_diff_version (server ?mt) = 0" by (simp add: set_diff_version_impl_def)
  have "fsm_verify_manifest pl ctx fs bufp buf w = fsm_open_slot pl ?mt ctx ?fs bufp buf w"
    using False by (simp add: fsm_verify_manifest_def fsm_configure_full [OF d] Let_def)
  moreover have "wf_static ?fs"
    using assms(1) by (simp add: wf_static_def set_is_mt_def wf_buffer_init)
  then obtain e ctx' fs' buf' w' where "fsm_open_slot pl ?mt ctx ?fs bufp buf w = Some (e, ctx', fs', buf', w')"
    "fsm_inv ctx' fs'"
    using fsm_open_slot_inv [of ?fs pl ?mt ctx bufp buf w] by auto
  ultimately show ?thesis by (simp add: fsm_ok_def)
qed

lemma fsm_verify_firmware_inv:
  "wf_static fs \<Longrightarrow> fsm_ok pl (fsm_sf ctx) (fsm_verify_firmware pl ctx fs buf w)"
  by (auto simp: fsm_ok_def fsm_verify_firmware_def fsm_inv_def Let_def split: prod.splits bind_splits option.splits)

lemma fsm_receive_firmware_inv:
  assumes "wf_static fs" and "fsm_state ctx = STATE_RECEIVE_FIRMWARE" and "is_pipe fs = Some PIPE_FULL"
  shows "fsm_ok pl (fsm_sf ctx) (fsm_receive_firmware pl ctx fs buf w)"
proof (cases "u32 (fsm_processed ctx + length buf) > fsm_expected ctx")
  case True
  with assms(1) show ?thesis by (simp add: fsm_ok_def fsm_receive_firmware_def fsm_inv_def)
next
  case False
  obtain fs1 w1 where s: "fsm_store (pl_mem pl) buf fs w = Some (int (length buf), fs1, w1)" "wf_static fs1"
    "is_pipe fs1 = Some PIPE_FULL"
    using fsm_store_wf [OF assms(1), of "pl_mem pl" buf w] assms(3) by auto
  obtain fs2 w2 where c: "fsm_clear (pl_mem pl) fs1 w1 = Some (fs2, w2)" "wf_static fs2"
    using fsm_clear_wf [OF s(2), of "pl_mem pl" w1] by blast
  let ?ctx = "ctx\<lparr>fsm_processed := u32 (fsm_processed ctx + length buf)\<rparr>"
  have eq: "fsm_receive_firmware pl ctx fs buf w =
      (if fsm_processed ?ctx \<noteq> fsm_expected ctx then Some (PULL_SUCCESS, ?ctx, fs1, buf, w1)
       else fsm_verify_firmware pl (?ctx\<lparr>fsm_state := STATE_VERIFY_FIRMWARE\<rparr>) fs2 buf
         (snd (memory_close (pl_mem pl) (fsm_obj ctx) w2)))"
    using False s(1) c(1) assms(3)
    by (simp add: fsm_receive_firmware_def fsm_pipeline_def Let_def split: prod.splits)
  have a: "fsm_ok pl (fsm_sf ctx) (Some (PULL_SUCCESS, ?ctx, fs1, buf, w1))"
    using assms(2) s(2,3) by (simp add: fsm_ok_def fsm_inv_def)
  have b: "fsm_ok pl (fsm_sf ctx) (fsm_verify_firmware pl (?ctx\<lparr>fsm_state := STATE_VERIFY_FIRMWARE\<rparr>) fs2 buf w3)" for w3
    using fsm_verify_firmware_inv [OF c(2), of pl "?ctx\<lparr>fsm_state := STATE_VERIFY_FIRMWARE\<rparr>" buf w3] by simp
  show ?thesis unfolding eq by (cases "fsm_processed ?ctx = fsm_expected ctx") (simp_all only: a b if_True if_False simp_thms)
qed

lemma fsm_returns_inv:
  assumes "fsm_inv ctx fs"
  shows "fsm_ok pl (fsm_sf ctx) (fsm pl ctx fs buf w)"
proof (cases "fsm_state ctx")
  case STATE_RECEIVE_MANIFEST
  obtain n bufp mem where r: "receive_manifest_loop (fsm_processed ctx) buf (is_buffer fs) = (n, bufp, mem)"
    by (metis prod_cases3)
  let ?ctx = "ctx\<lparr>fsm_processed := n\<rparr>" and ?fs = "fs\<lparr>is_buffer := mem\<rparr>"
  have "fsm_ok pl (fsm_sf ?ctx) (fsm_verify_manifest pl ?ctx ?fs bufp buf w)"
    by (rule fsm_verify_manifest_inv) (use assms STATE_RECEIVE_MANIFEST in \<open>simp_all add: fsm_inv_def\<close>)
  moreover have "fsm_ok pl (fsm_sf ctx) (Some (PULL_SUCCESS, ?ctx, ?fs, buf, w))"
    "fsm_ok pl (fsm_sf ctx) (Some (INVALID_STATE_ERROR, ctx\<lparr>fsm_state := STATE_CLEAN\<rparr>, fs, buf, w))"
    using assms STATE_RECEIVE_MANIFEST by (simp_all add: fsm_ok_def fsm_inv_def)
  ultimately show ?thesis
    using STATE_RECEIVE_MANIFEST r by (simp add: fsm_def fsm_receive_manifest_def Let_def)
next
  case STATE_RECEIVE_FIRMWARE
  have "fsm_ok pl (fsm_sf ctx) (fsm_receive_firmware pl ctx fs buf w)"
    by (rule fsm_receive_firmware_inv) (use assms STATE_RECEIVE_FIRMWARE in \<open>simp_all add: fsm_inv_def\<close>)
  with STATE_RECEIVE_FIRMWARE show ?thesis by (simp add: fsm_def)
qed (use assms in \<open>auto simp: fsm_ok_def fsm_def fsm_clean_def fsm_idle_def fsm_start_update_def fsm_inv_def
    Let_def split: prod.splits\<close>)

lemma fsm_init_inv: "fsm_init pl ctx0 sf obj old w0 = (e, ctx, w) \<Longrightarrow> wf_static fs \<Longrightarrow> fsm_inv ctx fs"
  by (auto simp: fsm_init_def fsm_inv_def Let_def split: prod.splits if_splits)

lemma fsm_reachable_inv: "fsm_reachable pl ctx fs w \<Longrightarrow> fsm_inv ctx fs"
proof (induction rule: fsm_reachable.induct)
  case (fsm_start ctx0 sf obj old w0 ctx w fs)
  then show ?case by (rule fsm_init_inv)
next
  case (fsm_call ctx fs w buf e ctx' fs' buf' w')
  from fsm_returns_inv [OF fsm_call.IH, of pl buf w] fsm_call.hyps(2) show ?case by (simp add: fsm_ok_def)
qed

text \<open>While the firmware is received, its manifest has been verified and is newer.\<close>

definition fsm_auth :: "('w, 'o, 'd, 'r) platform \<Rightarrow> ('o, 'r) fsm_ctx \<Rightarrow> bool" where
  "fsm_auth pl ctx \<longleftrightarrow> (fsm_state ctx = STATE_RECEIVE_FIRMWARE \<longrightarrow>
     (\<exists>mt. verify_manifest (pl_sec pl) mt (fsm_sf ctx) = Some PULL_SUCCESS \<and> fsm_version ctx < vm_version (vendor mt) \<and>
       fsm_expected ctx = unat (vm_offset (vendor mt) + sm_prop_size (server mt))))"

lemma fsm_open_slot_expected:
  "fsm_open_slot pl mt ctx fs bufp buf w = Some (e, ctx', fs', buf', w') \<Longrightarrow>
   fsm_sf ctx' = fsm_sf ctx \<and> fsm_version ctx' = fsm_version ctx \<and> (fsm_state ctx' = STATE_RECEIVE_FIRMWARE \<longrightarrow>
     fsm_expected ctx' = unat (vm_offset (vendor mt) + sm_prop_size (server mt)))"
  by (auto simp: fsm_open_slot_def Let_def split: fsm_splits)

lemma fsm_verify_manifest_auth:
  assumes "fsm_verify_manifest pl ctx fs bufp buf w = Some (e, ctx', fs', buf', w')"
    and "fsm_state ctx = STATE_RECEIVE_MANIFEST"
  shows "fsm_auth pl ctx'" and "fsm_sf ctx' = fsm_sf ctx" and "fsm_version ctx' = fsm_version ctx"
    and "w' \<noteq> w \<Longrightarrow> verify_manifest (pl_sec pl) (is_mt fs) (fsm_sf ctx) = Some PULL_SUCCESS \<and>
      fsm_version ctx < vm_version (vendor (is_mt fs))"
proof -
  have "fsm_auth pl ctx' \<and> fsm_sf ctx' = fsm_sf ctx \<and> fsm_version ctx' = fsm_version ctx \<and>
    (w' \<noteq> w \<longrightarrow> verify_manifest (pl_sec pl) (is_mt fs) (fsm_sf ctx) = Some PULL_SUCCESS \<and>
      fsm_version ctx < vm_version (vendor (is_mt fs)))"
  proof (cases "\<not> vm_version (vendor (is_mt fs)) \<le> fsm_version ctx \<and>
      verify_manifest (pl_sec pl) (is_mt fs) (fsm_sf ctx) = Some PULL_SUCCESS")
    case False
    with assms show ?thesis by (auto simp: fsm_verify_manifest_def fsm_auth_def split: fsm_splits)
  next
    case True
    let ?mt = "set_diff_version_impl (is_mt fs) 0"
    have d: "sm_diff_version (server ?mt) = 0" "vm_offset (vendor ?mt) = vm_offset (vendor (is_mt fs))"
      "sm_prop_size (server ?mt) = sm_prop_size (server (is_mt fs))"
      by (simp_all add: set_diff_version_impl_def)
    from True assms(1) obtain fs1 where "fsm_open_slot pl ?mt ctx fs1 bufp buf w = Some (e, ctx', fs', buf', w')"
      by (auto simp: fsm_verify_manifest_def fsm_configure_full [OF d(1)] Let_def)
    from fsm_open_slot_expected [OF this] True d(2,3) show ?thesis
      by (auto simp: fsm_auth_def not_le)
  qed
  then show "fsm_auth pl ctx'" "fsm_sf ctx' = fsm_sf ctx" "fsm_version ctx' = fsm_version ctx"
    "w' \<noteq> w \<Longrightarrow> verify_manifest (pl_sec pl) (is_mt fs) (fsm_sf ctx) = Some PULL_SUCCESS \<and>
      fsm_version ctx < vm_version (vendor (is_mt fs))"
    by blast+
qed

lemma fsm_receive_firmware_auth:
  assumes "fsm_receive_firmware pl ctx fs buf w = Some (e, ctx', fs', buf', w')"
    and "fsm_auth pl ctx" and "fsm_state ctx = STATE_RECEIVE_FIRMWARE"
  shows "fsm_auth pl ctx'"
  using assms by (auto simp: fsm_receive_firmware_def fsm_verify_firmware_def fsm_auth_def Let_def split: fsm_splits)

lemma fsm_step_auth:
  assumes "fsm pl ctx fs buf w = Some (e, ctx', fs', buf', w')" and "fsm_auth pl ctx"
  shows "fsm_auth pl ctx'"
proof (cases "fsm_state ctx")
  case STATE_RECEIVE_MANIFEST
  obtain n bufp mem where r: "receive_manifest_loop (fsm_processed ctx) buf (is_buffer fs) = (n, bufp, mem)"
    by (metis prod_cases3)
  let ?ctx = "ctx\<lparr>fsm_processed := n\<rparr>"
  have st: "fsm_state ?ctx = STATE_RECEIVE_MANIFEST" using STATE_RECEIVE_MANIFEST by simp
  from assms(1) r STATE_RECEIVE_MANIFEST fsm_verify_manifest_auth(1) [OF _ st, of pl _ bufp buf w] show ?thesis
    by (auto simp: fsm_def fsm_receive_manifest_def fsm_auth_def Let_def split: if_splits)
next
  case STATE_RECEIVE_FIRMWARE
  with assms fsm_receive_firmware_auth show ?thesis by (simp add: fsm_def)
qed (use assms in \<open>auto simp: fsm_def fsm_clean_def fsm_idle_def fsm_start_update_def fsm_verify_firmware_def
    fsm_auth_def Let_def split: fsm_splits\<close>)

lemma fsm_reachable_auth: "fsm_reachable pl ctx fs w \<Longrightarrow> fsm_auth pl ctx"
proof (induction rule: fsm_reachable.induct)
  case (fsm_start ctx0 sf obj old w0 ctx w fs)
  then show ?case by (auto simp: fsm_init_def fsm_auth_def Let_def split: prod.splits if_splits)
next
  case (fsm_call ctx fs w buf e ctx' fs' buf' w')
  then show ?case by (metis fsm_step_auth)
qed

text \<open>What a call did to the memory, by state.\<close>

lemma fsm_memory_change:
  assumes "fsm pl ctx fs buf w = Some (e, ctx', fs', buf', w')" and "w' \<noteq> w"
  shows "fsm_state ctx = STATE_RECEIVE_FIRMWARE \<or> fsm_state ctx = STATE_VERIFY_FIRMWARE \<or>
    (fsm_state ctx = STATE_RECEIVE_MANIFEST \<and> (\<exists>mt. verify_manifest (pl_sec pl) mt (fsm_sf ctx) = Some PULL_SUCCESS \<and>
      fsm_version ctx < vm_version (vendor mt)))"
proof (cases "fsm_state ctx")
  case STATE_RECEIVE_MANIFEST
  obtain n bufp mem where r: "receive_manifest_loop (fsm_processed ctx) buf (is_buffer fs) = (n, bufp, mem)"
    by (metis prod_cases3)
  let ?ctx = "ctx\<lparr>fsm_processed := n\<rparr>" and ?fs = "fs\<lparr>is_buffer := mem\<rparr>"
  have st: "fsm_state ?ctx = STATE_RECEIVE_MANIFEST" using STATE_RECEIVE_MANIFEST by simp
  have "fsm_verify_manifest pl ?ctx ?fs bufp buf w = Some (e, ctx', fs', buf', w')"
    using assms r STATE_RECEIVE_MANIFEST by (auto simp: fsm_def fsm_receive_manifest_def Let_def split: if_splits)
  from fsm_verify_manifest_auth(4) [OF this st assms(2)] STATE_RECEIVE_MANIFEST show ?thesis by auto
qed (use assms in \<open>auto simp: fsm_def fsm_clean_def fsm_idle_def fsm_start_update_def Let_def split: fsm_splits\<close>)

lemma fsm_reboot_step:
  assumes "fsm pl ctx fs buf w = Some (e, ctx', fs', buf', w')" and "fsm_state ctx' = STATE_REBOOT"
    and "fsm_state ctx \<noteq> STATE_REBOOT"
  shows "\<exists>ctx1 fs1 w1. fsm_verify_firmware pl ctx1 fs1 buf w1 = Some (e, ctx', fs', buf', w') \<and>
    fsm_id ctx1 = fsm_id ctx \<and> fsm_sf ctx1 = fsm_sf ctx"
proof (cases "fsm_state ctx")
  case STATE_RECEIVE_FIRMWARE
  then have "fsm_receive_firmware pl ctx fs buf w = Some (e, ctx', fs', buf', w')" using assms(1) by (simp add: fsm_def)
  from fsm_receive_firmware_state [OF this assms(2,3)] show ?thesis .
next
  case STATE_VERIFY_FIRMWARE
  with assms show ?thesis by (auto simp: fsm_def)
next
  case STATE_RECEIVE_MANIFEST
  with assms show ?thesis
    by (auto simp: fsm_def fsm_receive_manifest_def Let_def dest!: fsm_verify_manifest_state split: fsm_splits)
qed (use assms in \<open>auto simp: fsm_def fsm_clean_def fsm_idle_def fsm_start_update_def Let_def split: fsm_splits\<close>)

section \<open>A whole update\<close>

lemma splice_at_Cons:
  "p < length v \<Longrightarrow> splice_at (Suc p) bs (v[p := b]) = splice_at p (b # bs) v"
  by (simp add: splice_at_def take_Suc_conv_app_nth)

lemma receive_manifest_loop_eq:
  assumes "p \<le> sizeof_manifest" and "sizeof_manifest \<le> length mem"
    and "n = min (sizeof_manifest - p) (length buf)"
  shows "receive_manifest_loop p buf mem = (p + n, drop n buf, splice_at p (take n buf) mem)"
  using assms
proof (induction p buf mem arbitrary: n rule: receive_manifest_loop.induct)
  case (1 p mem)
  then show ?case by simp
next
  case (2 p b buf mem)
  show ?case
  proof (cases "p < sizeof_manifest")
    case False
    with 2(4) show ?thesis by simp
  next
    case True
    define k where "k = min (sizeof_manifest - (p + 1)) (length buf)"
    have n: "n = Suc k" using True 2(4) by (auto simp: k_def)
    have "receive_manifest_loop (p + 1) buf (mem[p := b]) =
        (p + 1 + k, drop k buf, splice_at (p + 1) (take k buf) (mem[p := b]))"
      by (rule 2(1)) (use True 2(3) in \<open>simp_all add: k_def\<close>)
    with True n 2(3) show ?thesis by (simp add: splice_at_Cons)
  qed
qed

text \<open>The machine has received the first bytes \<open>got\<close> of a manifest.\<close>

definition receiving :: "('o, 'r) fsm_ctx \<Rightarrow> 'o fsm_static \<Rightarrow> byte list \<Rightarrow> bool" where
  "receiving ctx fs got \<longleftrightarrow> fsm_state ctx = STATE_RECEIVE_MANIFEST \<and> fsm_processed ctx = length got \<and>
     length got < sizeof_manifest \<and> length (is_buffer fs) = FSM_BUFFER_SIZE \<and>
     take (length got) (is_buffer fs) = got \<and> wf_static fs"

lemma receiving_chunk:
  assumes "receiving ctx fs got" and "length got + length c < sizeof_manifest"
  shows "\<exists>fs'. fsm pl ctx fs c w = Some (PULL_SUCCESS, ctx\<lparr>fsm_processed := length (got @ c)\<rparr>, fs', c, w) \<and>
    receiving (ctx\<lparr>fsm_processed := length (got @ c)\<rparr>) fs' (got @ c)"
proof -
  have "receive_manifest_loop (length got) c (is_buffer fs) =
      (length got + length c, [], splice_at (length got) c (is_buffer fs))"
    using receive_manifest_loop_eq [of "length got" "is_buffer fs" "length c" c] assms
    by (simp add: receiving_def FSM_BUFFER_SIZE_def sizeof_manifest_def)
  moreover have "take (length got + length c) (splice_at (length got) c (is_buffer fs)) = got @ c"
    using take_splice_at [of "length got" c "is_buffer fs"] assms
    by (simp add: receiving_def FSM_BUFFER_SIZE_def sizeof_manifest_def)
  ultimately show ?thesis
    using assms
    by (auto simp: receiving_def fsm_def fsm_receive_manifest_def FSM_BUFFER_SIZE_def sizeof_manifest_def Let_def)
qed

lemma receiving_last:
  assumes "receiving ctx fs got" and "sizeof_manifest \<le> length got + length c"
    and "k = sizeof_manifest - length got"
  shows "\<exists>mem. fsm pl ctx fs c w = fsm_verify_manifest pl (ctx\<lparr>fsm_processed := sizeof_manifest\<rparr>)
      (fs\<lparr>is_buffer := mem\<rparr>) (drop k c) c w \<and>
    length mem = FSM_BUFFER_SIZE \<and> take sizeof_manifest mem = got @ take k c"
proof -
  have k: "length got + k = sizeof_manifest" "k \<le> length c" using assms by (simp_all add: receiving_def)
  let ?mem = "splice_at (length got) (take k c) (is_buffer fs)"
  have "receive_manifest_loop (length got) c (is_buffer fs) = (sizeof_manifest, drop k c, ?mem)"
    using receive_manifest_loop_eq [of "length got" "is_buffer fs" k c] assms k
    by (simp add: receiving_def FSM_BUFFER_SIZE_def sizeof_manifest_def)
  moreover have "take (length got + length (take k c)) ?mem = got @ take k c"
    using take_splice_at [of "length got" "take k c" "is_buffer fs"] assms k
    by (simp add: receiving_def FSM_BUFFER_SIZE_def sizeof_manifest_def)
  moreover have "length ?mem = FSM_BUFFER_SIZE"
    using assms k by (simp add: receiving_def FSM_BUFFER_SIZE_def sizeof_manifest_def)
  ultimately show ?thesis
    using assms(1) k by (intro exI [of _ ?mem]) (simp add: receiving_def fsm_def fsm_receive_manifest_def Let_def)
qed

locale update_contract = verifier_contract "pl_mem pl" ids content opened indep avail cost oeff weff
    "pl_sec pl" hash absorbed
  for pl :: "('w, 'o, 'd, 'r) platform" and ids content opened indep avail cost oeff weff hash absorbed
begin

text \<open>
  The machine writes object \<open>i\<close>, opened as \<open>ob\<close> in world \<open>w0\<close>, and has stored the bytes \<open>bs\<close>, part
  of which may still be in the buffer stage.
\<close>

definition stored :: "mem_id_t \<Rightarrow> 'o \<Rightarrow> 'w \<Rightarrow> byte list \<Rightarrow> 'o fsm_static \<Rightarrow> 'w \<Rightarrow> bool" where
  "stored i ob w0 bs fs w \<longleftrightarrow>
     sink.buffered (writer_holds i WRITE_ALL ob w0) bs (st_buffer fs, st_writer fs, w) \<and>
     is_pipe fs = Some PIPE_FULL \<and> length (is_buffer fs) = FSM_BUFFER_SIZE"

definition loading :: "mem_id_t \<Rightarrow> 'o \<Rightarrow> 'w \<Rightarrow> byte list \<Rightarrow> ('o, 'r) fsm_ctx \<Rightarrow> 'o fsm_static \<Rightarrow> 'w \<Rightarrow> bool" where
  "loading i ob w0 bs ctx fs w \<longleftrightarrow> fsm_state ctx = STATE_RECEIVE_FIRMWARE \<and> fsm_processed ctx = length bs \<and>
     fsm_id ctx = i \<and> fsm_obj ctx = ob \<and> stored i ob w0 bs fs w"

definition target :: "mem_id_t \<Rightarrow> 'w \<Rightarrow> bool" where
  "target i w0 \<longleftrightarrow> i \<in> ids \<and> seq_exact i WRITE_ALL (content i w0) \<and> length (content i w0) < 2 ^ 31"

lemma target_sink:
  "target i w0 \<Longrightarrow>
   full_sink (writer_pipeline (pl_mem pl)) (writer_holds i WRITE_ALL ob w0) (length (content i w0)) 65535"
  by (rule writer_sink) (simp_all add: target_def)

lemma store_ok:
  assumes "target i w0" and "stored i ob w0 bs fs w" and "length bs + length data \<le> length (content i w0)"
  shows "\<exists>fs' w'. fsm_store (pl_mem pl) data fs w = Some (int (length data), fs', w') \<and>
    stored i ob w0 (bs @ data) fs' w'"
  using full_sink.buffer_pipeline_ok [OF target_sink [OF assms(1)], of ob bs "(st_buffer fs, st_writer fs, w)" data]
    assms(2,3) by (auto simp: stored_def fsm_store_def)

lemma clear_ok:
  assumes "target i w0" and "stored i ob w0 bs fs w" and "length bs \<le> length (content i w0)"
  shows "\<exists>fs' w' wc. fsm_clear (pl_mem pl) fs w = Some (fs', w') \<and> is_buffer fs' = is_buffer fs \<and>
    writer_holds i WRITE_ALL ob w0 bs (wc, w')"
  using full_sink.flush_ok [OF target_sink [OF assms(1)], of ob bs "(st_buffer fs, st_writer fs, w)"] assms(2,3)
  by (fastforce simp: stored_def fsm_clear_def)

text \<open>The slots are usable: each holds a manifest, can be written sequentially, and is large enough.\<close>

definition slots_ready :: "nat \<Rightarrow> 'w \<Rightarrow> bool" where
  "slots_ready n w \<longleftrightarrow> active_slots (pl_slots pl) \<noteq> [] \<and> (\<forall>x\<in>set (active_slots (pl_slots pl)).
     slot_id x \<in> ids \<and> sizeof_manifest \<le> length (content (slot_id x) w) \<and>
     seq_exact (slot_id x) WRITE_ALL (oeff (slot_id x) WRITE_ALL (content (slot_id x) w)) \<and>
     n \<le> length (content (slot_id x) w) \<and> length (content (slot_id x) w) < 2 ^ 31)"

text \<open>The slot \<open>c\<close> is the one the machine chooses in world \<open>w\<close>, and \<open>w0\<close> is the world once it is open.\<close>

definition chosen :: "mem_slot_t \<Rightarrow> 'o \<Rightarrow> 'w \<Rightarrow> 'w \<Rightarrow> bool" where
  "chosen c ob w w0 \<longleftrightarrow> c \<in> set (active_slots (pl_slots pl)) \<and>
     (\<forall>x\<in>set (active_slots (pl_slots pl)).
        content_version (content (slot_id c) w) \<le> content_version (content (slot_id x) w)) \<and>
     content (slot_id c) w0 = oeff (slot_id c) WRITE_ALL (content (slot_id c) w) \<and>
     (\<forall>j\<in>ids. j \<noteq> slot_id c \<longrightarrow> content j w0 = content j w) \<and> avail w \<le> avail w0 + cost \<and>
     opened ob (slot_id c) WRITE_ALL w0 \<and> target (slot_id c) w0"

lemma choose_slot:
  assumes "slots_ready n w" and "0 < avail w"
  shows "\<exists>c v ob w1 ob2 w0. get_oldest_firmware (pl_mem pl) (pl_slots pl) i0 0 o0 False w =
      (PULL_SUCCESS, slot_id c, v, ob, w1) \<and>
    memory_open (pl_mem pl) ob (slot_id c) WRITE_ALL w1 = (PULL_SUCCESS, ob2, w0) \<and> chosen c ob2 w w0"
proof -
  obtain s ss where act: "active_slots (pl_slots pl) = s # ss"
    using assms(1) by (cases "active_slots (pl_slots pl)") (simp_all add: slots_ready_def)
  have ok: "\<forall>x\<in>set (active_slots (pl_slots pl)). slot_id x \<in> ids \<and> sizeof_manifest \<le> length (content (slot_id x) w)"
    using assms(1) by (simp add: slots_ready_def)
  have pb: "False \<longrightarrow> bootable s" by simp
  have cand: "candidates False (pl_slots pl) = active_slots (pl_slots pl)" by (simp add: candidates_def)
  obtain c ob w1 where g: "get_ordered_firmware (pl_mem pl) (pl_slots pl) i0 0 o0 False False w =
      (PULL_SUCCESS, slot_id c, content_version (content (slot_id c) w), ob, w1)"
    "c \<in> set (active_slots (pl_slots pl))"
    "\<forall>x\<in>set (active_slots (pl_slots pl)).
       content_version (content (slot_id c) w) \<le> content_version (content (slot_id x) w)"
    "\<forall>j\<in>ids. content j w1 = content j w" "avail w \<le> avail w1"
    using get_ordered_firmware_ok [OF act pb ok assms(2), of i0 0 o0 False, unfolded cand if_False]
    by (elim exE conjE) (rule that)
  have c: "slot_id c \<in> ids" "length (content (slot_id c) w) < 2 ^ 31"
    "seq_exact (slot_id c) WRITE_ALL (oeff (slot_id c) WRITE_ALL (content (slot_id c) w))"
    using assms(1) g(2) by (simp_all add: slots_ready_def)
  have "0 < avail w1" using assms(2) g(5) by simp
  from memory_open_ok [OF c(1) this, of ob WRITE_ALL]
  obtain ob2 w0 where o: "memory_open (pl_mem pl) ob (slot_id c) WRITE_ALL w1 = (PULL_SUCCESS, ob2, w0)"
    "opened ob2 (slot_id c) WRITE_ALL w0" "content (slot_id c) w0 = oeff (slot_id c) WRITE_ALL (content (slot_id c) w1)"
    "\<And>j. j \<in> ids \<Longrightarrow> j \<noteq> slot_id c \<Longrightarrow> content j w0 = content j w1" "avail w1 \<le> avail w0 + cost"
    by metis
  have "target (slot_id c) w0"
    using c o(3) g(4) by (simp add: target_def oeff_len)
  then have "chosen c ob2 w w0"
    using g(2-5) o(2-5) c(1) by (simp add: chosen_def)
  with g(1) o(1) show ?thesis unfolding get_oldest_firmware_def by blast
qed

lemma open_slot_ok:
  assumes "slots_ready n w" and "0 < avail w" and "wf_manifest mt" and "sizeof_manifest + length bufp \<le> n"
    and "fsm_processed ctx = sizeof_manifest" and "is_pipe fs = Some PIPE_FULL"
    and "length (is_buffer fs) = FSM_BUFFER_SIZE" and "wf_buffer bc" and "st_buffer fs = pipeline_buffer_init bc"
  shows "\<exists>c ob w0 ctx' fs' w'. fsm_open_slot pl mt ctx fs bufp buf w = Some (PULL_SUCCESS, ctx', fs', buf, w') \<and>
    chosen c ob w w0 \<and> loading (slot_id c) ob w0 (manifest_bytes mt @ bufp) ctx' fs' w' \<and>
    fsm_expected ctx' = unat (vm_offset (vendor mt) + sm_prop_size (server mt)) \<and> fsm_sf ctx' = fsm_sf ctx"
proof -
  obtain c v ob1 w1 ob w0 where g: "get_oldest_firmware (pl_mem pl) (pl_slots pl) (fsm_id ctx) 0 (fsm_obj ctx) False w =
      (PULL_SUCCESS, slot_id c, v, ob1, w1)"
    "memory_open (pl_mem pl) ob1 (slot_id c) WRITE_ALL w1 = (PULL_SUCCESS, ob, w0)" "chosen c ob w w0"
    using choose_slot [OF assms(1,2)] by blast
  have t: "target (slot_id c) w0" and op: "opened ob (slot_id c) WRITE_ALL w0"
    and n: "n \<le> length (content (slot_id c) w0)" "n < 2 ^ 31"
    using g(3) assms(1) by (auto simp: chosen_def slots_ready_def oeff_len)
  let ?fs = "fs\<lparr>st_writer := pipeline_writer_init ob\<rparr>"
  have "sink.buffered (writer_holds (slot_id c) WRITE_ALL ob w0) []
      (pipeline_buffer_init bc, pipeline_writer_init ob, w0)"
    using sink.buffered_init [OF full_sink.axioms(1) [OF target_sink [OF t]] writer_holds_init [OF op]]
      assms(8) by (simp add: wf_buffer_def)
  then have s0: "stored (slot_id c) ob w0 [] ?fs w0"
    using assms(6,7,9) by (simp add: stored_def)
  obtain fs1 w2 where s1: "fsm_store (pl_mem pl) (manifest_bytes mt) ?fs w0 = Some (int sizeof_manifest, fs1, w2)"
    "stored (slot_id c) ob w0 (manifest_bytes mt) fs1 w2"
    using store_ok [OF t s0, of "manifest_bytes mt"] assms(3,4) n by auto
  obtain fs2 w3 where s2: "fsm_store (pl_mem pl) bufp fs1 w2 = Some (int (length bufp), fs2, w3)"
    "stored (slot_id c) ob w0 (manifest_bytes mt @ bufp) fs2 w3"
    using store_ok [OF t s1(2), of bufp] assms(3,4) n by auto
  have pipe: "is_pipe fs1 = Some PIPE_FULL" using s1(2) by (simp add: stored_def)
  let ?e = "unat (vm_offset (vendor mt) + sm_prop_size (server mt))"
  have u: "u32 (sizeof_manifest + length bufp) = sizeof_manifest + length bufp" using assms(4) n(2) by simp
  show ?thesis
  proof (cases "bufp = []")
    case True
    have "fsm_open_slot pl mt ctx fs bufp buf w = Some (PULL_SUCCESS, ctx\<lparr>fsm_id := slot_id c, fsm_obj := ob,
        fsm_expected := ?e, fsm_state := STATE_RECEIVE_FIRMWARE\<rparr>, fs1, buf, w2)"
      using g(1,2) s1(1) True by (simp add: fsm_open_slot_def Let_def)
    with g(3) s1(2) True assms(3,5) show ?thesis by (auto simp: loading_def)
  next
    case False
    have "fsm_open_slot pl mt ctx fs bufp buf w = Some (PULL_SUCCESS, ctx\<lparr>fsm_id := slot_id c, fsm_obj := ob,
        fsm_processed := u32 (sizeof_manifest + length bufp),
        fsm_expected := ?e, fsm_state := STATE_RECEIVE_FIRMWARE\<rparr>, fs2, buf, w3)"
      using g(1,2) s1(1) s2(1) False pipe assms(5) by (simp add: fsm_open_slot_def fsm_pipeline_def Let_def)
    with g(3) s2(2) assms(3) u show ?thesis by (auto simp: loading_def)
  qed
qed

end

end
