(* ===== verification/Pipeline_Posix.thy ===== *)
theory Pipeline_Posix
  imports Memory_Posix Fsm
begin

text \<open>
  The pipelines over files: the contracts of the stages (\<open>sink\<close>, \<open>full_sink\<close>, \<open>patch_source\<close>)
  interpreted on \<open>writer_pipeline\<close> and \<open>buffer_pipeline\<close> with the POSIX memory behind them, and the
  properties of the three pipelines the code builds.
\<close>

section \<open>The writer on a file\<close>

definition posix_writer_holds ::
  "mem_id_t \<Rightarrow> mem_mode_t \<Rightarrow> posix_obj \<Rightarrow> posix_fs \<Rightarrow> byte list \<Rightarrow> posix_obj writer_ctx \<times> posix_fs \<Rightarrow> bool" where
  "posix_writer_holds i mode ob w0 bs cw \<longleftrightarrow> mode \<in> {WRITE_CHUNK, WRITE_ALL} \<and> length (posix_content i w0) < 2 ^ 32 \<and>
     posix.writer_holds i mode ob w0 bs cw"

interpretation posix_writer: full_sink "writer_pipeline posix_iface" "posix_writer_holds i mode ob w0"
  "length (posix_content i w0)" 65535
proof (unfold_locales, goal_cases)
  case (1 bs s c)
  then have "mode \<noteq> READ_ONLY" "mode \<noteq> SEQUENTIAL_REWRITE" and len: "length (posix_content i w0) < 2 ^ 32"
    by (auto simp: posix_writer_holds_def)
  then have "posix.seq_exact i mode (posix_content i w0)"
    using posix.exact_seq_exact posix_exact by blast
  from sink.next_ok [OF full_sink.axioms(1) [OF posix.writer_sink [OF this len]] _ 1(2,3)] 1(1) show ?case
    by (auto simp: posix_writer_holds_def)
qed (simp add: BUFFER_LEN_def)

lemma posix_writer_init:
  "posix_opened ob i mode w0 \<Longrightarrow> mode \<in> {WRITE_CHUNK, WRITE_ALL} \<Longrightarrow> length (posix_content i w0) < 2 ^ 32 \<Longrightarrow>
   posix_writer_holds i mode ob w0 [] (pipeline_writer_init ob, w0)"
  by (simp add: posix_writer_holds_def posix.writer_holds_init)

lemma posix_writer_content:
  "posix_writer_holds i mode ob w0 bs cw \<Longrightarrow>
   posix_content i (snd cw) = bs @ drop (length bs) (posix_content i w0) \<and>
   (\<forall>j\<in>posix_valid_ids. j \<noteq> i \<longrightarrow> posix_content j (snd cw) = posix_content j w0)"
  by (simp add: posix_writer_holds_def posix.writer_holds_def)

section \<open>The patch stage between two files\<close>

definition posix_patching ::
  "mem_id_t \<Rightarrow> mem_mode_t \<Rightarrow> posix_obj \<Rightarrow> posix_fs \<Rightarrow> mem_id_t \<Rightarrow> posix_obj \<Rightarrow> byte list \<Rightarrow>
   buffer_ctx \<times> posix_obj writer_ctx \<times> posix_fs \<Rightarrow> bool" where
  "posix_patching i mode ob w0 j old bs s \<longleftrightarrow> i \<noteq> j \<and> posix_opened old j READ_ONLY w0 \<and>
     length (posix_content j w0) < 2 ^ 32 \<and> sink.buffered (posix_writer_holds i mode ob w0) bs s"

lemma posix_read_old:
  assumes "posix_patching i mode ob w0 j old bs (bc, wc, w)" and "k < length (posix_content j w0)"
  shows "\<exists>s'. read_old posix_iface old (word_of_nat k) (bc, wc, w) = (1, posix_content j w0 ! k, s') \<and>
    posix_patching i mode ob w0 j old bs s'"
proof -
  obtain out where h: "bs = out @ take (bufferp bc) (buffer bc)" "posix_writer_holds i mode ob w0 out (wc, w)"
    using assms(1) by (auto simp: posix_patching_def posix_writer.buffered_def)
  have w: "posix_opened old j READ_ONLY w" "posix_content j w = posix_content j w0"
    using h(2) assms(1) by (auto simp: posix_writer_holds_def posix.writer_holds_def posix_patching_def posix_opened_def)
  have u: "unat (word_of_nat k :: u32) = k" using assms by (simp add: unat_word32 posix_patching_def)
  obtain w' where r: "memory_read posix_iface old [0] 1 (word_of_nat k) w =
      (1, block k 1 (posix_content j w) @ drop 1 [0], w')" "posix.same w w'"
    using posix.memory_read_ok [OF w(1), of "word_of_nat k" 1 "[0]"] u assms(2) w(2) by auto
  have "block k 1 (posix_content j w) @ drop 1 [0 :: byte] = [posix_content j w0 ! k]"
    using assms(2) w(2) by (simp add: block_def take_Suc_conv_app_nth hd_drop_conv_nth take_Suc drop_eq_Nil)
  moreover have "posix_writer_holds i mode ob w0 out (wc, w')"
    using h(2) r(2) by (auto simp: posix_writer_holds_def posix.writer_holds_def posix.same_def)
  ultimately show ?thesis
    using r(1) h(1) assms(1) by (auto simp: read_old_def posix_patching_def posix_writer.buffered_def)
qed

interpretation posix_patch: patch_source "buffer_pipeline (writer_pipeline posix_iface)"
  "posix_patching i mode ob w0 j old" "length (posix_content i w0)" 1 "read_old posix_iface old" "posix_content j w0"
proof (unfold_locales, goal_cases)
  case (1 bs s c)
  then show ?case using posix_writer.buffer_pipeline_ok [of i mode ob w0 bs s c] by (auto simp: posix_patching_def)
next
  case (2 bs s k)
  then show ?case using posix_read_old by (cases s) auto
qed simp

section \<open>Properties of the pipelines\<close>

lemma demo_length: "length (posix_content OBJ_A demo) = 269" "length (posix_content OBJ_B demo) = 266"
  by code_simp+

text \<open>
  C30. Storing an image. However an image is cut into blocks, feeding them to the buffer
  stage in front of the writer and flushing the buffer at the end leaves the image at the
  start of the file, with the rest of the file and every other file as they were.
\<close>

theorem posix_buffered_write:
  assumes "posix_opened ob i mode w0" and "mode \<in> {WRITE_CHUNK, WRITE_ALL}" and "length (posix_content i w0) < 2 ^ 32"
    and "length (buffer ctx) = BUFFER_LEN" and "length (concat cs) \<le> length (posix_content i w0)"
  shows "\<exists>ctx' wc w wc' w'. feed (buffer_pipeline (writer_pipeline posix_iface)) cs
      (pipeline_buffer_init ctx, pipeline_writer_init ob, w0) = Some (ctx', wc, w) \<and>
    pipeline_buffer_clear (writer_pipeline posix_iface) (ctx', wc, w) = Some (0, ctx', wc', w') \<and>
    posix_content i w' = concat cs @ drop (length (concat cs)) (posix_content i w0) \<and>
    (\<forall>j\<in>posix_valid_ids. j \<noteq> i \<longrightarrow> posix_content j w' = posix_content j w0)"
  using posix_writer.buffered_stream [OF posix_writer_init [OF assms(1-3)] assms(4,5)]
  by (fastforce dest: posix_writer_content)

definition demo_buffer :: buffer_ctx where
  "demo_buffer = \<lparr>buffer = replicate BUFFER_LEN 0, bufferp = 3\<rparr>"

theorem posix_buffered_write_witness:
  "\<exists>ctx' wc w wc' w'. feed (buffer_pipeline (writer_pipeline posix_iface)) [[1, 2], replicate 200 3, [], [4]]
      (pipeline_buffer_init demo_buffer, pipeline_writer_init (demo_obj 0), demo) = Some (ctx', wc, w) \<and>
    pipeline_buffer_clear (writer_pipeline posix_iface) (ctx', wc, w) = Some (0, ctx', wc', w') \<and>
    posix_content OBJ_A w' = concat [[1, 2], replicate 200 3, [], [4]] @
      drop (length (concat [[1, 2], replicate 200 3, [], [4 :: byte]])) (posix_content OBJ_A demo) \<and>
    (\<forall>j\<in>posix_valid_ids. j \<noteq> OBJ_A \<longrightarrow> posix_content j w' = posix_content j demo)"
  by (rule posix_buffered_write [where mode = WRITE_ALL]; (simp add: demo_length; fail | code_simp))

lemma posix_lzss_writes:
  assumes "posix_opened ob i mode w0" and "mode \<in> {WRITE_CHUNK, WRITE_ALL}" and "length (posix_content i w0) < 2 ^ 32"
    and "length (buffer ctx) = BUFFER_LEN" and "lz_state lc = LZ_BEGIN" and "lzss_N \<le> length (lz_buffer (lz_static lc))"
    and "lzss_expand ts blanks = Some (blanks @ data)" and "bits_of (concat cs) = lzss_encode ts @ pad"
    and "length pad < 8" and "cs \<noteq> []" and "length data \<le> length (posix_content i w0)"
  shows "\<exists>lc' ctx' wc w wc' w'. feed (lzss_pipeline (buffer_pipeline (writer_pipeline posix_iface))) cs
      (lc, pipeline_buffer_init ctx, pipeline_writer_init ob, w0) = Some (lc', ctx', wc, w) \<and>
    pipeline_buffer_clear (writer_pipeline posix_iface) (ctx', wc, w) = Some (0, ctx', wc', w') \<and>
    posix_content i w' = data @ drop (length data) (posix_content i w0) \<and>
    (\<forall>j\<in>posix_valid_ids. j \<noteq> i \<longrightarrow> posix_content j w' = posix_content j w0)"
proof -
  have b: "sink.buffered (posix_writer_holds i mode ob w0) [] (pipeline_buffer_init ctx, pipeline_writer_init ob, w0)"
    using posix_writer.buffered_init [OF posix_writer_init [OF assms(1-3)] assms(4)] .
  obtain lc' ctx' wc w where f: "feed (lzss_pipeline (buffer_pipeline (writer_pipeline posix_iface))) cs
      (lc, pipeline_buffer_init ctx, pipeline_writer_init ob, w0) = Some (lc', ctx', wc, w)"
    "sink.buffered (posix_writer_holds i mode ob w0) data (ctx', wc, w)"
    using posix_writer.buf.lzss_decodes [where len = 1, OF assms(7-10,5,6) b] assms(11) by auto
  from posix_writer.flush_ok [OF f(2) assms(11)] f(1) show ?thesis
    by (fastforce dest: posix_writer_content)
qed

text \<open>
  C28. Decompressing. For every sequence of LZSS tokens that stands for \<open>data\<close>, however its
  encoding is cut into blocks, the decoder in front of the buffer and the writer consumes them
  all, and after the flush the file starts with \<open>data\<close>; nothing else has changed.
\<close>

theorem posix_lzss_write:
  assumes "posix_opened ob i mode w0" and "mode \<in> {WRITE_CHUNK, WRITE_ALL}" and "length (posix_content i w0) < 2 ^ 32"
    and "length (buffer ctx) = BUFFER_LEN" and "lz_state lc = LZ_BEGIN" and "lzss_N \<le> length (lz_buffer (lz_static lc))"
    and "lzss_expand ts blanks = Some (blanks @ data)" and "bits_of (concat cs) = lzss_encode ts @ pad"
    and "length pad < 8" and "cs \<noteq> []" and "length data \<le> length (posix_content i w0)"
  shows "\<exists>lc' ctx' wc w wc' w'. feed (lzss_pipeline (buffer_pipeline (writer_pipeline posix_iface))) cs
      (lc, pipeline_buffer_init ctx, pipeline_writer_init ob, w0) = Some (lc', ctx', wc, w) \<and>
    pipeline_buffer_clear (writer_pipeline posix_iface) (ctx', wc, w) = Some (0, ctx', wc', w') \<and>
    posix_content i w' = data @ drop (length data) (posix_content i w0) \<and>
    (\<forall>j\<in>posix_valid_ids. j \<noteq> i \<longrightarrow> posix_content j w' = posix_content j w0)"
  using assms by (rule posix_lzss_writes)

definition demo_lzss :: lzss_ctx where
  "demo_lzss = \<lparr>lz_state = LZ_BEGIN, lz_finish = False,
     lz_static = \<lparr>lz_i = 0, lz_j = 0, lz_k = 0, lz_r = 0, lz_c = 0, lz_s = 0,
       lz_buffer = replicate (2 * lzss_N) 0, lz_b = 0, lz_mask = 0\<rparr>\<rparr>"

lemma demo_lzss_simps [simp]:
  "lz_state demo_lzss = LZ_BEGIN" "lzss_N \<le> length (lz_buffer (lz_static demo_lzss))"
  by (simp_all add: demo_lzss_def)

theorem posix_lzss_write_witness:
  "\<exists>lc' ctx' wc w wc' w'. feed (lzss_pipeline (buffer_pipeline (writer_pipeline posix_iface)))
      [[160], [208, 159, 120], [65, 192]]
      (demo_lzss, pipeline_buffer_init demo_buffer, pipeline_writer_init (demo_obj 0), demo) = Some (lc', ctx', wc, w) \<and>
    pipeline_buffer_clear (writer_pipeline posix_iface) (ctx', wc, w) = Some (0, ctx', wc', w') \<and>
    posix_content OBJ_A w' = [65, 66, 65, 66, 7] @ drop (length [65, 66, 65, 66, 7 :: byte]) (posix_content OBJ_A demo) \<and>
    (\<forall>j\<in>posix_valid_ids. j \<noteq> OBJ_A \<longrightarrow> posix_content j w' = posix_content j demo)"
  by (rule posix_lzss_write [where mode = WRITE_ALL and ts = "[Lit 65, Lit 66, Ref 1007 0, Lit 7]"
      and pad = "replicate 6 False"]; (simp add: demo_length; fail | code_simp))

lemma posix_bspatch_writes:
  assumes "posix_opened ob i mode w0" and "mode \<in> {WRITE_CHUNK, WRITE_ALL}" and "length (posix_content i w0) < 2 ^ 32"
    and "posix_opened old j READ_ONLY w0" and "i \<noteq> j" and "length (posix_content j w0) < 2 ^ 32"
    and "length (buffer ctx) = BUFFER_LEN" and "wf_bs (bs_static pc)"
    and "patch_apply (posix_content j w0) 0 entries = Some new" and "list_all wf_entry entries" and "live entries"
    and "concat cs = enc_patch (length new) entries" and "length new < 2 ^ 31" and "length new \<le> length (posix_content i w0)"
  shows "\<exists>pc' ctx' wc w wc' w'. feed (bspatch_pipeline (buffer_pipeline (writer_pipeline posix_iface)) (read_old posix_iface old)) cs
      (pipeline_bspatch_init pc, pipeline_buffer_init ctx, pipeline_writer_init ob, w0) = Some (pc', ctx', wc, w) \<and>
    bs_finish pc' \<and>
    pipeline_buffer_clear (writer_pipeline posix_iface) (ctx', wc, w) = Some (0, ctx', wc', w') \<and>
    posix_content i w' = new @ drop (length new) (posix_content i w0) \<and>
    (\<forall>h\<in>posix_valid_ids. h \<noteq> i \<longrightarrow> posix_content h w' = posix_content h w0)"
proof -
  have "sink.buffered (posix_writer_holds i mode ob w0) [] (pipeline_buffer_init ctx, pipeline_writer_init ob, w0)"
    using posix_writer.buffered_init [OF posix_writer_init [OF assms(1-3)] assms(7)] .
  then have p: "posix_patching i mode ob w0 j old [] (pipeline_buffer_init ctx, pipeline_writer_init ob, w0)"
    using assms(4-6) by (simp add: posix_patching_def)
  have pc: "bs_state (pipeline_bspatch_init pc) = BS_BEGIN" "\<not> bs_finish (pipeline_bspatch_init pc)"
    "wf_bs (bs_static (pipeline_bspatch_init pc))"
    using assms(8) by (simp_all add: pipeline_bspatch_init_def)
  obtain pc' ctx' wc w where f: "feed (bspatch_pipeline (buffer_pipeline (writer_pipeline posix_iface)) (read_old posix_iface old)) cs
      (pipeline_bspatch_init pc, pipeline_buffer_init ctx, pipeline_writer_init ob, w0) = Some (pc', ctx', wc, w)"
    "bs_finish pc'" "posix_patching i mode ob w0 j old new (ctx', wc, w)"
    using posix_patch.bspatch_applies [OF assms(9,12,10,11,13) pc p] assms(14) by auto
  have "sink.buffered (posix_writer_holds i mode ob w0) new (ctx', wc, w)"
    using f(3) by (simp add: posix_patching_def)
  from posix_writer.flush_ok [OF this assms(14)] f(1,2) show ?thesis
    by (fastforce dest: posix_writer_content)
qed

text \<open>
  C29. Patching. For every patch, given by its control entries, that turns the old image into
  \<open>new\<close>, however its encoding is cut into blocks, the patch stage reading the old file and
  writing through the buffer to another file finishes, and after the flush that file starts
  with \<open>new\<close>; nothing else has changed, the old file included.
\<close>

theorem posix_bspatch_write:
  assumes "posix_opened ob i mode w0" and "mode \<in> {WRITE_CHUNK, WRITE_ALL}" and "length (posix_content i w0) < 2 ^ 32"
    and "posix_opened old j READ_ONLY w0" and "i \<noteq> j" and "length (posix_content j w0) < 2 ^ 32"
    and "length (buffer ctx) = BUFFER_LEN" and "wf_bs (bs_static pc)"
    and "patch_apply (posix_content j w0) 0 entries = Some new" and "list_all wf_entry entries" and "live entries"
    and "concat cs = enc_patch (length new) entries" and "length new < 2 ^ 31" and "length new \<le> length (posix_content i w0)"
  shows "\<exists>pc' ctx' wc w wc' w'. feed (bspatch_pipeline (buffer_pipeline (writer_pipeline posix_iface)) (read_old posix_iface old)) cs
      (pipeline_bspatch_init pc, pipeline_buffer_init ctx, pipeline_writer_init ob, w0) = Some (pc', ctx', wc, w) \<and>
    bs_finish pc' \<and>
    pipeline_buffer_clear (writer_pipeline posix_iface) (ctx', wc, w) = Some (0, ctx', wc', w') \<and>
    posix_content i w' = new @ drop (length new) (posix_content i w0) \<and>
    (\<forall>h\<in>posix_valid_ids. h \<noteq> i \<longrightarrow> posix_content h w' = posix_content h w0)"
  using assms by (rule posix_bspatch_writes)

definition demo_bspatch :: bspatch_ctx where
  "demo_bspatch = \<lparr>bs_state = BS_CTRL, bs_finish = True,
     bs_static = \<lparr>bs_oldpos = 0, bs_newpos = 0, bs_ctrl = replicate 3 (replicate 8 0), bs_i = 0, bs_j = 0,
       bs_newsize = replicate 8 0\<rparr>\<rparr>"

lemma demo_bspatch_wf [simp]: "wf_bs (bs_static demo_bspatch)"
  by (simp add: demo_bspatch_def wf_bs_def)

definition demo_new :: "byte list" where
  "demo_new = map2 (+) [1, 2] (block 0 2 (posix_content OBJ_B demo)) @ [9, 8]"

lemma demo_new_simps [simp]:
  "length demo_new = 4" "patch_apply (posix_content OBJ_B demo) 0 [([1, 2], [9, 8], 0)] = Some demo_new"
  by code_simp+

theorem posix_bspatch_write_witness:
  "\<exists>pc' ctx' wc w wc' w'. feed (bspatch_pipeline (buffer_pipeline (writer_pipeline posix_iface)) (read_old posix_iface (demo_obj 1)))
      [take 20 (enc_patch 4 [([1, 2], [9, 8], 0)]), drop 20 (enc_patch 4 [([1, 2], [9, 8], 0)])]
      (pipeline_bspatch_init demo_bspatch, pipeline_buffer_init demo_buffer, pipeline_writer_init (demo_obj 0), demo) =
      Some (pc', ctx', wc, w) \<and>
    bs_finish pc' \<and>
    pipeline_buffer_clear (writer_pipeline posix_iface) (ctx', wc, w) = Some (0, ctx', wc', w') \<and>
    posix_content OBJ_A w' = demo_new @ drop (length demo_new) (posix_content OBJ_A demo) \<and>
    (\<forall>h\<in>posix_valid_ids. h \<noteq> OBJ_A \<longrightarrow> posix_content h w' = posix_content h demo)"
  by (rule posix_bspatch_write [where mode = WRITE_ALL and j = OBJ_B and entries = "[([1, 2], [9, 8], 0)]"];
      (simp add: demo_length live_def; fail | code_simp))

end
