(* ===== verification/Fsm_Update.thy ===== *)
theory Fsm_Update
  imports Fsm
begin

text \<open>
  A whole update driven through the state machine of \<open>src/core/network/fsm.c\<close>: the bytes of a manifest and
  of a firmware arrive in blocks of any sizes, the machine stores them in the slot it
  chooses, verifies the slot, and ends in the state that asks for a reboot.
\<close>

section \<open>Feeding the machine\<close>

text \<open>The calls a receiver makes, one for each block, up to the first that reports an error.\<close>

fun fsm_run ::
  "('w, 'o, 'd, 'r) platform \<Rightarrow> byte list list \<Rightarrow> ('o, 'r) fsm_ctx \<Rightarrow> 'o fsm_static \<Rightarrow> 'w \<Rightarrow>
   (pull_error \<times> ('o, 'r) fsm_ctx \<times> 'o fsm_static \<times> 'w) option" where
  "fsm_run pl [] ctx fs w = Some (PULL_SUCCESS, ctx, fs, w)"
| "fsm_run pl (c # cs) ctx fs w = Option.bind (fsm pl ctx fs c w) (\<lambda>(e, ctx', fs', c', w').
     if e \<noteq> PULL_SUCCESS then Some (e, ctx', fs', w') else fsm_run pl cs ctx' fs' w')"

lemma fsm_run_append:
  "fsm_run pl (cs @ ds) ctx fs w = Option.bind (fsm_run pl cs ctx fs w) (\<lambda>(e, ctx', fs', w').
     if e \<noteq> PULL_SUCCESS then Some (e, ctx', fs', w') else fsm_run pl ds ctx' fs' w')"
  by (induction cs arbitrary: ctx fs w) (auto split: bind_splits prod.splits)

lemma fsm_run_reachable:
  "fsm_reachable pl ctx fs w \<Longrightarrow> fsm_run pl cs ctx fs w = Some (e, ctx', fs', w') \<Longrightarrow> fsm_reachable pl ctx' fs' w'"
proof (induction cs arbitrary: ctx fs w)
  case Nil
  then show ?case by simp
next
  case (Cons c cs)
  from Cons.prems(2) obtain e1 ctx1 fs1 c1 w1 where s: "fsm pl ctx fs c w = Some (e1, ctx1, fs1, c1, w1)"
    "(if e1 \<noteq> PULL_SUCCESS then Some (e1, ctx1, fs1, w1) else fsm_run pl cs ctx1 fs1 w1) = Some (e, ctx', fs', w')"
    by (auto split: bind_splits)
  have r: "fsm_reachable pl ctx1 fs1 w1" using Cons.prems(1) s(1) by (rule fsm_call)
  show ?case
    using s(2) r Cons.IH [OF r] by (auto split: if_splits)
qed

section \<open>The three phases\<close>

text \<open>The manifest that is stored: the machine clears the base version after it has checked the signatures.\<close>

abbreviation full_image :: "manifest_t \<Rightarrow> manifest_t" where
  "full_image mt \<equiv> set_diff_version_impl mt 0"

lemma full_image_simps [simp]:
  "vendor (full_image mt) = vendor mt" "wf_manifest (full_image mt) = wf_manifest mt"
  "sm_prop_size (server (full_image mt)) = sm_prop_size (server mt)" "sm_diff_version (server (full_image mt)) = 0"
  by (simp_all add: set_diff_version_impl_def wf_manifest_def)

lemma set_diff_version_id: "sm_diff_version (server mt) = 0 \<Longrightarrow> set_diff_version_impl mt 0 = mt"
  by (simp add: set_diff_version_impl_def)

lemma length_is_buffer_set_is_mt:
  "length (is_buffer fs) = FSM_BUFFER_SIZE \<Longrightarrow> wf_manifest mt \<Longrightarrow>
   length (is_buffer (set_is_mt mt fs)) = FSM_BUFFER_SIZE"
  by (simp add: set_is_mt_def FSM_BUFFER_SIZE_def sizeof_manifest_def)

lemma content_manifest_append: "wf_manifest mt \<Longrightarrow> content_manifest (manifest_bytes mt @ v) = mt"
  by (simp add: content_manifest_def block_append_here manifest_of_manifest_bytes)

lemma prefix_split: "xs @ ys = us @ vs \<Longrightarrow> length us \<le> length xs \<Longrightarrow> xs = us @ drop (length us) xs"
  by (auto simp: append_eq_append_conv2)

text \<open>What the machine needs of a manifest to accept it.\<close>

definition acceptable ::
  "'d sec_iface \<Rightarrow> (byte list \<Rightarrow> byte list) \<Rightarrow> ('o, 'r) fsm_ctx \<Rightarrow> manifest_t \<Rightarrow> bool" where
  "acceptable sec hash ctx mt \<longleftrightarrow> wf_manifest mt \<and> fsm_version ctx < vm_version (vendor mt) \<and>
     authentic sec hash (fsm_sf ctx) mt"

context update_contract
begin

lemma verify_manifest_accepts:
  assumes "acceptable (pl_sec pl) hash ctx mt" and "is_mt fs = mt" and "wf_static fs"
    and "length (is_buffer fs) = FSM_BUFFER_SIZE"
  shows "\<exists>fs'. fsm_verify_manifest pl ctx fs bufp buf w = fsm_open_slot pl (full_image mt) ctx fs' bufp buf w \<and>
    is_pipe fs' = Some PIPE_FULL \<and> length (is_buffer fs') = FSM_BUFFER_SIZE \<and>
    st_buffer fs' = pipeline_buffer_init (st_buffer fs)"
proof -
  let ?fs = "set_is_mt (full_image mt) (fs\<lparr>st_buffer := pipeline_buffer_init (st_buffer fs)\<rparr>)\<lparr>is_pipe := Some PIPE_FULL\<rparr>"
  have "verify_manifest (pl_sec pl) mt (fsm_sf ctx) = Some PULL_SUCCESS"
    using assms(1) by (simp add: verify_manifest_iff acceptable_def authentic_def)
  moreover have "\<not> vm_version (vendor mt) \<le> fsm_version ctx" using assms(1) by (simp add: acceptable_def not_le)
  ultimately have "fsm_verify_manifest pl ctx fs bufp buf w = fsm_open_slot pl (full_image mt) ctx ?fs bufp buf w"
    using assms(2) by (simp add: fsm_verify_manifest_def fsm_configure_full Let_def)
  moreover have "length (is_buffer ?fs) = FSM_BUFFER_SIZE"
    using length_is_buffer_set_is_mt [of "fs\<lparr>st_buffer := pipeline_buffer_init (st_buffer fs)\<rparr>" "full_image mt"] assms(1,4)
    by (simp add: acceptable_def)
  ultimately show ?thesis by (intro exI [of _ ?fs]) (simp add: set_is_mt_def)
qed

text \<open>The block that completes the manifest.\<close>

lemma receiving_accepts:
  assumes "receiving ctx fs got" and "acceptable (pl_sec pl) hash ctx mt"
    and "got @ c = manifest_bytes mt @ rest" and "sizeof_manifest \<le> length got + length c"
    and "slots_ready n w" and "0 < avail w" and "length got + length c \<le> n"
  shows "\<exists>s ob w0 ctx' fs' w'. fsm pl ctx fs c w = Some (PULL_SUCCESS, ctx', fs', c, w') \<and>
    chosen s ob w w0 \<and> loading (slot_id s) ob w0 (manifest_bytes (full_image mt) @ rest) ctx' fs' w' \<and>
    fsm_expected ctx' = unat (vm_offset (vendor mt) + sm_prop_size (server mt)) \<and> fsm_sf ctx' = fsm_sf ctx"
proof -
  let ?ctx = "ctx\<lparr>fsm_processed := sizeof_manifest\<rparr>"
  define k where "k = sizeof_manifest - length got"
  have wf: "wf_manifest mt" using assms(2) by (simp add: acceptable_def)
  have k: "length got + k = sizeof_manifest" using assms(1) by (simp add: k_def receiving_def)
  have m: "got @ take k c = manifest_bytes mt" "drop k c = rest"
    using append_eq_append_conv [of "got @ take k c" "manifest_bytes mt" "drop k c" rest] assms(3,4) wf k
    by simp_all
  obtain mem where mem: "fsm pl ctx fs c w = fsm_verify_manifest pl ?ctx (fs\<lparr>is_buffer := mem\<rparr>) rest c w"
    "length mem = FSM_BUFFER_SIZE" "take sizeof_manifest mem = manifest_bytes mt"
    using receiving_last [OF assms(1,4) k_def, of pl w] m by auto
  have "is_mt (fs\<lparr>is_buffer := mem\<rparr>) = mt"
    using mem(3) wf by (simp add: is_mt_def manifest_of_manifest_bytes)
  moreover have "acceptable (pl_sec pl) hash ?ctx mt" using assms(2) by (simp add: acceptable_def)
  moreover have "wf_static fs" using assms(1) by (simp add: receiving_def)
  ultimately obtain fs1 where fs1: "fsm pl ctx fs c w = fsm_open_slot pl (full_image mt) ?ctx fs1 rest c w"
    "is_pipe fs1 = Some PIPE_FULL" "length (is_buffer fs1) = FSM_BUFFER_SIZE"
    "st_buffer fs1 = pipeline_buffer_init (st_buffer fs)"
    using verify_manifest_accepts [of ?ctx mt "fs\<lparr>is_buffer := mem\<rparr>" rest c w] mem by auto
  have "length (got @ c) = sizeof_manifest + length rest" using assms(3) wf by simp
  then have n: "sizeof_manifest + length rest \<le> n" using assms(7) by simp
  have bc: "wf_buffer (st_buffer fs)" using \<open>wf_static fs\<close> by (simp add: wf_static_def)
  show ?thesis
    using open_slot_ok [OF assms(5,6) _ n _ fs1(2,3) bc fs1(4), of "full_image mt" ?ctx c] fs1(1) wf by simp
qed

text \<open>A block of the firmware that is not the last one.\<close>

lemma loading_chunk:
  assumes "target i w0" and "loading i ob w0 bs ctx fs w" and "length bs + length c < fsm_expected ctx"
    and "length bs + length c \<le> length (content i w0)"
  shows "\<exists>ctx' fs' w'. fsm pl ctx fs c w = Some (PULL_SUCCESS, ctx', fs', c, w') \<and>
    loading i ob w0 (bs @ c) ctx' fs' w' \<and> fsm_expected ctx' = fsm_expected ctx \<and> fsm_sf ctx' = fsm_sf ctx"
proof -
  have st: "stored i ob w0 bs fs w" "fsm_state ctx = STATE_RECEIVE_FIRMWARE" "fsm_processed ctx = length bs"
    using assms(2) by (simp_all add: loading_def)
  obtain fs' w' where s: "fsm_store (pl_mem pl) c fs w = Some (int (length c), fs', w')"
    "stored i ob w0 (bs @ c) fs' w'"
    using store_ok [OF assms(1) st(1) assms(4)] by blast
  have u: "u32 (length bs + length c) = length bs + length c" using assms(1,4) by (simp add: target_def)
  have "is_pipe fs = Some PIPE_FULL" using st(1) by (simp add: stored_def)
  then have "fsm pl ctx fs c w =
      Some (PULL_SUCCESS, ctx\<lparr>fsm_processed := length bs + length c\<rparr>, fs', c, w')"
    using st(2,3) s(1) u assms(3) by (simp add: fsm_def fsm_receive_firmware_def fsm_pipeline_def Let_def)
  with s(2) assms(2) show ?thesis by (auto simp: loading_def)
qed

text \<open>The last state: the slot is opened for reading, verified, and closed.\<close>

lemma verify_firmware_ok:
  assumes "fsm_id ctx \<in> ids" and "0 < avail w" and "v = content (fsm_id ctx) w"
    and "length (is_buffer fs) = FSM_BUFFER_SIZE" and "sizeof_manifest \<le> length v" and "length v < 2 ^ 31"
    and "unat (vm_offset (vendor (content_manifest v))) +
      max (unat (vm_size (vendor (content_manifest v)))) FSM_BUFFER_SIZE \<le> length v"
    and "e = object_verdict (pl_sec pl) hash (fsm_sf ctx) FSM_BUFFER_SIZE v"
  shows "\<exists>ob fs' w'. fsm_verify_firmware pl ctx fs buf w = Some (e,
      ctx\<lparr>fsm_obj := ob, fsm_state := if e = PULL_SUCCESS then STATE_REBOOT else STATE_IDLE\<rparr>, fs', buf, w') \<and>
    (\<forall>j\<in>ids. content j w' = content j w) \<and> avail w \<le> avail w'"
proof -
  let ?i = "fsm_id ctx"
  obtain ob4 w4 where o4: "memory_open (pl_mem pl) (fsm_obj ctx) ?i READ_ONLY w = (PULL_SUCCESS, ob4, w4)"
    "opened ob4 ?i READ_ONLY w4" "content ?i w4 = oeff ?i READ_ONLY (content ?i w)"
    "\<And>j. j \<in> ids \<Longrightarrow> j \<noteq> ?i \<Longrightarrow> content j w4 = content j w" "avail w \<le> avail w4 + cost"
    by (rule memory_open_ok [OF assms(1,2)]) (rule that)
  have v4: "content ?i w4 = v" using o4(3) assms(3) by (simp add: oeff_read)
  obtain buf5 w5 where v5: "verify_object (pl_sec pl) (pl_mem pl) ob4 (fsm_sf ctx) (is_buffer fs) w4 = Some (e, buf5, w5)"
    "same w4 w5"
    using verify_object_ok [OF o4(2) _ refl refl, of "is_buffer fs" "fsm_sf ctx"] assms(4-8) v4
    by (auto simp: FSM_BUFFER_SIZE_def)
  have "opened ob4 ?i READ_ONLY w5" using o4(2) v5(2) by (simp add: same_opened)
  then obtain w6 where c6: "memory_close (pl_mem pl) ob4 w5 = (PULL_SUCCESS, w6)" "\<And>j. content j w6 = content j w5"
    "avail w5 + cost \<le> avail w6"
    by (rule memory_close_ok) (rule that)
  have "content j w6 = content j w" if "j \<in> ids" for j
    using c6(2) v5(2) v4 o4(4) assms(3) that by (cases "j = ?i") (simp_all add: same_content)
  moreover have "avail w \<le> avail w6" using c6(3) v5(2) o4(5) by (simp add: same_def)
  moreover have "fsm_verify_firmware pl ctx fs buf w = Some (e,
      ctx\<lparr>fsm_obj := ob4, fsm_state := if e = PULL_SUCCESS then STATE_REBOOT else STATE_IDLE\<rparr>,
      fs\<lparr>is_buffer := buf5, is_pipe := None\<rparr>, buf, w6)"
    using o4(1) v5(1) c6(1) by (simp add: fsm_verify_firmware_def Let_def)
  ultimately show ?thesis by blast
qed

text \<open>The last block: the slot is flushed and closed before it is verified.\<close>

lemma loading_last:
  assumes "target i w0" and "loading i ob w0 bs ctx fs w" and "length bs + length c = fsm_expected ctx"
    and "length bs + length c \<le> length (content i w0)" and "0 < avail w0 + cost"
    and "v = (bs @ c) @ drop (length (bs @ c)) (content i w0)" and "sizeof_manifest \<le> length v"
    and "unat (vm_offset (vendor (content_manifest v))) +
      max (unat (vm_size (vendor (content_manifest v)))) FSM_BUFFER_SIZE \<le> length v"
    and "e = object_verdict (pl_sec pl) hash (fsm_sf ctx) FSM_BUFFER_SIZE v"
  shows "\<exists>ctx' fs' w'. fsm pl ctx fs c w = Some (e, ctx', fs', c, w') \<and>
    fsm_state ctx' = (if e = PULL_SUCCESS then STATE_REBOOT else STATE_IDLE) \<and> fsm_id ctx' = i \<and>
    content i w' = v \<and> (\<forall>j\<in>ids. j \<noteq> i \<longrightarrow> content j w' = content j w0) \<and> avail w0 + cost \<le> avail w'"
proof -
  have st: "stored i ob w0 bs fs w" "fsm_state ctx = STATE_RECEIVE_FIRMWARE" "fsm_processed ctx = length bs"
    "fsm_id ctx = i" "fsm_obj ctx = ob"
    using assms(2) by (simp_all add: loading_def)
  obtain fs1 w1 where s: "fsm_store (pl_mem pl) c fs w = Some (int (length c), fs1, w1)"
    "stored i ob w0 (bs @ c) fs1 w1"
    using store_ok [OF assms(1) st(1) assms(4)] by blast
  obtain fs2 w2 wc where cl: "fsm_clear (pl_mem pl) fs1 w1 = Some (fs2, w2)" "is_buffer fs2 = is_buffer fs1"
    "writer_holds i WRITE_ALL ob w0 (bs @ c) (wc, w2)"
    using clear_ok [OF assms(1) s(2)] assms(4) by auto
  have h: "opened ob i WRITE_ALL w2" "content i w2 = v" "avail w2 = avail w0"
    "\<forall>j\<in>ids. j \<noteq> i \<longrightarrow> content j w2 = content j w0"
    using cl(3) assms(6) by (auto simp: writer_holds_def)
  obtain w3 where c3: "memory_close (pl_mem pl) ob w2 = (PULL_SUCCESS, w3)" "\<And>j. content j w3 = content j w2"
    "avail w2 + cost \<le> avail w3"
    by (rule memory_close_ok [OF h(1)]) (rule that)
  let ?ctx = "ctx\<lparr>fsm_processed := length bs + length c, fsm_state := STATE_VERIFY_FIRMWARE\<rparr>"
  have i: "fsm_id ?ctx \<in> ids" "0 < avail w3" "v = content (fsm_id ?ctx) w3" "length (is_buffer fs2) = FSM_BUFFER_SIZE"
    "length v < 2 ^ 31" "e = object_verdict (pl_sec pl) hash (fsm_sf ?ctx) FSM_BUFFER_SIZE v"
    using assms(1,4,5,6,9) c3(2,3) h(2,3) st(4) s(2) cl(2) by (auto simp: target_def stored_def)
  obtain ob' fs' w' where vf: "fsm_verify_firmware pl ?ctx fs2 c w3 = Some (e,
      ?ctx\<lparr>fsm_obj := ob', fsm_state := if e = PULL_SUCCESS then STATE_REBOOT else STATE_IDLE\<rparr>, fs', c, w')"
    "\<forall>j\<in>ids. content j w' = content j w3" "avail w3 \<le> avail w'"
    using verify_firmware_ok [OF i(1-4) assms(7) i(5) assms(8) i(6), of c] by blast
  have u: "u32 (length bs + length c) = length bs + length c" using assms(1,4) by (simp add: target_def)
  have pipe: "is_pipe fs = Some PIPE_FULL" using st(1) by (simp add: stored_def)
  have "fsm pl ctx fs c w = fsm_verify_firmware pl ?ctx fs2 c w3"
    using st s(1) u pipe assms(3) cl(1) c3(1) by (simp add: fsm_def fsm_receive_firmware_def fsm_pipeline_def Let_def)
  with vf st(4) i(1,3) c3(2,3) h(3,4) show ?thesis by auto
qed

section \<open>The whole update\<close>

text \<open>
  The state after the bytes \<open>got\<close>, not yet the whole update, were received from world \<open>w\<close> on.
\<close>

definition progress ::
  "manifest_t \<Rightarrow> safestore_t \<Rightarrow> version_t \<Rightarrow> 'w \<Rightarrow> byte list \<Rightarrow> ('o, 'r) fsm_ctx \<Rightarrow> 'o fsm_static \<Rightarrow> 'w \<Rightarrow> bool" where
  "progress mt sf ver w got ctx fs w' \<longleftrightarrow> fsm_sf ctx = sf \<and>
     (if length got < sizeof_manifest then receiving ctx fs got \<and> w' = w \<and> fsm_version ctx = ver
      else \<exists>s ob w0. chosen s ob w w0 \<and>
        loading (slot_id s) ob w0 (manifest_bytes (full_image mt) @ drop sizeof_manifest got) ctx fs w' \<and>
        fsm_expected ctx = unat (vm_offset (vendor mt) + sm_prop_size (server mt)))"

lemma chosen_length: "slots_ready n w \<Longrightarrow> chosen s ob w w0 \<Longrightarrow> n \<le> length (content (slot_id s) w0)"
  by (auto simp: slots_ready_def chosen_def oeff_len)

lemma progress_step:
  assumes "progress mt sf ver w got ctx fs w1" and "wf_manifest mt" and "ver < vm_version (vendor mt)"
    and "authentic (pl_sec pl) hash sf mt"
    and "slots_ready n w" and "0 < avail w"
    and "got @ c @ rest = manifest_bytes mt @ fw"
    and "length got + length c < unat (vm_offset (vendor mt) + sm_prop_size (server mt))"
    and "length got + length c \<le> n"
  shows "\<exists>ctx' fs' w'. fsm pl ctx fs c w1 = Some (PULL_SUCCESS, ctx', fs', c, w') \<and>
    progress mt sf ver w (got @ c) ctx' fs' w'"
proof -
  consider (part) "length got + length c < sizeof_manifest"
    | (full) "length got < sizeof_manifest" "sizeof_manifest \<le> length got + length c"
    | (load) "sizeof_manifest \<le> length got"
    by linarith
  then show ?thesis
  proof cases
    case part
    then have r: "receiving ctx fs got" "w1 = w" "fsm_sf ctx = sf" "fsm_version ctx = ver"
      using assms(1) by (simp_all add: progress_def)
    from receiving_chunk [OF r(1) part, of pl w] r part show ?thesis by (auto simp: progress_def)
  next
    case full
    then have r: "receiving ctx fs got" "w1 = w" "fsm_sf ctx = sf" "fsm_version ctx = ver"
      using assms(1) by (simp_all add: progress_def)
    have acc: "acceptable (pl_sec pl) hash ctx mt" using assms(2-4) r by (simp add: acceptable_def)
    have "got @ c = manifest_bytes mt @ drop sizeof_manifest (got @ c)"
      using prefix_split [of "got @ c" rest "manifest_bytes mt" fw] assms(2,7) full(2) by simp
    from receiving_accepts [OF r(1) acc this full(2) assms(5,6,9)] r(2,3) full(2) show ?thesis
      by (fastforce simp: progress_def)
  next
    case load
    then obtain s ob w0 where l: "chosen s ob w w0" "loading (slot_id s) ob w0 (manifest_bytes (full_image mt) @ drop sizeof_manifest got) ctx fs w1"
      "fsm_expected ctx = unat (vm_offset (vendor mt) + sm_prop_size (server mt))" "fsm_sf ctx = sf"
      using assms(1) by (auto simp: progress_def)
    have t: "target (slot_id s) w0" using l(1) by (simp add: chosen_def)
    have "length got + length c \<le> length (content (slot_id s) w0)"
      using chosen_length [OF assms(5) l(1)] assms(9) by simp
    with loading_chunk [OF t l(2), of c] l(1,3,4) load assms(2,8) show ?thesis
      by (fastforce simp: progress_def)
  qed
qed

lemma progress_run:
  assumes "receiving ctx fs []" and "fsm_sf ctx = sf" and "fsm_version ctx = ver"
    and "wf_manifest mt" and "ver < vm_version (vendor mt)"
    and "authentic (pl_sec pl) hash sf mt"
    and "slots_ready n w" and "0 < avail w"
    and "concat cs @ rest = manifest_bytes mt @ fw"
    and "length (concat cs) < unat (vm_offset (vendor mt) + sm_prop_size (server mt))"
    and "length (concat cs) \<le> n"
  shows "\<exists>ctx' fs' w'. fsm_run pl cs ctx fs w = Some (PULL_SUCCESS, ctx', fs', w') \<and>
    progress mt sf ver w (concat cs) ctx' fs' w'"
  using assms(9-11)
proof (induction cs arbitrary: rest rule: rev_induct)
  case Nil
  then show ?case using assms(1-3) by (simp add: progress_def sizeof_manifest_def)
next
  case (snoc c cs)
  obtain ctx1 fs1 w1 where r: "fsm_run pl cs ctx fs w = Some (PULL_SUCCESS, ctx1, fs1, w1)"
    "progress mt sf ver w (concat cs) ctx1 fs1 w1"
    using snoc.IH [of "c @ rest"] snoc.prems by auto
  have "concat cs @ c @ rest = manifest_bytes mt @ fw"
    "length (concat cs) + length c < unat (vm_offset (vendor mt) + sm_prop_size (server mt))"
    "length (concat cs) + length c \<le> n"
    using snoc.prems by simp_all
  from progress_step [OF r(2) assms(4-8) this] r(1) show ?case
    by (auto simp: fsm_run_append)
qed

text \<open>
  The machine, having asked for an update, receives a signed manifest and its firmware. What it stores and verifies is the manifest
  with the base version cleared, which is not what the server signed where the base version was not 0.
\<close>

lemma whole_update_stored:
  assumes "receiving ctx fs []" and "wf_manifest mt" and "fsm_version ctx < vm_version (vendor mt)"
    and "authentic (pl_sec pl) hash (fsm_sf ctx) mt"
    and "vm_offset (vendor mt) = word_of_nat sizeof_manifest"
    and "vm_size (vendor mt) = word_of_nat (length fw)" and "sm_prop_size (server mt) = word_of_nat (length fw)"
    and "slots_ready (sizeof_manifest + length fw) w" and "FSM_BUFFER_SIZE \<le> length fw" and "0 < avail w"
    and "concat ds @ d = manifest_bytes mt @ fw" and "d \<noteq> []" and "sizeof_manifest \<le> length (concat ds)"
  shows "\<exists>s ob w0 e ctx' fs' w'. chosen s ob w w0 \<and> (\<exists>r. fsm_run pl ds ctx fs w = Some (PULL_SUCCESS, r)) \<and>
    fsm_run pl (ds @ [d]) ctx fs w = Some (e, ctx', fs', w') \<and>
    e = (if \<not> server_signed (pl_sec pl) hash (full_image mt) then GENERIC_ERROR
         else if hash fw = vm_digest (vendor mt) then PULL_SUCCESS else VERIFICATION_FAILED_ERROR) \<and>
    fsm_state ctx' = (if e = PULL_SUCCESS then STATE_REBOOT else STATE_IDLE) \<and>
    fsm_id ctx' = slot_id s \<and>
    content (slot_id s) w' = manifest_bytes (full_image mt) @ fw @ drop (sizeof_manifest + length fw) (content (slot_id s) w0) \<and>
    (\<forall>j\<in>ids. j \<noteq> slot_id s \<longrightarrow> content j w' = content j w) \<and> avail w \<le> avail w'"
proof -
  let ?N = "sizeof_manifest + length fw"
  obtain x where "x \<in> set (active_slots (pl_slots pl))"
    using assms(8) by (metis slots_ready_def list.set_sel(1))
  then have N: "?N < 2 ^ 31" using assms(8) by (auto simp: slots_ready_def)
  have exp: "unat (vm_offset (vendor mt) + sm_prop_size (server mt)) = ?N"
    using N assms(5,7) by (simp add: unat_word32 del: of_nat_add add: of_nat_add [symmetric])
  have sz: "unat (vm_size (vendor mt)) = length fw" "unat (vm_offset (vendor mt)) = sizeof_manifest"
    using N assms(5,6) by (simp_all add: unat_word32)
  have len: "length (concat ds) + length d = ?N" using arg_cong [OF assms(11), of length] assms(2) by simp
  have "0 < length d" using assms(12) by simp
  then have lt: "length (concat ds) < unat (vm_offset (vendor mt) + sm_prop_size (server mt))" "length (concat ds) \<le> ?N"
    unfolding exp using len by linarith+
  obtain ctx1 fs1 w1 where r: "fsm_run pl ds ctx fs w = Some (PULL_SUCCESS, ctx1, fs1, w1)"
    "progress mt (fsm_sf ctx) (fsm_version ctx) w (concat ds) ctx1 fs1 w1"
    using progress_run [OF assms(1) refl refl assms(2-4,8,10,11) lt] by blast
  obtain s ob w0 where l: "chosen s ob w w0" "loading (slot_id s) ob w0 (manifest_bytes (full_image mt) @ drop sizeof_manifest (concat ds)) ctx1 fs1 w1"
    "fsm_expected ctx1 = ?N" "fsm_sf ctx1 = fsm_sf ctx"
    using r(2) assms(13) exp by (auto simp: progress_def)
  let ?bs = "manifest_bytes (full_image mt) @ drop sizeof_manifest (concat ds)"
  define v where "v = (?bs @ d) @ drop (length (?bs @ d)) (content (slot_id s) w0)"
  have fw: "drop sizeof_manifest (concat ds) @ d = fw"
    using arg_cong [OF assms(11), of "drop sizeof_manifest"] assms(2,13) by simp
  have v: "v = manifest_bytes (full_image mt) @ fw @ drop ?N (content (slot_id s) w0)"
    using assms(2) by (simp add: v_def add.assoc flip: fw)
  have cm: "content_manifest v = full_image mt" unfolding v using assms(2) by (intro content_manifest_append) simp
  have b: "block sizeof_manifest (length fw) v = fw"
    unfolding v using assms(2) by (simp add: block_append_skip block_append_here)
  have t: "target (slot_id s) w0" and nl: "?N \<le> length (content (slot_id s) w0)"
    and av: "avail w \<le> avail w0 + cost" and rest: "\<forall>j\<in>ids. j \<noteq> slot_id s \<longrightarrow> content j w0 = content j w"
    using l(1) chosen_length [OF assms(8) l(1)] by (simp_all add: chosen_def)
  have vs: "vendor_signed (pl_sec pl) hash (keystore (fsm_sf ctx)) (full_image mt)"
    using assms(4) by (simp add: authentic_def vendor_signed_def set_diff_version_impl_def)
  have verdict: "object_verdict (pl_sec pl) hash (fsm_sf ctx) FSM_BUFFER_SIZE v =
      (if \<not> server_signed (pl_sec pl) hash (full_image mt) then GENERIC_ERROR
       else if hash fw = vm_digest (vendor mt) then PULL_SUCCESS else VERIFICATION_FAILED_ERROR)"
    using assms(4,9) sz b vs by (auto simp: object_verdict_def cm authentic_def Let_def max_absorb1 FSM_BUFFER_SIZE_def)
  have lv: "length v = length (content (slot_id s) w0)" unfolding v using assms(2) nl by simp
  have lb: "length ?bs = length (concat ds)" using assms(2,13) by simp
  have pre: "length ?bs + length d = fsm_expected ctx1"
    "length ?bs + length d \<le> length (content (slot_id s) w0)" "0 < avail w0 + cost" "sizeof_manifest \<le> length v"
    "unat (vm_offset (vendor (content_manifest v))) +
      max (unat (vm_size (vendor (content_manifest v)))) FSM_BUFFER_SIZE \<le> length v"
    unfolding lb using l(3) len nl av assms(9,10) cm sz lv by (auto simp: max_absorb1)
  obtain ctx2 fs2 w2 where f: "fsm pl ctx1 fs1 d w1 =
      Some (object_verdict (pl_sec pl) hash (fsm_sf ctx1) FSM_BUFFER_SIZE v, ctx2, fs2, d, w2)"
    "fsm_state ctx2 = (if object_verdict (pl_sec pl) hash (fsm_sf ctx1) FSM_BUFFER_SIZE v = PULL_SUCCESS
                      then STATE_REBOOT else STATE_IDLE)" "fsm_id ctx2 = slot_id s"
    "content (slot_id s) w2 = v" "\<forall>j\<in>ids. j \<noteq> slot_id s \<longrightarrow> content j w2 = content j w0" "avail w0 + cost \<le> avail w2"
    using loading_last [OF t l(2) pre(1-3) v_def pre(4,5) refl] by (elim exE conjE) (rule that)
  have run: "fsm_run pl (ds @ [d]) ctx fs w =
      Some (object_verdict (pl_sec pl) hash (fsm_sf ctx1) FSM_BUFFER_SIZE v, ctx2, fs2, w2)"
    using r(1) f(1) by (simp add: fsm_run_append)
  show ?thesis
    by (rule exI [of _ s], rule exI [of _ ob], rule exI [of _ w0], intro exI conjI, rule l(1), rule r(1), rule run)
      (use f(2-6) verdict l(4) v rest av in auto)
qed

lemma whole_update_ok:
  assumes "receiving ctx fs []" and "wf_manifest mt" and "fsm_version ctx < vm_version (vendor mt)"
    and "authentic (pl_sec pl) hash (fsm_sf ctx) mt" and "sm_diff_version (server mt) = 0"
    and "vm_offset (vendor mt) = word_of_nat sizeof_manifest"
    and "vm_size (vendor mt) = word_of_nat (length fw)" and "sm_prop_size (server mt) = word_of_nat (length fw)"
    and "slots_ready (sizeof_manifest + length fw) w" and "FSM_BUFFER_SIZE \<le> length fw" and "0 < avail w"
    and "concat ds @ d = manifest_bytes mt @ fw" and "d \<noteq> []" and "sizeof_manifest \<le> length (concat ds)"
  shows "\<exists>s ob w0 e ctx' fs' w'. chosen s ob w w0 \<and> (\<exists>r. fsm_run pl ds ctx fs w = Some (PULL_SUCCESS, r)) \<and>
    fsm_run pl (ds @ [d]) ctx fs w = Some (e, ctx', fs', w') \<and>
    e = (if hash fw = vm_digest (vendor mt) then PULL_SUCCESS else VERIFICATION_FAILED_ERROR) \<and>
    fsm_state ctx' = (if hash fw = vm_digest (vendor mt) then STATE_REBOOT else STATE_IDLE) \<and>
    fsm_id ctx' = slot_id s \<and>
    content (slot_id s) w' = manifest_bytes mt @ fw @ drop (sizeof_manifest + length fw) (content (slot_id s) w0) \<and>
    (\<forall>j\<in>ids. j \<noteq> slot_id s \<longrightarrow> content j w' = content j w) \<and> avail w \<le> avail w'"
proof -
  have id: "full_image mt = mt" using assms(5) by (rule set_diff_version_id)
  moreover have "server_signed (pl_sec pl) hash mt" using assms(4) by (simp add: authentic_def)
  ultimately show ?thesis using whole_update_stored [OF assms(1-4,6-14)] by (auto split: if_splits)
qed

end

section \<open>A whole session\<close>

text \<open>
  A device: an update contract with a generator that works. The session starts with the version
  that is offered, and with the buffer the machine fills with its request.
\<close>

locale device_contract = update_contract pl ids content opened indep avail cost oeff weff hash absorbed +
    rng_contract "pl_rng pl"
  for pl :: "('w, 'o, 'd, 'r) platform" and ids content opened indep avail cost oeff weff hash absorbed
begin

text \<open>The two calls before the image: the version is offered, and the machine fills a message with its request.\<close>

lemma request_message:
  assumes "fsm_state ctx = STATE_IDLE" and "fsm_processed ctx = 0" and "wf_static fs"
    and "length (is_buffer fs) = FSM_BUFFER_SIZE" and "fsm_version ctx < v"
    and "sizeof_receiver_msg \<le> length msg"
  shows "\<exists>nonce ctx1 ctx2 fs'. fsm pl ctx fs (le_enc 2 (unat v)) w = Some (PULL_SUCCESS, ctx1, fs, le_enc 2 (unat v), w) \<and>
    fsm pl ctx1 fs msg w = Some (PULL_SUCCESS, ctx2, fs', put_msg (sf_udid (fsm_sf ctx)) (fsm_version ctx) nonce msg, w) \<and>
    receiving ctx2 fs' [] \<and> fsm_sf ctx2 = fsm_sf ctx \<and> fsm_version ctx2 = fsm_version ctx"
proof -
  obtain nonce r where g: "rng_generate (pl_rng pl) (fsm_rctx ctx) = (PULL_SUCCESS, nonce, r)"
    using rng_generate_ok by blast
  let ?ctx = "ctx\<lparr>fsm_state := STATE_START_UPDATE\<rparr>"
  have v: "\<not> v \<le> fsm_version ctx" using assms(5) by simp
  have 1: "fsm pl ctx fs (le_enc 2 (unat v)) w = Some (PULL_SUCCESS, ?ctx, fs, le_enc 2 (unat v), w)"
    using assms(1) v word_le_dec_enc_16 [of v] by (simp add: fsm_def fsm_idle_def)
  let ?ctx' = "ctx\<lparr>fsm_state := STATE_RECEIVE_MANIFEST, fsm_rctx := r\<rparr>"
  have 2: "fsm pl ?ctx fs msg w = Some (PULL_SUCCESS, ?ctx', set_is_nonce nonce fs,
      put_msg (sf_udid (fsm_sf ctx)) (fsm_version ctx) nonce msg, w)"
    using g assms(6) by (simp add: fsm_def fsm_start_update_def)
  have "length (is_buffer (set_is_nonce nonce fs)) = FSM_BUFFER_SIZE"
    using assms(4) by (simp add: set_is_nonce_def FSM_BUFFER_SIZE_def sizeof_manifest_def)
  then have "receiving ?ctx' (set_is_nonce nonce fs) []"
    using assms(2,3) by (simp add: receiving_def sizeof_manifest_def)
  with 1 2 show ?thesis
    by (intro exI [of _ nonce] exI [of _ ?ctx] exI [of _ ?ctx'] exI [of _ "set_is_nonce nonce fs"]) simp
qed

lemma request_ok:
  assumes "fsm_state ctx = STATE_IDLE" and "fsm_processed ctx = 0" and "wf_static fs"
    and "length (is_buffer fs) = FSM_BUFFER_SIZE" and "fsm_version ctx < v"
    and "sizeof_receiver_msg \<le> length msg"
  shows "\<exists>ctx' fs'. (\<forall>cs. fsm_run pl (le_enc 2 (unat v) # msg # cs) ctx fs w = fsm_run pl cs ctx' fs' w) \<and>
    receiving ctx' fs' [] \<and> fsm_sf ctx' = fsm_sf ctx \<and> fsm_version ctx' = fsm_version ctx"
proof -
  obtain nonce ctx1 ctx2 fs' where "fsm pl ctx fs (le_enc 2 (unat v)) w = Some (PULL_SUCCESS, ctx1, fs, le_enc 2 (unat v), w)"
    "fsm pl ctx1 fs msg w = Some (PULL_SUCCESS, ctx2, fs', put_msg (sf_udid (fsm_sf ctx)) (fsm_version ctx) nonce msg, w)"
    "receiving ctx2 fs' []" "fsm_sf ctx2 = fsm_sf ctx" "fsm_version ctx2 = fsm_version ctx"
    using request_message [OF assms] by blast
  then show ?thesis by (intro exI [of _ ctx2] exI [of _ fs']) simp
qed

lemma session_ok:
  assumes "fsm_state ctx = STATE_IDLE" and "fsm_processed ctx = 0" and "wf_static fs"
    and "length (is_buffer fs) = FSM_BUFFER_SIZE" and "fsm_version ctx < v"
    and "sizeof_receiver_msg \<le> length msg"
    and "wf_manifest mt" and "fsm_version ctx < vm_version (vendor mt)"
    and "authentic (pl_sec pl) hash (fsm_sf ctx) mt" and "sm_diff_version (server mt) = 0"
    and "vm_offset (vendor mt) = word_of_nat sizeof_manifest"
    and "vm_size (vendor mt) = word_of_nat (length fw)" and "sm_prop_size (server mt) = word_of_nat (length fw)"
    and "slots_ready (sizeof_manifest + length fw) w" and "FSM_BUFFER_SIZE \<le> length fw" and "0 < avail w"
    and "concat ds @ d = manifest_bytes mt @ fw" and "d \<noteq> []" and "sizeof_manifest \<le> length (concat ds)"
  shows "\<exists>s ob w0 e ctx' fs' w'. chosen s ob w w0 \<and>
    fsm_run pl (le_enc 2 (unat v) # msg # ds @ [d]) ctx fs w = Some (e, ctx', fs', w') \<and>
    e = (if hash fw = vm_digest (vendor mt) then PULL_SUCCESS else VERIFICATION_FAILED_ERROR) \<and>
    fsm_state ctx' = (if hash fw = vm_digest (vendor mt) then STATE_REBOOT else STATE_IDLE) \<and>
    fsm_id ctx' = slot_id s \<and>
    content (slot_id s) w' = manifest_bytes mt @ fw @ drop (sizeof_manifest + length fw) (content (slot_id s) w0) \<and>
    (\<forall>j\<in>ids. j \<noteq> slot_id s \<longrightarrow> content j w' = content j w) \<and> avail w \<le> avail w'"
proof -
  obtain ctx1 fs1 where r: "\<And>cs. fsm_run pl (le_enc 2 (unat v) # msg # cs) ctx fs w = fsm_run pl cs ctx1 fs1 w"
    "receiving ctx1 fs1 []" "fsm_sf ctx1 = fsm_sf ctx" "fsm_version ctx1 = fsm_version ctx"
    using request_ok [OF assms(1-6)] by blast
  from whole_update_ok [OF r(2), unfolded r(3,4), OF assms(7-19)] show ?thesis unfolding r(1) by blast
qed

end

end
