(* ===== verification/Device_Posix.thy ===== *)
theory Device_Posix
  imports Pipeline_Posix Fsm_Update
begin

text \<open>
  A device built from the POSIX memory, the TinyCrypt wrappers and the POSIX random number generator: the
  contracts of the verifier and of the state machine interpreted on it, for every library
  that behaves like an incremental hash, and the properties of the verifier and of a whole update.
\<close>

section \<open>The device\<close>

definition posix_platform ::
  "('t, 'a) tinycrypt_lib \<Rightarrow> 't digest_ctx \<Rightarrow> mem_slot_t list \<Rightarrow> ('r \<Rightarrow> 'r) \<Rightarrow> ('r \<Rightarrow> int \<times> 'r) \<Rightarrow>
   (posix_fs, posix_obj, 't digest_ctx, 'r) platform" where
  "posix_platform lib c0 slots srand_time rand = \<lparr>pl_mem = posix_iface, pl_sec = tinycrypt_iface lib c0,
     pl_slots = slots, pl_rng = posix_rng srand_time rand\<rparr>"

lemma posix_platform_simps [simp]:
  "pl_mem (posix_platform lib c0 slots sr rd) = posix_iface"
  "pl_sec (posix_platform lib c0 slots sr rd) = tinycrypt_iface lib c0"
  "pl_slots (posix_platform lib c0 slots sr rd) = slots"
  "pl_rng (posix_platform lib c0 slots sr rd) = posix_rng sr rd"
  by (simp_all add: posix_platform_def)

sublocale tinycrypt_sha \<subseteq> on_files: verifier_contract posix_iface posix_valid_ids posix_content posix_opened
  posix_indep posix_avail 1 "\<lambda>i mode v. v" "\<lambda>i mode. splice_at" "tinycrypt_iface lib c0" hash "\<lambda>c. st (sha_ctx c)"
  by unfold_locales

context tinycrypt_sha
begin

lemma files_verifier:
  "verifier_contract posix_iface posix_valid_ids posix_content posix_opened posix_indep posix_avail 1
     (\<lambda>i mode v. v) (\<lambda>i mode. splice_at) (tinycrypt_iface lib c0) hash (\<lambda>c. st (sha_ctx c))"
  by unfold_locales

end

lemma posix_device:
  assumes "tinycrypt_sha lib hash st"
  shows "device_contract (posix_platform lib c0 slots sr rd) posix_valid_ids posix_content posix_opened
    posix_indep posix_avail 1 (\<lambda>i mode v. v) (\<lambda>i mode. splice_at) hash (\<lambda>c. st (sha_ctx c))"
  using tinycrypt_sha.files_verifier [OF assms]
  by (simp add: device_contract_def update_contract_def posix_rng.rng_contract_axioms)

interpretation demo_device: device_contract "posix_platform demo_tinycrypt c0 slots sr rd" posix_valid_ids posix_content
  posix_opened posix_indep posix_avail 1 "\<lambda>i mode v. v" "\<lambda>i mode. splice_at" demo_hash "\<lambda>c. (=) (sha_ctx c)"
  by (rule posix_device) (rule demo_tc.tinycrypt_sha_axioms)

section \<open>Verifying an object\<close>

text \<open>
  C19. The verdict on an object over files. For a file that holds a manifest, and the firmware and
  one buffer after it, \<open>verify_object\<close> returns, changes no content, and its result is a
  function of the content: the wrong application is an invalid signature, a manifest that is
  not signed by the vendor's key and by the server key it names is an error, an empty
  firmware cannot be read, and otherwise the result is success exactly where the hash of the
  firmware (or of one buffer, where the firmware is shorter) is the digest in the manifest.
\<close>

theorem posix_verify_object:
  assumes "tinycrypt_sha lib hash st" and "posix_opened obj i md w" and "v = posix_content i w"
    and "sizeof_manifest \<le> length v" and "0 < length buf" and "length buf < 65536"
    and "n = unat (vm_offset (vendor (content_manifest v))) + max (unat (vm_size (vendor (content_manifest v)))) (length buf)"
    and "n \<le> length v" and "n < 2 ^ 31"
  shows "\<exists>buf' w'. verify_object (tinycrypt_iface lib c0) posix_iface obj sf buf w =
      Some (object_verdict (tinycrypt_iface lib c0) hash sf (length buf) v, buf', w') \<and>
    (\<forall>j. posix_content j w' = posix_content j w)"
proof -
  have "sizeof_manifest \<le> length (posix_content i w)" using assms(3,4) by simp
  from verifier_contract.verify_object_ok [OF tinycrypt_sha.files_verifier [OF assms(1)] assms(2) this refl refl assms(5,6), of c0 sf] assms(3,7-9)
  show ?thesis by (auto simp: posix.same_def)
qed

text \<open>A signed image for the applications to concrete inputs.\<close>

definition demo_key :: "byte list" where "demo_key = map word_of_nat [0..<64]"

definition demo_sf :: safestore_t where
  "demo_sf = \<lparr>keystore = \<lparr>ks_x = take 32 demo_key, ks_y = drop 32 demo_key\<rparr>, sf_udid = 7, sf_appid = 5, aes_key = replicate 128 0\<rparr>"

definition demo_unsigned :: "u16 \<Rightarrow> byte list \<Rightarrow> manifest_t" where
  "demo_unsigned ver fw = set_version_impl (set_appid_impl (set_offset_impl (set_size_impl (set_prop_size_impl
     (set_digest_impl (set_server_key_x_impl (set_server_key_y_impl zero_manifest (drop 32 demo_key)) (take 32 demo_key))
       (demo_hash fw)) (word_of_nat (length fw))) (word_of_nat (length fw))) 256) 5) ver"

definition demo_manifest :: "u16 \<Rightarrow> byte list \<Rightarrow> manifest_t" where
  "demo_manifest ver fw = (let mt = demo_unsigned ver fw; vs = demo_sign demo_key (demo_hash (vendor_bytes (vendor mt)));
      ss = demo_sign demo_key (demo_hash (server_bytes (server mt)))
    in mt\<lparr>vendor_signature_r := take 32 vs, vendor_signature_s := drop 32 vs,
          server_signature_r := take 32 ss, server_signature_s := drop 32 ss\<rparr>)"

lemmas manifest_setters = set_version_impl_def set_appid_impl_def set_offset_impl_def set_size_impl_def
  set_prop_size_impl_def set_digest_impl_def set_server_key_x_impl_def set_server_key_y_impl_def

definition demo_ctx0 :: "byte list digest_ctx" where
  "demo_ctx0 = \<lparr>sha_ctx = [], sha_result = replicate 32 0\<rparr>"

definition demo_firmware :: "byte list" where
  "demo_firmware = replicate 1024 9"

definition demo_update :: "byte list" where
  "demo_update = manifest_bytes (demo_manifest 4 demo_firmware) @ demo_firmware"

text \<open>Slot A holds version 3, slot B the update, and slot C version 1; nothing is open.\<close>

definition demo_disk :: posix_fs where
  "demo_disk = \<lparr>files = [posix_path OBJ_A \<mapsto> demo_image 3 1030, posix_path OBJ_B \<mapsto> demo_update,
       posix_path OBJ_C \<mapsto> demo_image 1 1030],
     fdtab = [0 \<mapsto> (posix_path OBJ_B, 0)], fd_max = 8\<rparr>"

lemma length_demo_key [simp]: "length demo_key = 64"
  by (simp add: demo_key_def)

lemma zero_manifest_fields:
  "vm_digest (vendor zero_manifest) = replicate 32 0" "vm_server_key_x (vendor zero_manifest) = replicate 32 0"
  "vm_server_key_y (vendor zero_manifest) = replicate 32 0" "sm_diff_version (server zero_manifest) = 0"
  by code_simp+

lemma wf_demo_manifest [simp]: "wf_manifest (demo_manifest ver fw)"
  by (simp add: demo_manifest_def demo_unsigned_def wf_manifest_def wf_vendor_def demo_sign_def
      manifest_setters zero_manifest_fields splice_at_0 Let_def)

lemma demo_manifest_fields:
  "vm_offset (vendor (demo_manifest ver fw)) = 256" "vm_size (vendor (demo_manifest ver fw)) = word_of_nat (length fw)"
  "sm_prop_size (server (demo_manifest ver fw)) = word_of_nat (length fw)" "vm_version (vendor (demo_manifest ver fw)) = ver"
  "sm_diff_version (server (demo_manifest ver fw)) = 0" "vm_digest (vendor (demo_manifest ver fw)) = demo_hash fw"
  by (simp_all add: demo_manifest_def demo_unsigned_def manifest_setters zero_manifest_fields splice_at_0 Let_def)

lemma demo_disk_content:
  "posix_content OBJ_A demo_disk = demo_image 3 1030" "posix_content OBJ_B demo_disk = demo_update"
  "posix_content OBJ_C demo_disk = demo_image 1 1030"
proof -
  have "{OBJ_A, OBJ_B, OBJ_C} \<subseteq> posix_valid_ids" by code_simp
  moreover have "distinct [posix_path OBJ_A, posix_path OBJ_B, posix_path OBJ_C]" by code_simp
  ultimately show "posix_content OBJ_A demo_disk = demo_image 3 1030" "posix_content OBJ_B demo_disk = demo_update"
    "posix_content OBJ_C demo_disk = demo_image 1 1030"
    by (auto simp: posix_content_def file_of_def demo_disk_def)
qed

lemma demo_disk_length:
  "length (posix_content OBJ_A demo_disk) = 1286" "length (posix_content OBJ_B demo_disk) = 1280"
  "length (posix_content OBJ_C demo_disk) = 1286"
proof -
  have "wf_manifest (set_version_impl (set_size_impl (set_offset_impl zero_manifest 256) n) v)" for n v
    using wf_zero_manifest by (simp add: wf_manifest_def wf_vendor_def manifest_setters)
  note length_manifest_bytes [OF this, simp]
  show "length (posix_content OBJ_A demo_disk) = 1286" "length (posix_content OBJ_B demo_disk) = 1280"
    "length (posix_content OBJ_C demo_disk) = 1286"
    unfolding demo_disk_content by (simp_all add: demo_image_def demo_update_def demo_firmware_def sizeof_manifest_def)
qed

lemma demo_update_fields:
  "unat (vm_offset (vendor (content_manifest (posix_content OBJ_B demo_disk)))) = 256"
  "unat (vm_size (vendor (content_manifest (posix_content OBJ_B demo_disk)))) = 1024"
proof -
  show "unat (vm_offset (vendor (content_manifest (posix_content OBJ_B demo_disk)))) = 256"
    "unat (vm_size (vendor (content_manifest (posix_content OBJ_B demo_disk)))) = 1024"
    by (simp_all add: demo_disk_content demo_update_def content_manifest_append demo_manifest_fields demo_firmware_def)
qed

theorem posix_verify_object_witness:
  "\<exists>buf' w'. verify_object (tinycrypt_iface demo_tinycrypt demo_ctx0) posix_iface (demo_obj 0) demo_sf (replicate 64 0) demo_disk =
      Some (object_verdict (tinycrypt_iface demo_tinycrypt demo_ctx0) demo_hash demo_sf (length (replicate 64 (0 :: byte)))
        (posix_content OBJ_B demo_disk), buf', w') \<and>
    (\<forall>j. posix_content j w' = posix_content j demo_disk)"
  by (rule posix_verify_object [OF demo_tc.tinycrypt_sha_axioms, where md = READ_ONLY and i = OBJ_B and n = 1280];
      (simp add: demo_disk_length demo_update_fields sizeof_manifest_def; fail | code_simp))

section \<open>A whole update\<close>

text \<open>Slots over files that can take an image, and what is known of the slot that is chosen.\<close>

lemma posix_slots_ready:
  assumes "tinycrypt_sha lib hash st" and "pl = posix_platform lib c0 slots sr rd" and "active_slots slots \<noteq> []"
    and "\<forall>x\<in>set (active_slots slots). slot_id x \<in> posix_valid_ids \<and>
      N \<le> length (posix_content (slot_id x) w) \<and> length (posix_content (slot_id x) w) < 2 ^ 31"
    and "sizeof_manifest \<le> N"
  shows "update_contract.slots_ready pl posix_valid_ids posix_content (\<lambda>i mode v. v) (\<lambda>i mode. splice_at) N w"
  using assms(2-5) posix.exact_seq_exact [OF posix_exact]
    device_contract.axioms(1) [OF posix_device [OF assms(1), of c0 slots sr rd, folded assms(2)]]
  by (auto simp: update_contract.slots_ready_def)

lemma posix_chosen:
  assumes "tinycrypt_sha lib hash st" and "pl = posix_platform lib c0 slots sr rd"
    and "update_contract.chosen pl posix_valid_ids posix_content posix_opened posix_avail 1 (\<lambda>i mode v. v) (\<lambda>i mode. splice_at) s ob w w0"
  shows "s \<in> set (active_slots slots)"
    and "\<forall>x\<in>set (active_slots slots). content_version (posix_content (slot_id s) w) \<le> content_version (posix_content (slot_id x) w)"
    and "posix_content (slot_id s) w0 = posix_content (slot_id s) w"
  using assms(3) device_contract.axioms(1) [OF posix_device [OF assms(1), of c0 slots sr rd, folded assms(2)]]
  by (simp_all add: update_contract.chosen_def assms(2))

lemma update_session_posix:
  assumes "tinycrypt_sha lib hash st" and "pl = posix_platform lib c0 slots sr rd"
    and "fsm_state ctx = STATE_IDLE" and "fsm_processed ctx = 0" and "wf_static fs"
    and "length (is_buffer fs) = FSM_BUFFER_SIZE" and "fsm_version ctx < v" and "sizeof_receiver_msg \<le> length msg"
    and "wf_manifest mt" and "fsm_version ctx < vm_version (vendor mt)"
    and "authentic (tinycrypt_iface lib c0) hash (fsm_sf ctx) mt" and "sm_diff_version (server mt) = 0"
    and "vm_offset (vendor mt) = word_of_nat sizeof_manifest"
    and "vm_size (vendor mt) = word_of_nat (length fw)" and "sm_prop_size (server mt) = word_of_nat (length fw)"
    and "FSM_BUFFER_SIZE \<le> length fw" and "N = sizeof_manifest + length fw"
    and "active_slots slots \<noteq> []" and "\<forall>x\<in>set (active_slots slots). slot_id x \<in> posix_valid_ids \<and>
      N \<le> length (posix_content (slot_id x) w) \<and> length (posix_content (slot_id x) w) < 2 ^ 31"
    and "0 < posix_avail w"
    and "concat ds @ d = manifest_bytes mt @ fw" and "d \<noteq> []" and "sizeof_manifest \<le> length (concat ds)"
  shows "\<exists>s ctx' fs' w'. s \<in> set (active_slots slots) \<and>
    (\<forall>x\<in>set (active_slots slots). content_version (posix_content (slot_id s) w) \<le> content_version (posix_content (slot_id x) w)) \<and>
    fsm_run pl (le_enc 2 (unat v) # msg # ds @ [d]) ctx fs w =
      Some (if hash fw = vm_digest (vendor mt) then PULL_SUCCESS else VERIFICATION_FAILED_ERROR, ctx', fs', w') \<and>
    fsm_state ctx' = (if hash fw = vm_digest (vendor mt) then STATE_REBOOT else STATE_IDLE) \<and> fsm_id ctx' = slot_id s \<and>
    posix_content (slot_id s) w' = manifest_bytes mt @ fw @ drop N (posix_content (slot_id s) w) \<and>
    (\<forall>j\<in>posix_valid_ids. j \<noteq> slot_id s \<longrightarrow> posix_content j w' = posix_content j w)"
proof -
  note dev = posix_device [OF assms(1), of c0 slots sr rd, folded assms(2)]
  have sec: "pl_sec pl = tinycrypt_iface lib c0" using assms(2) by simp
  have "sizeof_manifest \<le> N" using assms(17) by simp
  note ready = posix_slots_ready [OF assms(1,2,18,19) this]
  obtain s ob w0 e ctx' fs' w' where
    r: "update_contract.chosen pl posix_valid_ids posix_content posix_opened posix_avail 1 (\<lambda>i mode v. v) (\<lambda>i mode. splice_at) s ob w w0"
    "fsm_run pl (le_enc 2 (unat v) # msg # ds @ [d]) ctx fs w = Some (e, ctx', fs', w')"
    "e = (if hash fw = vm_digest (vendor mt) then PULL_SUCCESS else VERIFICATION_FAILED_ERROR)"
    "fsm_state ctx' = (if hash fw = vm_digest (vendor mt) then STATE_REBOOT else STATE_IDLE)" "fsm_id ctx' = slot_id s"
    "posix_content (slot_id s) w' = manifest_bytes mt @ fw @ drop (sizeof_manifest + length fw) (posix_content (slot_id s) w0)"
    "\<forall>j\<in>posix_valid_ids. j \<noteq> slot_id s \<longrightarrow> posix_content j w' = posix_content j w"
    using device_contract.session_ok [OF dev assms(3-10) _ assms(12-15) ready [unfolded assms(17)] assms(16,20-23)] assms(11)
    unfolding sec by (elim meta_impE exE conjE) (assumption | rule that)+
  note ch = posix_chosen [OF assms(1,2) r(1)]
  show ?thesis
    by (rule exI [of _ s], rule exI [of _ ctx'], rule exI [of _ fs'], rule exI [of _ w'], intro conjI)
      (use r(2-7) ch assms(17) in simp_all)
qed

text \<open>
  C1. An update over files. A machine that is idle is offered a newer version, is asked for its
  request, and then receives the bytes of a manifest and of its firmware, in blocks of any
  sizes of which the last comes after the manifest is complete. If the manifest is for
  this application, newer, a full image and signed by vendor and server, and the firmware is no
  shorter than the verification buffer, then every call returns and the machine stores
  manifest and firmware at the start of a slot whose version no slot undercuts, keeps every
  other object, and at the last block asks for the reboot if the firmware has the digest the manifest states,
  and reports that the verification failed otherwise.
\<close>

theorem posix_update_session:
  assumes "tinycrypt_sha lib hash st" and "pl = posix_platform lib c0 slots sr rd"
    and "fsm_state ctx = STATE_IDLE" and "fsm_processed ctx = 0" and "wf_static fs"
    and "length (is_buffer fs) = FSM_BUFFER_SIZE" and "fsm_version ctx < v" and "sizeof_receiver_msg \<le> length msg"
    and "wf_manifest mt" and "fsm_version ctx < vm_version (vendor mt)"
    and "authentic (tinycrypt_iface lib c0) hash (fsm_sf ctx) mt" and "sm_diff_version (server mt) = 0"
    and "vm_offset (vendor mt) = word_of_nat sizeof_manifest"
    and "vm_size (vendor mt) = word_of_nat (length fw)" and "sm_prop_size (server mt) = word_of_nat (length fw)"
    and "FSM_BUFFER_SIZE \<le> length fw" and "N = sizeof_manifest + length fw"
    and "active_slots slots \<noteq> []" and "\<forall>x\<in>set (active_slots slots). slot_id x \<in> posix_valid_ids \<and>
      N \<le> length (posix_content (slot_id x) w) \<and> length (posix_content (slot_id x) w) < 2 ^ 31"
    and "0 < posix_avail w"
    and "concat ds @ d = manifest_bytes mt @ fw" and "d \<noteq> []" and "sizeof_manifest \<le> length (concat ds)"
  shows "\<exists>s ctx' fs' w'. s \<in> set (active_slots slots) \<and>
    (\<forall>x\<in>set (active_slots slots). content_version (posix_content (slot_id s) w) \<le> content_version (posix_content (slot_id x) w)) \<and>
    fsm_run pl (le_enc 2 (unat v) # msg # ds @ [d]) ctx fs w =
      Some (if hash fw = vm_digest (vendor mt) then PULL_SUCCESS else VERIFICATION_FAILED_ERROR, ctx', fs', w') \<and>
    fsm_state ctx' = (if hash fw = vm_digest (vendor mt) then STATE_REBOOT else STATE_IDLE) \<and> fsm_id ctx' = slot_id s \<and>
    posix_content (slot_id s) w' = manifest_bytes mt @ fw @ drop N (posix_content (slot_id s) w) \<and>
    (\<forall>j\<in>posix_valid_ids. j \<noteq> slot_id s \<longrightarrow> posix_content j w' = posix_content j w)"
  by (rule update_session_posix [OF assms])

definition demo_static :: "posix_obj fsm_static" where
  "demo_static = \<lparr>is_buffer = replicate FSM_BUFFER_SIZE 0, is_pipe = None, st_buffer = demo_buffer,
     st_writer = pipeline_writer_init (demo_obj 0), st_lzss = demo_lzss, st_bspatch = demo_bspatch\<rparr>"

definition demo_fsm :: "(posix_obj, nat) fsm_ctx" where
  "demo_fsm = \<lparr>fsm_state = STATE_IDLE, fsm_version = 3, fsm_sf = demo_sf, fsm_processed = 0, fsm_expected = 0,
     fsm_id = 0, fsm_obj = demo_obj 0, fsm_rctx = 1, fsm_old_id = 0, fsm_old_obj = demo_obj 0\<rparr>"

definition demo_platform :: "(posix_fs, posix_obj, byte list digest_ctx, nat) platform" where
  "demo_platform = posix_platform demo_tinycrypt demo_ctx0 posix_memory_slots (\<lambda>r. r) (\<lambda>r. (int r, r + 1))"

lemma demo_fsm_simps:
  "fsm_state demo_fsm = STATE_IDLE" "fsm_processed demo_fsm = 0" "wf_static demo_static"
  "length (is_buffer demo_static) = FSM_BUFFER_SIZE" "fsm_version demo_fsm = 3" "fsm_sf demo_fsm = demo_sf"
  by (simp_all add: demo_fsm_def demo_static_def wf_static_def wf_buffer_def demo_buffer_def BUFFER_LEN_def)

lemma authentic_demo_manifest: "authentic (tinycrypt_iface demo_tinycrypt demo_ctx0) demo_hash demo_sf (demo_manifest ver fw)"
  by (simp add: authentic_def vendor_signed_def server_signed_def tinycrypt_iface_def tinycrypt_ecc_verify_def
      tinycrypt_get_digest_size_def demo_tinycrypt_def demo_sf_def demo_manifest_def demo_unsigned_def
      manifest_setters zero_manifest_fields splice_at_0 Let_def demo_sign_def)

lemma demo_disk_slots:
  "\<forall>x\<in>set (active_slots posix_memory_slots). slot_id x \<in> posix_valid_ids \<and>
     1280 \<le> length (posix_content (slot_id x) demo_disk) \<and> length (posix_content (slot_id x) demo_disk) < 2 ^ 31"
proof -
  have "set (map slot_id (active_slots posix_memory_slots)) = {OBJ_A, OBJ_B, OBJ_C}" by code_simp
  then have "slot_id x \<in> {OBJ_A, OBJ_B, OBJ_C}" if "x \<in> set (active_slots posix_memory_slots)" for x using that by auto
  moreover have "{OBJ_A, OBJ_B, OBJ_C} \<subseteq> posix_valid_ids" by code_simp
  ultimately show ?thesis using demo_disk_length by fastforce
qed

lemma length_demo_firmware: "length demo_firmware = 1024"
  by (simp add: demo_firmware_def)

lemma length_demo_update: "length demo_update = 1280"
  by (simp add: demo_update_def length_demo_firmware sizeof_manifest_def)

theorem posix_update_session_witness:
  "\<exists>s ctx' fs' w'. s \<in> set (active_slots posix_memory_slots) \<and>
    (\<forall>x\<in>set (active_slots posix_memory_slots).
       content_version (posix_content (slot_id s) demo_disk) \<le> content_version (posix_content (slot_id x) demo_disk)) \<and>
    fsm_run demo_platform (le_enc 2 (unat (4 :: version_t)) # replicate 16 0 # [take 300 demo_update] @ [drop 300 demo_update])
      demo_fsm demo_static demo_disk =
      Some (if demo_hash demo_firmware = vm_digest (vendor (demo_manifest 4 demo_firmware)) then PULL_SUCCESS
            else VERIFICATION_FAILED_ERROR, ctx', fs', w') \<and>
    fsm_state ctx' = (if demo_hash demo_firmware = vm_digest (vendor (demo_manifest 4 demo_firmware)) then STATE_REBOOT else STATE_IDLE) \<and>
    fsm_id ctx' = slot_id s \<and>
    posix_content (slot_id s) w' = manifest_bytes (demo_manifest 4 demo_firmware) @ demo_firmware @
      drop 1280 (posix_content (slot_id s) demo_disk) \<and>
    (\<forall>j\<in>posix_valid_ids. j \<noteq> slot_id s \<longrightarrow> posix_content j w' = posix_content j demo_disk)"
  by (rule posix_update_session [OF demo_tc.tinycrypt_sha_axioms demo_platform_def _ _ _ _ _ _ wf_demo_manifest _ _ _ _ _ _ _ _ _
      demo_disk_slots])
    (simp add: demo_fsm_simps demo_manifest_fields authentic_demo_manifest length_demo_firmware length_demo_update
      demo_update_def [symmetric] FSM_BUFFER_SIZE_def sizeof_manifest_def sizeof_receiver_msg_def; fail | code_simp)+

end
