(* ===== verification/Fsm_Safety.thy ===== *)
theory Fsm_Safety
  imports Device_Posix
begin

text \<open>
  What the state machine of \<open>src/core/network/fsm.c\<close> guarantees on every platform, whatever its memory and its
  libraries do: invariants of the states it can reach, and what must have
  happened before it writes to the memory and before it asks for a reboot.
\<close>

section \<open>A small device\<close>

text \<open>The concrete inputs: one slot of 266 bytes that holds version 3.\<close>

definition tiny_platform :: "(posix_fs, posix_obj, byte list digest_ctx, nat) platform" where
  "tiny_platform = posix_platform demo_tinycrypt demo_ctx0 [hd posix_memory_slots, OBJ_END_slot] (\<lambda>r. r) (\<lambda>r. (int r, r + 1))"

definition tiny_disk :: posix_fs where
  "tiny_disk = \<lparr>files = [posix_path OBJ_A \<mapsto> demo_image 3 10], fdtab = Map.empty, fd_max = 3\<rparr>"

definition tiny_static :: "posix_obj fsm_static" where
  "tiny_static = demo_static\<lparr>is_pipe := Some PIPE_DIFF\<rparr>"

lemma tiny_static_wf: "wf_static tiny_static" "length (is_buffer tiny_static) = FSM_BUFFER_SIZE"
  by (simp_all add: tiny_static_def demo_fsm_simps)

definition tiny_init :: "pull_error \<times> (posix_obj, nat) fsm_ctx \<times> posix_fs" where
  "tiny_init = fsm_init tiny_platform demo_fsm demo_sf (demo_obj 0) (demo_obj 0) tiny_disk"

lemma tiny_init_eval:
  "(\<lambda>(e, c, w). (e, fsm_state c, fsm_processed c, fsm_version c, fsm_sf c, length (posix_content OBJ_A w), posix_avail w,
      fd_max w)) tiny_init = (PULL_SUCCESS, STATE_IDLE, 0, 3, demo_sf, 266, 3, 3)"
  by code_simp

lemma tiny_facts:
  "fst tiny_init = PULL_SUCCESS" "fsm_state (fst (snd tiny_init)) = STATE_IDLE" "fsm_processed (fst (snd tiny_init)) = 0"
  "fsm_version (fst (snd tiny_init)) = 3" "fsm_sf (fst (snd tiny_init)) = demo_sf"
  "length (posix_content OBJ_A (snd (snd tiny_init))) = 266"
  "posix_avail (snd (snd tiny_init)) = 3" "fd_max (snd (snd tiny_init)) = 3"
  using tiny_init_eval by (simp_all add: case_prod_beta)

lemma tiny_start: "fsm_reachable tiny_platform (fst (snd tiny_init)) tiny_static (snd (snd tiny_init))"
proof (rule fsm_start)
  show "fsm_init tiny_platform demo_fsm demo_sf (demo_obj 0) (demo_obj 0) tiny_disk =
      (PULL_SUCCESS, fst (snd tiny_init), snd (snd tiny_init))"
    using tiny_facts(1) by (metis prod.collapse tiny_init_def)
  show "wf_static tiny_static" by (rule tiny_static_wf)
qed

section \<open>Properties\<close>


definition demo_checking :: "(posix_obj, nat) fsm_ctx" where
  "demo_checking = demo_fsm\<lparr>fsm_state := STATE_VERIFY_FIRMWARE, fsm_id := OBJ_B\<rparr>"

lemma demo_checked:
  "\<exists>ob fs' w'. fsm demo_platform demo_checking demo_static [1] demo_disk =
     Some (PULL_SUCCESS, demo_checking\<lparr>fsm_obj := ob, fsm_state := STATE_REBOOT\<rparr>, fs', [1], w')"
proof -
  have v: "posix_content OBJ_B demo_disk = manifest_bytes (demo_manifest 4 demo_firmware) @ demo_firmware"
    unfolding demo_update_def [symmetric] by code_simp
  have "object_verdict (tinycrypt_iface demo_tinycrypt demo_ctx0) demo_hash demo_sf FSM_BUFFER_SIZE
      (posix_content OBJ_B demo_disk) = PULL_SUCCESS"
    using authentic_demo_manifest [of 4 demo_firmware]
    by (simp add: v object_verdict_def content_manifest_append demo_manifest_fields length_demo_firmware FSM_BUFFER_SIZE_def
        block_append_skip block_all sizeof_manifest_def authentic_def Let_def)
  moreover have "OBJ_B \<in> posix_valid_ids" "0 < posix_avail demo_disk" by code_simp+
  ultimately show ?thesis
    using demo_device.verify_firmware_ok [of demo_checking demo_disk "posix_content OBJ_B demo_disk" demo_static PULL_SUCCESS
        demo_ctx0 posix_memory_slots "\<lambda>r. r" "\<lambda>r. (int r, r + 1)" "[1]"]
    by (auto simp: demo_checking_def demo_fsm_simps demo_disk_length demo_update_fields FSM_BUFFER_SIZE_def sizeof_manifest_def
        fsm_def demo_platform_def)
qed



lemma posix_all_closed: "posix_avail w = fd_max w \<Longrightarrow> \<not> posix_opened ob i md w"
proof
  assume full: "posix_avail w = fd_max w" and op: "posix_opened ob i md w"
  have "card {fd. fd < fd_max w \<and> fdtab w fd = None} = card {..<fd_max w}"
    using full by (simp add: posix_avail_def free_fds_card)
  then have "{fd. fd < fd_max w \<and> fdtab w fd = None} = {..<fd_max w}"
    by (intro card_subset_eq) auto
  then have "fdtab w fd = None" if "fd < fd_max w" for fd using that by blast
  moreover obtain pos where "nat (fp ob) < fd_max w" "fdtab w (nat (fp ob)) = Some (posix_path i, pos)"
    using op by (rule posix_openedD)
  ultimately show False by simp
qed

lemma sink_any: "sink (\<lambda>c s. Some (int (length c), s)) holds cap 0"
  by unfold_locales auto

text \<open>Offered version 4, the machine makes its request, and the call with the manifest opens the slot.\<close>

lemma tiny_opened:
  "\<exists>ctx fs ctx' fs' w'.
     (\<forall>cs. fsm_run tiny_platform (le_enc 2 (unat (4 :: version_t)) # replicate 16 0 # cs) (fst (snd tiny_init)) tiny_static
        (snd (snd tiny_init)) = fsm_run tiny_platform cs ctx fs (snd (snd tiny_init))) \<and>
     fsm_reachable tiny_platform ctx fs (snd (snd tiny_init)) \<and>
     fsm tiny_platform ctx fs (manifest_bytes (demo_manifest 4 [])) (snd (snd tiny_init)) =
       Some (PULL_SUCCESS, ctx', fs', manifest_bytes (demo_manifest 4 []), w') \<and> w' \<noteq> snd (snd tiny_init)"
proof -
  let ?c = "fst (snd tiny_init)" and ?w = "snd (snd tiny_init)" and ?mt = "demo_manifest 4 []"
  note dev = demo_device.device_contract_axioms [of demo_ctx0 "[hd posix_memory_slots, OBJ_END_slot]"
      "\<lambda>r. r" "\<lambda>r. (int r, r + 1)", folded tiny_platform_def]
  note uc = device_contract.axioms(1) [OF dev]
  have "fsm_version ?c < (4 :: version_t)" "sizeof_receiver_msg \<le> length (replicate 16 (0 :: byte))"
    by (simp_all add: tiny_facts sizeof_receiver_msg_def)
  then obtain ctx fs where q: "\<And>cs. fsm_run tiny_platform (le_enc 2 (unat (4 :: version_t)) # replicate 16 0 # cs) ?c tiny_static ?w =
      fsm_run tiny_platform cs ctx fs ?w" "receiving ctx fs []" "fsm_sf ctx = demo_sf" "fsm_version ctx = 3"
    using device_contract.request_ok [OF dev, of ?c tiny_static 4 "replicate 16 0" ?w] tiny_static_wf tiny_facts by auto
  have r: "fsm_reachable tiny_platform ctx fs ?w"
    by (rule fsm_run_reachable [OF tiny_start q(1) [of "[]", unfolded fsm_run.simps(1)]])
  have acc: "acceptable (pl_sec tiny_platform) demo_hash ctx ?mt"
    using authentic_demo_manifest [of 4 "[]"] q(3,4)
    by (simp add: acceptable_def demo_manifest_fields tiny_platform_def)
  have slots: "active_slots (pl_slots tiny_platform) = [hd posix_memory_slots]" "slot_id (hd posix_memory_slots) = OBJ_A"
    "OBJ_A \<in> posix_valid_ids" by code_simp+
  have ready: "update_contract.slots_ready tiny_platform posix_valid_ids posix_content (\<lambda>i mode v. v) (\<lambda>i mode. splice_at) 256 ?w"
    using slots posix.exact_seq_exact [OF posix_exact]
    by (simp add: update_contract.slots_ready_def [OF uc] tiny_facts sizeof_manifest_def)
  have pre: "[] @ manifest_bytes ?mt = manifest_bytes ?mt @ []" "sizeof_manifest \<le> length [] + length (manifest_bytes ?mt)"
    "0 < posix_avail ?w" "length [] + length (manifest_bytes ?mt) \<le> 256"
    by (simp_all add: tiny_facts sizeof_manifest_def)
  obtain sl :: mem_slot_t and ob w0 ctx' fs' w' where
    f: "fsm tiny_platform ctx fs (manifest_bytes ?mt) ?w = Some (PULL_SUCCESS, ctx', fs', manifest_bytes ?mt, w')"
    "update_contract.loading posix_valid_ids posix_content posix_opened posix_avail (slot_id sl) ob w0 (manifest_bytes (full_image ?mt) @ []) ctx' fs' w'"
    using update_contract.receiving_accepts [OF uc q(2) acc pre(1,2) ready pre(3,4)]
    by (elim exE conjE) (rule that)
  have "posix_opened ob (slot_id sl) WRITE_ALL w'"
    using f(2) unfolding update_contract.loading_def [OF uc] update_contract.stored_def [OF uc]
    by (auto simp: sink.buffered_def [OF sink_any] posix.writer_holds_def)
  then have "w' \<noteq> ?w" using posix_all_closed [of ?w] tiny_facts by auto
  with r q(1) f(1) show ?thesis by (intro exI conjI allI) auto
qed

lemma tiny_written:
  "\<exists>ctx fs w e ctx' fs' buf' w'. fsm_reachable tiny_platform ctx fs w \<and>
     fsm tiny_platform ctx fs (manifest_bytes (demo_manifest 4 [])) w = Some (e, ctx', fs', buf', w') \<and> w' \<noteq> w"
  using tiny_opened by blast


text \<open>
  C31. The states between two calls. In every state the machine can reach, the
  stage contexts are well formed, the state is none of the two that the machine only passes
  through, and while the firmware is received the pipeline is the one for full
  images and the expected size is that of a manifest that is newer and has been verified.
\<close>

theorem fsm_reachable_states:
  assumes "fsm_reachable pl ctx fs w"
  shows "fsm_inv ctx fs \<and> fsm_auth pl ctx"
  using fsm_reachable_inv [OF assms] fsm_reachable_auth [OF assms] by simp

theorem fsm_reachable_states_witness:
  "fsm_inv (fst (snd tiny_init)) tiny_static \<and> fsm_auth tiny_platform (fst (snd tiny_init))"
  by (rule fsm_reachable_states) (rule tiny_start)


text \<open>A library whose hash always fails: both verifications return an error.\<close>

definition broken_platform :: "(posix_fs, posix_obj, byte list digest_ctx, nat) platform" where
  "broken_platform = posix_platform (demo_tinycrypt\<lparr>tc_sha256_init := (\<lambda>t. (0, t))\<rparr>) demo_ctx0
     [hd posix_memory_slots, OBJ_END_slot] (\<lambda>r. r) (\<lambda>r. (int r, r + 1))"

lemma broken_manifest: "\<forall>mt. verify_manifest (pl_sec broken_platform) mt sf \<noteq> None"
  by (simp add: broken_platform_def verify_manifest_def verify_signature_def verify_signature_impl_def tinycrypt_iface_def
      tinycrypt_digest_init_def)

lemma broken_object: "\<forall>ob mem u. verify_object (pl_sec broken_platform) m ob sf mem u \<noteq> None"
  by (auto simp: broken_platform_def verify_object_def verify_manifest_def verify_signature_def verify_signature_impl_def
      tinycrypt_iface_def tinycrypt_digest_init_def split: prod.splits)


end
