(* ===== verification/Bootloader_Agent.thy ===== *)
theory Bootloader_Agent
  imports Verifier
begin

unbundle bit_operations_syntax

text \<open>
  The bootloader agent (\<open>src/agents/bootloader_agent.c\<close>, \<open>include/libpull_agents/bootloader_agent.h\<close>,
  \<open>bootloader_ctx.h\<close>, \<open>coroutines.h\<close>) and its runners (\<open>build/contiki-ng/bootloader/bootloader.c\<close>,
  \<open>build/riot/bootloader/bootloader.c\<close>, \<open>build/zephyr/bootloader/src/bootloader.c\<close>).

  The macros of \<open>coroutines.h\<close> cut the agent into segments: with \<open>ENABLE_COROUTINES\<close> each
  \<open>PULL_CONTINUE\<close> and \<open>PULL_RETURN\<close> stores its event, returns it, and the next call goes on after it. The
  events are unique, as \<open>case\<close> labels must be, so a segment is named by the event before it: \<open>bl_segment\<close>.
  A coroutine call runs one segment. Without coroutines \<open>PULL_CONTINUE\<close> is empty and \<open>PULL_RETURN\<close> returns, so a call
  runs segments up to the first event of a \<open>PULL_RETURN\<close>.

  \<open>FACTORY_IMAGE\<close> is not defined in any build, so its code is not there. The static variables are the
  fields of \<open>bl_state\<close>; \<open>None\<close> is a verification or a swap that does not return.
\<close>

section \<open>Events\<close>

datatype bl_event = EVENT_INIT | EVENT_CONTINUE_START | EVENT_BOOT | EVENT_VALIDATE_BOOTABLE_START
  | EVENT_VALIDATE_BOOTABLE_STOP | EVENT_BOOTSTRAP | EVENT_FIRST_BOOT | EVENT_GET_NEWEST_FIRMWARE
  | EVENT_GET_NEWEST_NON_BOOTABLE | EVENT_STORE_BOOTLAODER_CTX | EVENT_UPGRADE | EVENT_UPGRADE_COPY_START
  | EVENT_UPGRADE_COPY_STOP | EVENT_UPGRADE_SUCCESS | EVENT_VALIDATE_NON_BOOTABLE
  | EVENT_VALIDATE_NON_BOOTABLE_START | EVENT_VALIDATE_NON_BOOTABLE_STOP | EVENT_CONTINUE_STOP
  | EVENT_FAILURE_START | EVENT_VALIDATE_BOOTABLE_FAILURE | EVENT_BOOTSTRAP_FAILURE | EVENT_BOOTSTRAP_FAILURE_2
  | EVENT_FATAL_FAILURE | EVENT_FIRST_BOOT_FAILURE | EVENT_GET_NEWEST_FIRMWARE_FAILURE
  | EVENT_GET_NEWEST_FIRMWARE_FAILURE_2 | EVENT_GET_NEWEST_NON_BOOTABLE_FAILURE
  | EVENT_STORE_BOOTLAODER_CTX_FAILURE | EVENT_UPGRADE_COPY_FAILURE | EVENT_UPGRADE_FAILURE
  | EVENT_UPGRADE_FAILURE_2 | EVENT_UPGRADE_FAILURE_3 | EVENT_UPGRADE_FAILURE_4
  | EVENT_VALIDATE_NON_BOOTABLE_INVALID | EVENT_VALIDATE_NON_BOOTABLE_FAILURE | EVENT_FAILURE_STOP | EVENT_FINISH

text \<open>The values of the enumeration.\<close>

primrec bl_event_code :: "bl_event \<Rightarrow> nat" where
  "bl_event_code EVENT_INIT = 0" | "bl_event_code EVENT_CONTINUE_START = 1" | "bl_event_code EVENT_BOOT = 2"
| "bl_event_code EVENT_VALIDATE_BOOTABLE_START = 3" | "bl_event_code EVENT_VALIDATE_BOOTABLE_STOP = 4"
| "bl_event_code EVENT_BOOTSTRAP = 5" | "bl_event_code EVENT_FIRST_BOOT = 6"
| "bl_event_code EVENT_GET_NEWEST_FIRMWARE = 7" | "bl_event_code EVENT_GET_NEWEST_NON_BOOTABLE = 8"
| "bl_event_code EVENT_STORE_BOOTLAODER_CTX = 9" | "bl_event_code EVENT_UPGRADE = 10"
| "bl_event_code EVENT_UPGRADE_COPY_START = 11" | "bl_event_code EVENT_UPGRADE_COPY_STOP = 12"
| "bl_event_code EVENT_UPGRADE_SUCCESS = 13" | "bl_event_code EVENT_VALIDATE_NON_BOOTABLE = 14"
| "bl_event_code EVENT_VALIDATE_NON_BOOTABLE_START = 15" | "bl_event_code EVENT_VALIDATE_NON_BOOTABLE_STOP = 16"
| "bl_event_code EVENT_CONTINUE_STOP = 17" | "bl_event_code EVENT_FAILURE_START = 18"
| "bl_event_code EVENT_VALIDATE_BOOTABLE_FAILURE = 19" | "bl_event_code EVENT_BOOTSTRAP_FAILURE = 20"
| "bl_event_code EVENT_BOOTSTRAP_FAILURE_2 = 21" | "bl_event_code EVENT_FATAL_FAILURE = 22"
| "bl_event_code EVENT_FIRST_BOOT_FAILURE = 23" | "bl_event_code EVENT_GET_NEWEST_FIRMWARE_FAILURE = 24"
| "bl_event_code EVENT_GET_NEWEST_FIRMWARE_FAILURE_2 = 25" | "bl_event_code EVENT_GET_NEWEST_NON_BOOTABLE_FAILURE = 26"
| "bl_event_code EVENT_STORE_BOOTLAODER_CTX_FAILURE = 27" | "bl_event_code EVENT_UPGRADE_COPY_FAILURE = 28"
| "bl_event_code EVENT_UPGRADE_FAILURE = 29" | "bl_event_code EVENT_UPGRADE_FAILURE_2 = 30"
| "bl_event_code EVENT_UPGRADE_FAILURE_3 = 31" | "bl_event_code EVENT_UPGRADE_FAILURE_4 = 32"
| "bl_event_code EVENT_VALIDATE_NON_BOOTABLE_INVALID = 33" | "bl_event_code EVENT_VALIDATE_NON_BOOTABLE_FAILURE = 34"
| "bl_event_code EVENT_FAILURE_STOP = 35" | "bl_event_code EVENT_FINISH = 36"

definition IS_CONTINUE :: "bl_event \<Rightarrow> bool" where
  "IS_CONTINUE ev \<longleftrightarrow> bl_event_code EVENT_CONTINUE_START < bl_event_code ev \<and>
     bl_event_code ev < bl_event_code EVENT_CONTINUE_STOP"

definition IS_FAILURE :: "bl_event \<Rightarrow> bool" where
  "IS_FAILURE ev \<longleftrightarrow> bl_event_code EVENT_FAILURE_START < bl_event_code ev \<and>
     bl_event_code ev < bl_event_code EVENT_FAILURE_STOP"

text \<open>The events of a \<open>PULL_CONTINUE\<close>; all others that the agent produces come from a \<open>PULL_RETURN\<close>.\<close>

definition pull_continue :: "bl_event \<Rightarrow> bool" where
  "pull_continue ev \<longleftrightarrow> ev \<in> {EVENT_GET_NEWEST_FIRMWARE, EVENT_BOOTSTRAP, EVENT_FIRST_BOOT, EVENT_STORE_BOOTLAODER_CTX,
     EVENT_GET_NEWEST_NON_BOOTABLE, EVENT_VALIDATE_NON_BOOTABLE, EVENT_VALIDATE_NON_BOOTABLE_START,
     EVENT_VALIDATE_NON_BOOTABLE_STOP, EVENT_VALIDATE_NON_BOOTABLE_INVALID, EVENT_UPGRADE, EVENT_UPGRADE_COPY_START,
     EVENT_UPGRADE_COPY_STOP, EVENT_UPGRADE_SUCCESS, EVENT_VALIDATE_BOOTABLE_START, EVENT_VALIDATE_BOOTABLE_STOP}"

section \<open>The bootloader context\<close>

record bootloader_ctx =
  vendor_key :: "byte list"
  ctx_buffer :: "byte list"
  startup_flags :: byte

definition FIRST_BOOT :: byte where "FIRST_BOOT = 1"

definition sizeof_bootloader_ctx :: nat where "sizeof_bootloader_ctx = 128"

definition bootloader_ctx_bytes :: "bootloader_ctx \<Rightarrow> byte list" where
  "bootloader_ctx_bytes c = vendor_key c @ ctx_buffer c @ [startup_flags c]"

definition bootloader_ctx_of_bytes :: "byte list \<Rightarrow> bootloader_ctx" where
  "bootloader_ctx_of_bytes bs = \<lparr>vendor_key = take 64 bs, ctx_buffer = block 64 63 bs, startup_flags = bs ! 127\<rparr>"

definition wf_ctx :: "bootloader_ctx \<Rightarrow> bool" where
  "wf_ctx c \<longleftrightarrow> length (vendor_key c) = 64 \<and> length (ctx_buffer c) = 63"

lemma length_bootloader_ctx_bytes [simp]: "wf_ctx c \<Longrightarrow> length (bootloader_ctx_bytes c) = sizeof_bootloader_ctx"
  by (simp add: wf_ctx_def bootloader_ctx_bytes_def sizeof_bootloader_ctx_def)

lemma wf_ctx_of_bytes [simp]: "sizeof_bootloader_ctx \<le> length bs \<Longrightarrow> wf_ctx (bootloader_ctx_of_bytes bs)"
  by (simp add: wf_ctx_def bootloader_ctx_of_bytes_def sizeof_bootloader_ctx_def)

lemma ctx_of_bytes_bytes [simp]: "wf_ctx c \<Longrightarrow> bootloader_ctx_of_bytes (bootloader_ctx_bytes c @ bs) = c"
  by (simp add: wf_ctx_def bootloader_ctx_of_bytes_def bootloader_ctx_bytes_def block_def nth_append)

text \<open>
  The tool that writes the first context (\<open>bootloader_ctx.c\<close>): zeros with the flag \<open>FIRST_BOOT\<close>. The
  result of \<open>open\<close> and of \<open>write\<close> are arguments; the value is the exit status and what the file holds.
\<close>

definition first_ctx :: bootloader_ctx where
  "first_ctx = \<lparr>vendor_key = replicate 64 0, ctx_buffer = replicate 63 0, startup_flags = FIRST_BOOT\<rparr>"

definition bootloader_ctx_main :: "nat \<Rightarrow> bool \<Rightarrow> nat \<Rightarrow> int \<times> byte list option" where
  "bootloader_ctx_main argc open_ok written =
     (if argc \<noteq> 2 then (1, None)
      else if \<not> open_ok then (1, None)
      else (if written \<noteq> sizeof_bootloader_ctx then 1 else 0, Some (take written (bootloader_ctx_bytes first_ctx))))"

section \<open>State and segments\<close>

record bootloader_agent_config =
  bootloader_ctx_id :: mem_id_t
  recovery_id :: mem_id_t
  swap_id :: mem_id_t
  swap_size :: nat
  safestore :: safestore_t

record ('w, 'o) bl_state =
  bl_err :: pull_error
  bl_obj_t :: 'o
  bl_bctx :: bootloader_ctx
  bl_version_bootable :: version_t
  bl_version_non_bootable :: version_t
  bl_bootloader_object :: 'o
  bl_source_slot :: 'o
  bl_destination_slot :: 'o
  bl_newest_bootable :: 'o
  bl_swap_slot :: 'o
  bl_id_newest_non_bootable :: mem_id_t
  bl_id_newest_bootable :: mem_id_t
  bl_id_oldest_bootable :: mem_id_t
  bl_boot_id :: mem_id_t
  bl_i :: nat
  bl_buffer :: "byte list"
  bl_already_validated :: bool
  bl_cfg_buffer :: "byte list"
  bl_world :: 'w

text \<open>
  \<open>bootloader_agent_set_buffer\<close> stores the buffer of the caller, whose content is part of the state here.
\<close>

definition bootloader_agent_set_buffer :: "byte list \<Rightarrow> ('w, 'o) bl_state \<Rightarrow> ('w, 'o) bl_state" where
  "bootloader_agent_set_buffer buf s = s\<lparr>bl_cfg_buffer := buf\<rparr>"

definition BL_BUFFER_SIZE :: nat where "BL_BUFFER_SIZE = 1024"

text \<open>What \<open>event_data\<close> points to.\<close>

datatype bl_data = No_Data | Err_Data | Boot_Data

type_synonym ('w, 'o) bl_result = "bl_event \<times> bl_data \<times> ('w, 'o) bl_state"

definition restore_factory_image :: pull_error where
  "restore_factory_image = GENERIC_ERROR"

text \<open>The part after the last test of the agent, from which both branches reach the end.\<close>

definition bl_check_validated :: "('w, 'o) bl_state \<Rightarrow> ('w, 'o) bl_result" where
  "bl_check_validated s = (if \<not> bl_already_validated s then (EVENT_VALIDATE_BOOTABLE_START, No_Data, s)
     else (EVENT_BOOT, Boot_Data, s))"

definition bl_open_newest :: "('w, 'o) mem_iface \<Rightarrow> ('w, 'o) bl_state \<Rightarrow> ('w, 'o) bl_result" where
  "bl_open_newest m s = (case memory_open m (bl_newest_bootable s) (bl_id_newest_bootable s) READ_ONLY (bl_world s) of
     (err, obj, w) \<Rightarrow> let s = s\<lparr>bl_err := err, bl_newest_bootable := obj, bl_world := w\<rparr> in
       if err \<noteq> PULL_SUCCESS then (EVENT_GET_NEWEST_FIRMWARE_FAILURE_2, Err_Data, s) else (EVENT_BOOTSTRAP, No_Data, s))"

definition bl_get_newest :: "('w, 'o) mem_iface \<Rightarrow> mem_slot_t list \<Rightarrow> ('w, 'o) bl_state \<Rightarrow> ('w, 'o) bl_result" where
  "bl_get_newest m slots s = (case get_newest_firmware m slots (bl_id_newest_bootable s) (bl_version_bootable s) (bl_obj_t s)
       True (bl_world s) of (err, i, v, obj, w) \<Rightarrow>
     let s = s\<lparr>bl_err := err, bl_id_newest_bootable := i, bl_version_bootable := v, bl_obj_t := obj, bl_world := w\<rparr> in
     if err \<noteq> PULL_SUCCESS then (EVENT_GET_NEWEST_FIRMWARE_FAILURE, Err_Data, s) else bl_open_newest m s)"

definition bl_close_ctx :: "('w, 'o) mem_iface \<Rightarrow> ('w, 'o) bl_state \<Rightarrow> ('w, 'o) bl_result" where
  "bl_close_ctx m s = (EVENT_GET_NEWEST_NON_BOOTABLE, No_Data,
     s\<lparr>bl_world := snd (memory_close m (bl_bootloader_object s) (bl_world s))\<rparr>)"

definition bl_test_first_boot :: "('w, 'o) mem_iface \<Rightarrow> ('w, 'o) bl_state \<Rightarrow> ('w, 'o) bl_result" where
  "bl_test_first_boot m s = (if startup_flags (bl_bctx s) AND FIRST_BOOT = FIRST_BOOT then (EVENT_FIRST_BOOT, No_Data, s)
     else bl_close_ctx m s)"

definition bl_read_ctx :: "('w, 'o) mem_iface \<Rightarrow> ('w, 'o) bl_state \<Rightarrow> ('w, 'o) bl_result" where
  "bl_read_ctx m s = (case memory_read m (bl_bootloader_object s) (bootloader_ctx_bytes (bl_bctx s)) sizeof_bootloader_ctx 0
       (bl_world s) of (n, bs, w) \<Rightarrow>
     let s = s\<lparr>bl_bctx := bootloader_ctx_of_bytes bs, bl_world := w\<rparr> in
     if n \<noteq> sizeof_bootloader_ctx then (EVENT_BOOTSTRAP_FAILURE_2, Err_Data, s\<lparr>bl_err := MEMORY_READ_ERROR\<rparr>)
     else bl_test_first_boot m s)"

definition bl_bootstrap :: "('w, 'o) mem_iface \<Rightarrow> bootloader_agent_config \<Rightarrow> ('w, 'o) bl_state \<Rightarrow> ('w, 'o) bl_result" where
  "bl_bootstrap m cfg s = (case memory_open m (bl_bootloader_object s) (bootloader_ctx_id cfg) WRITE_CHUNK (bl_world s) of
     (err, obj, w) \<Rightarrow> let s = s\<lparr>bl_err := err, bl_bootloader_object := obj, bl_world := w\<rparr> in
       if err \<noteq> PULL_SUCCESS then (EVENT_BOOTSTRAP_FAILURE, Err_Data, s) else bl_read_ctx m s)"

text \<open>The loop that erases the slots, from the static index on.\<close>

fun bl_erase_loop :: "('w, 'o) mem_iface \<Rightarrow> mem_slot_t list \<Rightarrow> ('w, 'o) bl_state \<Rightarrow> ('w, 'o) bl_result" where
  "bl_erase_loop m [] s = (EVENT_STORE_BOOTLAODER_CTX, No_Data, s)"
| "bl_erase_loop m (sl # sls) s =
     (if slot_id sl = OBJ_END then (EVENT_STORE_BOOTLAODER_CTX, No_Data, s)
      else if slot_id sl \<noteq> bl_id_newest_bootable s
      then (case invalidate_object m (slot_id sl) (bl_obj_t s) (bl_world s) of (err, obj, w) \<Rightarrow>
        let s = s\<lparr>bl_err := err, bl_obj_t := obj, bl_world := w\<rparr> in
        if err \<noteq> PULL_SUCCESS then (EVENT_FIRST_BOOT_FAILURE, Err_Data, s)
        else bl_erase_loop m sls (s\<lparr>bl_i := bl_i s + 1\<rparr>))
      else bl_erase_loop m sls (s\<lparr>bl_i := bl_i s + 1\<rparr>))"

definition bl_erase_slots :: "('w, 'o) mem_iface \<Rightarrow> mem_slot_t list \<Rightarrow> nat \<Rightarrow> ('w, 'o) bl_state \<Rightarrow> ('w, 'o) bl_result" where
  "bl_erase_slots m slots i s = bl_erase_loop m (drop i slots) (s\<lparr>bl_i := i\<rparr>)"

definition bl_store_ctx :: "('w, 'o) mem_iface \<Rightarrow> ('w, 'o) bl_state \<Rightarrow> ('w, 'o) bl_result" where
  "bl_store_ctx m s = (let s = s\<lparr>bl_bctx := (bl_bctx s)\<lparr>startup_flags := 0\<rparr>\<rparr> in
     case memory_write m (bl_bootloader_object s) (bootloader_ctx_bytes (bl_bctx s)) sizeof_bootloader_ctx 0 (bl_world s) of
       (n, w) \<Rightarrow> let s = s\<lparr>bl_world := w\<rparr> in
         if n \<noteq> sizeof_bootloader_ctx then (EVENT_STORE_BOOTLAODER_CTX_FAILURE, Err_Data, s\<lparr>bl_err := MEMORY_WRITE_ERROR\<rparr>)
         else bl_close_ctx m s)"

definition bl_compare :: "('w, 'o) bl_state \<Rightarrow> ('w, 'o) bl_result" where
  "bl_compare s = (if bl_version_bootable s < bl_version_non_bootable s then (EVENT_VALIDATE_NON_BOOTABLE, No_Data, s)
     else bl_check_validated s)"

definition bl_get_newest_non_bootable ::
  "('w, 'o) mem_iface \<Rightarrow> mem_slot_t list \<Rightarrow> ('w, 'o) bl_state \<Rightarrow> ('w, 'o) bl_result" where
  "bl_get_newest_non_bootable m slots s = (case get_newest_firmware m slots (bl_id_newest_non_bootable s)
       (bl_version_non_bootable s) (bl_obj_t s) False (bl_world s) of (err, i, v, obj, w) \<Rightarrow>
     let s = s\<lparr>bl_err := err, bl_id_newest_non_bootable := i, bl_version_non_bootable := v, bl_obj_t := obj, bl_world := w\<rparr> in
     if err \<noteq> PULL_SUCCESS then (EVENT_GET_NEWEST_NON_BOOTABLE_FAILURE, Err_Data, s) else bl_compare s)"

definition bl_open_non_bootable :: "('w, 'o) mem_iface \<Rightarrow> ('w, 'o) bl_state \<Rightarrow> ('w, 'o) bl_result" where
  "bl_open_non_bootable m s = (case memory_open m (bl_source_slot s) (bl_id_newest_non_bootable s) READ_ONLY (bl_world s) of
     (err, obj, w) \<Rightarrow> let s = s\<lparr>bl_err := err, bl_source_slot := obj, bl_world := w\<rparr> in
       if err \<noteq> PULL_SUCCESS then (EVENT_VALIDATE_NON_BOOTABLE_FAILURE, Err_Data, s)
       else (EVENT_VALIDATE_NON_BOOTABLE_START, No_Data, s))"

definition bl_verify :: "('w, 'o) mem_iface \<Rightarrow> 'd sec_iface \<Rightarrow> bootloader_agent_config \<Rightarrow> 'o \<Rightarrow> bl_event \<Rightarrow>
  ('w, 'o) bl_state \<Rightarrow> ('w, 'o) bl_result option" where
  "bl_verify m sec cfg obj ev s = map_option (\<lambda>(err, buf, w). (ev, No_Data, s\<lparr>bl_err := err, bl_cfg_buffer := buf, bl_world := w\<rparr>))
     (verify_object sec m obj (safestore cfg) (bl_cfg_buffer s) (bl_world s))"

definition bl_close_source :: "('w, 'o) mem_iface \<Rightarrow> ('w, 'o) bl_state \<Rightarrow> ('w, 'o) bl_result" where
  "bl_close_source m s = (EVENT_UPGRADE, No_Data, s\<lparr>bl_world := snd (memory_close m (bl_source_slot s) (bl_world s))\<rparr>)"

definition bl_open_swap :: "('w, 'o) mem_iface \<Rightarrow> bootloader_agent_config \<Rightarrow> ('w, 'o) bl_state \<Rightarrow> ('w, 'o) bl_result" where
  "bl_open_swap m cfg s = (case memory_open m (bl_swap_slot s) (swap_id cfg) SEQUENTIAL_REWRITE (bl_world s) of
     (err, obj, w) \<Rightarrow> let s = s\<lparr>bl_err := err, bl_swap_slot := obj, bl_world := w\<rparr> in
       if err \<noteq> PULL_SUCCESS then (EVENT_UPGRADE_FAILURE_4, Err_Data, s) else (EVENT_UPGRADE_COPY_START, No_Data, s))"

definition bl_open_source :: "('w, 'o) mem_iface \<Rightarrow> bootloader_agent_config \<Rightarrow> ('w, 'o) bl_state \<Rightarrow> ('w, 'o) bl_result" where
  "bl_open_source m cfg s = (case memory_open m (bl_source_slot s) (bl_id_newest_non_bootable s) SEQUENTIAL_REWRITE (bl_world s) of
     (err, obj, w) \<Rightarrow> let s = s\<lparr>bl_err := err, bl_source_slot := obj, bl_world := w\<rparr> in
       if err \<noteq> PULL_SUCCESS then (EVENT_UPGRADE_FAILURE_3, Err_Data, s) else bl_open_swap m cfg s)"

definition bl_open_destination :: "('w, 'o) mem_iface \<Rightarrow> bootloader_agent_config \<Rightarrow> ('w, 'o) bl_state \<Rightarrow> ('w, 'o) bl_result" where
  "bl_open_destination m cfg s = (case memory_open m (bl_destination_slot s) (bl_id_oldest_bootable s) SEQUENTIAL_REWRITE
       (bl_world s) of (err, obj, w) \<Rightarrow> let s = s\<lparr>bl_err := err, bl_destination_slot := obj, bl_world := w\<rparr> in
       if err \<noteq> PULL_SUCCESS then (EVENT_UPGRADE_FAILURE_2, Err_Data, s) else bl_open_source m cfg s)"

definition bl_upgrade :: "('w, 'o) mem_iface \<Rightarrow> mem_slot_t list \<Rightarrow> bootloader_agent_config \<Rightarrow> ('w, 'o) bl_state \<Rightarrow>
  ('w, 'o) bl_result" where
  "bl_upgrade m slots cfg s = (case get_oldest_firmware m slots (bl_id_oldest_bootable s) (bl_version_bootable s) (bl_obj_t s)
       True (bl_world s) of (err, i, v, obj, w) \<Rightarrow>
     let s = s\<lparr>bl_err := err, bl_id_oldest_bootable := i, bl_version_bootable := v, bl_obj_t := obj, bl_world := w\<rparr> in
     if err \<noteq> PULL_SUCCESS then (EVENT_UPGRADE_FAILURE, Err_Data, s) else bl_open_destination m cfg s)"

definition bl_swap :: "('w, 'o) mem_iface \<Rightarrow> bootloader_agent_config \<Rightarrow> ('w, 'o) bl_state \<Rightarrow> ('w, 'o) bl_result option" where
  "bl_swap m cfg s = map_option (\<lambda>(err, buf, w). (EVENT_UPGRADE_COPY_STOP, No_Data,
       s\<lparr>bl_err := err, bl_buffer := buf, bl_world := w\<rparr>))
     (swap_slots m (bl_source_slot s) (bl_destination_slot s) (bl_swap_slot s) (swap_size cfg) (bl_buffer s) (bl_world s))"

definition bl_upgraded :: "('w, 'o) mem_iface \<Rightarrow> ('w, 'o) bl_state \<Rightarrow> ('w, 'o) bl_result" where
  "bl_upgraded m s = (EVENT_UPGRADE_SUCCESS, No_Data,
     s\<lparr>bl_world := snd (memory_close m (bl_destination_slot s) (bl_world s))\<rparr>)"

text \<open>The code after the event \<open>ev\<close>, up to the next event.\<close>

definition bl_segment :: "('w, 'o) mem_iface \<Rightarrow> 'd sec_iface \<Rightarrow> mem_slot_t list \<Rightarrow> bootloader_agent_config \<Rightarrow> bl_event \<Rightarrow>
  ('w, 'o) bl_state \<Rightarrow> ('w, 'o) bl_result option" where
  "bl_segment m sec slots cfg ev s = (case ev of
     EVENT_GET_NEWEST_FIRMWARE \<Rightarrow> Some (bl_get_newest m slots s)
   | EVENT_GET_NEWEST_FIRMWARE_FAILURE \<Rightarrow> Some (bl_open_newest m s)
   | EVENT_GET_NEWEST_FIRMWARE_FAILURE_2 \<Rightarrow> Some (EVENT_BOOTSTRAP, No_Data, s)
   | EVENT_BOOTSTRAP \<Rightarrow> Some (bl_bootstrap m cfg s)
   | EVENT_BOOTSTRAP_FAILURE \<Rightarrow> Some (bl_read_ctx m s)
   | EVENT_BOOTSTRAP_FAILURE_2 \<Rightarrow> Some (bl_test_first_boot m s)
   | EVENT_FIRST_BOOT \<Rightarrow> Some (bl_erase_slots m slots 0 s)
   | EVENT_FIRST_BOOT_FAILURE \<Rightarrow> Some (bl_erase_slots m slots (bl_i s + 1) s)
   | EVENT_STORE_BOOTLAODER_CTX \<Rightarrow> Some (bl_store_ctx m s)
   | EVENT_STORE_BOOTLAODER_CTX_FAILURE \<Rightarrow> Some (bl_close_ctx m s)
   | EVENT_GET_NEWEST_NON_BOOTABLE \<Rightarrow> Some (bl_get_newest_non_bootable m slots s)
   | EVENT_GET_NEWEST_NON_BOOTABLE_FAILURE \<Rightarrow> Some (bl_compare s)
   | EVENT_VALIDATE_NON_BOOTABLE \<Rightarrow> Some (bl_open_non_bootable m s)
   | EVENT_VALIDATE_NON_BOOTABLE_FAILURE \<Rightarrow> Some (EVENT_VALIDATE_NON_BOOTABLE_START, No_Data, s)
   | EVENT_VALIDATE_NON_BOOTABLE_START \<Rightarrow> bl_verify m sec cfg (bl_source_slot s) EVENT_VALIDATE_NON_BOOTABLE_STOP s
   | EVENT_VALIDATE_NON_BOOTABLE_STOP \<Rightarrow> Some (if bl_err s \<noteq> PULL_SUCCESS
       then (EVENT_VALIDATE_NON_BOOTABLE_INVALID, Err_Data, s) else bl_close_source m s)
   | EVENT_VALIDATE_NON_BOOTABLE_INVALID \<Rightarrow> Some (bl_close_source m s)
   | EVENT_UPGRADE \<Rightarrow> Some (bl_upgrade m slots cfg s)
   | EVENT_UPGRADE_FAILURE \<Rightarrow> Some (bl_open_destination m cfg s)
   | EVENT_UPGRADE_FAILURE_2 \<Rightarrow> Some (bl_open_source m cfg s)
   | EVENT_UPGRADE_FAILURE_3 \<Rightarrow> Some (bl_open_swap m cfg s)
   | EVENT_UPGRADE_FAILURE_4 \<Rightarrow> Some (EVENT_UPGRADE_COPY_START, No_Data, s)
   | EVENT_UPGRADE_COPY_START \<Rightarrow> bl_swap m cfg s
   | EVENT_UPGRADE_COPY_STOP \<Rightarrow> Some (if bl_err s \<noteq> PULL_SUCCESS
       then (EVENT_UPGRADE_COPY_FAILURE, Err_Data, s) else bl_upgraded m s)
   | EVENT_UPGRADE_COPY_FAILURE \<Rightarrow> Some (bl_upgraded m s)
   | EVENT_UPGRADE_SUCCESS \<Rightarrow> Some (bl_check_validated (s\<lparr>bl_already_validated := True, bl_boot_id := bl_id_oldest_bootable s\<rparr>))
   | EVENT_VALIDATE_BOOTABLE_START \<Rightarrow> bl_verify m sec cfg (bl_newest_bootable s) EVENT_VALIDATE_BOOTABLE_STOP s
   | EVENT_VALIDATE_BOOTABLE_STOP \<Rightarrow> Some (if bl_err s = PULL_SUCCESS
       then (EVENT_BOOT, Boot_Data, s\<lparr>bl_boot_id := bl_id_newest_bootable s\<rparr>)
       else (EVENT_VALIDATE_BOOTABLE_FAILURE, Err_Data, s))
   | EVENT_VALIDATE_BOOTABLE_FAILURE \<Rightarrow> Some (EVENT_FATAL_FAILURE, No_Data, s)
   | EVENT_FATAL_FAILURE \<Rightarrow> Some (EVENT_BOOT, Boot_Data, s)
   | EVENT_BOOT \<Rightarrow> Some (EVENT_FINISH, No_Data, s)
   | EVENT_FINISH \<Rightarrow> Some (EVENT_FINISH, No_Data, s)
   | _ \<Rightarrow> Some (EVENT_GET_NEWEST_FIRMWARE, No_Data, s))"

section \<open>The two builds of the agent\<close>

text \<open>
  With coroutines the static \<open>current_event\<close> is an argument and a result; \<open>PULL_FINISH\<close> returns without storing
  an event.
\<close>

definition bl_coroutine :: "('w, 'o) mem_iface \<Rightarrow> 'd sec_iface \<Rightarrow> mem_slot_t list \<Rightarrow> bootloader_agent_config \<Rightarrow> bl_event \<Rightarrow>
  ('w, 'o) bl_state \<Rightarrow> (bl_event \<times> bl_event \<times> bl_data \<times> ('w, 'o) bl_state) option" where
  "bl_coroutine m sec slots cfg current_event s = map_option (\<lambda>(ev, d, s').
     (if ev = EVENT_FINISH then current_event else ev, ev, d, s')) (bl_segment m sec slots cfg current_event s)"

partial_function (option) bl_straight :: "('w, 'o) mem_iface \<Rightarrow> 'd sec_iface \<Rightarrow> mem_slot_t list \<Rightarrow> bootloader_agent_config \<Rightarrow>
  bl_event \<Rightarrow> ('w, 'o) bl_state \<Rightarrow> ('w, 'o) bl_result option" where
  "bl_straight m sec slots cfg ev s = Option.bind (bl_segment m sec slots cfg ev s) (\<lambda>(ev', d, s').
     if pull_continue ev' then bl_straight m sec slots cfg ev' s' else Some (ev', d, s'))"

declare bl_straight.simps [code]

definition bootloader_agent :: "('w, 'o) mem_iface \<Rightarrow> 'd sec_iface \<Rightarrow> mem_slot_t list \<Rightarrow> bootloader_agent_config \<Rightarrow>
  ('w, 'o) bl_state \<Rightarrow> ('w, 'o) bl_result option" where
  "bootloader_agent m sec slots cfg s = bl_straight m sec slots cfg EVENT_INIT s"

section \<open>The runners\<close>

text \<open>A runner ends by loading an object or by giving up; \<open>dog\<close> says whether the watchdog is running.\<close>

datatype boot_outcome = Load mem_id_t | Give_Up

definition watchdog_event :: "bl_event \<Rightarrow> bool \<Rightarrow> bool" where
  "watchdog_event ev dog =
     (if ev = EVENT_VALIDATE_NON_BOOTABLE_START then False
      else if ev = EVENT_VALIDATE_NON_BOOTABLE_STOP then True
      else if ev = EVENT_VALIDATE_BOOTABLE_START then False
      else if ev = EVENT_VALIDATE_BOOTABLE_STOP then True
      else if ev = EVENT_UPGRADE_COPY_START then False
      else if ev = EVENT_UPGRADE_COPY_STOP then True
      else dog)"

partial_function (option) contiki_loop :: "('w, 'o) mem_iface \<Rightarrow> 'd sec_iface \<Rightarrow> mem_slot_t list \<Rightarrow> bootloader_agent_config \<Rightarrow>
  bl_event \<Rightarrow> bool \<Rightarrow> ('w, 'o) bl_state \<Rightarrow> (boot_outcome \<times> bool \<times> ('w, 'o) bl_state) option" where
  "contiki_loop m sec slots cfg ev dog s = Option.bind (bl_coroutine m sec slots cfg ev s) (\<lambda>(cur, ev', d, s').
     if IS_FAILURE ev' then Some (Give_Up, dog, s')
     else if IS_CONTINUE ev' \<and> ev' = EVENT_BOOT then Some (Load (bl_boot_id s'), dog, s')
     else if IS_CONTINUE ev' then contiki_loop m sec slots cfg cur (watchdog_event ev' dog) s'
     else contiki_loop m sec slots cfg cur dog s')"

declare contiki_loop.simps [code]

definition contiki_bootloader :: "('w, 'o) mem_iface \<Rightarrow> 'd sec_iface \<Rightarrow> mem_slot_t list \<Rightarrow> bootloader_agent_config \<Rightarrow>
  byte list \<Rightarrow> bool \<Rightarrow> ('w, 'o) bl_state \<Rightarrow> (boot_outcome \<times> bool \<times> ('w, 'o) bl_state) option" where
  "contiki_bootloader m sec slots cfg buf dog s =
     contiki_loop m sec slots cfg EVENT_INIT dog (bootloader_agent_set_buffer buf s)"

text \<open>
  The configurations the runners build: \<open>BOOTLOADER_CTX\<close> and \<open>SWAP\<close> are identifiers of the platform; Contiki takes the
  page size for the swap and for the buffer, RIOT and Zephyr 2048 bytes.
\<close>

definition contiki_config :: "mem_id_t \<Rightarrow> mem_id_t \<Rightarrow> nat \<Rightarrow> safestore_t \<Rightarrow> bootloader_agent_config" where
  "contiki_config bctx swp page sf =
     \<lparr>bootloader_ctx_id = bctx, recovery_id = 0, swap_id = swp, swap_size = page, safestore = sf\<rparr>"

definition riot_config :: "mem_id_t \<Rightarrow> mem_id_t \<Rightarrow> safestore_t \<Rightarrow> bootloader_agent_config" where
  "riot_config bctx swp sf =
     \<lparr>bootloader_ctx_id = bctx, recovery_id = 0, swap_id = swp, swap_size = 2048, safestore = sf\<rparr>"

text \<open>RIOT and Zephyr call the agent once; only the message for a failure differs.\<close>

definition riot_bootloader :: "('w, 'o) mem_iface \<Rightarrow> 'd sec_iface \<Rightarrow> mem_slot_t list \<Rightarrow> bootloader_agent_config \<Rightarrow>
  byte list \<Rightarrow> ('w, 'o) bl_state \<Rightarrow> (boot_outcome \<times> ('w, 'o) bl_state) option" where
  "riot_bootloader m sec slots cfg buf s = map_option (\<lambda>(ev, d, s').
     (if IS_CONTINUE ev \<and> ev = EVENT_BOOT then Load (bl_boot_id s') else Give_Up, s'))
     (bootloader_agent m sec slots cfg (bootloader_agent_set_buffer buf s))"

definition zephyr_bootloader :: "('w, 'o) mem_iface \<Rightarrow> 'd sec_iface \<Rightarrow> mem_slot_t list \<Rightarrow> bootloader_agent_config \<Rightarrow>
  byte list \<Rightarrow> ('w, 'o) bl_state \<Rightarrow> (boot_outcome \<times> ('w, 'o) bl_state) option" where
  "zephyr_bootloader m sec slots cfg buf s = map_option (\<lambda>(ev, d, s').
     (if IS_FAILURE ev then Give_Up else if IS_CONTINUE ev then if ev = EVENT_BOOT then Load (bl_boot_id s') else Give_Up
      else Give_Up, s'))
     (bootloader_agent m sec slots cfg (bootloader_agent_set_buffer buf s))"

section \<open>Sequences of segments\<close>

text \<open>\<open>bl_path es e s e' s'\<close>: from event \<open>e\<close> the agent produces the events \<open>es\<close>, the last of which is \<open>e'\<close>.\<close>

inductive bl_path :: "('w, 'o) mem_iface \<Rightarrow> 'd sec_iface \<Rightarrow> mem_slot_t list \<Rightarrow> bootloader_agent_config \<Rightarrow> bl_event list \<Rightarrow>
    bl_event \<Rightarrow> ('w, 'o) bl_state \<Rightarrow> bl_event \<Rightarrow> ('w, 'o) bl_state \<Rightarrow> bool"
  for m sec slots cfg where
  bl_path_Nil: "bl_path m sec slots cfg [] e s e s"
| bl_path_Cons: "bl_segment m sec slots cfg e s = Some (e1, d, s1) \<Longrightarrow> bl_path m sec slots cfg es e1 s1 e2 s2 \<Longrightarrow>
    bl_path m sec slots cfg (e1 # es) e s e2 s2"

lemma bl_path_append:
  "bl_path m sec slots cfg es e s e1 s1 \<Longrightarrow> bl_path m sec slots cfg fs e1 s1 e2 s2 \<Longrightarrow>
   bl_path m sec slots cfg (es @ fs) e s e2 s2"
  by (induction rule: bl_path.induct) (auto intro: bl_path_Cons)

lemma bl_path_single:
  "bl_segment m sec slots cfg e s = Some (e1, d, s1) \<Longrightarrow> bl_path m sec slots cfg [e1] e s e1 s1"
  by (erule bl_path_Cons) (rule bl_path_Nil)

lemma contiki_path:
  "bl_path m sec slots cfg es e s e2 s2 \<Longrightarrow> \<forall>x\<in>set es. IS_CONTINUE x \<and> x \<noteq> EVENT_BOOT \<Longrightarrow>
   contiki_loop m sec slots cfg e dog s = contiki_loop m sec slots cfg e2 (fold watchdog_event es dog) s2"
proof (induction arbitrary: dog rule: bl_path.induct)
  case (bl_path_Nil e s)
  show ?case by simp
next
  case (bl_path_Cons e s e1 d s1 es e2 s2)
  have c: "IS_CONTINUE e1" "e1 \<noteq> EVENT_BOOT" using bl_path_Cons.prems by simp_all
  then have "e1 \<noteq> EVENT_FINISH" "\<not> IS_FAILURE e1" by (auto simp: IS_CONTINUE_def IS_FAILURE_def)
  with c bl_path_Cons.hyps(1)
  have "contiki_loop m sec slots cfg e dog s = contiki_loop m sec slots cfg e1 (watchdog_event e1 dog) s1"
    by (subst contiki_loop.simps) (simp add: bl_coroutine_def)
  with bl_path_Cons.IH [of "watchdog_event e1 dog"] bl_path_Cons.prems show ?case by simp
qed

lemma straight_path:
  "bl_path m sec slots cfg es e s e2 s2 \<Longrightarrow> \<forall>x\<in>set es. pull_continue x \<Longrightarrow>
   bl_straight m sec slots cfg e s = bl_straight m sec slots cfg e2 s2"
proof (induction rule: bl_path.induct)
  case (bl_path_Nil e s)
  show ?case by simp
next
  case (bl_path_Cons e s e1 d s1 es e2 s2)
  then show ?case by (subst bl_straight.simps) simp
qed

lemma contiki_stop:
  "bl_segment m sec slots cfg e s = Some (e1, d, s1) \<Longrightarrow> IS_FAILURE e1 \<Longrightarrow>
   contiki_loop m sec slots cfg e dog s = Some (Give_Up, dog, s1)"
  by (subst contiki_loop.simps) (simp add: bl_coroutine_def)

lemma contiki_boot:
  "bl_segment m sec slots cfg e s = Some (EVENT_BOOT, d, s1) \<Longrightarrow>
   contiki_loop m sec slots cfg e dog s = Some (Load (bl_boot_id s1), dog, s1)"
  by (subst contiki_loop.simps) (simp add: bl_coroutine_def IS_FAILURE_def IS_CONTINUE_def)

lemma straight_stop:
  "bl_segment m sec slots cfg e s = Some (e1, d, s1) \<Longrightarrow> \<not> pull_continue e1 \<Longrightarrow>
   bl_straight m sec slots cfg e s = Some (e1, d, s1)"
  by (subst bl_straight.simps) simp

lemmas event_range = IS_CONTINUE_def IS_FAILURE_def pull_continue_def

section \<open>The phases of the agent\<close>

text \<open>
  A slot with the greatest or the least version among the candidates, for contents given by identifier; a content that
  \<open>verify_object\<close> can read to the end with a buffer of length \<open>bl\<close>; and a content without its manifest.
\<close>

definition newest_slot :: "bool \<Rightarrow> mem_slot_t list \<Rightarrow> (mem_id_t \<Rightarrow> byte list) \<Rightarrow> mem_slot_t \<Rightarrow> bool" where
  "newest_slot prefer slots V c \<longleftrightarrow> c \<in> set (candidates prefer slots) \<and>
     (\<forall>x\<in>set (candidates prefer slots). content_version (V (slot_id x)) \<le> content_version (V (slot_id c)))"

definition oldest_slot :: "bool \<Rightarrow> mem_slot_t list \<Rightarrow> (mem_id_t \<Rightarrow> byte list) \<Rightarrow> mem_slot_t \<Rightarrow> bool" where
  "oldest_slot prefer slots V c \<longleftrightarrow> c \<in> set (candidates prefer slots) \<and>
     (\<forall>x\<in>set (candidates prefer slots). content_version (V (slot_id c)) \<le> content_version (V (slot_id x)))"

definition verifiable :: "nat \<Rightarrow> byte list \<Rightarrow> bool" where
  "verifiable bl v \<longleftrightarrow> sizeof_manifest \<le> length v \<and> 0 < bl \<and> bl < 65536 \<and>
     unat (vm_offset (vendor (content_manifest v))) + max (unat (vm_size (vendor (content_manifest v)))) bl \<le> length v \<and>
     unat (vm_offset (vendor (content_manifest v))) + max (unat (vm_size (vendor (content_manifest v)))) bl < 2 ^ 31"

definition erased :: "byte list \<Rightarrow> byte list" where
  "erased v = replicate sizeof_manifest 0 @ drop sizeof_manifest v"

definition ctx_cleared :: "byte list \<Rightarrow> byte list" where
  "ctx_cleared v = bootloader_ctx_bytes ((bootloader_ctx_of_bytes v)\<lparr>startup_flags := 0\<rparr>) @ drop sizeof_bootloader_ctx v"

context verifier_contract
begin

definition kept :: "'w \<Rightarrow> 'w \<Rightarrow> bool" where
  "kept w w' \<longleftrightarrow> (\<forall>j\<in>ids. content j w' = content j w)"

lemma kept_refl [simp]: "kept w w"
  by (simp add: kept_def)

lemma kept_trans: "kept u v \<Longrightarrow> kept v w \<Longrightarrow> kept u w"
  by (simp add: kept_def)

lemma keptD: "kept w w' \<Longrightarrow> j \<in> ids \<Longrightarrow> content j w' = content j w"
  by (simp add: kept_def)

lemma same_kept: "same w w' \<Longrightarrow> kept w w'"
  by (simp add: kept_def same_content)

text \<open>The slots, and the object of the bootloader context.\<close>

definition boot_ready :: "mem_slot_t list \<Rightarrow> bootloader_agent_config \<Rightarrow> 'w \<Rightarrow> bool" where
  "boot_ready slots cfg w \<longleftrightarrow> active_slots slots \<noteq> [] \<and> bootable (hd (active_slots slots)) \<and>
     distinct (map slot_id (active_slots slots)) \<and> takeWhile (\<lambda>s. slot_id s \<noteq> OBJ_END) slots = active_slots slots \<and>
     (\<forall>s\<in>set (active_slots slots). slot_id s \<in> ids \<and> sizeof_manifest \<le> length (content (slot_id s) w) \<and>
        slot_id s \<noteq> bootloader_ctx_id cfg) \<and>
     bootloader_ctx_id cfg \<in> ids \<and> sizeof_bootloader_ctx \<le> length (content (bootloader_ctx_id cfg) w) \<and>
     oeff (bootloader_ctx_id cfg) WRITE_CHUNK (content (bootloader_ctx_id cfg) w) = content (bootloader_ctx_id cfg) w"

lemma boot_ready_kept: "boot_ready slots cfg w \<Longrightarrow> kept w w' \<Longrightarrow> boot_ready slots cfg w'"
  by (auto simp: boot_ready_def kept_def)

definition newest_of :: "bool \<Rightarrow> mem_slot_t list \<Rightarrow> 'w \<Rightarrow> mem_slot_t \<Rightarrow> bool" where
  "newest_of prefer slots w c \<longleftrightarrow> newest_slot prefer slots (\<lambda>j. content j w) c"

definition oldest_of :: "bool \<Rightarrow> mem_slot_t list \<Rightarrow> 'w \<Rightarrow> mem_slot_t \<Rightarrow> bool" where
  "oldest_of prefer slots w c \<longleftrightarrow> oldest_slot prefer slots (\<lambda>j. content j w) c"

lemma candidate_active: "c \<in> set (candidates prefer slots) \<Longrightarrow> c \<in> set (active_slots slots)"
  by (simp add: candidates_def)

lemma boot_ready_slot:
  assumes "boot_ready slots cfg w" and "c \<in> set (active_slots slots)"
  shows "slot_id c \<in> ids" "sizeof_manifest \<le> length (content (slot_id c) w)" "slot_id c \<noteq> bootloader_ctx_id cfg"
  using assms by (auto simp: boot_ready_def)

lemma choose_newest:
  assumes "boot_ready slots cfg w" and "0 < avail w"
  obtains c obj' w' where "get_newest_firmware m slots i v obj prefer w =
      (PULL_SUCCESS, slot_id c, content_version (content (slot_id c) w), obj', w')"
    and "newest_of prefer slots w c" and "kept w w'"
    and "\<And>p j md. opened p j md w \<Longrightarrow> opened p j md w'" and "avail w \<le> avail w'"
proof -
  have r: "active_slots slots = hd (active_slots slots) # tl (active_slots slots)"
    "prefer \<longrightarrow> bootable (hd (active_slots slots))"
    "\<forall>s\<in>set (active_slots slots). slot_id s \<in> ids \<and> sizeof_manifest \<le> length (content (slot_id s) w)"
    using assms(1) by (auto simp: boot_ready_def)
  show ?thesis
    using get_ordered_firmware_ok [OF r assms(2), of i v obj True] that
    unfolding get_newest_firmware_def newest_of_def newest_slot_def kept_def by (simp only: if_True) blast
qed

lemma choose_oldest:
  assumes "boot_ready slots cfg w" and "0 < avail w"
  obtains c obj' w' where "get_oldest_firmware m slots i v obj prefer w =
      (PULL_SUCCESS, slot_id c, content_version (content (slot_id c) w), obj', w')"
    and "oldest_of prefer slots w c" and "kept w w'"
    and "\<And>p j md. opened p j md w \<Longrightarrow> opened p j md w'" and "avail w \<le> avail w'"
proof -
  have r: "active_slots slots = hd (active_slots slots) # tl (active_slots slots)"
    "prefer \<longrightarrow> bootable (hd (active_slots slots))"
    "\<forall>s\<in>set (active_slots slots). slot_id s \<in> ids \<and> sizeof_manifest \<le> length (content (slot_id s) w)"
    using assms(1) by (auto simp: boot_ready_def)
  show ?thesis
    using get_ordered_firmware_ok [OF r assms(2), of i v obj False] that
    unfolding get_oldest_firmware_def oldest_of_def oldest_slot_def kept_def by (simp only: if_False) blast
qed

text \<open>Opening an object in a mode that keeps its content.\<close>

lemma open_kept:
  assumes "i \<in> ids" and "0 < avail w" and "oeff i mode (content i w) = content i w"
  obtains obj' w' where "memory_open m obj i mode w = (PULL_SUCCESS, obj', w')" and "opened obj' i mode w'"
    and "kept w w'" and "\<And>p j md. opened p j md w \<Longrightarrow> opened p j md w'"
    and "\<And>p j md. opened p j md w \<Longrightarrow> indep p obj'" and "avail w \<le> avail w' + cost"
proof (rule memory_open_ok [OF assms(1,2), of obj mode])
  fix obj' w'
  assume "memory_open m obj i mode w = (PULL_SUCCESS, obj', w')" "opened obj' i mode w'"
    "content i w' = oeff i mode (content i w)" "\<And>j. j \<in> ids \<Longrightarrow> j \<noteq> i \<Longrightarrow> content j w' = content j w"
    "\<And>p j md. opened p j md w \<Longrightarrow> opened p j md w'" "\<And>p j md. opened p j md w \<Longrightarrow> indep p obj'"
    "avail w \<le> avail w' + cost"
  moreover from this have "kept w w'" using assms(3) unfolding kept_def by metis
  ultimately show thesis by (intro that)
qed

text \<open>
  Up to the test for the first boot: the newest bootable slot is open, and the context is read.
\<close>

lemma bl_start:
  assumes "boot_ready slots cfg w" and "bl_world s = w" and "cost < avail w" and "wf_ctx (bl_bctx s)"
  shows "\<exists>n s1. bl_path m sec slots cfg [EVENT_GET_NEWEST_FIRMWARE, EVENT_BOOTSTRAP] EVENT_INIT s EVENT_BOOTSTRAP s1 \<and>
    newest_of True slots w n \<and> (\<exists>s2. bl_segment m sec slots cfg EVENT_BOOTSTRAP s1 = Some (bl_test_first_boot m s2) \<and>
      opened (bl_newest_bootable s2) (slot_id n) READ_ONLY (bl_world s2) \<and> bl_id_newest_bootable s2 = slot_id n \<and>
      bl_version_bootable s2 = content_version (content (slot_id n) w) \<and>
      bl_bctx s2 = bootloader_ctx_of_bytes (block 0 sizeof_bootloader_ctx (content (bootloader_ctx_id cfg) w)) \<and>
      opened (bl_bootloader_object s2) (bootloader_ctx_id cfg) WRITE_CHUNK (bl_world s2) \<and>
      indep (bl_newest_bootable s2) (bl_bootloader_object s2) \<and> kept w (bl_world s2) \<and>
      avail w \<le> avail (bl_world s2) + 2 * cost \<and> bl_already_validated s2 = bl_already_validated s \<and>
      bl_cfg_buffer s2 = bl_cfg_buffer s \<and> bl_buffer s2 = bl_buffer s)"
proof -
  let ?c = "bootloader_ctx_id cfg"
  have "0 < avail w" using assms(3) by simp
  then obtain n obj1 w1 where n: "get_newest_firmware m slots (bl_id_newest_bootable s) (bl_version_bootable s) (bl_obj_t s)
      True w = (PULL_SUCCESS, slot_id n, content_version (content (slot_id n) w), obj1, w1)"
    "newest_of True slots w n" "kept w w1" "avail w \<le> avail w1"
    by (rule choose_newest [OF assms(1)]) (rule that)
  have i: "slot_id n \<in> ids" using n(2) boot_ready_slot(1) [OF assms(1)] by (auto simp: newest_of_def newest_slot_def dest: candidate_active)
  have "0 < avail w1" using n(4) \<open>0 < avail w\<close> by simp
  then obtain p w2 where p: "memory_open m (bl_newest_bootable s) (slot_id n) READ_ONLY w1 = (PULL_SUCCESS, p, w2)"
    "opened p (slot_id n) READ_ONLY w2" "kept w1 w2" "avail w1 \<le> avail w2 + cost"
    by (rule open_kept [OF i _ oeff_read]) (rule that)
  have k2: "kept w w2" using n(3) p(3) by (rule kept_trans)
  have c: "?c \<in> ids" "oeff ?c WRITE_CHUNK (content ?c w2) = content ?c w2" "sizeof_bootloader_ctx \<le> length (content ?c w2)"
    using boot_ready_kept [OF assms(1) k2] by (simp_all add: boot_ready_def)
  have "0 < avail w2" using n(4) p(4) assms(3) by simp
  then obtain q w3 where q: "memory_open m (bl_bootloader_object s) ?c WRITE_CHUNK w2 = (PULL_SUCCESS, q, w3)"
    "opened q ?c WRITE_CHUNK w3" "kept w2 w3" "opened p (slot_id n) READ_ONLY w3" "indep p q" "avail w2 \<le> avail w3 + cost"
    by (rule open_kept [OF c(1) _ c(2)]) (rule that, assumption, assumption, assumption, blast intro: p(2), blast intro: p(2))
  have k3: "kept w w3" using k2 q(3) by (rule kept_trans)
  have b: "unat (0 :: address_t) + sizeof_bootloader_ctx \<le> length (content ?c w3)"
    "sizeof_bootloader_ctx \<le> length (bootloader_ctx_bytes (bl_bctx s))" "sizeof_bootloader_ctx < 65536"
    using c(1,3) q(3) assms(4) by (simp_all add: kept_def sizeof_bootloader_ctx_def)
  obtain w4 where r: "memory_read m q (bootloader_ctx_bytes (bl_bctx s)) sizeof_bootloader_ctx 0 w3 =
      (sizeof_bootloader_ctx, block 0 sizeof_bootloader_ctx (content ?c w), w4)" "same w3 w4"
    using memory_read_ok [OF q(2) b] keptD [OF k3 c(1)] assms(4) by auto
  let ?s1 = "s\<lparr>bl_err := PULL_SUCCESS, bl_id_newest_bootable := slot_id n,
    bl_version_bootable := content_version (content (slot_id n) w), bl_obj_t := obj1, bl_newest_bootable := p, bl_world := w2\<rparr>"
  let ?s2 = "?s1\<lparr>bl_err := PULL_SUCCESS, bl_bootloader_object := q,
    bl_bctx := bootloader_ctx_of_bytes (block 0 sizeof_bootloader_ctx (content ?c w)), bl_world := w4\<rparr>"
  have "bl_segment m sec slots cfg EVENT_INIT s = Some (EVENT_GET_NEWEST_FIRMWARE, No_Data, s)"
    "bl_segment m sec slots cfg EVENT_GET_NEWEST_FIRMWARE s = Some (EVENT_BOOTSTRAP, No_Data, ?s1)"
    using n(1) p(1) assms(2) by (simp_all add: bl_segment_def bl_get_newest_def bl_open_newest_def)
  then have "bl_path m sec slots cfg [EVENT_GET_NEWEST_FIRMWARE, EVENT_BOOTSTRAP] EVENT_INIT s EVENT_BOOTSTRAP ?s1"
    by (intro bl_path_Cons [OF _ bl_path_single])
  moreover have "bl_segment m sec slots cfg EVENT_BOOTSTRAP ?s1 = Some (bl_test_first_boot m ?s2)"
    using q(1) r(1) by (simp add: bl_segment_def bl_bootstrap_def bl_read_ctx_def)
  moreover have "kept w w4" using k3 same_kept [OF r(2)] by (rule kept_trans)
  moreover have "avail w \<le> avail w4 + 2 * cost" using n(4) p(4) q(6) r(2) by (simp add: same_def)
  ultimately show ?thesis
    using n(2) q(2,4,5) r(2) by (intro exI [of _ n] exI [of _ ?s1] exI [of _ ?s2] conjI) (simp_all add: same_opened)
qed

text \<open>
  The state before the choice of the newest of all slots: the newest bootable slot \<open>n\<close> is open.
\<close>

definition bl_settled :: "mem_slot_t \<Rightarrow> ('w, 'o) bl_state \<Rightarrow> bool" where
  "bl_settled n s \<longleftrightarrow> slot_id n \<in> ids \<and> opened (bl_newest_bootable s) (slot_id n) READ_ONLY (bl_world s) \<and> bl_id_newest_bootable s = slot_id n \<and>
     bl_version_bootable s = content_version (content (slot_id n) (bl_world s))"

lemma bl_normal_start:
  assumes "boot_ready slots cfg w" and "bl_world s = w" and "cost < avail w" and "wf_ctx (bl_bctx s)"
    and "startup_flags (bootloader_ctx_of_bytes (content (bootloader_ctx_id cfg) w)) AND FIRST_BOOT \<noteq> FIRST_BOOT"
  shows "\<exists>n s1. bl_path m sec slots cfg [EVENT_GET_NEWEST_FIRMWARE, EVENT_BOOTSTRAP, EVENT_GET_NEWEST_NON_BOOTABLE]
      EVENT_INIT s EVENT_GET_NEWEST_NON_BOOTABLE s1 \<and> newest_of True slots w n \<and> bl_settled n s1 \<and> kept w (bl_world s1) \<and>
    avail w \<le> avail (bl_world s1) + cost \<and> bl_already_validated s1 = bl_already_validated s \<and>
    bl_cfg_buffer s1 = bl_cfg_buffer s \<and> bl_buffer s1 = bl_buffer s"
proof -
  from bl_start [OF assms(1-4)] obtain n s1 s2 where
    p: "bl_path m sec slots cfg [EVENT_GET_NEWEST_FIRMWARE, EVENT_BOOTSTRAP] EVENT_INIT s EVENT_BOOTSTRAP s1"
    "newest_of True slots w n" "bl_segment m sec slots cfg EVENT_BOOTSTRAP s1 = Some (bl_test_first_boot m s2)"
    and q: "opened (bl_newest_bootable s2) (slot_id n) READ_ONLY (bl_world s2)" "bl_id_newest_bootable s2 = slot_id n"
    "bl_version_bootable s2 = content_version (content (slot_id n) w)"
    "bl_bctx s2 = bootloader_ctx_of_bytes (block 0 sizeof_bootloader_ctx (content (bootloader_ctx_id cfg) w))"
    "opened (bl_bootloader_object s2) (bootloader_ctx_id cfg) WRITE_CHUNK (bl_world s2)"
    "indep (bl_newest_bootable s2) (bl_bootloader_object s2)" "kept w (bl_world s2)"
    "avail w \<le> avail (bl_world s2) + 2 * cost" "bl_already_validated s2 = bl_already_validated s"
    "bl_cfg_buffer s2 = bl_cfg_buffer s" "bl_buffer s2 = bl_buffer s"
    by (elim exE conjE) (rule that)
  have n: "slot_id n \<in> ids" using p(2) boot_ready_slot(1) [OF assms(1)] by (auto simp: newest_of_def newest_slot_def dest: candidate_active)
  obtain w3 where c: "memory_close m (bl_bootloader_object s2) (bl_world s2) = (PULL_SUCCESS, w3)"
    "\<And>j. content j w3 = content j (bl_world s2)" "opened (bl_newest_bootable s2) (slot_id n) READ_ONLY w3"
    "avail (bl_world s2) + cost \<le> avail w3"
    by (rule memory_close_ok [OF q(5)]) (rule that, assumption, assumption, blast intro: q(1,6))
  have "bl_test_first_boot m s2 = (EVENT_GET_NEWEST_NON_BOOTABLE, No_Data, s2\<lparr>bl_world := w3\<rparr>)"
    using q(4) c(1) assms(5) by (simp add: bl_test_first_boot_def bl_close_ctx_def bootloader_ctx_of_bytes_def
        sizeof_bootloader_ctx_def block_def)
  with p(3) have "bl_segment m sec slots cfg EVENT_BOOTSTRAP s1 =
    Some (EVENT_GET_NEWEST_NON_BOOTABLE, No_Data, s2\<lparr>bl_world := w3\<rparr>)" by simp
  from bl_path_append [OF p(1) bl_path_single [OF this]]
  have "bl_path m sec slots cfg [EVENT_GET_NEWEST_FIRMWARE, EVENT_BOOTSTRAP, EVENT_GET_NEWEST_NON_BOOTABLE]
    EVENT_INIT s EVENT_GET_NEWEST_NON_BOOTABLE (s2\<lparr>bl_world := w3\<rparr>)" by simp
  moreover have "kept w w3" using q(7) c(2) by (simp add: kept_def)
  moreover have "bl_settled n (s2\<lparr>bl_world := w3\<rparr>)"
    using q(2,3,7) c(2,3) n by (simp add: bl_settled_def kept_def)
  ultimately show ?thesis using p(2) q(8-11) c(4) by (intro exI [of _ n] exI [of _ "s2\<lparr>bl_world := w3\<rparr>"]) simp
qed

text \<open>The choice of the newest of all slots.\<close>

lemma bl_choice:
  assumes "boot_ready slots cfg (bl_world s)" and "bl_settled n s" and "0 < avail (bl_world s)"
  shows "\<exists>u s1. bl_segment m sec slots cfg EVENT_GET_NEWEST_NON_BOOTABLE s = Some (bl_compare s1) \<and>
    newest_of False slots (bl_world s) u \<and> bl_settled n s1 \<and> bl_id_newest_non_bootable s1 = slot_id u \<and>
    bl_version_non_bootable s1 = content_version (content (slot_id u) (bl_world s)) \<and> kept (bl_world s) (bl_world s1) \<and>
    avail (bl_world s) \<le> avail (bl_world s1) \<and> bl_already_validated s1 = bl_already_validated s \<and>
    bl_cfg_buffer s1 = bl_cfg_buffer s \<and> bl_buffer s1 = bl_buffer s"
proof -
  obtain u obj w1 where u: "get_newest_firmware m slots (bl_id_newest_non_bootable s) (bl_version_non_bootable s) (bl_obj_t s)
      False (bl_world s) = (PULL_SUCCESS, slot_id u, content_version (content (slot_id u) (bl_world s)), obj, w1)"
    "newest_of False slots (bl_world s) u" "kept (bl_world s) w1"
    "\<And>p j md. opened p j md (bl_world s) \<Longrightarrow> opened p j md w1" "avail (bl_world s) \<le> avail w1"
    by (rule choose_newest [OF assms(1,3)]) (rule that)
  let ?s1 = "s\<lparr>bl_err := PULL_SUCCESS, bl_id_newest_non_bootable := slot_id u,
    bl_version_non_bootable := content_version (content (slot_id u) (bl_world s)), bl_obj_t := obj, bl_world := w1\<rparr>"
  have "bl_segment m sec slots cfg EVENT_GET_NEWEST_NON_BOOTABLE s = Some (bl_compare ?s1)"
    using u(1) by (simp add: bl_segment_def bl_get_newest_non_bootable_def)
  moreover have "content (slot_id n) w1 = content (slot_id n) (bl_world s)"
    using assms(2) u(3) by (simp add: bl_settled_def kept_def)
  then have "bl_settled n ?s1" using assms(2) u(4) by (simp add: bl_settled_def)
  ultimately show ?thesis using u(2,3,5) by (intro exI [of _ u] exI [of _ ?s1]) simp
qed

text \<open>Validating the newest bootable slot, and booting it.\<close>

lemma bl_verify_ok:
  assumes "opened obj i md (bl_world s)" and "verifiable (length (bl_cfg_buffer s)) (content i (bl_world s))"
  shows "\<exists>buf w. bl_verify m sec cfg obj ev s = Some (ev, No_Data, s\<lparr>bl_err := object_verdict sec hash (safestore cfg)
      (length (bl_cfg_buffer s)) (content i (bl_world s)), bl_cfg_buffer := buf, bl_world := w\<rparr>) \<and> same (bl_world s) w \<and>
    length buf = length (bl_cfg_buffer s)"
proof -
  from verify_object_ok [OF assms(1) _ refl refl, of "bl_cfg_buffer s" "safestore cfg"] assms(2)
  obtain buf w where "verify_object sec m obj (safestore cfg) (bl_cfg_buffer s) (bl_world s) =
      Some (object_verdict sec hash (safestore cfg) (length (bl_cfg_buffer s)) (content i (bl_world s)), buf, w)"
    "same (bl_world s) w" "length buf = length (bl_cfg_buffer s)"
    by (auto simp: verifiable_def)
  then show ?thesis by (intro exI [of _ buf] exI [of _ w]) (simp add: bl_verify_def)
qed

lemma bl_boot_newest:
  assumes "bl_settled n s" and "verifiable (length (bl_cfg_buffer s)) (content (slot_id n) (bl_world s))"
    and "\<not> bl_already_validated s" and "\<not> bl_version_bootable s < bl_version_non_bootable s"
  shows "\<exists>s1 s2. bl_compare s = (EVENT_VALIDATE_BOOTABLE_START, No_Data, s) \<and>
    bl_path m sec slots cfg [EVENT_VALIDATE_BOOTABLE_STOP] EVENT_VALIDATE_BOOTABLE_START s EVENT_VALIDATE_BOOTABLE_STOP s1 \<and>
    bl_segment m sec slots cfg EVENT_VALIDATE_BOOTABLE_STOP s1 =
      (if object_verdict sec hash (safestore cfg) (length (bl_cfg_buffer s)) (content (slot_id n) (bl_world s)) = PULL_SUCCESS
       then Some (EVENT_BOOT, Boot_Data, s2) else Some (EVENT_VALIDATE_BOOTABLE_FAILURE, Err_Data, s1)) \<and>
    bl_boot_id s2 = slot_id n \<and> kept (bl_world s) (bl_world s1) \<and> bl_world s2 = bl_world s1"
proof -
  let ?v = "object_verdict sec hash (safestore cfg) (length (bl_cfg_buffer s)) (content (slot_id n) (bl_world s))"
  from bl_verify_ok [of "bl_newest_bootable s" "slot_id n" READ_ONLY s cfg EVENT_VALIDATE_BOOTABLE_STOP] assms(1,2)
  obtain buf w where v: "bl_verify m sec cfg (bl_newest_bootable s) EVENT_VALIDATE_BOOTABLE_STOP s =
      Some (EVENT_VALIDATE_BOOTABLE_STOP, No_Data, s\<lparr>bl_err := ?v, bl_cfg_buffer := buf, bl_world := w\<rparr>)"
    "same (bl_world s) w" by (auto simp: bl_settled_def)
  let ?s1 = "s\<lparr>bl_err := ?v, bl_cfg_buffer := buf, bl_world := w\<rparr>"
  have "bl_segment m sec slots cfg EVENT_VALIDATE_BOOTABLE_START s = Some (EVENT_VALIDATE_BOOTABLE_STOP, No_Data, ?s1)"
    using v(1) by (simp add: bl_segment_def)
  from bl_path_single [OF this] show ?thesis using assms(1,3,4) same_kept [OF v(2)]
    by (intro exI [of _ ?s1] exI [of _ "?s1\<lparr>bl_boot_id := slot_id n\<rparr>"])
      (simp add: bl_compare_def bl_check_validated_def bl_segment_def bl_settled_def)
qed

text \<open>Validating a newer slot; the outcome is in \<open>err\<close>, and the slot is closed again in either case.\<close>

lemma bl_validate_newer:
  assumes "bl_settled n s" and "bl_id_newest_non_bootable s = i" and "i \<in> ids" and "0 < avail (bl_world s)"
    and "verifiable (length (bl_cfg_buffer s)) (content i (bl_world s))" and "bl_version_bootable s < bl_version_non_bootable s"
  shows "\<exists>s1 s2. bl_compare s = (EVENT_VALIDATE_NON_BOOTABLE, No_Data, s) \<and>
    bl_path m sec slots cfg [EVENT_VALIDATE_NON_BOOTABLE_START, EVENT_VALIDATE_NON_BOOTABLE_STOP] EVENT_VALIDATE_NON_BOOTABLE s
      EVENT_VALIDATE_NON_BOOTABLE_STOP s1 \<and> kept (bl_world s) (bl_world s1) \<and>
    bl_err s1 = object_verdict sec hash (safestore cfg) (length (bl_cfg_buffer s)) (content i (bl_world s)) \<and>
    bl_close_source m s1 = (EVENT_UPGRADE, No_Data, s2) \<and> bl_settled n s2 \<and> kept (bl_world s) (bl_world s2) \<and>
    avail (bl_world s) \<le> avail (bl_world s2) \<and> bl_id_newest_non_bootable s2 = i \<and> bl_buffer s2 = bl_buffer s"
proof -
  let ?v = "object_verdict sec hash (safestore cfg) (length (bl_cfg_buffer s)) (content i (bl_world s))"
  have st: "opened (bl_newest_bootable s) (slot_id n) READ_ONLY (bl_world s)" using assms(1) by (simp add: bl_settled_def)
  obtain p w1 where o: "memory_open m (bl_source_slot s) i READ_ONLY (bl_world s) = (PULL_SUCCESS, p, w1)"
    "opened p i READ_ONLY w1" "kept (bl_world s) w1" "opened (bl_newest_bootable s) (slot_id n) READ_ONLY w1"
    "indep (bl_newest_bootable s) p" "avail (bl_world s) \<le> avail w1 + cost"
    by (rule open_kept [OF assms(3,4) oeff_read]) (rule that, assumption, assumption, assumption, blast intro: st, blast intro: st)
  let ?s0 = "s\<lparr>bl_err := PULL_SUCCESS, bl_source_slot := p, bl_world := w1\<rparr>"
  have c: "content i w1 = content i (bl_world s)" using o(3) assms(3) by (rule keptD)
  from bl_verify_ok [of p i READ_ONLY ?s0 cfg EVENT_VALIDATE_NON_BOOTABLE_STOP] o(2) assms(5) c
  obtain buf w2 where v: "bl_verify m sec cfg p EVENT_VALIDATE_NON_BOOTABLE_STOP ?s0 =
      Some (EVENT_VALIDATE_NON_BOOTABLE_STOP, No_Data, ?s0\<lparr>bl_err := ?v, bl_cfg_buffer := buf, bl_world := w2\<rparr>)"
    "same w1 w2" by auto
  let ?s1 = "?s0\<lparr>bl_err := ?v, bl_cfg_buffer := buf, bl_world := w2\<rparr>"
  have seg: "bl_segment m sec slots cfg EVENT_VALIDATE_NON_BOOTABLE s = Some (EVENT_VALIDATE_NON_BOOTABLE_START, No_Data, ?s0)"
    "bl_segment m sec slots cfg EVENT_VALIDATE_NON_BOOTABLE_START ?s0 = Some (EVENT_VALIDATE_NON_BOOTABLE_STOP, No_Data, ?s1)"
    using o(1) v(1) assms(2) by (simp_all add: bl_segment_def bl_open_non_bootable_def)
  obtain w3 where cl: "memory_close m p w2 = (PULL_SUCCESS, w3)" "\<And>j. content j w3 = content j w2"
    "opened (bl_newest_bootable s) (slot_id n) READ_ONLY w3" "avail w2 + cost \<le> avail w3"
    by (rule memory_close_ok [OF iffD2 [OF same_opened [OF v(2)] o(2)]])
      (rule that, assumption, assumption, blast intro: o(4,5) iffD2 [OF same_opened [OF v(2)]])
  have k: "kept (bl_world s) w2" using o(3) same_kept [OF v(2)] by (rule kept_trans)
  have k3: "kept (bl_world s) w3" using k cl(2) by (simp add: kept_def)
  have "avail (bl_world s) \<le> avail w3" using o(6) v(2) cl(4) by (simp add: same_def)
  moreover have "bl_settled n (?s1\<lparr>bl_world := w3\<rparr>)"
    using assms(1) k3 cl(3) by (simp add: bl_settled_def kept_def)
  ultimately show ?thesis
    using bl_path_Cons [OF seg(1) bl_path_single [OF seg(2)]] k k3 cl(1) assms(2,6)
    by (intro exI [of _ ?s1] exI [of _ "?s1\<lparr>bl_world := w3\<rparr>"]) (simp add: bl_compare_def bl_close_source_def)
qed

text \<open>
  What the upgrade needs of the swap: with the three objects open in the sequential mode it succeeds, and establishes a
  property \<open>Q\<close> of the contents.
\<close>

definition swap_gives :: "bootloader_agent_config \<Rightarrow> mem_id_t \<Rightarrow> mem_id_t \<Rightarrow> byte list \<Rightarrow> 'w \<Rightarrow> ('w \<Rightarrow> bool) \<Rightarrow> bool" where
  "swap_gives cfg i1 i2 buf w Q \<longleftrightarrow> (\<forall>a b. Q a \<longrightarrow> kept a b \<longrightarrow> Q b) \<and>
     (\<forall>o1 o2 os w1. opened o1 i1 SEQUENTIAL_REWRITE w1 \<longrightarrow> opened o2 i2 SEQUENTIAL_REWRITE w1 \<longrightarrow>
        opened os (swap_id cfg) SEQUENTIAL_REWRITE w1 \<longrightarrow> kept w w1 \<longrightarrow>
        (\<exists>buf' w2. swap_slots m o1 o2 os (swap_size cfg) buf w1 = Some (PULL_SUCCESS, buf', w2) \<and> Q w2 \<and>
           (\<forall>p j md. opened p j md w2 \<longleftrightarrow> opened p j md w1)))"

lemma bl_upgrade_ok:
  assumes "boot_ready slots cfg (bl_world s)" and "bl_id_newest_non_bootable s = i" and "i \<in> ids" and "swap_id cfg \<in> ids"
    and "2 * cost < avail (bl_world s)" and "\<And>j v. oeff j SEQUENTIAL_REWRITE v = v"
    and "\<And>c. oldest_of True slots (bl_world s) c \<Longrightarrow> swap_gives cfg i (slot_id c) (bl_buffer s) (bl_world s) (Q c)"
  shows "\<exists>c s1 s2. bl_path m sec slots cfg [EVENT_UPGRADE_COPY_START, EVENT_UPGRADE_COPY_STOP, EVENT_UPGRADE_SUCCESS]
      EVENT_UPGRADE s EVENT_UPGRADE_SUCCESS s1 \<and> oldest_of True slots (bl_world s) c \<and>
    bl_segment m sec slots cfg EVENT_UPGRADE_SUCCESS s1 = Some (EVENT_BOOT, Boot_Data, s2) \<and>
    bl_boot_id s2 = slot_id c \<and> Q c (bl_world s2)"
proof -
  have av: "0 < avail (bl_world s)" using assms(5) by simp
  obtain c obj w1 where c: "get_oldest_firmware m slots (bl_id_oldest_bootable s) (bl_version_bootable s) (bl_obj_t s)
      True (bl_world s) = (PULL_SUCCESS, slot_id c, content_version (content (slot_id c) (bl_world s)), obj, w1)"
    "oldest_of True slots (bl_world s) c" "kept (bl_world s) w1" "avail (bl_world s) \<le> avail w1"
    by (rule choose_oldest [OF assms(1) av]) (rule that)
  have ic: "slot_id c \<in> ids"
    using c(2) boot_ready_slot(1) [OF assms(1)] by (auto simp: oldest_of_def oldest_slot_def dest: candidate_active)
  have "0 < avail w1" using c(4) av by simp
  then obtain p w2 where p: "memory_open m (bl_destination_slot s) (slot_id c) SEQUENTIAL_REWRITE w1 = (PULL_SUCCESS, p, w2)"
    "opened p (slot_id c) SEQUENTIAL_REWRITE w2" "kept w1 w2" "avail w1 \<le> avail w2 + cost"
    by (rule open_kept [OF ic _ assms(6)]) (rule that)
  have "0 < avail w2" using c(4) p(4) assms(5) by simp
  then obtain q w3 where q: "memory_open m (bl_source_slot s) i SEQUENTIAL_REWRITE w2 = (PULL_SUCCESS, q, w3)"
    "opened q i SEQUENTIAL_REWRITE w3" "kept w2 w3" "opened p (slot_id c) SEQUENTIAL_REWRITE w3" "avail w2 \<le> avail w3 + cost"
    by (rule open_kept [OF assms(3) _ assms(6)]) (rule that, assumption, assumption, assumption, blast intro: p(2))
  have "0 < avail w3" using c(4) p(4) q(5) assms(5) by simp
  then obtain r w4 where r: "memory_open m (bl_swap_slot s) (swap_id cfg) SEQUENTIAL_REWRITE w3 = (PULL_SUCCESS, r, w4)"
    "opened r (swap_id cfg) SEQUENTIAL_REWRITE w4" "kept w3 w4" "opened p (slot_id c) SEQUENTIAL_REWRITE w4"
    "opened q i SEQUENTIAL_REWRITE w4"
    by (rule open_kept [OF assms(4) _ assms(6)]) (rule that, assumption, assumption, assumption, blast intro: q(4), blast intro: q(2))
  have k: "kept (bl_world s) w4" using c(3) p(3) q(3) r(3) by (blast intro: kept_trans)
  from assms(7) [OF c(2)] r(2,4,5) k obtain buf w5 where
    sw: "swap_slots m q p r (swap_size cfg) (bl_buffer s) w4 = Some (PULL_SUCCESS, buf, w5)" "Q c w5"
    "\<And>p j md. opened p j md w5 \<longleftrightarrow> opened p j md w4" unfolding swap_gives_def by metis
  obtain w6 where cl: "memory_close m p w5 = (PULL_SUCCESS, w6)" "\<And>j. content j w6 = content j w5"
    by (rule memory_close_ok [OF iffD2 [OF sw(3) r(4)]]) (rule that)
  have Q: "Q c w6" using assms(7) [OF c(2)] sw(2) cl(2) by (auto simp: swap_gives_def kept_def)
  let ?s1 = "s\<lparr>bl_id_oldest_bootable := slot_id c, bl_version_bootable := content_version (content (slot_id c) (bl_world s)),
    bl_obj_t := obj, bl_destination_slot := p, bl_source_slot := q, bl_err := PULL_SUCCESS, bl_swap_slot := r, bl_world := w4\<rparr>"
  let ?s2 = "?s1\<lparr>bl_err := PULL_SUCCESS, bl_buffer := buf, bl_world := w5\<rparr>"
  have seg: "bl_segment m sec slots cfg EVENT_UPGRADE s = Some (EVENT_UPGRADE_COPY_START, No_Data, ?s1)"
    "bl_segment m sec slots cfg EVENT_UPGRADE_COPY_START ?s1 = Some (EVENT_UPGRADE_COPY_STOP, No_Data, ?s2)"
    "bl_segment m sec slots cfg EVENT_UPGRADE_COPY_STOP ?s2 = Some (EVENT_UPGRADE_SUCCESS, No_Data, ?s2\<lparr>bl_world := w6\<rparr>)"
    using c(1) p(1) q(1) r(1) sw(1) cl(1) assms(2)
    by (simp_all add: bl_segment_def bl_upgrade_def bl_open_destination_def bl_open_source_def bl_open_swap_def bl_swap_def
        bl_upgraded_def)
  have "bl_path m sec slots cfg [EVENT_UPGRADE_COPY_START, EVENT_UPGRADE_COPY_STOP, EVENT_UPGRADE_SUCCESS]
      EVENT_UPGRADE s EVENT_UPGRADE_SUCCESS (?s2\<lparr>bl_world := w6\<rparr>)"
    by (rule bl_path_Cons [OF seg(1) bl_path_Cons [OF seg(2) bl_path_single [OF seg(3)]]])
  moreover have "bl_segment m sec slots cfg EVENT_UPGRADE_SUCCESS (?s2\<lparr>bl_world := w6\<rparr>) =
      Some (EVENT_BOOT, Boot_Data, ?s2\<lparr>bl_world := w6, bl_already_validated := True, bl_boot_id := slot_id c\<rparr>)"
    by (simp add: bl_segment_def bl_check_validated_def)
  ultimately show ?thesis using c(2) Q by (intro exI [of _ c] exI conjI) (assumption, assumption, assumption, simp_all)
qed

text \<open>The first boot: every slot but the newest bootable one loses its manifest.\<close>

definition erasable :: "mem_id_t \<Rightarrow> bool" where
  "erasable i \<longleftrightarrow> (\<forall>v. oeff i WRITE_CHUNK v = v) \<and> (\<forall>v. sizeof_manifest \<le> length v \<longrightarrow>
     weff i WRITE_CHUNK 0 (replicate sizeof_manifest 0) v = erased v)"

lemma bl_erase_ok:
  assumes "\<forall>x\<in>set (takeWhile (\<lambda>s. slot_id s \<noteq> OBJ_END) sls). slot_id x \<in> ids \<and> erasable (slot_id x) \<and>
      sizeof_manifest \<le> length (content (slot_id x) (bl_world s))"
    and "distinct (map slot_id (takeWhile (\<lambda>s. slot_id s \<noteq> OBJ_END) sls))" and "0 < avail (bl_world s)"
  shows "\<exists>e ob k w'. bl_erase_loop m sls s = (EVENT_STORE_BOOTLAODER_CTX, No_Data,
      s\<lparr>bl_err := e, bl_obj_t := ob, bl_i := k, bl_world := w'\<rparr>) \<and>
    (\<forall>j\<in>ids. content j w' = (if j \<in> slot_id ` set (takeWhile (\<lambda>s. slot_id s \<noteq> OBJ_END) sls) \<and> j \<noteq> bl_id_newest_bootable s
       then erased (content j (bl_world s)) else content j (bl_world s))) \<and>
    (\<forall>p j md. opened p j md (bl_world s) \<longrightarrow> opened p j md w') \<and> avail (bl_world s) \<le> avail w'"
  using assms
proof (induction sls arbitrary: s)
  case Nil
  show ?case by (intro exI [of _ "bl_err s"] exI [of _ "bl_obj_t s"] exI [of _ "bl_i s"] exI [of _ "bl_world s"]) simp
next
  case (Cons a sls)
  let ?T = "takeWhile (\<lambda>s. slot_id s \<noteq> OBJ_END) sls"
  consider (stop) "slot_id a = OBJ_END" | (skip) "slot_id a \<noteq> OBJ_END" "slot_id a = bl_id_newest_bootable s"
    | (wipe) "slot_id a \<noteq> OBJ_END" "slot_id a \<noteq> bl_id_newest_bootable s" by blast
  then show ?case
  proof cases
    case stop
    then show ?thesis
      by (intro exI [of _ "bl_err s"] exI [of _ "bl_obj_t s"] exI [of _ "bl_i s"] exI [of _ "bl_world s"]) simp
  next
    case skip
    from Cons.IH [of "s\<lparr>bl_i := bl_i s + 1\<rparr>"] Cons.prems skip obtain e ob k w' where
      "bl_erase_loop m sls (s\<lparr>bl_i := bl_i s + 1\<rparr>) = (EVENT_STORE_BOOTLAODER_CTX, No_Data,
        s\<lparr>bl_err := e, bl_obj_t := ob, bl_i := k, bl_world := w'\<rparr>)"
      "\<forall>j\<in>ids. content j w' = (if j \<in> slot_id ` set ?T \<and> j \<noteq> bl_id_newest_bootable s
         then erased (content j (bl_world s)) else content j (bl_world s))"
      "\<forall>p j md. opened p j md (bl_world s) \<longrightarrow> opened p j md w'" "avail (bl_world s) \<le> avail w'" by auto
    with skip show ?thesis by (intro exI [of _ e] exI [of _ ob] exI [of _ k] exI [of _ w']) auto
  next
    case wipe
    with Cons.prems(1) have a: "slot_id a \<in> ids" "erasable (slot_id a)" "sizeof_manifest \<le> length (content (slot_id a) (bl_world s))"
      by simp_all
    have "weff (slot_id a) WRITE_CHUNK 0 (replicate sizeof_manifest 0) (content (slot_id a) (bl_world s)) =
        replicate sizeof_manifest 0 @ drop sizeof_manifest (content (slot_id a) (bl_world s))"
      "oeff (slot_id a) WRITE_CHUNK (content (slot_id a) (bl_world s)) = content (slot_id a) (bl_world s)"
      using a(2,3) by (simp_all add: erasable_def erased_def)
    from invalidate_object_ok [OF a(1) Cons.prems(3) this a(3), of "bl_obj_t s"] obtain ob1 w1 where
      i: "invalidate_object m (slot_id a) (bl_obj_t s) (bl_world s) = (PULL_SUCCESS, ob1, w1)"
      "content (slot_id a) w1 = erased (content (slot_id a) (bl_world s))"
      "\<forall>h\<in>ids. h \<noteq> slot_id a \<longrightarrow> content h w1 = content h (bl_world s)"
      "\<forall>p j md. opened p j md (bl_world s) \<longrightarrow> opened p j md w1" "avail (bl_world s) \<le> avail w1"
      unfolding erased_def by blast
    let ?s1 = "s\<lparr>bl_err := PULL_SUCCESS, bl_obj_t := ob1, bl_world := w1, bl_i := bl_i s + 1\<rparr>"
    have "0 < avail (bl_world ?s1)" using Cons.prems(3) i(5) by simp
    moreover have "\<forall>x\<in>set ?T. slot_id x \<in> ids \<and> erasable (slot_id x) \<and> sizeof_manifest \<le> length (content (slot_id x) (bl_world ?s1))"
    proof
      fix x assume x: "x \<in> set ?T"
      then have "slot_id x \<noteq> slot_id a" using Cons.prems(2) wipe by (auto simp: image_iff)
      with x i(3) Cons.prems(1) wipe(1) show "slot_id x \<in> ids \<and> erasable (slot_id x) \<and>
          sizeof_manifest \<le> length (content (slot_id x) (bl_world ?s1))" by simp
    qed
    ultimately obtain e ob k w' where r: "bl_erase_loop m sls ?s1 = (EVENT_STORE_BOOTLAODER_CTX, No_Data,
        ?s1\<lparr>bl_err := e, bl_obj_t := ob, bl_i := k, bl_world := w'\<rparr>)"
      "\<forall>j\<in>ids. content j w' = (if j \<in> slot_id ` set ?T \<and> j \<noteq> bl_id_newest_bootable s then erased (content j w1) else content j w1)"
      "\<forall>p j md. opened p j md w1 \<longrightarrow> opened p j md w'" "avail w1 \<le> avail w'"
      using Cons.IH [of ?s1] Cons.prems(2) wipe by auto
    have "bl_erase_loop m (a # sls) s = (EVENT_STORE_BOOTLAODER_CTX, No_Data,
        s\<lparr>bl_err := e, bl_obj_t := ob, bl_i := k, bl_world := w'\<rparr>)"
      using wipe i(1) r(1) by simp
    moreover have na: "slot_id a \<notin> slot_id ` set ?T" using Cons.prems(2) wipe by auto
    have "\<forall>j\<in>ids. content j w' = (if j \<in> slot_id ` set (takeWhile (\<lambda>s. slot_id s \<noteq> OBJ_END) (a # sls)) \<and>
        j \<noteq> bl_id_newest_bootable s then erased (content j (bl_world s)) else content j (bl_world s))"
    proof
      fix j assume "j \<in> ids"
      with r(2) i(2,3) wipe na show "content j w' = (if j \<in> slot_id ` set (takeWhile (\<lambda>s. slot_id s \<noteq> OBJ_END) (a # sls)) \<and>
          j \<noteq> bl_id_newest_bootable s then erased (content j (bl_world s)) else content j (bl_world s))"
        by (cases "j = slot_id a") simp_all
    qed
    ultimately show ?thesis using r(3,4) i(4,5) by (intro exI [of _ e] exI [of _ ob] exI [of _ k] exI [of _ w']) auto
  qed
qed

lemma bl_first_start:
  assumes "boot_ready slots cfg w" and "bl_world s = w" and "2 * cost < avail w" and "wf_ctx (bl_bctx s)"
    and "startup_flags (bootloader_ctx_of_bytes (content (bootloader_ctx_id cfg) w)) AND FIRST_BOOT = FIRST_BOOT"
    and "\<forall>x\<in>set (active_slots slots). erasable (slot_id x)"
    and "weff (bootloader_ctx_id cfg) WRITE_CHUNK 0 (take sizeof_bootloader_ctx (ctx_cleared (content (bootloader_ctx_id cfg) w)))
      (content (bootloader_ctx_id cfg) w) = ctx_cleared (content (bootloader_ctx_id cfg) w)"
  shows "\<exists>n s1. bl_path m sec slots cfg [EVENT_GET_NEWEST_FIRMWARE, EVENT_BOOTSTRAP, EVENT_FIRST_BOOT, EVENT_STORE_BOOTLAODER_CTX,
      EVENT_GET_NEWEST_NON_BOOTABLE] EVENT_INIT s EVENT_GET_NEWEST_NON_BOOTABLE s1 \<and> newest_of True slots w n \<and> bl_settled n s1 \<and>
    (\<forall>j\<in>ids. content j (bl_world s1) = (if j = bootloader_ctx_id cfg then ctx_cleared (content j w)
      else if j \<in> slot_id ` set (active_slots slots) \<and> j \<noteq> slot_id n then erased (content j w) else content j w)) \<and>
    avail w \<le> avail (bl_world s1) + cost \<and> bl_already_validated s1 = bl_already_validated s \<and>
    bl_cfg_buffer s1 = bl_cfg_buffer s \<and> bl_buffer s1 = bl_buffer s"
proof -
  let ?c = "bootloader_ctx_id cfg" and ?v = "content (bootloader_ctx_id cfg) w"
  have "cost < avail w" using assms(3) by simp
  from bl_start [OF assms(1,2) this assms(4)] obtain n s1 s2 where
    p: "bl_path m sec slots cfg [EVENT_GET_NEWEST_FIRMWARE, EVENT_BOOTSTRAP] EVENT_INIT s EVENT_BOOTSTRAP s1"
    "newest_of True slots w n" "bl_segment m sec slots cfg EVENT_BOOTSTRAP s1 = Some (bl_test_first_boot m s2)"
    and q: "opened (bl_newest_bootable s2) (slot_id n) READ_ONLY (bl_world s2)" "bl_id_newest_bootable s2 = slot_id n"
    "bl_version_bootable s2 = content_version (content (slot_id n) w)"
    "bl_bctx s2 = bootloader_ctx_of_bytes (block 0 sizeof_bootloader_ctx ?v)"
    "opened (bl_bootloader_object s2) ?c WRITE_CHUNK (bl_world s2)"
    "indep (bl_newest_bootable s2) (bl_bootloader_object s2)" "kept w (bl_world s2)"
    "avail w \<le> avail (bl_world s2) + 2 * cost" "bl_already_validated s2 = bl_already_validated s"
    "bl_cfg_buffer s2 = bl_cfg_buffer s" "bl_buffer s2 = bl_buffer s"
    by (elim exE conjE) (rule that)
  note rd = boot_ready_kept [OF assms(1) q(7)]
  have n: "slot_id n \<in> ids" "slot_id n \<noteq> ?c" and c: "?c \<in> ids" "?c \<notin> slot_id ` set (active_slots slots)"
    "sizeof_bootloader_ctx \<le> length ?v"
    using p(2) assms(1) by (auto simp: newest_of_def newest_slot_def boot_ready_def dest: candidate_active)
  have bc: "bl_bctx s2 = bootloader_ctx_of_bytes ?v"
    using q(4) by (simp add: bootloader_ctx_of_bytes_def sizeof_bootloader_ctx_def block_def drop_take)
  have e: "\<forall>x\<in>set (takeWhile (\<lambda>s. slot_id s \<noteq> OBJ_END) slots). slot_id x \<in> ids \<and> erasable (slot_id x) \<and>
      sizeof_manifest \<le> length (content (slot_id x) (bl_world (s2\<lparr>bl_i := 0\<rparr>)))"
    "distinct (map slot_id (takeWhile (\<lambda>s. slot_id s \<noteq> OBJ_END) slots))" "0 < avail (bl_world (s2\<lparr>bl_i := 0\<rparr>))"
    and tw: "takeWhile (\<lambda>s. slot_id s \<noteq> OBJ_END) slots = active_slots slots"
    using rd assms(3,6) q(8) by (auto simp: boot_ready_def)
  from bl_erase_ok [OF e] obtain er ob k w3 where f: "bl_erase_loop m slots (s2\<lparr>bl_i := 0\<rparr>) =
      (EVENT_STORE_BOOTLAODER_CTX, No_Data, s2\<lparr>bl_err := er, bl_obj_t := ob, bl_i := k, bl_world := w3\<rparr>)"
    "\<forall>j\<in>ids. content j w3 = (if j \<in> slot_id ` set (active_slots slots) \<and> j \<noteq> slot_id n then erased (content j w) else content j w)"
    "\<forall>p j md. opened p j md (bl_world s2) \<longrightarrow> opened p j md w3" "avail (bl_world s2) \<le> avail w3"
    using q(2,7) unfolding tw by (auto simp: kept_def)
  let ?b = "bootloader_ctx_bytes ((bootloader_ctx_of_bytes ?v)\<lparr>startup_flags := 0\<rparr>)"
  have wf: "wf_ctx (bootloader_ctx_of_bytes ?v)" using c(3) by (rule wf_ctx_of_bytes)
  then have b: "length ?b = sizeof_bootloader_ctx" by (simp add: wf_ctx_def bootloader_ctx_bytes_def sizeof_bootloader_ctx_def)
  have v3: "content ?c w3 = ?v" using f(2) c(1,2) by simp
  have o3: "opened (bl_bootloader_object s2) ?c WRITE_CHUNK w3" using f(3) q(5) by blast
  have "unat (0 :: address_t) + sizeof_bootloader_ctx \<le> length (content ?c w3)" "sizeof_bootloader_ctx \<le> length ?b"
    "sizeof_bootloader_ctx < 65536" "sizeof_bootloader_ctx = 0 \<longrightarrow> WRITE_CHUNK \<noteq> SEQUENTIAL_REWRITE" "WRITE_CHUNK \<noteq> READ_ONLY"
    using c(3) v3 b by (simp_all add: sizeof_bootloader_ctx_def)
  from memory_write_ok [OF o3 this(5,1-4)] obtain w4 where
    g: "memory_write m (bl_bootloader_object s2) ?b sizeof_bootloader_ctx 0 w3 = (sizeof_bootloader_ctx, w4)"
    "content ?c w4 = ctx_cleared ?v" "\<And>j. j \<in> ids \<Longrightarrow> j \<noteq> ?c \<Longrightarrow> content j w4 = content j w3"
    "\<And>p j md. opened p j md w4 \<longleftrightarrow> opened p j md w3" "avail w4 = avail w3"
    using assms(7) v3 b by (auto simp: ctx_cleared_def)
  obtain w5 where cl: "memory_close m (bl_bootloader_object s2) w4 = (PULL_SUCCESS, w5)"
    "\<And>j. content j w5 = content j w4" "opened (bl_newest_bootable s2) (slot_id n) READ_ONLY w5" "avail w4 + cost \<le> avail w5"
    by (rule memory_close_ok [OF iffD2 [OF g(4) o3]])
      (rule that, assumption, assumption, use q(1,6) f(3) g(4) in blast)
  let ?s3 = "s2\<lparr>bl_err := er, bl_obj_t := ob, bl_i := k, bl_world := w3\<rparr>"
  let ?s4 = "?s3\<lparr>bl_bctx := (bootloader_ctx_of_bytes ?v)\<lparr>startup_flags := 0\<rparr>, bl_world := w5\<rparr>"
  have seg: "bl_segment m sec slots cfg EVENT_BOOTSTRAP s1 = Some (EVENT_FIRST_BOOT, No_Data, s2)"
    "bl_segment m sec slots cfg EVENT_FIRST_BOOT s2 = Some (EVENT_STORE_BOOTLAODER_CTX, No_Data, ?s3)"
    "bl_segment m sec slots cfg EVENT_STORE_BOOTLAODER_CTX ?s3 = Some (EVENT_GET_NEWEST_NON_BOOTABLE, No_Data, ?s4)"
    using p(3) bc assms(5) f(1) g(1) cl(1)
    by (simp_all add: bl_test_first_boot_def bl_segment_def bl_erase_slots_def bl_store_ctx_def bl_close_ctx_def Let_def)
  have "bl_path m sec slots cfg [EVENT_GET_NEWEST_FIRMWARE, EVENT_BOOTSTRAP, EVENT_FIRST_BOOT, EVENT_STORE_BOOTLAODER_CTX,
      EVENT_GET_NEWEST_NON_BOOTABLE] EVENT_INIT s EVENT_GET_NEWEST_NON_BOOTABLE ?s4"
    using bl_path_append [OF p(1) bl_path_Cons [OF seg(1) bl_path_Cons [OF seg(2) bl_path_single [OF seg(3)]]]] by simp
  moreover have ct: "\<forall>j\<in>ids. content j w5 = (if j = ?c then ctx_cleared (content j w)
      else if j \<in> slot_id ` set (active_slots slots) \<and> j \<noteq> slot_id n then erased (content j w) else content j w)"
    using f(2) g(2,3) cl(2) by simp
  moreover have "bl_settled n ?s4" using ct n q(2,3) cl(3) by (simp add: bl_settled_def)
  moreover have "avail w \<le> avail w5 + cost" using q(8) f(4) g(5) cl(4) by simp
  ultimately show ?thesis using p(2) q(9-11) by (intro exI [of _ n] exI [of _ ?s4]) simp
qed

section \<open>Whole runs\<close>

text \<open>From the choice of the newest slot to the end, in both builds.\<close>

definition boot_verdict :: "bootloader_agent_config \<Rightarrow> nat \<Rightarrow> 'w \<Rightarrow> mem_slot_t \<Rightarrow> pull_error" where
  "boot_verdict cfg bl w x = object_verdict sec hash (safestore cfg) bl (content (slot_id x) w)"

definition slot_version :: "'w \<Rightarrow> mem_slot_t \<Rightarrow> version_t" where
  "slot_version w x = content_version (content (slot_id x) w)"

lemma swap_gives_kept: "swap_gives cfg i1 i2 buf w Q \<Longrightarrow> kept w w' \<Longrightarrow> swap_gives cfg i1 i2 buf w' Q"
  unfolding swap_gives_def by (blast intro: kept_trans)

lemma candidates_kept:
  assumes "boot_ready slots cfg w" and "kept w w'"
  shows "newest_of prefer slots w' c \<longleftrightarrow> newest_of prefer slots w c" "oldest_of prefer slots w' c \<longleftrightarrow> oldest_of prefer slots w c"
proof -
  have "content (slot_id x) w' = content (slot_id x) w" if "x \<in> set (candidates prefer slots)" for x
    using that assms(2) boot_ready_slot(1) [OF assms(1)] by (auto simp: kept_def dest: candidate_active)
  then show "newest_of prefer slots w' c \<longleftrightarrow> newest_of prefer slots w c" "oldest_of prefer slots w' c \<longleftrightarrow> oldest_of prefer slots w c"
    by (auto simp: newest_of_def newest_slot_def oldest_of_def oldest_slot_def)
qed

lemma bl_choice_old:
  assumes "boot_ready slots cfg (bl_world s)" and "bl_settled n s" and "0 < avail (bl_world s)"
    and "bl = length (bl_cfg_buffer s)" and "\<not> bl_already_validated s"
    and "verifiable bl (content (slot_id n) (bl_world s))" and "newest_of False slots (bl_world s) u"
    and "slot_version (bl_world s) u \<le> slot_version (bl_world s) n"
  shows "\<exists>s1 s2. bl_path m sec slots cfg [EVENT_VALIDATE_BOOTABLE_START, EVENT_VALIDATE_BOOTABLE_STOP] EVENT_GET_NEWEST_NON_BOOTABLE s
      EVENT_VALIDATE_BOOTABLE_STOP s1 \<and> bl_segment m sec slots cfg EVENT_VALIDATE_BOOTABLE_STOP s1 =
      (if boot_verdict cfg bl (bl_world s) n = PULL_SUCCESS
       then Some (EVENT_BOOT, Boot_Data, s2) else Some (EVENT_VALIDATE_BOOTABLE_FAILURE, Err_Data, s1)) \<and>
    bl_boot_id s2 = slot_id n \<and> kept (bl_world s) (bl_world s1) \<and> bl_world s2 = bl_world s1"
proof -
  from bl_choice [OF assms(1-3)] obtain u' s1 where
    c: "bl_segment m sec slots cfg EVENT_GET_NEWEST_NON_BOOTABLE s = Some (bl_compare s1)"
    "newest_of False slots (bl_world s) u'" "bl_settled n s1"
    "bl_version_non_bootable s1 = content_version (content (slot_id u') (bl_world s))" "kept (bl_world s) (bl_world s1)"
    "bl_already_validated s1 = bl_already_validated s" "bl_cfg_buffer s1 = bl_cfg_buffer s"
    by (elim exE conjE) (rule that)
  have n: "content (slot_id n) (bl_world s1) = content (slot_id n) (bl_world s)"
    using c(3,5) by (simp add: bl_settled_def kept_def)
  have "slot_version (bl_world s) u' \<le> slot_version (bl_world s) u"
    using assms(7) c(2) by (simp add: newest_of_def newest_slot_def slot_version_def)
  then have "\<not> bl_version_bootable s1 < bl_version_non_bootable s1"
    using c(3,4) n assms(8) unfolding bl_settled_def slot_version_def by simp
  from bl_boot_newest [OF c(3) _ _ this, of slots cfg] c(6,7) assms(4-6) n obtain s2 s3 where
    "bl_compare s1 = (EVENT_VALIDATE_BOOTABLE_START, No_Data, s1)"
    "bl_path m sec slots cfg [EVENT_VALIDATE_BOOTABLE_STOP] EVENT_VALIDATE_BOOTABLE_START s1 EVENT_VALIDATE_BOOTABLE_STOP s2"
    "bl_segment m sec slots cfg EVENT_VALIDATE_BOOTABLE_STOP s2 = (if boot_verdict cfg bl (bl_world s) n = PULL_SUCCESS
       then Some (EVENT_BOOT, Boot_Data, s3) else Some (EVENT_VALIDATE_BOOTABLE_FAILURE, Err_Data, s2))"
    "bl_boot_id s3 = slot_id n" "kept (bl_world s1) (bl_world s2)" "bl_world s3 = bl_world s2"
    unfolding boot_verdict_def by auto
  with c(1,5) show ?thesis
    by (intro exI [of _ s2] exI [of _ s3]) (auto intro: bl_path_Cons kept_trans)
qed

lemma bl_choice_new:
  assumes "boot_ready slots cfg (bl_world s)" and "bl_settled n s" and "2 * cost < avail (bl_world s)"
    and "bl = length (bl_cfg_buffer s)" and "swap_id cfg \<in> ids" and "\<And>j v. oeff j SEQUENTIAL_REWRITE v = v"
    and "\<forall>x. newest_of False slots (bl_world s) x \<longrightarrow> verifiable bl (content (slot_id x) (bl_world s))"
    and "\<forall>x. newest_of False slots (bl_world s) x \<longrightarrow> slot_version (bl_world s) n < slot_version (bl_world s) x"
    and "\<forall>x c. newest_of False slots (bl_world s) x \<longrightarrow> oldest_of True slots (bl_world s) c \<longrightarrow>
      swap_gives cfg (slot_id x) (slot_id c) (bl_buffer s) (bl_world s) (Q x c)"
  shows "\<exists>u s1 s2 c s3 s4. newest_of False slots (bl_world s) u \<and>
    bl_path m sec slots cfg [EVENT_VALIDATE_NON_BOOTABLE, EVENT_VALIDATE_NON_BOOTABLE_START, EVENT_VALIDATE_NON_BOOTABLE_STOP]
      EVENT_GET_NEWEST_NON_BOOTABLE s EVENT_VALIDATE_NON_BOOTABLE_STOP s1 \<and> kept (bl_world s) (bl_world s1) \<and>
    bl_err s1 = boot_verdict cfg bl (bl_world s) u \<and> bl_close_source m s1 = (EVENT_UPGRADE, No_Data, s2) \<and>
    bl_path m sec slots cfg [EVENT_UPGRADE_COPY_START, EVENT_UPGRADE_COPY_STOP, EVENT_UPGRADE_SUCCESS]
      EVENT_UPGRADE s2 EVENT_UPGRADE_SUCCESS s3 \<and> oldest_of True slots (bl_world s) c \<and>
    bl_segment m sec slots cfg EVENT_UPGRADE_SUCCESS s3 = Some (EVENT_BOOT, Boot_Data, s4) \<and>
    bl_boot_id s4 = slot_id c \<and> Q u c (bl_world s4)"
proof -
  have av: "0 < avail (bl_world s)" using assms(3) by simp
  from bl_choice [OF assms(1,2) av] obtain u s1 where
    c: "bl_segment m sec slots cfg EVENT_GET_NEWEST_NON_BOOTABLE s = Some (bl_compare s1)"
    "newest_of False slots (bl_world s) u" "bl_settled n s1" "bl_id_newest_non_bootable s1 = slot_id u"
    "bl_version_non_bootable s1 = content_version (content (slot_id u) (bl_world s))" "kept (bl_world s) (bl_world s1)"
    "avail (bl_world s) \<le> avail (bl_world s1)" "bl_cfg_buffer s1 = bl_cfg_buffer s" "bl_buffer s1 = bl_buffer s"
    by (elim exE conjE) (rule that)
  have u: "slot_id u \<in> ids" using c(2) boot_ready_slot(1) [OF assms(1)] by (auto simp: newest_of_def newest_slot_def dest: candidate_active)
  have e: "content (slot_id n) (bl_world s1) = content (slot_id n) (bl_world s)"
    "content (slot_id u) (bl_world s1) = content (slot_id u) (bl_world s)"
    using c(3,6) u by (simp_all add: bl_settled_def kept_def)
  have "bl_version_bootable s1 < bl_version_non_bootable s1"
    using assms(8) [rule_format, OF c(2)] c(3,5) e unfolding bl_settled_def slot_version_def by simp
  moreover have "0 < avail (bl_world s1)" using av c(7) by simp
  ultimately obtain s2 s3 where v: "bl_compare s1 = (EVENT_VALIDATE_NON_BOOTABLE, No_Data, s1)"
    "bl_path m sec slots cfg [EVENT_VALIDATE_NON_BOOTABLE_START, EVENT_VALIDATE_NON_BOOTABLE_STOP] EVENT_VALIDATE_NON_BOOTABLE s1
      EVENT_VALIDATE_NON_BOOTABLE_STOP s2" "kept (bl_world s1) (bl_world s2)"
    "bl_err s2 = boot_verdict cfg bl (bl_world s) u"
    "bl_close_source m s2 = (EVENT_UPGRADE, No_Data, s3)" "bl_settled n s3" "kept (bl_world s1) (bl_world s3)"
    "avail (bl_world s1) \<le> avail (bl_world s3)" "bl_id_newest_non_bootable s3 = slot_id u" "bl_buffer s3 = bl_buffer s"
    using bl_validate_newer [OF c(3,4) u, where slots = slots and cfg = cfg] assms(4) assms(7) [rule_format, OF c(2)] c(8,9) e(2) unfolding boot_verdict_def by auto
  have k: "kept (bl_world s) (bl_world s3)" using c(6) v(7) by (rule kept_trans)
  note rd = boot_ready_kept [OF assms(1) k]
  have "2 * cost < avail (bl_world s3)" using assms(3) c(7) v(8) by simp
  moreover have "swap_gives cfg (slot_id u) (slot_id c) (bl_buffer s3) (bl_world s3) (Q u c)" if "oldest_of True slots (bl_world s3) c" for c
    using that assms(9) [rule_format, OF c(2), of c] v(10) k swap_gives_kept by (simp add: candidates_kept [OF assms(1) k])
  ultimately obtain x s4 s5 where "bl_path m sec slots cfg [EVENT_UPGRADE_COPY_START, EVENT_UPGRADE_COPY_STOP, EVENT_UPGRADE_SUCCESS]
      EVENT_UPGRADE s3 EVENT_UPGRADE_SUCCESS s4" "oldest_of True slots (bl_world s3) x"
    "bl_segment m sec slots cfg EVENT_UPGRADE_SUCCESS s4 = Some (EVENT_BOOT, Boot_Data, s5)"
    "bl_boot_id s5 = slot_id x" "Q u x (bl_world s5)"
    using bl_upgrade_ok [OF rd v(9) u assms(5) _ assms(6), of "Q u"] by metis
  moreover have "bl_path m sec slots cfg
      [EVENT_VALIDATE_NON_BOOTABLE, EVENT_VALIDATE_NON_BOOTABLE_START, EVENT_VALIDATE_NON_BOOTABLE_STOP]
      EVENT_GET_NEWEST_NON_BOOTABLE s EVENT_VALIDATE_NON_BOOTABLE_STOP s2"
    using c(1) v(1,2) by (auto intro: bl_path_Cons)
  ultimately show ?thesis using c(2,6) v(3-5) candidates_kept(2) [OF assms(1) k]
    by (intro exI [of _ u] exI [of _ s2] exI [of _ s3] exI [of _ x] exI [of _ s4] exI [of _ s5]) (auto intro: kept_trans)
qed

lemma dog_events:
  "fold watchdog_event (es @ [EVENT_VALIDATE_BOOTABLE_STOP]) dog" "fold watchdog_event (es @ [EVENT_VALIDATE_NON_BOOTABLE_STOP]) dog"
  "fold watchdog_event (es @ [EVENT_UPGRADE_COPY_STOP, EVENT_UPGRADE_SUCCESS]) dog"
  by (simp_all add: watchdog_event_def)

lemma boot_old_runs:
  assumes "bl_path m sec slots cfg es EVENT_INIT s EVENT_GET_NEWEST_NON_BOOTABLE s1"
    and "\<forall>x\<in>set es. IS_CONTINUE x \<and> x \<noteq> EVENT_BOOT \<and> pull_continue x"
    and "boot_ready slots cfg (bl_world s1)" and "bl_settled n s1" and "0 < avail (bl_world s1)"
    and "bl = length (bl_cfg_buffer s1)" and "\<not> bl_already_validated s1"
    and "verifiable bl (content (slot_id n) (bl_world s1))" and "newest_of False slots (bl_world s1) u"
    and "slot_version (bl_world s1) u \<le> slot_version (bl_world s1) n"
  shows "\<exists>s'. contiki_loop m sec slots cfg EVENT_INIT dog s = Some (if boot_verdict cfg bl (bl_world s1) n = PULL_SUCCESS
      then Load (slot_id n) else Give_Up, True, s') \<and> kept (bl_world s1) (bl_world s') \<and>
    (\<exists>ev d. bl_straight m sec slots cfg EVENT_INIT s = Some (ev, d, s') \<and>
       (boot_verdict cfg bl (bl_world s1) n = PULL_SUCCESS \<longrightarrow> ev = EVENT_BOOT \<and> bl_boot_id s' = slot_id n) \<and>
       (boot_verdict cfg bl (bl_world s1) n \<noteq> PULL_SUCCESS \<longrightarrow> ev = EVENT_VALIDATE_BOOTABLE_FAILURE))"
proof -
  from bl_choice_old [OF assms(3-10)] obtain s2 s3 where
    p: "bl_path m sec slots cfg [EVENT_VALIDATE_BOOTABLE_START, EVENT_VALIDATE_BOOTABLE_STOP] EVENT_GET_NEWEST_NON_BOOTABLE s1
      EVENT_VALIDATE_BOOTABLE_STOP s2" "bl_segment m sec slots cfg EVENT_VALIDATE_BOOTABLE_STOP s2 =
      (if boot_verdict cfg bl (bl_world s1) n = PULL_SUCCESS
       then Some (EVENT_BOOT, Boot_Data, s3) else Some (EVENT_VALIDATE_BOOTABLE_FAILURE, Err_Data, s2))"
    "bl_boot_id s3 = slot_id n" "kept (bl_world s1) (bl_world s2)" "bl_world s3 = bl_world s2"
    by (elim exE conjE) (rule that)
  let ?es = "es @ [EVENT_VALIDATE_BOOTABLE_START, EVENT_VALIDATE_BOOTABLE_STOP]"
  note q = bl_path_append [OF assms(1) p(1)]
  have c: "contiki_loop m sec slots cfg EVENT_INIT dog s = contiki_loop m sec slots cfg EVENT_VALIDATE_BOOTABLE_STOP True s2"
    using contiki_path [OF q, of dog] dog_events(1) [of "es @ [EVENT_VALIDATE_BOOTABLE_START]" dog] assms(2)
    by (simp add: event_range)
  have b: "bl_straight m sec slots cfg EVENT_INIT s = bl_straight m sec slots cfg EVENT_VALIDATE_BOOTABLE_STOP s2"
    using straight_path [OF q] assms(2) by (simp add: event_range)
  show ?thesis
  proof (cases "boot_verdict cfg bl (bl_world s1) n = PULL_SUCCESS")
    case True
    then have g: "bl_segment m sec slots cfg EVENT_VALIDATE_BOOTABLE_STOP s2 = Some (EVENT_BOOT, Boot_Data, s3)" using p(2) by simp
    show ?thesis using True contiki_boot [OF g] straight_stop [OF g] p(3-5) unfolding c b
      by (intro exI [of _ s3]) (simp add: event_range)
  next
    case False
    then have g: "bl_segment m sec slots cfg EVENT_VALIDATE_BOOTABLE_STOP s2 = Some (EVENT_VALIDATE_BOOTABLE_FAILURE, Err_Data, s2)"
      using p(2) by simp
    show ?thesis using False contiki_stop [OF g] straight_stop [OF g] p(4) unfolding c b
      by (intro exI [of _ s2]) (simp add: event_range)
  qed
qed

lemma boot_new_runs:
  assumes "bl_path m sec slots cfg es EVENT_INIT s EVENT_GET_NEWEST_NON_BOOTABLE s1"
    and "\<forall>x\<in>set es. IS_CONTINUE x \<and> x \<noteq> EVENT_BOOT \<and> pull_continue x"
    and "boot_ready slots cfg (bl_world s1)" and "bl_settled n s1" and "2 * cost < avail (bl_world s1)"
    and "bl = length (bl_cfg_buffer s1)" and "swap_id cfg \<in> ids" and "\<And>j v. oeff j SEQUENTIAL_REWRITE v = v"
    and "\<forall>x. newest_of False slots (bl_world s1) x \<longrightarrow> verifiable bl (content (slot_id x) (bl_world s1))"
    and "\<forall>x. newest_of False slots (bl_world s1) x \<longrightarrow> slot_version (bl_world s1) n < slot_version (bl_world s1) x"
    and "\<forall>x c. newest_of False slots (bl_world s1) x \<longrightarrow> oldest_of True slots (bl_world s1) c \<longrightarrow>
      swap_gives cfg (slot_id x) (slot_id c) (bl_buffer s1) (bl_world s1) (Q x c)"
  shows "\<exists>u out s'. newest_of False slots (bl_world s1) u \<and> contiki_loop m sec slots cfg EVENT_INIT dog s = Some (out, True, s') \<and>
    (if boot_verdict cfg bl (bl_world s1) u = PULL_SUCCESS
     then \<exists>c. oldest_of True slots (bl_world s1) c \<and> out = Load (slot_id c) \<and> Q u c (bl_world s')
     else out = Give_Up \<and> kept (bl_world s1) (bl_world s')) \<and>
    (\<exists>c s'. bl_straight m sec slots cfg EVENT_INIT s = Some (EVENT_BOOT, Boot_Data, s') \<and> oldest_of True slots (bl_world s1) c \<and>
       bl_boot_id s' = slot_id c \<and> Q u c (bl_world s'))"
proof -
  from bl_choice_new [OF assms(3-11)] obtain u s2 s3 c s4 s5 where
    p: "newest_of False slots (bl_world s1) u"
    "bl_path m sec slots cfg [EVENT_VALIDATE_NON_BOOTABLE, EVENT_VALIDATE_NON_BOOTABLE_START, EVENT_VALIDATE_NON_BOOTABLE_STOP]
      EVENT_GET_NEWEST_NON_BOOTABLE s1 EVENT_VALIDATE_NON_BOOTABLE_STOP s2" "kept (bl_world s1) (bl_world s2)"
    "bl_err s2 = boot_verdict cfg bl (bl_world s1) u" "bl_close_source m s2 = (EVENT_UPGRADE, No_Data, s3)"
    "bl_path m sec slots cfg [EVENT_UPGRADE_COPY_START, EVENT_UPGRADE_COPY_STOP, EVENT_UPGRADE_SUCCESS]
      EVENT_UPGRADE s3 EVENT_UPGRADE_SUCCESS s4" "oldest_of True slots (bl_world s1) c"
    "bl_segment m sec slots cfg EVENT_UPGRADE_SUCCESS s4 = Some (EVENT_BOOT, Boot_Data, s5)"
    "bl_boot_id s5 = slot_id c" "Q u c (bl_world s5)"
    by (elim exE conjE) (rule that)
  note q = bl_path_append [OF assms(1) p(2)]
  have ct: "contiki_loop m sec slots cfg EVENT_INIT dog s = contiki_loop m sec slots cfg EVENT_VALIDATE_NON_BOOTABLE_STOP True s2"
    using contiki_path [OF q, of dog] assms(2)
      dog_events(2) [of "es @ [EVENT_VALIDATE_NON_BOOTABLE, EVENT_VALIDATE_NON_BOOTABLE_START]" dog]
    by (simp add: event_range)
  have b: "bl_straight m sec slots cfg EVENT_INIT s = bl_straight m sec slots cfg EVENT_VALIDATE_NON_BOOTABLE_STOP s2"
    using straight_path [OF q] assms(2) by (simp add: event_range)
  have tail: "bl_straight m sec slots cfg EVENT_UPGRADE s3 = Some (EVENT_BOOT, Boot_Data, s5)"
    using straight_path [OF p(6)] straight_stop [OF p(8)] by (simp add: event_range)
  have ctail: "contiki_loop m sec slots cfg EVENT_UPGRADE d s3 = Some (Load (slot_id c), True, s5)" for d
    using contiki_path [OF p(6), of d] contiki_boot [OF p(8), of True] dog_events(3) [of "[EVENT_UPGRADE_COPY_START]" d] p(9)
    by (simp add: event_range)
  show ?thesis
  proof (cases "boot_verdict cfg bl (bl_world s1) u = PULL_SUCCESS")
    case True
    then have g: "bl_segment m sec slots cfg EVENT_VALIDATE_NON_BOOTABLE_STOP s2 = Some (EVENT_UPGRADE, No_Data, s3)"
      using p(4,5) by (simp add: bl_segment_def)
    have "bl_straight m sec slots cfg EVENT_INIT s = Some (EVENT_BOOT, Boot_Data, s5)"
      unfolding b using straight_path [OF bl_path_single [OF g]] tail by (simp add: event_range)
    moreover have "contiki_loop m sec slots cfg EVENT_INIT dog s = Some (Load (slot_id c), True, s5)"
      unfolding ct using contiki_path [OF bl_path_single [OF g]] ctail by (simp add: event_range)
    ultimately show ?thesis using True p(1,7,9,10) by (intro exI [of _ u] exI [of _ "Load (slot_id c)"] exI [of _ s5]) auto
  next
    case False
    then have g: "bl_segment m sec slots cfg EVENT_VALIDATE_NON_BOOTABLE_STOP s2 = Some (EVENT_VALIDATE_NON_BOOTABLE_INVALID, Err_Data, s2)"
      using p(4) by (simp add: bl_segment_def)
    have h: "bl_segment m sec slots cfg EVENT_VALIDATE_NON_BOOTABLE_INVALID s2 = Some (EVENT_UPGRADE, No_Data, s3)"
      using p(5) by (simp add: bl_segment_def)
    have "bl_straight m sec slots cfg EVENT_INIT s = Some (EVENT_BOOT, Boot_Data, s5)"
      unfolding b using straight_path [OF bl_path_Cons [OF g bl_path_single [OF h]]] tail by (simp add: event_range)
    moreover have "contiki_loop m sec slots cfg EVENT_INIT dog s = Some (Give_Up, True, s2)"
      unfolding ct using contiki_stop [OF g] by (simp add: event_range)
    ultimately show ?thesis using False p(1,3,7,9,10) by (intro exI [of _ u] exI [of _ Give_Up] exI [of _ s2]) auto
  qed
qed

end

end
