(* ===== verification/Boot_Posix.thy ===== *)
theory Boot_Posix
  imports Bootloader_Agent Device_Posix
begin

unbundle bit_operations_syntax

text \<open>
  The bootloader agent over files with the TinyCrypt wrappers: what the runners of Contiki-NG (coroutines) and of RIOT
  and Zephyr (one straight call) load, and what is in the slots afterwards.
\<close>

section \<open>Conditions on the files\<close>

text \<open>
  The slots of the table are distinct files, the first bootable; each can be verified with a buffer of length \<open>bl\<close> and
  has room for the firmware of any other; the context and the swap object are further files of sufficient length, and
  four descriptors are free.
\<close>

definition posix_bootable :: "mem_slot_t list \<Rightarrow> bootloader_agent_config \<Rightarrow> nat \<Rightarrow> posix_fs \<Rightarrow> bool" where
  "posix_bootable slots cfg bl w \<longleftrightarrow> active_slots slots \<noteq> [] \<and> bootable (hd (active_slots slots)) \<and>
     distinct (map slot_id (active_slots slots)) \<and> takeWhile (\<lambda>s. slot_id s \<noteq> OBJ_END) slots = active_slots slots \<and>
     (\<forall>x\<in>set (active_slots slots). slot_id x \<in> posix_valid_ids - {bootloader_ctx_id cfg, swap_id cfg} \<and>
        verifiable bl (posix_content (slot_id x) w) \<and> unat (content_fw_size (posix_content (slot_id x) w)) < 2 ^ 31 \<and>
        (\<forall>y\<in>set (active_slots slots). unat (content_fw_size (posix_content (slot_id y) w)) \<le> length (posix_content (slot_id x) w))) \<and>
     bootloader_ctx_id cfg \<in> posix_valid_ids \<and> sizeof_bootloader_ctx \<le> length (posix_content (bootloader_ctx_id cfg) w) \<and>
     swap_id cfg \<in> posix_valid_ids \<and> 0 < swap_size cfg \<and> swap_size cfg \<le> length (posix_content (swap_id cfg) w) \<and>
     swap_size cfg < 2 ^ 31 \<and> 3 < posix_avail w"

definition is_first_boot :: "byte list \<Rightarrow> bool" where
  "is_first_boot v \<longleftrightarrow> startup_flags (bootloader_ctx_of_bytes v) AND FIRST_BOOT = FIRST_BOOT"

text \<open>The objects \<open>i\<close> and \<open>j\<close> have exchanged the longer of their firmwares; only \<open>k\<close> may differ otherwise.\<close>

definition exchanged :: "posix_fs \<Rightarrow> posix_fs \<Rightarrow> mem_id_t \<Rightarrow> mem_id_t \<Rightarrow> mem_id_t \<Rightarrow> bool" where
  "exchanged w w' i j k \<longleftrightarrow> (let N = max (unat (content_fw_size (posix_content i w))) (unat (content_fw_size (posix_content j w))) in
     posix_content i w' = take N (posix_content j w) @ drop N (posix_content i w) \<and>
     posix_content j w' = take N (posix_content i w) @ drop N (posix_content j w) \<and>
     (\<forall>h\<in>posix_valid_ids - {i, j, k}. posix_content h w' = posix_content h w))"

definition unchanged :: "posix_fs \<Rightarrow> posix_fs \<Rightarrow> bool" where
  "unchanged w w' \<longleftrightarrow> (\<forall>j\<in>posix_valid_ids. posix_content j w' = posix_content j w)"

section \<open>The contract of the agent on files\<close>

context tinycrypt_sha
begin

lemma kept_files: "on_files.kept w w' \<longleftrightarrow> unchanged w w'"
  by (simp add: on_files.kept_def unchanged_def)

lemma ready_files: "posix_bootable slots cfg bl w \<Longrightarrow> on_files.boot_ready slots cfg w"
  by (auto simp: posix_bootable_def on_files.boot_ready_def verifiable_def)

lemma newest_files: "on_files.newest_of prefer slots w c \<longleftrightarrow> newest_slot prefer slots (\<lambda>j. posix_content j w) c"
  by (simp add: on_files.newest_of_def)

lemma oldest_files: "on_files.oldest_of prefer slots w c \<longleftrightarrow> oldest_slot prefer slots (\<lambda>j. posix_content j w) c"
  by (simp add: on_files.oldest_of_def)

lemma bootable_unchanged: "unchanged w w' \<Longrightarrow> posix_bootable slots cfg bl w \<Longrightarrow> 3 < posix_avail w' \<Longrightarrow> posix_bootable slots cfg bl w'"
  by (auto simp: posix_bootable_def unchanged_def)

lemma swap_files:
  assumes "posix_bootable slots cfg bl w" and "x \<in> set (active_slots slots)" and "c \<in> set (active_slots slots)"
    and "slot_id x \<noteq> slot_id c" and "0 < length buf" and "length buf < 65536"
  shows "on_files.swap_gives cfg (slot_id x) (slot_id c) buf w
    (\<lambda>w'. exchanged w w' (slot_id x) (slot_id c) (swap_id cfg))"
  unfolding on_files.swap_gives_def
proof (intro conjI allI impI)
  fix a b assume "exchanged w a (slot_id x) (slot_id c) (swap_id cfg)" "on_files.kept a b"
  then show "exchanged w b (slot_id x) (slot_id c) (swap_id cfg)"
    using assms(1-3) by (auto simp: exchanged_def kept_files unchanged_def posix_bootable_def Let_def)
next
  fix o1 o2 os w1
  assume o: "posix_opened o1 (slot_id x) SEQUENTIAL_REWRITE w1" "posix_opened o2 (slot_id c) SEQUENTIAL_REWRITE w1"
    "posix_opened os (swap_id cfg) SEQUENTIAL_REWRITE w1" and "on_files.kept w w1"
  then have e: "posix_content j w1 = posix_content j w" if "j \<in> posix_valid_ids" for j
    using that by (simp add: kept_files unchanged_def)
  have v: "slot_id x \<in> posix_valid_ids" "slot_id c \<in> posix_valid_ids" "swap_id cfg \<in> posix_valid_ids"
    "distinct [slot_id x, slot_id c, swap_id cfg]"
    using assms(1-4) by (auto simp: posix_bootable_def)
  let ?N = "max (unat (content_fw_size (posix_content (slot_id x) w))) (unat (content_fw_size (posix_content (slot_id c) w)))"
  have l: "?N < 2 ^ 31" "?N \<le> length (posix_content (slot_id x) w)" "?N \<le> length (posix_content (slot_id c) w)"
    "sizeof_manifest \<le> length (posix_content (slot_id x) w)" "sizeof_manifest \<le> length (posix_content (slot_id c) w)"
    "0 < swap_size cfg" "swap_size cfg \<le> length (posix_content (swap_id cfg) w)" "swap_size cfg < 2 ^ 31"
    using assms(1-3) by (auto simp: posix_bootable_def verifiable_def)
  have ex: "posix.exact i SEQUENTIAL_REWRITE" for i by (rule posix_exact) simp
  from posix.swap_slots_ok [OF o ex ex ex v assms(5,6), where N = ?N and sw = "swap_size cfg"] l e v obtain buf' w2 where
    "swap_slots posix_iface o1 o2 os (swap_size cfg) buf w1 = Some (PULL_SUCCESS, buf', w2)"
    "posix_content (slot_id x) w2 = take ?N (posix_content (slot_id c) w) @ drop ?N (posix_content (slot_id x) w)"
    "posix_content (slot_id c) w2 = take ?N (posix_content (slot_id x) w) @ drop ?N (posix_content (slot_id c) w)"
    "\<forall>h\<in>posix_valid_ids - {slot_id x, slot_id c, swap_id cfg}. posix_content h w2 = posix_content h w1"
    "\<forall>p h md. posix_opened p h md w2 \<longleftrightarrow> posix_opened p h md w1" by auto
  then show "\<exists>buf' w2. swap_slots posix_iface o1 o2 os (swap_size cfg) buf w1 = Some (PULL_SUCCESS, buf', w2) \<and>
      exchanged w w2 (slot_id x) (slot_id c) (swap_id cfg) \<and> (\<forall>p j md. posix_opened p j md w2 \<longleftrightarrow> posix_opened p j md w1)"
    using e by (auto simp: exchanged_def Let_def)
qed

lemma normal_files:
  assumes "posix_bootable slots cfg (length buf) (bl_world s)" and "wf_ctx (bl_bctx s)" and "\<not> bl_already_validated s"
    and "\<not> is_first_boot (posix_content (bootloader_ctx_id cfg) (bl_world s))"
  shows "\<exists>n s1. bl_path posix_iface (tinycrypt_iface lib c0) slots cfg
      [EVENT_GET_NEWEST_FIRMWARE, EVENT_BOOTSTRAP, EVENT_GET_NEWEST_NON_BOOTABLE] EVENT_INIT (bootloader_agent_set_buffer buf s)
      EVENT_GET_NEWEST_NON_BOOTABLE s1 \<and> newest_slot True slots (\<lambda>j. posix_content j (bl_world s)) n \<and> on_files.bl_settled n s1 \<and>
    unchanged (bl_world s) (bl_world s1) \<and> 2 < posix_avail (bl_world s1) \<and> \<not> bl_already_validated s1 \<and>
    length (bl_cfg_buffer s1) = length buf \<and> bl_buffer s1 = bl_buffer s"
proof -
  have "1 < posix_avail (bl_world s)" using assms(1) by (simp add: posix_bootable_def)
  moreover have "3 < posix_avail (bl_world s)" using assms(1) by (simp add: posix_bootable_def)
  moreover have "bl_world (bootloader_agent_set_buffer buf s) = bl_world s" "bl_bctx (bootloader_agent_set_buffer buf s) = bl_bctx s"
    by (simp_all add: bootloader_agent_set_buffer_def)
  ultimately obtain n s1 where "bl_path posix_iface (tinycrypt_iface lib c0) slots cfg
      [EVENT_GET_NEWEST_FIRMWARE, EVENT_BOOTSTRAP, EVENT_GET_NEWEST_NON_BOOTABLE] EVENT_INIT (bootloader_agent_set_buffer buf s)
      EVENT_GET_NEWEST_NON_BOOTABLE s1" "newest_slot True slots (\<lambda>j. posix_content j (bl_world s)) n" "on_files.bl_settled n s1"
    "unchanged (bl_world s) (bl_world s1)" "posix_avail (bl_world s) \<le> posix_avail (bl_world s1) + 1"
    "bl_already_validated s1 = bl_already_validated (bootloader_agent_set_buffer buf s)"
    "bl_cfg_buffer s1 = bl_cfg_buffer (bootloader_agent_set_buffer buf s)" "bl_buffer s1 = bl_buffer (bootloader_agent_set_buffer buf s)"
    using on_files.bl_normal_start [OF ready_files [OF assms(1)], of "bootloader_agent_set_buffer buf s" c0] assms(2,4)
    unfolding newest_files kept_files is_first_boot_def by auto
  with assms(3) \<open>3 < posix_avail (bl_world s)\<close> show ?thesis
    by (intro exI [of _ n] exI [of _ s1]) (simp add: bootloader_agent_set_buffer_def)
qed

lemma ids_differ:
  assumes "newest_slot True slots V n" and "newest_slot False slots V x" and "oldest_slot True slots V c"
    and "content_version (V (slot_id n)) < content_version (V (slot_id x))"
  shows "slot_id x \<noteq> slot_id c"
  using assms by (force simp: newest_slot_def oldest_slot_def)

text \<open>The part that both builds share where there is a newer image.\<close>

lemma new_files:
  assumes "posix_bootable slots cfg (length buf) (bl_world s)" and "wf_ctx (bl_bctx s)" and "\<not> bl_already_validated s"
    and "\<not> is_first_boot (posix_content (bootloader_ctx_id cfg) (bl_world s))" and "length (bl_buffer s) = BL_BUFFER_SIZE"
    and "V = (\<lambda>j. posix_content j (bl_world s))" and "newest_slot True slots V n" and "newest_slot False slots V u"
    and "content_version (V (slot_id n)) < content_version (V (slot_id u))"
  shows "\<exists>u out s'. newest_slot False slots V u \<and>
    contiki_bootloader posix_iface (tinycrypt_iface lib c0) slots cfg buf dog s = Some (out, True, s') \<and>
    (if object_verdict (tinycrypt_iface lib c0) hash (safestore cfg) (length buf) (V (slot_id u)) = PULL_SUCCESS
     then \<exists>c. oldest_slot True slots V c \<and> out = Load (slot_id c) \<and>
       exchanged (bl_world s) (bl_world s') (slot_id u) (slot_id c) (swap_id cfg)
     else out = Give_Up \<and> unchanged (bl_world s) (bl_world s')) \<and>
    (\<exists>c s'. bootloader_agent posix_iface (tinycrypt_iface lib c0) slots cfg (bootloader_agent_set_buffer buf s) =
         Some (EVENT_BOOT, Boot_Data, s') \<and> oldest_slot True slots V c \<and>
       bl_boot_id s' = slot_id c \<and> exchanged (bl_world s) (bl_world s') (slot_id u) (slot_id c) (swap_id cfg))"
proof -
  from normal_files [OF assms(1-4), of c0] obtain n' s1 where
    p: "bl_path posix_iface (tinycrypt_iface lib c0) slots cfg
      [EVENT_GET_NEWEST_FIRMWARE, EVENT_BOOTSTRAP, EVENT_GET_NEWEST_NON_BOOTABLE] EVENT_INIT (bootloader_agent_set_buffer buf s)
      EVENT_GET_NEWEST_NON_BOOTABLE s1" "newest_slot True slots V n'" "on_files.bl_settled n' s1"
    "unchanged (bl_world s) (bl_world s1)" "2 < posix_avail (bl_world s1)" "length (bl_cfg_buffer s1) = length buf"
    "bl_buffer s1 = bl_buffer s" unfolding assms(6) by blast
  have rd: "on_files.boot_ready slots cfg (bl_world s)" using assms(1) by (rule ready_files)
  have k: "on_files.kept (bl_world s) (bl_world s1)" using p(4) by (simp add: kept_files)
  have act: "newest_slot pr slots V x \<Longrightarrow> x \<in> set (active_slots slots)" "oldest_slot pr slots V x \<Longrightarrow> x \<in> set (active_slots slots)" for pr x
    by (auto simp: newest_slot_def oldest_slot_def candidates_def)
  have cn: "on_files.newest_of pr slots (bl_world s1) x \<longleftrightarrow> newest_slot pr slots V x"
    "on_files.oldest_of pr slots (bl_world s1) x \<longleftrightarrow> oldest_slot pr slots V x" for pr x
    using on_files.candidates_kept [OF rd k] newest_files oldest_files assms(6) by simp_all
  have vn: "content_version (V (slot_id n')) < content_version (V (slot_id x))" if "newest_slot False slots V x" for x
    using that assms(7-9) p(2) by (force simp: newest_slot_def candidates_def)
  have e: "posix_content (slot_id x) (bl_world s1) = V (slot_id x)" if "x \<in> set (active_slots slots)" for x
    using that k on_files.boot_ready_slot(1) [OF rd] assms(6) by (simp add: on_files.kept_def)
  have h1: "\<forall>x. on_files.newest_of False slots (bl_world s1) x \<longrightarrow> verifiable (length (bl_cfg_buffer s1)) (posix_content (slot_id x) (bl_world s1))"
    using assms(1,6) e act(1) p(6) unfolding cn by (auto simp: posix_bootable_def)
  have h2: "\<forall>x. on_files.newest_of False slots (bl_world s1) x \<longrightarrow>
      on_files.slot_version (bl_world s1) n' < on_files.slot_version (bl_world s1) x"
    using vn e act(1) p(2) unfolding cn on_files.slot_version_def by auto
  have h3: "\<forall>x c. on_files.newest_of False slots (bl_world s1) x \<longrightarrow> on_files.oldest_of True slots (bl_world s1) c \<longrightarrow>
      on_files.swap_gives cfg (slot_id x) (slot_id c) (bl_buffer s1) (bl_world s1)
        (\<lambda>w'. exchanged (bl_world s) w' (slot_id x) (slot_id c) (swap_id cfg))"
    unfolding cn
  proof (intro allI impI)
    fix x c assume x: "newest_slot False slots V x" "oldest_slot True slots V c"
    have "on_files.swap_gives cfg (slot_id x) (slot_id c) (bl_buffer s) (bl_world s)
        (\<lambda>w'. exchanged (bl_world s) w' (slot_id x) (slot_id c) (swap_id cfg))"
      using swap_files [OF assms(1) act(1) [OF x(1)] act(2) [OF x(2)] ids_differ [OF p(2) x vn [OF x(1)]], of "bl_buffer s"] assms(5)
      by (simp add: BL_BUFFER_SIZE_def)
    then show "on_files.swap_gives cfg (slot_id x) (slot_id c) (bl_buffer s1) (bl_world s1)
        (\<lambda>w'. exchanged (bl_world s) w' (slot_id x) (slot_id c) (swap_id cfg))"
      unfolding p(7) using k by (rule on_files.swap_gives_kept)
  qed
  have ids: "swap_id cfg \<in> posix_valid_ids" using assms(1) by (simp add: posix_bootable_def)
  have ev: "\<forall>x\<in>set [EVENT_GET_NEWEST_FIRMWARE, EVENT_BOOTSTRAP, EVENT_GET_NEWEST_NON_BOOTABLE].
      IS_CONTINUE x \<and> x \<noteq> EVENT_BOOT \<and> pull_continue x" by (simp add: event_range)
  have av: "2 * 1 < posix_avail (bl_world s1)" using p(5) by simp
  have uc: "unchanged (bl_world s1) w' \<longleftrightarrow> unchanged (bl_world s) w'" for w' using p(4) by (auto simp: unchanged_def)
  from on_files.boot_new_runs [OF p(1) ev on_files.boot_ready_kept [OF rd k] p(3) av refl ids refl h1 h2 h3, of dog]
  obtain u out s' where u: "newest_slot False slots V u"
    "contiki_loop posix_iface (tinycrypt_iface lib c0) slots cfg EVENT_INIT dog (bootloader_agent_set_buffer buf s) = Some (out, True, s')"
    "if object_verdict (tinycrypt_iface lib c0) hash (safestore cfg) (length buf) (posix_content (slot_id u) (bl_world s1)) = PULL_SUCCESS
     then \<exists>c. oldest_slot True slots V c \<and> out = Load (slot_id c) \<and>
       exchanged (bl_world s) (bl_world s') (slot_id u) (slot_id c) (swap_id cfg)
     else out = Give_Up \<and> unchanged (bl_world s) (bl_world s')"
    "\<exists>c s'. bl_straight posix_iface (tinycrypt_iface lib c0) slots cfg EVENT_INIT (bootloader_agent_set_buffer buf s) =
         Some (EVENT_BOOT, Boot_Data, s') \<and> oldest_slot True slots V c \<and>
       bl_boot_id s' = slot_id c \<and> exchanged (bl_world s) (bl_world s') (slot_id u) (slot_id c) (swap_id cfg)"
    unfolding cn kept_files on_files.boot_verdict_def p(6) uc by (elim exE conjE) (rule that, assumption+, blast)
  show ?thesis
    by (rule exI [of _ u], rule exI [of _ out], rule exI [of _ s'])
      (use u e [OF act(1) [OF u(1)]] in \<open>simp add: contiki_bootloader_def bootloader_agent_def\<close>)
qed

lemma old_files:
  assumes "posix_bootable slots cfg (length buf) (bl_world s)" and "wf_ctx (bl_bctx s)" and "\<not> bl_already_validated s"
    and "\<not> is_first_boot (posix_content (bootloader_ctx_id cfg) (bl_world s))"
    and "V = (\<lambda>j. posix_content j (bl_world s))" and "newest_slot True slots V n0" and "newest_slot False slots V u"
    and "content_version (V (slot_id u)) \<le> content_version (V (slot_id n0))"
  shows "\<exists>n s'. newest_slot True slots V n \<and> unchanged (bl_world s) (bl_world s') \<and>
    contiki_bootloader posix_iface (tinycrypt_iface lib c0) slots cfg buf dog s =
      Some (if object_verdict (tinycrypt_iface lib c0) hash (safestore cfg) (length buf) (V (slot_id n)) = PULL_SUCCESS
        then Load (slot_id n) else Give_Up, True, s') \<and>
    riot_bootloader posix_iface (tinycrypt_iface lib c0) slots cfg buf s =
      Some (if object_verdict (tinycrypt_iface lib c0) hash (safestore cfg) (length buf) (V (slot_id n)) = PULL_SUCCESS
        then Load (slot_id n) else Give_Up, s')"
proof -
  from normal_files [OF assms(1-4), of c0] obtain n s1 where
    p: "bl_path posix_iface (tinycrypt_iface lib c0) slots cfg
      [EVENT_GET_NEWEST_FIRMWARE, EVENT_BOOTSTRAP, EVENT_GET_NEWEST_NON_BOOTABLE] EVENT_INIT (bootloader_agent_set_buffer buf s)
      EVENT_GET_NEWEST_NON_BOOTABLE s1" "newest_slot True slots V n" "on_files.bl_settled n s1"
    "unchanged (bl_world s) (bl_world s1)" "2 < posix_avail (bl_world s1)" "\<not> bl_already_validated s1"
    "length (bl_cfg_buffer s1) = length buf" unfolding assms(5) by blast
  have rd: "on_files.boot_ready slots cfg (bl_world s)" using assms(1) by (rule ready_files)
  have k: "on_files.kept (bl_world s) (bl_world s1)" using p(4) by (simp add: kept_files)
  have act: "x \<in> set (active_slots slots)" if "newest_slot pr slots V x" for pr x
    using that by (auto simp: newest_slot_def candidates_def)
  have e: "posix_content (slot_id x) (bl_world s1) = V (slot_id x)" if "x \<in> set (active_slots slots)" for x
    using that k on_files.boot_ready_slot(1) [OF rd] assms(5) by (simp add: on_files.kept_def)
  have "verifiable (length buf) (posix_content (slot_id n) (bl_world s1))"
    using assms(1,5) e act [OF p(2)] by (simp add: posix_bootable_def)
  moreover have "on_files.newest_of False slots (bl_world s1) u"
    using on_files.candidates_kept(1) [OF rd k] newest_files assms(5,7) by simp
  moreover have "content_version (V (slot_id n0)) \<le> content_version (V (slot_id n))"
    using assms(6) p(2) by (simp add: newest_slot_def)
  then have "on_files.slot_version (bl_world s1) u \<le> on_files.slot_version (bl_world s1) n"
    using assms(8) e act [OF p(2)] act [OF assms(7)] by (simp add: on_files.slot_version_def)
  moreover have "0 < posix_avail (bl_world s1)" using p(5) by simp
  moreover have "\<forall>x\<in>set [EVENT_GET_NEWEST_FIRMWARE, EVENT_BOOTSTRAP, EVENT_GET_NEWEST_NON_BOOTABLE].
      IS_CONTINUE x \<and> x \<noteq> EVENT_BOOT \<and> pull_continue x" by (simp add: event_range)
  ultimately obtain s' ev d where r: "contiki_loop posix_iface (tinycrypt_iface lib c0) slots cfg EVENT_INIT dog
      (bootloader_agent_set_buffer buf s) = Some (if on_files.boot_verdict c0 cfg (length buf) (bl_world s1) n = PULL_SUCCESS
      then Load (slot_id n) else Give_Up, True, s')" "unchanged (bl_world s1) (bl_world s')"
    "bl_straight posix_iface (tinycrypt_iface lib c0) slots cfg EVENT_INIT (bootloader_agent_set_buffer buf s) = Some (ev, d, s')"
    "on_files.boot_verdict c0 cfg (length buf) (bl_world s1) n = PULL_SUCCESS \<longrightarrow> ev = EVENT_BOOT \<and> bl_boot_id s' = slot_id n"
    "on_files.boot_verdict c0 cfg (length buf) (bl_world s1) n \<noteq> PULL_SUCCESS \<longrightarrow> ev = EVENT_VALIDATE_BOOTABLE_FAILURE"
    using on_files.boot_old_runs [OF p(1) _ on_files.boot_ready_kept [OF rd k] p(3) _ _ p(6), of "length buf" u dog] p(7)
    unfolding kept_files by metis
  have "unchanged (bl_world s) (bl_world s')" using p(4) r(2) by (auto simp: unchanged_def)
  with r p(2) show ?thesis unfolding on_files.boot_verdict_def e [OF act [OF p(2)]]
    by (intro exI [of _ n] exI [of _ s'])
      (auto simp: contiki_bootloader_def riot_bootloader_def bootloader_agent_def event_range)
qed

lemma first_files:
  assumes "posix_bootable slots cfg (length buf) (bl_world s)" and "wf_ctx (bl_bctx s)" and "\<not> bl_already_validated s"
    and "is_first_boot (posix_content (bootloader_ctx_id cfg) (bl_world s))" and "V = (\<lambda>j. posix_content j (bl_world s))"
  shows "\<exists>n s'. newest_slot True slots V n \<and>
    contiki_bootloader posix_iface (tinycrypt_iface lib c0) slots cfg buf dog s =
      Some (if object_verdict (tinycrypt_iface lib c0) hash (safestore cfg) (length buf) (V (slot_id n)) = PULL_SUCCESS
        then Load (slot_id n) else Give_Up, True, s') \<and>
    riot_bootloader posix_iface (tinycrypt_iface lib c0) slots cfg buf s =
      Some (if object_verdict (tinycrypt_iface lib c0) hash (safestore cfg) (length buf) (V (slot_id n)) = PULL_SUCCESS
        then Load (slot_id n) else Give_Up, s') \<and>
    (\<forall>j\<in>posix_valid_ids. posix_content j (bl_world s') = (if j = bootloader_ctx_id cfg then ctx_cleared (V j)
      else if j \<in> slot_id ` set (active_slots slots) \<and> j \<noteq> slot_id n then erased (V j) else V j))"
proof -
  have rd: "on_files.boot_ready slots cfg (bl_world s)" using assms(1) by (rule ready_files)
  let ?s = "bootloader_agent_set_buffer buf s" and ?c = "bootloader_ctx_id cfg"
  have s: "bl_world ?s = bl_world s" "bl_bctx ?s = bl_bctx s" "bl_cfg_buffer ?s = buf" "bl_already_validated ?s = bl_already_validated s"
    by (simp_all add: bootloader_agent_set_buffer_def)
  have l: "sizeof_bootloader_ctx \<le> length (V ?c)" and av: "3 < posix_avail (bl_world s)" and cv: "?c \<in> posix_valid_ids"
    using assms(1,5) by (simp_all add: posix_bootable_def)
  have lc: "length (bootloader_ctx_bytes ((bootloader_ctx_of_bytes (V ?c))\<lparr>startup_flags := 0\<rparr>)) = sizeof_bootloader_ctx"
    using wf_ctx_of_bytes [OF l] by (simp add: wf_ctx_def bootloader_ctx_bytes_def sizeof_bootloader_ctx_def)
  have er: "\<forall>x\<in>set (active_slots slots). on_files.erasable (slot_id x)"
    by (simp add: on_files.erasable_def erased_def splice_at_0)
  have we: "splice_at 0 (take sizeof_bootloader_ctx (ctx_cleared (posix_content ?c (bl_world s)))) (posix_content ?c (bl_world s)) =
      ctx_cleared (posix_content ?c (bl_world s))"
    using lc l assms(5) by (simp add: ctx_cleared_def splice_at_0)
  have "2 * 1 < posix_avail (bl_world s)" "wf_ctx (bl_bctx ?s)" using av assms(2) s(2) by simp_all
  from on_files.bl_first_start [OF rd s(1) this _ er we, of c0] assms(4) obtain n s1 where
    p: "bl_path posix_iface (tinycrypt_iface lib c0) slots cfg [EVENT_GET_NEWEST_FIRMWARE, EVENT_BOOTSTRAP, EVENT_FIRST_BOOT,
      EVENT_STORE_BOOTLAODER_CTX, EVENT_GET_NEWEST_NON_BOOTABLE] EVENT_INIT ?s EVENT_GET_NEWEST_NON_BOOTABLE s1"
    "newest_slot True slots V n" "on_files.bl_settled n s1"
    "\<forall>j\<in>posix_valid_ids. posix_content j (bl_world s1) = (if j = ?c then ctx_cleared (V j)
      else if j \<in> slot_id ` set (active_slots slots) \<and> j \<noteq> slot_id n then erased (V j) else V j)"
    "posix_avail (bl_world s) \<le> posix_avail (bl_world s1) + 1" "\<not> bl_already_validated s1" "bl_cfg_buffer s1 = buf"
    using assms(3) s unfolding newest_files is_first_boot_def assms(5) by auto
  have av1: "0 < posix_avail (bl_world s1)" using p(5) av by simp
  have act: "n \<in> set (active_slots slots)" using p(2) by (auto simp: newest_slot_def candidates_def)
  have sl: "slot_id x \<in> posix_valid_ids" "slot_id x \<noteq> ?c" "sizeof_manifest \<le> length (V (slot_id x))" "verifiable (length buf) (V (slot_id x))"
    if "x \<in> set (active_slots slots)" for x
    using that assms(1,5) by (auto simp: posix_bootable_def verifiable_def)
  have cn: "posix_content (slot_id x) (bl_world s1) = (if slot_id x = slot_id n then V (slot_id x) else erased (V (slot_id x)))"
    if "x \<in> set (active_slots slots)" for x using p(4) sl(1,2) [OF that] that by auto
  have rd1: "on_files.boot_ready slots cfg (bl_world s1)"
    using rd p(4) cv l lc sl(1,2,3) cn assms(5) by (auto simp: on_files.boot_ready_def erased_def ctx_cleared_def)
  have zero: "content_version (erased v) = 0" for v
    using zero_manifest_version
    by (simp add: erased_def content_version_def content_manifest_def block_def zero_manifest_def sizeof_manifest_def)
  have nf: "on_files.newest_of False slots (bl_world s1) n"
    using act cn zero by (auto simp: newest_files newest_slot_def candidates_def)
  have vf: "verifiable (length buf) (posix_content (slot_id n) (bl_world s1))" using sl(4) [OF act] cn [OF act] by simp
  have "\<forall>x\<in>set [EVENT_GET_NEWEST_FIRMWARE, EVENT_BOOTSTRAP, EVENT_FIRST_BOOT, EVENT_STORE_BOOTLAODER_CTX, EVENT_GET_NEWEST_NON_BOOTABLE].
      IS_CONTINUE x \<and> x \<noteq> EVENT_BOOT \<and> pull_continue x" by (simp add: event_range)
  from on_files.boot_old_runs [OF p(1) this rd1 p(3) av1 _ p(6) vf nf, of dog] p(7) obtain s' ev d where
    r: "contiki_loop posix_iface (tinycrypt_iface lib c0) slots cfg EVENT_INIT dog ?s =
      Some (if on_files.boot_verdict c0 cfg (length buf) (bl_world s1) n = PULL_SUCCESS then Load (slot_id n) else Give_Up, True, s')"
    "unchanged (bl_world s1) (bl_world s')"
    "bl_straight posix_iface (tinycrypt_iface lib c0) slots cfg EVENT_INIT ?s = Some (ev, d, s')"
    "on_files.boot_verdict c0 cfg (length buf) (bl_world s1) n = PULL_SUCCESS \<longrightarrow> ev = EVENT_BOOT \<and> bl_boot_id s' = slot_id n"
    "on_files.boot_verdict c0 cfg (length buf) (bl_world s1) n \<noteq> PULL_SUCCESS \<longrightarrow> ev = EVENT_VALIDATE_BOOTABLE_FAILURE"
    unfolding kept_files by auto
  have "posix_content (slot_id n) (bl_world s1) = V (slot_id n)" using cn [OF act] by simp
  with r p(2,4) show ?thesis unfolding on_files.boot_verdict_def
    by (intro exI [of _ n] exI [of _ s'])
      (auto simp: contiki_bootloader_def riot_bootloader_def bootloader_agent_def event_range unchanged_def)
qed

end

section \<open>What the runners load\<close>

lemma newest_exists:
  assumes "active_slots slots \<noteq> []" and "bootable (hd (active_slots slots))"
  shows "\<exists>c. newest_slot prefer slots V c"
proof -
  let ?f = "\<lambda>x. content_version (V (slot_id x))"
  have ne: "set (candidates prefer slots) \<noteq> {}"
    using assms by (cases "active_slots slots") (auto simp: candidates_def)
  have fin: "finite (?f ` set (candidates prefer slots))" by simp
  from ne have "Max (?f ` set (candidates prefer slots)) \<in> ?f ` set (candidates prefer slots)" by (intro Max_in) simp_all
  then obtain c where c: "Max (?f ` set (candidates prefer slots)) = ?f c" "c \<in> set (candidates prefer slots)" by (rule imageE)
  have "?f x \<le> ?f c" if "x \<in> set (candidates prefer slots)" for x
    using Max_ge [OF fin imageI [OF that]] c(1) by simp
  with c(2) show ?thesis unfolding newest_slot_def by blast
qed

text \<open>
  C6. The Contiki-NG bootloader over files, on a start that is not the first. It always ends, with the watchdog running.
  Let \<open>n\<close> be a newest bootable slot and \<open>u\<close> a newest slot. If \<open>u\<close> is not newer than \<open>n\<close>, then \<open>n\<close> is loaded if it passes
  the verification, and nothing otherwise, and no file changes. If \<open>u\<close> is newer and does not pass,
  nothing is loaded and nothing changes. If it passes, it exchanges its place with an oldest bootable slot, which is loaded.
\<close>

theorem posix_contiki_boot:
  assumes "tinycrypt_sha lib hash st" and "posix_bootable slots cfg (length buf) (bl_world s)" and "wf_ctx (bl_bctx s)"
    and "\<not> bl_already_validated s" and "\<not> is_first_boot (posix_content (bootloader_ctx_id cfg) (bl_world s))"
    and "length (bl_buffer s) = BL_BUFFER_SIZE" and "V = (\<lambda>j. posix_content j (bl_world s))"
  shows "\<exists>n u out s'. newest_slot True slots V n \<and> newest_slot False slots V u \<and>
    contiki_bootloader posix_iface (tinycrypt_iface lib c0) slots cfg buf dog s = Some (out, True, s') \<and>
    (if content_version (V (slot_id u)) \<le> content_version (V (slot_id n))
     then out = (if object_verdict (tinycrypt_iface lib c0) hash (safestore cfg) (length buf) (V (slot_id n)) = PULL_SUCCESS
         then Load (slot_id n) else Give_Up) \<and> unchanged (bl_world s) (bl_world s')
     else if object_verdict (tinycrypt_iface lib c0) hash (safestore cfg) (length buf) (V (slot_id u)) = PULL_SUCCESS
     then \<exists>c. oldest_slot True slots V c \<and> out = Load (slot_id c) \<and>
       exchanged (bl_world s) (bl_world s') (slot_id u) (slot_id c) (swap_id cfg)
     else out = Give_Up \<and> unchanged (bl_world s) (bl_world s'))"
proof -
  have "active_slots slots \<noteq> []" "bootable (hd (active_slots slots))" using assms(2) by (simp_all add: posix_bootable_def)
  then obtain n u where nu: "newest_slot True slots V n" "newest_slot False slots V u" using newest_exists by blast
  show ?thesis
  proof (cases "content_version (V (slot_id u)) \<le> content_version (V (slot_id n))")
    case True
    from tinycrypt_sha.old_files [OF assms(1-5,7) nu True, of c0 dog] obtain n' s' where
      r: "newest_slot True slots V n'" "unchanged (bl_world s) (bl_world s')"
      "contiki_bootloader posix_iface (tinycrypt_iface lib c0) slots cfg buf dog s =
        Some (if object_verdict (tinycrypt_iface lib c0) hash (safestore cfg) (length buf) (V (slot_id n')) = PULL_SUCCESS
          then Load (slot_id n') else Give_Up, True, s')" by blast
    have "content_version (V (slot_id n)) = content_version (V (slot_id n'))" using nu(1) r(1)
      by (intro antisym) (simp_all add: newest_slot_def)
    with True nu(2) r show ?thesis by (intro exI [of _ n'] exI [of _ u] exI [of _ "if object_verdict (tinycrypt_iface lib c0) hash
        (safestore cfg) (length buf) (V (slot_id n')) = PULL_SUCCESS then Load (slot_id n') else Give_Up"] exI [of _ s']) simp
  next
    case False
    from tinycrypt_sha.new_files [OF assms(1-7) nu, of c0 dog] False obtain u' out s' where
      r: "newest_slot False slots V u'" "contiki_bootloader posix_iface (tinycrypt_iface lib c0) slots cfg buf dog s = Some (out, True, s')"
      "if object_verdict (tinycrypt_iface lib c0) hash (safestore cfg) (length buf) (V (slot_id u')) = PULL_SUCCESS
       then \<exists>c. oldest_slot True slots V c \<and> out = Load (slot_id c) \<and>
         exchanged (bl_world s) (bl_world s') (slot_id u') (slot_id c) (swap_id cfg)
       else out = Give_Up \<and> unchanged (bl_world s) (bl_world s')" by (metis not_le)
    have "content_version (V (slot_id u)) = content_version (V (slot_id u'))" using nu(2) r(1)
      by (intro antisym) (simp_all add: newest_slot_def)
    with False nu(1) r show ?thesis by (intro exI [of _ n] exI [of _ u'] exI [of _ out] exI [of _ s']) simp
  qed
qed

text \<open>
  C17. The RIOT bootloader over files, in the same situation: the agent is built without coroutines, so the event that reports a
  failed verification of the newer image is dropped. Whatever the verification says, the newer image is
  moved to an oldest bootable slot and loaded.
\<close>

theorem riot_boots_unverified:
  assumes "tinycrypt_sha lib hash st" and "posix_bootable slots cfg (length buf) (bl_world s)" and "wf_ctx (bl_bctx s)"
    and "\<not> bl_already_validated s" and "\<not> is_first_boot (posix_content (bootloader_ctx_id cfg) (bl_world s))"
    and "length (bl_buffer s) = BL_BUFFER_SIZE" and "V = (\<lambda>j. posix_content j (bl_world s))"
    and "newest_slot True slots V n" and "newest_slot False slots V u"
    and "content_version (V (slot_id n)) < content_version (V (slot_id u))"
  shows "\<exists>u c s'. newest_slot False slots V u \<and> oldest_slot True slots V c \<and>
    riot_bootloader posix_iface (tinycrypt_iface lib c0) slots cfg buf s = Some (Load (slot_id c), s') \<and>
    exchanged (bl_world s) (bl_world s') (slot_id u) (slot_id c) (swap_id cfg)"
  using tinycrypt_sha.new_files [OF assms(1-10), of c0 True]
  unfolding riot_bootloader_def by (elim exE conjE) (intro exI conjI, assumption, assumption, simp_all add: event_range)

text \<open>
  C18. The first boot over files: both builds end, the newest bootable slot keeps its content and is loaded if it
  passes the verification, every other slot loses its manifest, and the flag for the first boot is cleared.
\<close>

theorem posix_first_boot:
  assumes "tinycrypt_sha lib hash st" and "posix_bootable slots cfg (length buf) (bl_world s)" and "wf_ctx (bl_bctx s)"
    and "\<not> bl_already_validated s" and "is_first_boot (posix_content (bootloader_ctx_id cfg) (bl_world s))"
    and "V = (\<lambda>j. posix_content j (bl_world s))"
  shows "\<exists>n out s'. newest_slot True slots V n \<and>
    out = (if object_verdict (tinycrypt_iface lib c0) hash (safestore cfg) (length buf) (V (slot_id n)) = PULL_SUCCESS
      then Load (slot_id n) else Give_Up) \<and>
    contiki_bootloader posix_iface (tinycrypt_iface lib c0) slots cfg buf dog s = Some (out, True, s') \<and>
    riot_bootloader posix_iface (tinycrypt_iface lib c0) slots cfg buf s = Some (out, s') \<and>
    \<not> is_first_boot (posix_content (bootloader_ctx_id cfg) (bl_world s')) \<and>
    (\<forall>j\<in>posix_valid_ids - {bootloader_ctx_id cfg}. posix_content j (bl_world s') =
      (if j \<in> slot_id ` set (active_slots slots) \<and> j \<noteq> slot_id n then erased (V j) else V j))"
proof -
  from tinycrypt_sha.first_files [OF assms(1-6), of c0 dog] obtain n s' where
    r: "newest_slot True slots V n"
    "contiki_bootloader posix_iface (tinycrypt_iface lib c0) slots cfg buf dog s =
      Some (if object_verdict (tinycrypt_iface lib c0) hash (safestore cfg) (length buf) (V (slot_id n)) = PULL_SUCCESS
        then Load (slot_id n) else Give_Up, True, s')"
    "riot_bootloader posix_iface (tinycrypt_iface lib c0) slots cfg buf s =
      Some (if object_verdict (tinycrypt_iface lib c0) hash (safestore cfg) (length buf) (V (slot_id n)) = PULL_SUCCESS
        then Load (slot_id n) else Give_Up, s')"
    "\<forall>j\<in>posix_valid_ids. posix_content j (bl_world s') = (if j = bootloader_ctx_id cfg then ctx_cleared (V j)
      else if j \<in> slot_id ` set (active_slots slots) \<and> j \<noteq> slot_id n then erased (V j) else V j)"
    by (elim exE conjE) (rule that)
  let ?c = "bootloader_ctx_id cfg"
  have c: "?c \<in> posix_valid_ids" "sizeof_bootloader_ctx \<le> length (V ?c)" using assms(2,6) by (simp_all add: posix_bootable_def)
  have "wf_ctx ((bootloader_ctx_of_bytes (V ?c))\<lparr>startup_flags := 0\<rparr>)" using wf_ctx_of_bytes [OF c(2)] by (simp add: wf_ctx_def)
  then have "\<not> is_first_boot (ctx_cleared (V ?c))" by (simp add: is_first_boot_def ctx_cleared_def FIRST_BOOT_def)
  with r c(1) show ?thesis by (intro exI [of _ n] exI [of _ "if object_verdict (tinycrypt_iface lib c0) hash
        (safestore cfg) (length buf) (V (slot_id n)) = PULL_SUCCESS then Load (slot_id n) else Give_Up"] exI [of _ s']) simp
qed

text \<open>The verdict on an object depends on the manifest and the firmware only, where the firmware fills the buffer.\<close>

lemma verdict_prefix:
  assumes "verifiable bl v" and "sizeof_manifest \<le> unat (vm_offset (vendor (content_manifest v)))"
    and "bl \<le> unat (vm_size (vendor (content_manifest v)))" and "unat (content_fw_size v) \<le> N" and "N \<le> length v"
  shows "object_verdict sec hash sf bl (take N v @ r) = object_verdict sec hash sf bl v"
proof -
  let ?o = "unat (vm_offset (vendor (content_manifest v)))" and ?s = "unat (vm_size (vendor (content_manifest v)))"
  have "?s + ?o < 2 ^ 32" using assms(1) by (simp add: verifiable_def max_def split: if_splits)
  then have "unat (content_fw_size v) = ?s + ?o"
    by (simp add: content_fw_size_def get_size_impl_def get_offset_impl_def unat_word_ariths)
  then have N: "?s + ?o \<le> N" using assms(4) by simp
  have "block a n (take N v @ r) = block a n v" if "a + n \<le> N" for a n
  proof -
    have "block a n (take N v @ r) = block a n (take N v)" using that assms(5) by (simp add: block_def)
    then show ?thesis using that by (simp add: block_take)
  qed
  then have "content_manifest (take N v @ r) = content_manifest v" "block ?o (max ?s bl) (take N v @ r) = block ?o (max ?s bl) v"
    using N assms(2,3) by (simp_all add: content_manifest_def)
  then show ?thesis by (simp add: object_verdict_def Let_def)
qed

text \<open>
  C4. Whatever the Contiki-NG bootloader loads over files, on the first or on a later start, is at that moment in the slot
  that is loaded, and passes the verification there; the firmwares are assumed to follow their manifests and to be no shorter than the
  verification buffer.
\<close>

theorem contiki_boots_only_verified:
  assumes "tinycrypt_sha lib hash st" and "posix_bootable slots cfg (length buf) (bl_world s)" and "wf_ctx (bl_bctx s)"
    and "\<not> bl_already_validated s" and "length (bl_buffer s) = BL_BUFFER_SIZE"
    and "\<forall>x\<in>set (active_slots slots). sizeof_manifest \<le> unat (vm_offset (vendor (content_manifest (posix_content (slot_id x) (bl_world s))))) \<and>
      length buf \<le> unat (vm_size (vendor (content_manifest (posix_content (slot_id x) (bl_world s)))))"
    and "contiki_bootloader posix_iface (tinycrypt_iface lib c0) slots cfg buf dog s = Some (Load i, dog', s')"
  shows "object_verdict (tinycrypt_iface lib c0) hash (safestore cfg) (length buf) (posix_content i (bl_world s')) = PULL_SUCCESS"
proof (cases "is_first_boot (posix_content (bootloader_ctx_id cfg) (bl_world s))")
  case True
  from tinycrypt_sha.first_files [OF assms(1-4) True refl, of c0 dog] assms(7) obtain n where
    n: "newest_slot True slots (\<lambda>j. posix_content j (bl_world s)) n" "i = slot_id n"
    "object_verdict (tinycrypt_iface lib c0) hash (safestore cfg) (length buf) (posix_content (slot_id n) (bl_world s)) = PULL_SUCCESS"
    "\<forall>j\<in>posix_valid_ids. posix_content j (bl_world s') = (if j = bootloader_ctx_id cfg then ctx_cleared (posix_content j (bl_world s))
      else if j \<in> slot_id ` set (active_slots slots) \<and> j \<noteq> slot_id n then erased (posix_content j (bl_world s))
      else posix_content j (bl_world s))"
    by (auto split: if_splits)
  have "slot_id n \<in> posix_valid_ids - {bootloader_ctx_id cfg}"
    using n(1) assms(2) by (auto simp: newest_slot_def candidates_def posix_bootable_def)
  with n(2-4) show ?thesis by simp
next
  case False
  let ?V = "\<lambda>j. posix_content j (bl_world s)"
  have act: "active_slots slots \<noteq> []" "bootable (hd (active_slots slots))" using assms(2) by (simp_all add: posix_bootable_def)
  then obtain n u where nu: "newest_slot True slots ?V n" "newest_slot False slots ?V u" using newest_exists by blast
  have sl: "slot_id x \<in> posix_valid_ids" if "newest_slot pr slots ?V x \<or> oldest_slot pr slots ?V x" for pr x
    using that assms(2) by (auto simp: newest_slot_def oldest_slot_def candidates_def posix_bootable_def)
  show ?thesis
  proof (cases "content_version (?V (slot_id u)) \<le> content_version (?V (slot_id n))")
    case True
    from tinycrypt_sha.old_files [OF assms(1-4) False refl nu True, of c0 dog] assms(7) obtain n' where
      "newest_slot True slots ?V n'" "unchanged (bl_world s) (bl_world s')" "i = slot_id n'"
      "object_verdict (tinycrypt_iface lib c0) hash (safestore cfg) (length buf) (?V (slot_id n')) = PULL_SUCCESS"
      by (auto split: if_splits)
    with sl [of True n'] show ?thesis by (simp add: unchanged_def)
  next
    case new: False
    then have "content_version (?V (slot_id n)) < content_version (?V (slot_id u))" by simp
    from tinycrypt_sha.new_files [OF assms(1-4) False assms(5) refl nu this, of c0 dog] assms(7) obtain u' c where
      r: "newest_slot False slots ?V u'" "i = slot_id c" "oldest_slot True slots ?V c"
      "object_verdict (tinycrypt_iface lib c0) hash (safestore cfg) (length buf) (?V (slot_id u')) = PULL_SUCCESS"
      "exchanged (bl_world s) (bl_world s') (slot_id u') (slot_id c) (swap_id cfg)"
      by (auto split: if_splits)
    let ?N = "max (unat (content_fw_size (?V (slot_id u')))) (unat (content_fw_size (?V (slot_id c))))"
    have "u' \<in> set (active_slots slots)" "c \<in> set (active_slots slots)"
      using r(1,3) by (auto simp: newest_slot_def oldest_slot_def candidates_def)
    then have v: "verifiable (length buf) (?V (slot_id u'))" "?N \<le> length (?V (slot_id u'))"
      "sizeof_manifest \<le> unat (vm_offset (vendor (content_manifest (?V (slot_id u')))))"
      "length buf \<le> unat (vm_size (vendor (content_manifest (?V (slot_id u')))))"
      using assms(2,6) by (simp_all add: posix_bootable_def)
    have "posix_content i (bl_world s') = take ?N (?V (slot_id u')) @ drop ?N (?V (slot_id c))"
      using r(2,5) by (simp add: exchanged_def Let_def)
    with r(4) show ?thesis by (simp add: verdict_prefix [OF v(1,3,4) _ v(2)])
  qed
qed

section \<open>Concrete runs\<close>

text \<open>
  Three images: version 3 in slot A, version 2 in slot B, and version 4 in slot C, which is not bootable; a context with given
  flags, and a swap file.
\<close>

definition demo_slot :: "u16 \<Rightarrow> byte list" where
  "demo_slot ver = manifest_bytes (demo_manifest ver demo_firmware) @ demo_firmware"

definition boot_disk :: "byte list \<Rightarrow> byte \<Rightarrow> posix_fs" where
  "boot_disk c flags = \<lparr>files = [posix_path OBJ_A \<mapsto> demo_slot 3, posix_path OBJ_B \<mapsto> demo_slot 2, posix_path OBJ_C \<mapsto> c,
       posix_path POSIX_BOOTLOADER_CTX \<mapsto> replicate 127 0 @ [flags], posix_path OBJ_SWAP \<mapsto> replicate 512 0],
     fdtab = Map.empty, fd_max = 8\<rparr>"

definition demo_cfg :: bootloader_agent_config where
  "demo_cfg = \<lparr>bootloader_ctx_id = POSIX_BOOTLOADER_CTX, recovery_id = OBJ_GOLD, swap_id = OBJ_SWAP, swap_size = 512, safestore = demo_sf\<rparr>"

definition demo_bl :: "posix_fs \<Rightarrow> (posix_fs, posix_obj) bl_state" where
  "demo_bl w = \<lparr>bl_err = PULL_SUCCESS, bl_obj_t = demo_obj 0, bl_bctx = first_ctx, bl_version_bootable = 0,
     bl_version_non_bootable = 0, bl_bootloader_object = demo_obj 0, bl_source_slot = demo_obj 0,
     bl_destination_slot = demo_obj 0, bl_newest_bootable = demo_obj 0, bl_swap_slot = demo_obj 0,
     bl_id_newest_non_bootable = 0, bl_id_newest_bootable = 0, bl_id_oldest_bootable = 0, bl_boot_id = 0, bl_i = 0,
     bl_buffer = replicate BL_BUFFER_SIZE 0, bl_already_validated = False, bl_cfg_buffer = [], bl_world = w\<rparr>"

lemma boot_disk_content:
  "posix_content OBJ_A (boot_disk c fl) = demo_slot 3" "posix_content OBJ_B (boot_disk c fl) = demo_slot 2"
  "posix_content OBJ_C (boot_disk c fl) = c" "posix_content POSIX_BOOTLOADER_CTX (boot_disk c fl) = replicate 127 0 @ [fl]"
  "posix_content OBJ_SWAP (boot_disk c fl) = replicate 512 0"
  by (simp_all add: posix_content_def file_of_def boot_disk_def posix_path_def memory_objects_mapper_def posix_ids posix_valid_ids_def)

lemma demo_slot_facts:
  assumes "v = manifest_bytes (demo_manifest ver demo_firmware) @ fw" and "length fw = 1024"
  shows "verifiable 64 v" "unat (content_fw_size v) = 1280" "length v = 1280"
    "unat (vm_offset (vendor (content_manifest v))) = 256" "unat (vm_size (vendor (content_manifest v))) = 1024"
    "content_version v = ver"
  using assms by (simp_all add: verifiable_def content_manifest_append demo_manifest_fields length_demo_firmware
      sizeof_manifest_def content_fw_size_def get_size_impl_def get_offset_impl_def content_version_def get_version_impl_def)

lemma boot_disk_slots: "set (active_slots posix_memory_slots) = {\<lparr>slot_id = OBJ_A, bootable = True, loaded = True\<rparr>,
   \<lparr>slot_id = OBJ_B, bootable = True, loaded = False\<rparr>, \<lparr>slot_id = OBJ_C, bootable = False, loaded = False\<rparr>}"
  by code_simp

lemma boot_disk_bootable:
  assumes "c = manifest_bytes (demo_manifest 4 demo_firmware) @ fw" and "length fw = 1024"
  shows "posix_bootable posix_memory_slots demo_cfg 64 (boot_disk c fl)"
proof -
  note A = demo_slot_facts [OF demo_slot_def length_demo_firmware, of 3] and B = demo_slot_facts [OF demo_slot_def length_demo_firmware, of 2]
    and C = demo_slot_facts [OF assms]
  have "active_slots posix_memory_slots \<noteq> []" "bootable (hd (active_slots posix_memory_slots))"
    "distinct (map slot_id (active_slots posix_memory_slots))"
    "takeWhile (\<lambda>s. slot_id s \<noteq> OBJ_END) posix_memory_slots = active_slots posix_memory_slots"
    "bootloader_ctx_id demo_cfg \<in> posix_valid_ids" "swap_id demo_cfg \<in> posix_valid_ids"
    "{OBJ_A, OBJ_B, OBJ_C} \<subseteq> posix_valid_ids - {bootloader_ctx_id demo_cfg, swap_id demo_cfg}"
    by code_simp+
  moreover have "3 < posix_avail (boot_disk c fl)" by (simp add: posix_avail_def free_fds_def boot_disk_def)
  ultimately show ?thesis
    by (simp add: posix_bootable_def boot_disk_slots boot_disk_content A B C demo_cfg_def sizeof_bootloader_ctx_def)
qed

lemma demo_bl_simps [simp]:
  "bl_world (demo_bl w) = w" "wf_ctx (bl_bctx (demo_bl w))" "\<not> bl_already_validated (demo_bl w)"
  "length (bl_buffer (demo_bl w)) = BL_BUFFER_SIZE"
  by (simp_all add: demo_bl_def first_ctx_def wf_ctx_def)

lemma demo_ctx_flags: "is_first_boot (posix_content (bootloader_ctx_id demo_cfg) (boot_disk c fl)) \<longleftrightarrow> fl AND 1 = 1"
  by (simp add: demo_cfg_def boot_disk_content is_first_boot_def bootloader_ctx_of_bytes_def FIRST_BOOT_def nth_append)

definition demo_bad :: "byte list" where
  "demo_bad = manifest_bytes (demo_manifest 4 demo_firmware) @ (1 # replicate 1023 9)"

definition demo_start :: "byte list \<Rightarrow> byte \<Rightarrow> (posix_fs, posix_obj) bl_state" where
  "demo_start c fl = demo_bl (boot_disk c fl)"

lemma demo_start_facts:
  "posix_bootable posix_memory_slots demo_cfg (length (replicate 64 (0 :: byte))) (bl_world (demo_start demo_bad fl))"
  "wf_ctx (bl_bctx (demo_start c fl))" "\<not> bl_already_validated (demo_start c fl)"
  "length (bl_buffer (demo_start c fl)) = BL_BUFFER_SIZE"
  "is_first_boot (posix_content (bootloader_ctx_id demo_cfg) (bl_world (demo_start c fl))) \<longleftrightarrow> fl AND 1 = 1"
  "posix_bootable posix_memory_slots demo_cfg (length (replicate 64 (0 :: byte))) (bl_world (demo_start (demo_slot 4) fl))"
  using boot_disk_bootable [OF demo_bad_def, of fl] boot_disk_bootable [OF demo_slot_def length_demo_firmware, of fl]
  by (simp_all add: demo_start_def demo_ctx_flags)

theorem posix_contiki_boot_witness:
  "\<exists>n u out s'. newest_slot True posix_memory_slots (\<lambda>j. posix_content j (bl_world (demo_start demo_bad 0))) n \<and>
    newest_slot False posix_memory_slots (\<lambda>j. posix_content j (bl_world (demo_start demo_bad 0))) u \<and>
    contiki_bootloader posix_iface (tinycrypt_iface demo_tinycrypt demo_ctx0) posix_memory_slots demo_cfg (replicate 64 0) True
      (demo_start demo_bad 0) = Some (out, True, s') \<and>
    (if content_version (posix_content (slot_id u) (bl_world (demo_start demo_bad 0))) \<le>
       content_version (posix_content (slot_id n) (bl_world (demo_start demo_bad 0)))
     then out = (if object_verdict (tinycrypt_iface demo_tinycrypt demo_ctx0) demo_hash (safestore demo_cfg)
         (length (replicate 64 (0 :: byte))) (posix_content (slot_id n) (bl_world (demo_start demo_bad 0))) = PULL_SUCCESS
         then Load (slot_id n) else Give_Up) \<and> unchanged (bl_world (demo_start demo_bad 0)) (bl_world s')
     else if object_verdict (tinycrypt_iface demo_tinycrypt demo_ctx0) demo_hash (safestore demo_cfg)
         (length (replicate 64 (0 :: byte))) (posix_content (slot_id u) (bl_world (demo_start demo_bad 0))) = PULL_SUCCESS
     then \<exists>c. oldest_slot True posix_memory_slots (\<lambda>j. posix_content j (bl_world (demo_start demo_bad 0))) c \<and> out = Load (slot_id c) \<and>
       exchanged (bl_world (demo_start demo_bad 0)) (bl_world s') (slot_id u) (slot_id c) (swap_id demo_cfg)
     else out = Give_Up \<and> unchanged (bl_world (demo_start demo_bad 0)) (bl_world s'))"
  by (rule posix_contiki_boot [OF demo_tc.tinycrypt_sha_axioms demo_start_facts(1,2,3) _ demo_start_facts(4) refl])
    (simp add: demo_start_facts)

text \<open>The image in slot C does not have the digest of its manifest, and RIOT loads it.\<close>

lemma demo_newest:
  "newest_slot True posix_memory_slots (\<lambda>j. posix_content j (bl_world (demo_start demo_bad fl))) \<lparr>slot_id = OBJ_A, bootable = True, loaded = True\<rparr>"
  "newest_slot False posix_memory_slots (\<lambda>j. posix_content j (bl_world (demo_start demo_bad fl))) \<lparr>slot_id = OBJ_C, bootable = False, loaded = False\<rparr>"
  "content_version (posix_content (slot_id \<lparr>slot_id = OBJ_A, bootable = True, loaded = True\<rparr>) (bl_world (demo_start demo_bad fl))) <
   content_version (posix_content (slot_id \<lparr>slot_id = OBJ_C, bootable = False, loaded = False\<rparr>) (bl_world (demo_start demo_bad fl)))"
  using demo_slot_facts(6) [OF demo_slot_def length_demo_firmware, of 3] demo_slot_facts(6) [OF demo_slot_def length_demo_firmware, of 2]
    demo_slot_facts(6) [OF demo_bad_def]
  by (auto simp: newest_slot_def candidates_def boot_disk_slots boot_disk_content demo_start_def)

lemma demo_bad_verdict:
  "object_verdict (tinycrypt_iface demo_tinycrypt demo_ctx0) demo_hash demo_sf 64 demo_bad = VERIFICATION_FAILED_ERROR"
proof -
  have "demo_hash (1 # replicate 1023 9) \<noteq> demo_hash demo_firmware" by code_simp
  moreover have "block 256 1024 (manifest_bytes (demo_manifest 4 demo_firmware) @ 1 # replicate 1023 9) = 1 # replicate 1023 9"
    by (simp add: block_def sizeof_manifest_def)
  ultimately show ?thesis using authentic_demo_manifest [of 4 demo_firmware]
    by (simp add: object_verdict_def demo_bad_def content_manifest_append demo_manifest_fields length_demo_firmware authentic_def Let_def)
qed

theorem riot_boots_unverified_witness:
  "object_verdict (tinycrypt_iface demo_tinycrypt demo_ctx0) demo_hash demo_sf 64 demo_bad = VERIFICATION_FAILED_ERROR \<and>
   (\<exists>u c s'. newest_slot False posix_memory_slots (\<lambda>j. posix_content j (bl_world (demo_start demo_bad 0))) u \<and>
     oldest_slot True posix_memory_slots (\<lambda>j. posix_content j (bl_world (demo_start demo_bad 0))) c \<and>
     riot_bootloader posix_iface (tinycrypt_iface demo_tinycrypt demo_ctx0) posix_memory_slots demo_cfg (replicate 64 0)
       (demo_start demo_bad 0) = Some (Load (slot_id c), s') \<and>
     exchanged (bl_world (demo_start demo_bad 0)) (bl_world s') (slot_id u) (slot_id c) (swap_id demo_cfg))"
  by (intro conjI demo_bad_verdict, rule riot_boots_unverified [OF demo_tc.tinycrypt_sha_axioms demo_start_facts(1,2,3) _
      demo_start_facts(4) refl demo_newest]) (simp add: demo_start_facts)

theorem posix_first_boot_witness:
  "\<exists>n out s'. newest_slot True posix_memory_slots (\<lambda>j. posix_content j (bl_world (demo_start demo_bad 1))) n \<and>
    out = (if object_verdict (tinycrypt_iface demo_tinycrypt demo_ctx0) demo_hash (safestore demo_cfg)
        (length (replicate 64 (0 :: byte))) (posix_content (slot_id n) (bl_world (demo_start demo_bad 1))) = PULL_SUCCESS
      then Load (slot_id n) else Give_Up) \<and>
    contiki_bootloader posix_iface (tinycrypt_iface demo_tinycrypt demo_ctx0) posix_memory_slots demo_cfg (replicate 64 0) True
      (demo_start demo_bad 1) = Some (out, True, s') \<and>
    riot_bootloader posix_iface (tinycrypt_iface demo_tinycrypt demo_ctx0) posix_memory_slots demo_cfg (replicate 64 0)
      (demo_start demo_bad 1) = Some (out, s') \<and>
    \<not> is_first_boot (posix_content (bootloader_ctx_id demo_cfg) (bl_world s')) \<and>
    (\<forall>j\<in>posix_valid_ids - {bootloader_ctx_id demo_cfg}. posix_content j (bl_world s') =
      (if j \<in> slot_id ` set (active_slots posix_memory_slots) \<and> j \<noteq> slot_id n
       then erased (posix_content j (bl_world (demo_start demo_bad 1))) else posix_content j (bl_world (demo_start demo_bad 1))))"
  by (rule posix_first_boot [OF demo_tc.tinycrypt_sha_axioms demo_start_facts(1,2,3) _ refl]) (simp add: demo_start_facts)

text \<open>With the intact image in slot C, what Contiki-NG loads passes the verification.\<close>

lemma demo_good:
  "newest_slot True posix_memory_slots (\<lambda>j. posix_content j (bl_world (demo_start (demo_slot 4) fl))) \<lparr>slot_id = OBJ_A, bootable = True, loaded = True\<rparr>"
  "newest_slot False posix_memory_slots (\<lambda>j. posix_content j (bl_world (demo_start (demo_slot 4) fl))) u \<longleftrightarrow> u = \<lparr>slot_id = OBJ_C, bootable = False, loaded = False\<rparr>"
  "content_version (posix_content (slot_id \<lparr>slot_id = OBJ_A, bootable = True, loaded = True\<rparr>) (bl_world (demo_start (demo_slot 4) fl))) <
   content_version (posix_content (slot_id \<lparr>slot_id = OBJ_C, bootable = False, loaded = False\<rparr>) (bl_world (demo_start (demo_slot 4) fl)))"
  using demo_slot_facts(6) [OF demo_slot_def length_demo_firmware]
  by (auto simp: newest_slot_def candidates_def boot_disk_slots boot_disk_content demo_start_def)

lemma demo_good_verdict:
  "object_verdict (tinycrypt_iface demo_tinycrypt demo_ctx0) demo_hash demo_sf 64 (demo_slot 4) = PULL_SUCCESS"
proof -
  have "block 256 1024 (manifest_bytes (demo_manifest 4 demo_firmware) @ demo_firmware) = demo_firmware"
    by (simp add: block_def sizeof_manifest_def length_demo_firmware)
  then show ?thesis using authentic_demo_manifest [of 4 demo_firmware]
    by (simp add: object_verdict_def demo_slot_def content_manifest_append demo_manifest_fields length_demo_firmware authentic_def Let_def)
qed

lemma demo_good_loads:
  "\<exists>i s'. contiki_bootloader posix_iface (tinycrypt_iface demo_tinycrypt demo_ctx0) posix_memory_slots demo_cfg (replicate 64 0) True
      (demo_start (demo_slot 4) 0) = Some (Load i, True, s')"
proof -
  have nf: "\<not> is_first_boot (posix_content (bootloader_ctx_id demo_cfg) (bl_world (demo_start (demo_slot 4) 0)))"
    by (simp add: demo_start_facts)
  have "object_verdict (tinycrypt_iface demo_tinycrypt demo_ctx0) demo_hash (safestore demo_cfg) (length (replicate 64 (0 :: byte)))
      (posix_content OBJ_C (bl_world (demo_start (demo_slot 4) 0))) = PULL_SUCCESS"
    using demo_good_verdict by (simp add: demo_cfg_def demo_start_def boot_disk_content)
  with tinycrypt_sha.new_files [OF demo_tc.tinycrypt_sha_axioms demo_start_facts(6,2,3) nf demo_start_facts(4) refl demo_good(1)
      iffD2 [OF demo_good(2) refl] demo_good(3), of demo_ctx0 True]
  show ?thesis unfolding demo_good(2) by auto
qed

theorem contiki_boots_only_verified_witness:
  "\<exists>i s'. contiki_bootloader posix_iface (tinycrypt_iface demo_tinycrypt demo_ctx0) posix_memory_slots demo_cfg (replicate 64 0) True
      (demo_start (demo_slot 4) 0) = Some (Load i, True, s') \<and>
    object_verdict (tinycrypt_iface demo_tinycrypt demo_ctx0) demo_hash (safestore demo_cfg) (length (replicate 64 (0 :: byte)))
      (posix_content i (bl_world s')) = PULL_SUCCESS"
proof -
  obtain i s' where r: "contiki_bootloader posix_iface (tinycrypt_iface demo_tinycrypt demo_ctx0) posix_memory_slots demo_cfg
      (replicate 64 0) True (demo_start (demo_slot 4) 0) = Some (Load i, True, s')" using demo_good_loads by blast
  have "\<forall>x\<in>set (active_slots posix_memory_slots).
      sizeof_manifest \<le> unat (vm_offset (vendor (content_manifest (posix_content (slot_id x) (bl_world (demo_start (demo_slot 4) 0)))))) \<and>
      length (replicate 64 (0 :: byte)) \<le> unat (vm_size (vendor (content_manifest (posix_content (slot_id x) (bl_world (demo_start (demo_slot 4) 0))))))"
    using demo_slot_facts(4,5) [OF demo_slot_def length_demo_firmware]
    by (simp add: boot_disk_slots demo_start_def boot_disk_content sizeof_manifest_def)
  from contiki_boots_only_verified [OF demo_tc.tinycrypt_sha_axioms demo_start_facts(6,2,3,4) this r] r show ?thesis by blast
qed

end
