(* ===== verification/Update_Agent.thy ===== *)
theory Update_Agent
  imports Fsm_Update
begin

text \<open>
  The update agent (\<open>src/agents/update.c\<close>, \<open>include/libpull_agents/update.h\<close>), the callback that passes received data to
  the state machine (\<open>src/core/network/request.c\<close>) and the event loop (\<open>async_interface.h\<close>, \<open>async_libcoap.c\<close>,
  \<open>async_zoap.c\<close>).

  The connection is a record of functions, one for each function of \<open>connection_interface.h\<close>, over a state of the
  network; \<open>conn_wait\<close> is one turn of the event loop of the system: the responses that it hands to the callback, and
  whether it reports a timeout. As in the bootloader agent, the code between two events is a segment, named by
  the event before it; \<open>PULL_SEND\<close> returns its event with coroutines, and runs the event loop without.
  Events whose name the bootloader agent has, too, carry \<open>UPDATE\<close> in their name.
\<close>

section \<open>The interface of a connection\<close>

datatype rest_method = GET | PUT | POST | DELETE | OPTIONS | GET_BLOCKWISE2

datatype conn_type = PULL_TCP | PULL_UDP | PULL_DTLS_PSK | PULL_DTLS_ECDH

record 'c conn_config_t =
  cfg_endpoint :: string
  cfg_port :: u16
  cfg_connection_type :: conn_type
  cfg_conn_data :: 'c

definition conn_config :: "'c conn_config_t \<Rightarrow> string \<Rightarrow> u16 \<Rightarrow> conn_type \<Rightarrow> 'c \<Rightarrow> pull_error \<times> 'c conn_config_t" where
  "conn_config cfg endpoint port type conn_data = (PULL_SUCCESS,
     cfg\<lparr>cfg_endpoint := endpoint, cfg_port := port, cfg_connection_type := type, cfg_conn_data := conn_data\<rparr>)"

text \<open>The arguments of the callback: the error, the data or \<open>NULL\<close>, and the length.\<close>

type_synonym response = "pull_error \<times> byte list option \<times> int"

record ('n, 'c) conn_iface =
  conn_init :: "'c conn_config_t \<Rightarrow> 'n \<Rightarrow> pull_error \<times> 'n"
  conn_on_data :: "'n \<Rightarrow> pull_error \<times> 'n"
  conn_request :: "rest_method \<Rightarrow> string \<Rightarrow> byte list \<Rightarrow> 'n \<Rightarrow> pull_error \<times> 'n"
  conn_end :: "'n \<Rightarrow> 'n"
  conn_wait :: "'n \<Rightarrow> response list \<times> bool \<times> 'n"

section \<open>State\<close>

record 'c update_agent_config_t =
  uc_conn :: "'c conn_config_t"
  uc_safestore :: safestore_t

definition update_agent_config ::
  "'c update_agent_config_t \<Rightarrow> 'c conn_config_t \<Rightarrow> safestore_t \<Rightarrow> 'c update_agent_config_t" where
  "update_agent_config cfg conn sf = cfg\<lparr>uc_conn := conn, uc_safestore := sf\<rparr>"

text \<open>
  \<open>update_agent_ctx_t\<close>, with \<open>reqc.err\<close>, the flag \<open>loop\<close> of the connection, and the static memory of the state machine; the
  request message is kept as its bytes.
\<close>

record ('w, 'o, 'r, 'n) update_agent_ctx_t =
  ua_obj_t :: 'o
  ua_old_obj :: 'o
  ua_err :: pull_error
  ua_fsmc :: "('o, 'r) fsm_ctx"
  ua_conn :: 'n
  ua_loop :: bool
  ua_reqc_err :: pull_error
  ua_msg :: "byte list"
  ua_static :: "'o fsm_static"
  ua_world :: 'w

section \<open>The callback and the event loop\<close>

definition break_loop :: "('w, 'o, 'r, 'n) update_agent_ctx_t \<Rightarrow> ('w, 'o, 'r, 'n) update_agent_ctx_t" where
  "break_loop s = s\<lparr>ua_loop := False\<rparr>"

definition request_cb :: "('w, 'o, 'd, 'r) platform \<Rightarrow> response \<Rightarrow> ('w, 'o, 'r, 'n) update_agent_ctx_t \<Rightarrow>
  ('w, 'o, 'r, 'n) update_agent_ctx_t option" where
  "request_cb pl resp s = (case resp of (err, data, len) \<Rightarrow>
     if err \<noteq> PULL_SUCCESS then Some (s\<lparr>ua_reqc_err := err\<rparr>)
     else case data of
       None \<Rightarrow> Some ((break_loop s)\<lparr>ua_reqc_err := err\<rparr>)
     | Some bs \<Rightarrow>
         if len < 0 then Some ((break_loop s)\<lparr>ua_reqc_err := err\<rparr>)
         else Option.bind (fsm pl (ua_fsmc s) (ua_static s) (take (nat len) bs) (ua_world s)) (\<lambda>(e, ctx, fs, _, w).
           let s = s\<lparr>ua_fsmc := ctx, ua_static := fs, ua_world := w, ua_reqc_err := e\<rparr> in
           Some (if e \<noteq> PULL_SUCCESS then break_loop s else s)))"

fun deliver :: "('w, 'o, 'd, 'r) platform \<Rightarrow> response list \<Rightarrow> ('w, 'o, 'r, 'n) update_agent_ctx_t \<Rightarrow>
  ('w, 'o, 'r, 'n) update_agent_ctx_t option" where
  "deliver pl [] s = Some s"
| "deliver pl (r # rs) s = Option.bind (request_cb pl r s) (deliver pl rs)"

partial_function (option) loop_body :: "('w, 'o, 'd, 'r) platform \<Rightarrow> ('n, 'c) conn_iface \<Rightarrow>
  ('w, 'o, 'r, 'n) update_agent_ctx_t \<Rightarrow> ('w, 'o, 'r, 'n) update_agent_ctx_t option" where
  "loop_body pl ci s = (case conn_wait ci (ua_conn s) of (rs, timeout, n) \<Rightarrow>
     Option.bind (deliver pl rs (s\<lparr>ua_conn := n\<rparr>)) (\<lambda>s.
       if timeout then Some s else if ua_loop s then loop_body pl ci s else Some s))"

declare loop_body.simps [code]

definition loop :: "('w, 'o, 'd, 'r) platform \<Rightarrow> ('n, 'c) conn_iface \<Rightarrow>
  ('w, 'o, 'r, 'n) update_agent_ctx_t \<Rightarrow> ('w, 'o, 'r, 'n) update_agent_ctx_t option" where
  "loop pl ci s = loop_body pl ci (s\<lparr>ua_loop := True\<rparr>)"

definition loop_once :: "('w, 'o, 'd, 'r) platform \<Rightarrow> ('n, 'c) conn_iface \<Rightarrow>
  ('w, 'o, 'r, 'n) update_agent_ctx_t \<Rightarrow> ('w, 'o, 'r, 'n) update_agent_ctx_t option" where
  "loop_once pl ci s = (case conn_wait ci (ua_conn s) of (rs, _, n) \<Rightarrow> deliver pl rs (s\<lparr>ua_conn := n\<rparr>))"

section \<open>Events\<close>

datatype update_event = EVENT_UPDATE_INIT | EVENT_UPDATE_CONTINUE_START | EVENT_SUBSCRIBE | EVENT_GET_MSG | EVENT_RECEIVE
  | EVENT_VERIFY | EVENT_FINAL | EVENT_APPLY | EVENT_VERIFY_BEFORE | EVENT_SUBSCRIBE_TIMEOUT | EVENT_VERIFY_AFTER
  | EVENT_CONTINUE_END | EVENT_SEND_START | EVENT_SUBSCRIBE_SEND | EVENT_RECEIVE_SEND | EVENT_SEND_END
  | EVENT_RECOVER_START | EVENT_CHECKING_UPDATES_RECOVER | EVENT_RECEIVE_RECOVER | EVENT_RECOVER_END
  | EVENT_UPDATE_FAILURE_START | EVENT_INIT_FAILURE | EVENT_INIT_FAILURE_2 | EVENT_INIT_FAILURE_3 | EVENT_GET_MSG_FAILURE
  | EVENT_SUBSCRIBE_FAILURE | EVENT_SUBSCRIBE_FAILURE_2 | EVENT_RECEIVER_FAILURE | EVENT_RECEIVER_FAILURE_2
  | EVENT_VERIFY_FAILURE | EVENT_INVALIDATE_OBJECT_FAILURE | EVENT_FAILURE_END

primrec update_event_code :: "update_event \<Rightarrow> nat" where
  "update_event_code EVENT_UPDATE_INIT = 0" | "update_event_code EVENT_UPDATE_CONTINUE_START = 1"
| "update_event_code EVENT_SUBSCRIBE = 2" | "update_event_code EVENT_GET_MSG = 3" | "update_event_code EVENT_RECEIVE = 4"
| "update_event_code EVENT_VERIFY = 5" | "update_event_code EVENT_FINAL = 6" | "update_event_code EVENT_APPLY = 7"
| "update_event_code EVENT_VERIFY_BEFORE = 8" | "update_event_code EVENT_SUBSCRIBE_TIMEOUT = 9"
| "update_event_code EVENT_VERIFY_AFTER = 10" | "update_event_code EVENT_CONTINUE_END = 11"
| "update_event_code EVENT_SEND_START = 12" | "update_event_code EVENT_SUBSCRIBE_SEND = 13"
| "update_event_code EVENT_RECEIVE_SEND = 14" | "update_event_code EVENT_SEND_END = 15"
| "update_event_code EVENT_RECOVER_START = 16" | "update_event_code EVENT_CHECKING_UPDATES_RECOVER = 17"
| "update_event_code EVENT_RECEIVE_RECOVER = 18" | "update_event_code EVENT_RECOVER_END = 19"
| "update_event_code EVENT_UPDATE_FAILURE_START = 20" | "update_event_code EVENT_INIT_FAILURE = 21"
| "update_event_code EVENT_INIT_FAILURE_2 = 22" | "update_event_code EVENT_INIT_FAILURE_3 = 23"
| "update_event_code EVENT_GET_MSG_FAILURE = 24" | "update_event_code EVENT_SUBSCRIBE_FAILURE = 25"
| "update_event_code EVENT_SUBSCRIBE_FAILURE_2 = 26" | "update_event_code EVENT_RECEIVER_FAILURE = 27"
| "update_event_code EVENT_RECEIVER_FAILURE_2 = 28" | "update_event_code EVENT_VERIFY_FAILURE = 29"
| "update_event_code EVENT_INVALIDATE_OBJECT_FAILURE = 30" | "update_event_code EVENT_FAILURE_END = 31"

definition IS_UPDATE_CONTINUE :: "update_event \<Rightarrow> bool" where
  "IS_UPDATE_CONTINUE ev \<longleftrightarrow> update_event_code EVENT_UPDATE_CONTINUE_START < update_event_code ev \<and>
     update_event_code ev < update_event_code EVENT_CONTINUE_END"

definition IS_SEND :: "update_event \<Rightarrow> bool" where
  "IS_SEND ev \<longleftrightarrow> update_event_code EVENT_SEND_START < update_event_code ev \<and> update_event_code ev < update_event_code EVENT_SEND_END"

definition IS_RECOVER :: "update_event \<Rightarrow> bool" where
  "IS_RECOVER ev \<longleftrightarrow> update_event_code EVENT_RECOVER_START < update_event_code ev \<and>
     update_event_code ev < update_event_code EVENT_RECOVER_END"

definition IS_UPDATE_FAILURE :: "update_event \<Rightarrow> bool" where
  "IS_UPDATE_FAILURE ev \<longleftrightarrow> update_event_code EVENT_UPDATE_FAILURE_START < update_event_code ev \<and>
     update_event_code ev < update_event_code EVENT_FAILURE_END"

text \<open>The events of a \<open>PULL_CONTINUE\<close> and of a \<open>PULL_SEND\<close>.\<close>

definition update_continue :: "update_event \<Rightarrow> bool" where
  "update_continue ev \<longleftrightarrow> ev \<in> {EVENT_SUBSCRIBE, EVENT_GET_MSG, EVENT_RECEIVE, EVENT_SUBSCRIBE_TIMEOUT}"

definition update_send :: "update_event \<Rightarrow> bool" where
  "update_send ev \<longleftrightarrow> ev \<in> {EVENT_SUBSCRIBE_SEND, EVENT_RECEIVE_SEND}"

section \<open>Segments\<close>

type_synonym ('w, 'o, 'r, 'n) update_result = "update_event \<times> ('w, 'o, 'r, 'n) update_agent_ctx_t"

definition ua_set_callback :: "('n, 'c) conn_iface \<Rightarrow> ('w, 'o, 'r, 'n) update_agent_ctx_t \<Rightarrow> ('w, 'o, 'r, 'n) update_result" where
  "ua_set_callback ci s = (case conn_on_data ci (ua_conn s) of (err, n) \<Rightarrow>
     let s = s\<lparr>ua_err := err, ua_conn := n\<rparr> in
     if err \<noteq> PULL_SUCCESS then (EVENT_INIT_FAILURE_3, s) else (EVENT_SUBSCRIBE, s))"

definition ua_init_fsm :: "('w, 'o, 'd, 'r) platform \<Rightarrow> ('n, 'c) conn_iface \<Rightarrow> 'c update_agent_config_t \<Rightarrow>
  ('w, 'o, 'r, 'n) update_agent_ctx_t \<Rightarrow> ('w, 'o, 'r, 'n) update_result" where
  "ua_init_fsm pl ci cfg s = (case fsm_init pl (ua_fsmc s) (uc_safestore cfg) (ua_obj_t s) (ua_old_obj s) (ua_world s) of
     (err, ctx, w) \<Rightarrow> let s = s\<lparr>ua_err := err, ua_fsmc := ctx, ua_world := w\<rparr> in
       if err \<noteq> PULL_SUCCESS then (EVENT_INIT_FAILURE_2, s) else ua_set_callback ci s)"

definition ua_init :: "('w, 'o, 'd, 'r) platform \<Rightarrow> ('n, 'c) conn_iface \<Rightarrow> 'c update_agent_config_t \<Rightarrow>
  ('w, 'o, 'r, 'n) update_agent_ctx_t \<Rightarrow> ('w, 'o, 'r, 'n) update_result" where
  "ua_init pl ci cfg s = (case conn_init ci (uc_conn cfg) (ua_conn s) of (err, n) \<Rightarrow>
     let s = s\<lparr>ua_err := err, ua_conn := n\<rparr> in
     if err \<noteq> PULL_SUCCESS then (EVENT_INIT_FAILURE, s) else ua_init_fsm pl ci cfg s)"

definition ua_subscribe :: "('n, 'c) conn_iface \<Rightarrow> ('w, 'o, 'r, 'n) update_agent_ctx_t \<Rightarrow> ('w, 'o, 'r, 'n) update_result" where
  "ua_subscribe ci s = (case conn_request ci GET ''/version'' [] (ua_conn s) of (err, n) \<Rightarrow>
     let s = s\<lparr>ua_err := err, ua_conn := n\<rparr> in
     if err \<noteq> PULL_SUCCESS then (EVENT_SUBSCRIBE_FAILURE, s) else (EVENT_SUBSCRIBE_SEND, s))"

definition ua_subscribed :: "('n, 'c) conn_iface \<Rightarrow> ('w, 'o, 'r, 'n) update_agent_ctx_t \<Rightarrow> ('w, 'o, 'r, 'n) update_result" where
  "ua_subscribed ci s = (if fsm_state (ua_fsmc s) \<noteq> STATE_START_UPDATE then ua_subscribe ci s else (EVENT_GET_MSG, s))"

definition ua_get_msg :: "('w, 'o, 'd, 'r) platform \<Rightarrow> ('w, 'o, 'r, 'n) update_agent_ctx_t \<Rightarrow>
  ('w, 'o, 'r, 'n) update_result option" where
  "ua_get_msg pl s = Option.bind (fsm pl (ua_fsmc s) (ua_static s) (ua_msg s) (ua_world s)) (\<lambda>(err, ctx, fs, msg, w).
     let s = s\<lparr>ua_err := err, ua_fsmc := ctx, ua_static := fs, ua_msg := msg, ua_world := w\<rparr> in
     Some (if err \<noteq> PULL_SUCCESS then EVENT_GET_MSG_FAILURE else EVENT_RECEIVE, s))"

text \<open>\<open>update_receiver_msg\<close> on the bytes of the message, whose field \<open>offset\<close> is at 12.\<close>

definition msg_of_bytes :: "byte list \<Rightarrow> receiver_msg_t" where
  "msg_of_bytes bs = \<lparr>msg_udid = word_of_nat (le_dec (block 0 2 bs)), msg_nonce = word_of_nat (le_dec (block 4 4 bs)),
     msg_version = word_of_nat (le_dec (block 8 2 bs)), msg_offset = word_of_nat (le_dec (block 12 4 bs))\<rparr>"

definition ua_update_msg :: "('w, 'o, 'r, 'n) update_agent_ctx_t \<Rightarrow> ('w, 'o, 'r, 'n) update_agent_ctx_t" where
  "ua_update_msg s = s\<lparr>ua_msg :=
     splice_at 12 (le_enc 4 (unat (msg_offset (snd (update_receiver_msg (ua_fsmc s) (msg_of_bytes (ua_msg s))))))) (ua_msg s)\<rparr>"

definition ua_receive :: "('n, 'c) conn_iface \<Rightarrow> ('w, 'o, 'r, 'n) update_agent_ctx_t \<Rightarrow> ('w, 'o, 'r, 'n) update_result" where
  "ua_receive ci s = (let s = ua_update_msg s in
     case conn_request ci GET_BLOCKWISE2 ''/firmware'' (ua_msg s) (ua_conn s) of (err, n) \<Rightarrow>
       let s = s\<lparr>ua_err := err, ua_conn := n\<rparr> in
       if err \<noteq> PULL_SUCCESS then (EVENT_RECEIVER_FAILURE, s) else (EVENT_RECEIVE_SEND, s))"

definition ua_received :: "('n, 'c) conn_iface \<Rightarrow> ('w, 'o, 'r, 'n) update_agent_ctx_t \<Rightarrow> ('w, 'o, 'r, 'n) update_result" where
  "ua_received ci s = (if fsm_state (ua_fsmc s) = STATE_RECEIVE_FIRMWARE then ua_receive ci s
     else (EVENT_APPLY, s\<lparr>ua_conn := conn_end ci (ua_conn s)\<rparr>))"

definition ua_segment :: "('w, 'o, 'd, 'r) platform \<Rightarrow> ('n, 'c) conn_iface \<Rightarrow> 'c update_agent_config_t \<Rightarrow> update_event \<Rightarrow>
  ('w, 'o, 'r, 'n) update_agent_ctx_t \<Rightarrow> ('w, 'o, 'r, 'n) update_result option" where
  "ua_segment pl ci cfg ev s = (case ev of
     EVENT_INIT_FAILURE \<Rightarrow> Some (ua_init_fsm pl ci cfg s)
   | EVENT_INIT_FAILURE_2 \<Rightarrow> Some (ua_set_callback ci s)
   | EVENT_INIT_FAILURE_3 \<Rightarrow> Some (EVENT_SUBSCRIBE, s)
   | EVENT_SUBSCRIBE \<Rightarrow> Some (ua_subscribe ci s)
   | EVENT_SUBSCRIBE_FAILURE \<Rightarrow> Some (EVENT_SUBSCRIBE_SEND, s)
   | EVENT_SUBSCRIBE_SEND \<Rightarrow> Some (if ua_reqc_err s \<noteq> PULL_SUCCESS then (EVENT_SUBSCRIBE_FAILURE_2, s) else ua_subscribed ci s)
   | EVENT_SUBSCRIBE_FAILURE_2 \<Rightarrow> Some (ua_subscribed ci s)
   | EVENT_GET_MSG \<Rightarrow> ua_get_msg pl s
   | EVENT_GET_MSG_FAILURE \<Rightarrow> Some (EVENT_RECEIVE, s)
   | EVENT_RECEIVE \<Rightarrow> Some (ua_receive ci s)
   | EVENT_RECEIVER_FAILURE \<Rightarrow> Some (EVENT_RECEIVE_SEND, s)
   | EVENT_RECEIVE_SEND \<Rightarrow> Some (if ua_reqc_err s \<noteq> PULL_SUCCESS then (EVENT_RECEIVER_FAILURE_2, s) else (EVENT_SUBSCRIBE_TIMEOUT, s))
   | EVENT_RECEIVER_FAILURE_2 \<Rightarrow> Some (ua_received ci s)
   | EVENT_SUBSCRIBE_TIMEOUT \<Rightarrow> Some (ua_received ci s)
   | EVENT_APPLY \<Rightarrow> Some (EVENT_APPLY, s)
   | _ \<Rightarrow> Some (ua_init pl ci cfg s))"

section \<open>The two builds and the runners\<close>

text \<open>Without coroutines \<open>PULL_SEND\<close> is a call of \<open>loop\<close>.\<close>

partial_function (option) ua_straight :: "('w, 'o, 'd, 'r) platform \<Rightarrow> ('n, 'c) conn_iface \<Rightarrow> 'c update_agent_config_t \<Rightarrow>
  update_event \<Rightarrow> ('w, 'o, 'r, 'n) update_agent_ctx_t \<Rightarrow> ('w, 'o, 'r, 'n) update_result option" where
  "ua_straight pl ci cfg ev s = Option.bind (ua_segment pl ci cfg ev s) (\<lambda>(ev', s').
     if update_continue ev' then ua_straight pl ci cfg ev' s'
     else if update_send ev' then Option.bind (loop pl ci s') (\<lambda>s'. ua_straight pl ci cfg ev' s')
     else Some (ev', s'))"

declare ua_straight.simps [code]

definition update_agent :: "('w, 'o, 'd, 'r) platform \<Rightarrow> ('n, 'c) conn_iface \<Rightarrow> 'c update_agent_config_t \<Rightarrow>
  ('w, 'o, 'r, 'n) update_agent_ctx_t \<Rightarrow> ('w, 'o, 'r, 'n) update_result option" where
  "update_agent pl ci cfg s = ua_straight pl ci cfg EVENT_UPDATE_INIT s"

text \<open>
  The update process of Contiki-NG: a call of the agent runs one segment; \<open>COAP_SEND\<close> runs the blocking request, which hands the
  responses to the callback. The result says whether the device reboots.
\<close>

partial_function (option) contiki_update :: "('w, 'o, 'd, 'r) platform \<Rightarrow> ('n, 'c) conn_iface \<Rightarrow> 'c update_agent_config_t \<Rightarrow>
  update_event \<Rightarrow> int \<Rightarrow> ('w, 'o, 'r, 'n) update_agent_ctx_t \<Rightarrow> (bool \<times> ('w, 'o, 'r, 'n) update_agent_ctx_t) option" where
  "contiki_update pl ci cfg ev retries s = Option.bind (ua_segment pl ci cfg ev s) (\<lambda>(ev', s').
     if IS_UPDATE_FAILURE ev' then Some (False, s')
     else if IS_UPDATE_CONTINUE ev' then
       if ev' = EVENT_APPLY then Some (True, s') else contiki_update pl ci cfg ev' retries s'
     else if IS_RECOVER ev' then
       if retries \<le> 0 then contiki_update pl ci cfg ev' (retries - 1) s' else Some (False, s')
     else if IS_SEND ev' then Option.bind (loop pl ci s') (\<lambda>s'. contiki_update pl ci cfg ev' retries s')
     else contiki_update pl ci cfg ev' retries s')"

declare contiki_update.simps [code]

text \<open>Zephyr and RIOT call the agent, built without coroutines, until it fails or applies.\<close>

partial_function (option) zephyr_update :: "('w, 'o, 'd, 'r) platform \<Rightarrow> ('n, 'c) conn_iface \<Rightarrow> 'c update_agent_config_t \<Rightarrow>
  ('w, 'o, 'r, 'n) update_agent_ctx_t \<Rightarrow> (bool \<times> ('w, 'o, 'r, 'n) update_agent_ctx_t) option" where
  "zephyr_update pl ci cfg s = Option.bind (update_agent pl ci cfg s) (\<lambda>(ev, s').
     if IS_UPDATE_FAILURE ev then Some (False, s')
     else if IS_SEND ev then Option.bind (loop pl ci s') (zephyr_update pl ci cfg)
     else if IS_UPDATE_CONTINUE ev then
       if ev = EVENT_APPLY then Some (True, s') else zephyr_update pl ci cfg s'
     else zephyr_update pl ci cfg s')"

declare zephyr_update.simps [code]

section \<open>What the agent does to the memory\<close>

text \<open>
  Whatever the network delivers, the agent reaches only states that the state machine can reach, with the keys and the version
  of the initialisation, and its memory is that of the initialisation unless a newer manifest has passed both signature checks.
\<close>

definition fsm_session ::
  "('w, 'o, 'd, 'r) platform \<Rightarrow> safestore_t \<Rightarrow> version_t \<Rightarrow> 'w \<Rightarrow> ('o, 'r) fsm_ctx \<Rightarrow> 'o fsm_static \<Rightarrow> 'w \<Rightarrow> bool" where
  "fsm_session pl sf v wi ctx fs w \<longleftrightarrow> fsm_reachable pl ctx fs w \<and> fsm_sf ctx = sf \<and> fsm_version ctx = v \<and>
     (w = wi \<or> (\<exists>mt. verify_manifest (pl_sec pl) mt sf = Some PULL_SUCCESS \<and> v < vm_version (vendor mt)))"

definition ua_inv :: "('w, 'o, 'd, 'r) platform \<Rightarrow> safestore_t \<Rightarrow> version_t \<Rightarrow> 'w \<Rightarrow> ('w, 'o, 'r, 'n) update_agent_ctx_t \<Rightarrow> bool" where
  "ua_inv pl sf v wi s \<longleftrightarrow> fsm_session pl sf v wi (ua_fsmc s) (ua_static s) (ua_world s)"

lemma fsm_verify_manifest_keeps:
  "fsm_verify_manifest pl ctx fs bufp buf w = Some (e, ctx', fs', buf', w') \<Longrightarrow>
   fsm_version ctx' = fsm_version ctx \<and> fsm_sf ctx' = fsm_sf ctx"
  by (auto simp: fsm_verify_manifest_def fsm_configure_def fsm_open_slot_def Let_def split: fsm_splits)

lemma fsm_init_sf: "fsm_init pl ctx sf obj old w = (e, ctx', w') \<Longrightarrow> fsm_sf ctx' = sf"
  by (auto simp: fsm_init_def Let_def split: prod.splits if_splits)

lemma fsm_keeps:
  "fsm pl ctx fs buf w = Some (e, ctx', fs', buf', w') \<Longrightarrow> fsm_version ctx' = fsm_version ctx \<and> fsm_sf ctx' = fsm_sf ctx"
  by (cases "fsm_state ctx")
    (auto simp: fsm_def fsm_clean_def fsm_idle_def fsm_start_update_def fsm_receive_manifest_def fsm_receive_firmware_def
      fsm_verify_firmware_def Let_def dest: fsm_verify_manifest_keeps split: fsm_splits)

text \<open>A step that leaves the machine alone, or is one call of it.\<close>

definition ua_step :: "('w, 'o, 'd, 'r) platform \<Rightarrow> ('w, 'o, 'r, 'n) update_agent_ctx_t \<Rightarrow> ('w, 'o, 'r, 'n) update_agent_ctx_t \<Rightarrow> bool" where
  "ua_step pl s s' \<longleftrightarrow> (ua_fsmc s' = ua_fsmc s \<and> ua_static s' = ua_static s \<and> ua_world s' = ua_world s) \<or>
     (\<exists>buf e buf'. fsm pl (ua_fsmc s) (ua_static s) buf (ua_world s) = Some (e, ua_fsmc s', ua_static s', buf', ua_world s'))"

lemma fsm_session_call:
  assumes "fsm_session pl sf v wi ctx fs w" and f: "fsm pl ctx fs buf w = Some (e, ctx', fs', buf', w')"
  shows "fsm_session pl sf v wi ctx' fs' w'"
proof -
  have r: "fsm_reachable pl ctx fs w" using assms(1) by (simp add: fsm_session_def)
  have nv: "fsm_state ctx \<noteq> STATE_VERIFY_FIRMWARE" using fsm_reachable_inv [OF r] by (simp add: fsm_inv_def)
  have "w' = w \<or> (\<exists>mt. verify_manifest (pl_sec pl) mt sf = Some PULL_SUCCESS \<and> v < vm_version (vendor mt))"
    using fsm_memory_change [OF f] nv fsm_reachable_auth [OF r] assms(1) by (auto simp: fsm_auth_def fsm_session_def)
  with fsm_keeps [OF f] fsm_call [OF r f] assms(1) show ?thesis by (auto simp: fsm_session_def)
qed

lemma ua_inv_step:
  assumes "ua_inv pl sf v wi s" and "ua_step pl s s'"
  shows "ua_inv pl sf v wi s'"
  using assms unfolding ua_step_def by (auto simp: ua_inv_def intro: fsm_session_call)

lemma request_cb_step:
  assumes "request_cb pl r s = Some s'"
  shows "ua_step pl s s'"
proof -
  obtain err data len where "r = (err, data, len)" by (metis prod_cases3)
  with assms show ?thesis
    by (auto simp: request_cb_def break_loop_def ua_step_def Let_def split: if_splits option.splits bind_splits)
qed

lemma ua_segment_step:
  assumes "ua_segment pl ci cfg ev s = Some (ev', s')"
    and "ev \<in> {EVENT_SUBSCRIBE, EVENT_SUBSCRIBE_SEND, EVENT_GET_MSG, EVENT_RECEIVE, EVENT_RECEIVE_SEND, EVENT_SUBSCRIBE_TIMEOUT}"
  shows "ua_step pl s s'" "ev' \<noteq> EVENT_UPDATE_INIT"
    "ev' = EVENT_APPLY \<longrightarrow> ev = EVENT_SUBSCRIBE_TIMEOUT \<and> fsm_state (ua_fsmc s') \<noteq> STATE_RECEIVE_FIRMWARE \<and>
       ua_reqc_err s' = ua_reqc_err s"
    "ev' = EVENT_SUBSCRIBE_TIMEOUT \<longrightarrow> ua_reqc_err s' = PULL_SUCCESS"
  using assms by (auto simp: ua_segment_def ua_subscribe_def ua_subscribed_def ua_get_msg_def ua_receive_def ua_received_def
      ua_update_msg_def ua_step_def Let_def split: if_splits prod.splits bind_splits)

lemma deliver_inv: "deliver pl rs s = Some s' \<Longrightarrow> ua_inv pl sf v wi s \<Longrightarrow> ua_inv pl sf v wi s'"
proof (induction rs arbitrary: s)
  case (Cons r rs)
  then obtain s1 where "request_cb pl r s = Some s1" "deliver pl rs s1 = Some s'" by (auto split: bind_splits)
  with Cons.IH [of s1] ua_inv_step [OF Cons.prems(2) request_cb_step] show ?case by blast
qed simp

lemma loop_body_inv:
  fixes pl :: "('w, 'o, 'd, 'r) platform" and ci :: "('n, 'c) conn_iface" and s :: "('w, 'o, 'r, 'n) update_agent_ctx_t"
  assumes "loop_body pl ci s = Some s'"
  shows "ua_inv pl sf v wi s \<longrightarrow> ua_inv pl sf v wi s'"
  using assms
proof (rule loop_body.raw_induct [rotated])
  fix f :: "('w, 'o, 'd, 'r) platform \<Rightarrow> ('n, 'c) conn_iface \<Rightarrow> ('w, 'o, 'r, 'n) update_agent_ctx_t \<Rightarrow> ('w, 'o, 'r, 'n) update_agent_ctx_t option"
    and pl ci s s'
  assume IH: "\<And>pl ci s s'. f pl ci s = Some s' \<Longrightarrow> ua_inv pl sf v wi s \<longrightarrow> ua_inv pl sf v wi s'"
    and st: "(case conn_wait ci (ua_conn s) of (rs, timeout, n) \<Rightarrow> Option.bind (deliver pl rs (s\<lparr>ua_conn := n\<rparr>))
      (\<lambda>s. if timeout then Some s else if ua_loop s then f pl ci s else Some s)) = Some s'"
  obtain rs timeout n where c: "conn_wait ci (ua_conn s) = (rs, timeout, n)" by (metis prod_cases3)
  have "ua_inv pl sf v wi (s\<lparr>ua_conn := n\<rparr>)" if "ua_inv pl sf v wi s" using that by (simp add: ua_inv_def)
  with IH st c show "ua_inv pl sf v wi s \<longrightarrow> ua_inv pl sf v wi s'"
    by (auto split: bind_splits if_splits dest: deliver_inv)
qed

lemma loop_inv: "loop pl ci s = Some s' \<Longrightarrow> ua_inv pl sf v wi s \<Longrightarrow> ua_inv pl sf v wi s'"
  using loop_body_inv [of pl ci "s\<lparr>ua_loop := True\<rparr>" s' sf v wi] by (simp add: loop_def ua_inv_def)

text \<open>A run of the agent from a point after the initialisation.\<close>

definition ua_running :: "update_event \<Rightarrow> bool" where
  "ua_running ev \<longleftrightarrow> ev \<in> {EVENT_SUBSCRIBE, EVENT_SUBSCRIBE_SEND, EVENT_GET_MSG, EVENT_RECEIVE, EVENT_RECEIVE_SEND, EVENT_SUBSCRIBE_TIMEOUT}"

definition ua_post :: "update_event \<Rightarrow> ('w, 'o, 'r, 'n) update_agent_ctx_t \<Rightarrow> bool" where
  "ua_post ev s \<longleftrightarrow> (ev = EVENT_APPLY \<longrightarrow> ua_reqc_err s = PULL_SUCCESS \<and> fsm_state (ua_fsmc s) \<noteq> STATE_RECEIVE_FIRMWARE)"

lemma ua_straight_inv:
  fixes pl :: "('w, 'o, 'd, 'r) platform" and ci :: "('n, 'c) conn_iface" and s :: "('w, 'o, 'r, 'n) update_agent_ctx_t"
  assumes "ua_straight pl ci cfg ev s = Some r"
  shows "ua_running ev \<longrightarrow> (ev = EVENT_SUBSCRIBE_TIMEOUT \<longrightarrow> ua_reqc_err s = PULL_SUCCESS) \<longrightarrow> ua_inv pl sf v wi s \<longrightarrow>
    ua_inv pl sf v wi (snd r) \<and> ua_post (fst r) (snd r)"
  using assms
proof (rule ua_straight.raw_induct [rotated])
  fix f :: "('w, 'o, 'd, 'r) platform \<Rightarrow> ('n, 'c) conn_iface \<Rightarrow> 'c update_agent_config_t \<Rightarrow> update_event \<Rightarrow>
      ('w, 'o, 'r, 'n) update_agent_ctx_t \<Rightarrow> ('w, 'o, 'r, 'n) update_result option" and pl ci cfg ev s r
  assume IH: "\<And>pl ci cfg ev s r. f pl ci cfg ev s = Some r \<Longrightarrow> ua_running ev \<longrightarrow>
        (ev = EVENT_SUBSCRIBE_TIMEOUT \<longrightarrow> ua_reqc_err s = PULL_SUCCESS) \<longrightarrow> ua_inv pl sf v wi s \<longrightarrow>
        ua_inv pl sf v wi (snd r) \<and> ua_post (fst r) (snd r)"
    and st: "Option.bind (ua_segment pl ci cfg ev s) (\<lambda>(ev', s'). if update_continue ev' then f pl ci cfg ev' s'
      else if update_send ev' then Option.bind (loop pl ci s') (f pl ci cfg ev') else Some (ev', s')) = Some r"
  show "ua_running ev \<longrightarrow> (ev = EVENT_SUBSCRIBE_TIMEOUT \<longrightarrow> ua_reqc_err s = PULL_SUCCESS) \<longrightarrow> ua_inv pl sf v wi s \<longrightarrow>
    ua_inv pl sf v wi (snd r) \<and> ua_post (fst r) (snd r)"
  proof (intro impI)
    assume run: "ua_running ev" and e: "ev = EVENT_SUBSCRIBE_TIMEOUT \<longrightarrow> ua_reqc_err s = PULL_SUCCESS" and i: "ua_inv pl sf v wi s"
    obtain ev' s' where g: "ua_segment pl ci cfg ev s = Some (ev', s')" using st by (auto split: bind_splits)
    note seg = ua_segment_step [OF g run [unfolded ua_running_def]]
    have i': "ua_inv pl sf v wi s'" by (rule ua_inv_step [OF i seg(1)])
    consider (c) "update_continue ev'" | (s) "update_send ev'" "\<not> update_continue ev'" | (r) "\<not> update_continue ev'" "\<not> update_send ev'"
      by blast
    then show "ua_inv pl sf v wi (snd r) \<and> ua_post (fst r) (snd r)"
    proof cases
      case c
      then have "ua_running ev'" by (auto simp: update_continue_def ua_running_def)
      with IH [of pl ci cfg ev' s' r] st g c i' seg(4) show ?thesis by simp
    next
      case s
      then have r: "ua_running ev'" "ev' \<noteq> EVENT_SUBSCRIBE_TIMEOUT" by (auto simp: update_send_def ua_running_def)
      obtain s2 where "loop pl ci s' = Some s2" "f pl ci cfg ev' s2 = Some r" using st g s by (auto split: bind_splits)
      with IH [of pl ci cfg ev' s2 r] loop_inv [OF _ i'] r show ?thesis by blast
    next
      case r
      then have "r = (ev', s')" using st g by simp
      with i' seg(3) e show ?thesis by (auto simp: ua_post_def)
    qed
  qed
qed
text \<open>
  The initialisation itself leaves the memory alone but for the descriptors of the search for the newest slot.
\<close>

lemma update_agent_inv:
  assumes "update_agent pl ci cfg s = Some (ev, s')" and "wf_static (ua_static s)"
    and "fsm_init pl (ua_fsmc s) (uc_safestore cfg) (ua_obj_t s) (ua_old_obj s) (ua_world s) = (PULL_SUCCESS, ctx0, wi)"
  shows "(ua_world s' \<in> {ua_world s, wi} \<or> (\<exists>mt. verify_manifest (pl_sec pl) mt (uc_safestore cfg) = Some PULL_SUCCESS \<and>
      fsm_version ctx0 < vm_version (vendor mt))) \<and> ua_post ev s'"
proof -
  obtain e1 n1 where c1: "conn_init ci (uc_conn cfg) (ua_conn s) = (e1, n1)" by fastforce
  obtain e2 n2 where c2: "conn_on_data ci n1 = (e2, n2)" by fastforce
  let ?s = "s\<lparr>ua_err := PULL_SUCCESS, ua_conn := n1, ua_err := PULL_SUCCESS, ua_fsmc := ctx0, ua_world := wi,
      ua_err := e2, ua_conn := n2\<rparr>"
  have i: "ua_inv pl (uc_safestore cfg) (fsm_version ctx0) wi ?s"
    using fsm_start [OF assms(3,2)] fsm_init_sf [OF assms(3)] by (simp add: ua_inv_def fsm_session_def)
  note ag = assms(1) [unfolded update_agent_def ua_straight.simps [of pl ci cfg EVENT_UPDATE_INIT]]
  show ?thesis
  proof (cases "e1 = PULL_SUCCESS \<and> e2 = PULL_SUCCESS")
    case False
    with ag c1 c2 assms(3) show ?thesis
      by (auto simp: ua_segment_def ua_init_def ua_init_fsm_def ua_set_callback_def update_continue_def update_send_def
          ua_post_def Let_def split: if_splits)
  next
    case True
    with ag c1 c2 assms(3) have "ua_straight pl ci cfg EVENT_SUBSCRIBE ?s = Some (ev, s')"
      by (simp add: ua_segment_def ua_init_def ua_init_fsm_def ua_set_callback_def update_continue_def Let_def)
    from ua_straight_inv [OF this, of "uc_safestore cfg" "fsm_version ctx0" wi] i show ?thesis
      by (auto simp: ua_running_def ua_inv_def fsm_session_def)
  qed
qed

section \<open>A whole session of the agent\<close>

text \<open>
  The responses of a network up to the next timeout, over any number of turns of the event loop.
\<close>

inductive waits :: "('n, 'c) conn_iface \<Rightarrow> 'n \<Rightarrow> response list \<Rightarrow> 'n \<Rightarrow> bool" for ci where
  waits_last: "conn_wait ci n = (rs, True, n') \<Longrightarrow> waits ci n rs n'"
| waits_more: "conn_wait ci n = (rs, False, n1) \<Longrightarrow> waits ci n1 rs' n' \<Longrightarrow> waits ci n (rs @ rs') n'"

definition block_response :: "byte list \<Rightarrow> response" where
  "block_response c = (PULL_SUCCESS, Some c, int (length c))"

text \<open>The state after the machine was fed: only the fields that the rest of the run reads.\<close>

definition ua_fed :: "('o, 'r) fsm_ctx \<Rightarrow> 'o fsm_static \<Rightarrow> 'w \<Rightarrow> pull_error \<Rightarrow> ('w, 'o, 'r, 'n) update_agent_ctx_t \<Rightarrow>
  ('w, 'o, 'r, 'n) update_agent_ctx_t \<Rightarrow> bool" where
  "ua_fed ctx fs w e s s' \<longleftrightarrow> ua_fsmc s' = ctx \<and> ua_static s' = fs \<and> ua_world s' = w \<and> ua_reqc_err s' = e \<and> ua_msg s' = ua_msg s"

lemma deliver_append: "deliver pl (rs @ rs') s = Option.bind (deliver pl rs s) (deliver pl rs')"
  by (induction rs arbitrary: s) (auto split: bind_splits)

lemma request_cb_block:
  "request_cb pl (block_response c) s = Option.bind (fsm pl (ua_fsmc s) (ua_static s) c (ua_world s)) (\<lambda>(e, ctx, fs, _, w).
     let s = s\<lparr>ua_fsmc := ctx, ua_static := fs, ua_world := w, ua_reqc_err := e\<rparr> in
     Some (if e \<noteq> PULL_SUCCESS then break_loop s else s))"
  by (simp add: request_cb_def block_response_def)

lemma deliver_run:
  assumes "fsm_run pl cs (ua_fsmc s) (ua_static s) (ua_world s) = Some (e, ctx, fs, w)"
    and "cs \<noteq> [] \<longrightarrow> (\<exists>r. fsm_run pl (butlast cs) (ua_fsmc s) (ua_static s) (ua_world s) = Some (PULL_SUCCESS, r))"
  shows "\<exists>s'. deliver pl (map block_response cs) s = Some s' \<and>
    ua_fed ctx fs w (if cs = [] then ua_reqc_err s else e) s s' \<and> ua_conn s' = ua_conn s \<and>
    ua_loop s' = (ua_loop s \<and> e = PULL_SUCCESS)"
  using assms
proof (induction cs arbitrary: s)
  case Nil
  then show ?case by (auto simp: ua_fed_def)
next
  case (Cons c cs)
  from Cons.prems(1) obtain e1 ctx1 fs1 c1 w1 where f: "fsm pl (ua_fsmc s) (ua_static s) c (ua_world s) = Some (e1, ctx1, fs1, c1, w1)"
    and r: "(if e1 \<noteq> PULL_SUCCESS then Some (e1, ctx1, fs1, w1) else fsm_run pl cs ctx1 fs1 w1) = Some (e, ctx, fs, w)"
    by (auto split: bind_splits)
  let ?s = "s\<lparr>ua_fsmc := ctx1, ua_static := fs1, ua_world := w1, ua_reqc_err := e1\<rparr>"
  show ?case
  proof (cases "e1 = PULL_SUCCESS")
    case True
    have "\<exists>r. fsm_run pl (butlast cs) ctx1 fs1 w1 = Some (PULL_SUCCESS, r)" if "cs \<noteq> []"
      using Cons.prems(2) f True that by auto
    with Cons.IH [of ?s] r True have "\<exists>s'. deliver pl (map block_response cs) ?s = Some s' \<and>
        ua_fed ctx fs w (if cs = [] then PULL_SUCCESS else e) ?s s' \<and> ua_conn s' = ua_conn s \<and> ua_loop s' = (ua_loop s \<and> e = PULL_SUCCESS)"
      by (cases cs) simp_all
    then obtain s' where "deliver pl (map block_response cs) ?s = Some s'"
      "ua_fed ctx fs w (if cs = [] then PULL_SUCCESS else e) ?s s'" "ua_conn s' = ua_conn s" "ua_loop s' = (ua_loop s \<and> e = PULL_SUCCESS)"
      by (elim exE conjE) (rule that)
    moreover have "cs = [] \<Longrightarrow> e = PULL_SUCCESS" using r True by simp
    ultimately show ?thesis using f True by (intro exI [of _ s']) (auto simp: request_cb_block ua_fed_def)
  next
    case False
    then have "cs = []" using Cons.prems(2) f by (cases cs) auto
    with f r False show ?thesis by (simp add: request_cb_block ua_fed_def break_loop_def Let_def)
  qed
qed


lemma deliver_turn:
  assumes "fsm_run pl cs (ua_fsmc s) (ua_static s) (ua_world s) = Some (e, ctx, fs, w)"
    and "cs \<noteq> [] \<longrightarrow> (\<exists>r. fsm_run pl (butlast cs) (ua_fsmc s) (ua_static s) (ua_world s) = Some (PULL_SUCCESS, r))"
  shows "\<exists>s'. deliver pl (map block_response cs) (s\<lparr>ua_conn := n\<rparr>) = Some s' \<and>
    ua_fed ctx fs w (if cs = [] then ua_reqc_err s else e) s s' \<and> ua_conn s' = n \<and>
    ua_loop s' = (ua_loop s \<and> e = PULL_SUCCESS)"
proof -
  let ?s = "s\<lparr>ua_conn := n\<rparr>"
  have "\<exists>s'. deliver pl (map block_response cs) ?s = Some s' \<and> ua_fed ctx fs w (if cs = [] then ua_reqc_err ?s else e) ?s s' \<and>
      ua_conn s' = ua_conn ?s \<and> ua_loop s' = (ua_loop ?s \<and> e = PULL_SUCCESS)"
    by (rule deliver_run) (use assms in simp_all)
  then show ?thesis by (cases "cs = []") (simp_all add: ua_fed_def)
qed

lemma loop_body_turn:
  assumes "conn_wait ci (ua_conn s) = (rs, timeout, n)" and "deliver pl rs (s\<lparr>ua_conn := n\<rparr>) = Some s1"
  shows "loop_body pl ci s = (if \<not> timeout \<and> ua_loop s1 then loop_body pl ci s1 else Some s1)"
  by (subst loop_body.simps) (simp add: assms)

lemma loop_body_run:
  assumes "waits ci n rs n'" and "rs = map block_response cs" and "ua_conn s = n" and "ua_loop s"
    and "fsm_run pl cs (ua_fsmc s) (ua_static s) (ua_world s) = Some (e, ctx, fs, w)"
    and "cs \<noteq> [] \<longrightarrow> (\<exists>r. fsm_run pl (butlast cs) (ua_fsmc s) (ua_static s) (ua_world s) = Some (PULL_SUCCESS, r))"
  shows "\<exists>s'. loop_body pl ci s = Some s' \<and> ua_fed ctx fs w (if cs = [] then ua_reqc_err s else e) s s' \<and>
    (e = PULL_SUCCESS \<longrightarrow> ua_conn s' = n')"
  using assms
proof (induction arbitrary: cs s rule: waits.induct)
  case (waits_last n rs n')
  obtain s' where "deliver pl rs (s\<lparr>ua_conn := n'\<rparr>) = Some s'"
    "ua_fed ctx fs w (if cs = [] then ua_reqc_err s else e) s s'" "ua_conn s' = n'"
    using deliver_turn [OF waits_last.prems(4,5)] unfolding waits_last.prems(1) by blast
  moreover from this have "loop_body pl ci s = Some s'"
    using loop_body_turn [of ci s rs True n' pl s'] waits_last.hyps waits_last.prems(2) by simp
  ultimately show ?case by (auto simp: ua_fed_def)
next
  case (waits_more n rs n1 rs' n')
  obtain cs1 cs2 where cs: "cs = cs1 @ cs2" "rs = map block_response cs1" "rs' = map block_response cs2"
    using waits_more.prems(1) by (metis append_eq_map_conv)
  let ?s = "s\<lparr>ua_conn := n1\<rparr>"
  obtain e1 ctx1 fs1 w1 where f: "fsm_run pl cs1 (ua_fsmc s) (ua_static s) (ua_world s) = Some (e1, ctx1, fs1, w1)"
    and r: "(if e1 \<noteq> PULL_SUCCESS then Some (e1, ctx1, fs1, w1) else fsm_run pl cs2 ctx1 fs1 w1) = Some (e, ctx, fs, w)"
    using waits_more.prems(4) cs(1) by (auto simp: fsm_run_append split: bind_splits)
  have b: "cs2 \<noteq> [] \<longrightarrow> e1 = PULL_SUCCESS \<and> (\<exists>r. fsm_run pl (butlast cs2) ctx1 fs1 w1 = Some (PULL_SUCCESS, r))"
    using waits_more.prems(5) f cs(1) by (auto simp: butlast_append fsm_run_append split: if_splits)
  have "\<exists>r. fsm_run pl (butlast cs1) (ua_fsmc s) (ua_static s) (ua_world s) = Some (PULL_SUCCESS, r)" if "cs1 \<noteq> []"
  proof (cases "cs2 = []")
    case False
    then have "fsm_run pl (butlast cs1 @ [last cs1]) (ua_fsmc s) (ua_static s) (ua_world s) = Some (PULL_SUCCESS, ctx1, fs1, w1)"
      using f b that by simp
    then show ?thesis by (auto simp: fsm_run_append simp del: append_butlast_last_id split: bind_splits if_splits)
  qed (use waits_more.prems(5) cs(1) that in simp)
  then obtain s1 where d: "deliver pl rs ?s = Some s1" "ua_fed ctx1 fs1 w1 (if cs1 = [] then ua_reqc_err s else e1) s s1"
    "ua_conn s1 = n1" "ua_loop s1 = (e1 = PULL_SUCCESS)"
    using deliver_turn [OF f, of n1] waits_more.prems(3) unfolding cs(2) by blast
  have lb: "loop_body pl ci s = (if e1 = PULL_SUCCESS then loop_body pl ci s1 else Some s1)"
    using loop_body_turn [of ci s rs False n1 pl s1] d(1,4) waits_more.hyps(1) waits_more.prems(2) by simp
  show ?case
  proof (cases "e1 = PULL_SUCCESS")
    case True
    with waits_more.IH [of cs2 s1] d r b cs(3) obtain s' where "loop_body pl ci s1 = Some s'"
      "ua_fed ctx fs w (if cs2 = [] then ua_reqc_err s1 else e) s1 s'" "e = PULL_SUCCESS \<longrightarrow> ua_conn s' = n'"
      by (auto simp: ua_fed_def)
    moreover have "cs2 = [] \<Longrightarrow> e = PULL_SUCCESS" using r True by simp
    ultimately show ?thesis using lb d(2) True cs(1) by (intro exI [of _ s']) (auto simp: ua_fed_def)
  next
    case False
    with f have "cs1 \<noteq> []" by auto
    with False lb d(2) r b cs(1) show ?thesis by (auto simp: ua_fed_def)
  qed
qed

lemma ua_straight_go:
  "ua_segment pl ci cfg ev s = Some (ev', s') \<Longrightarrow> update_continue ev' \<Longrightarrow>
   ua_straight pl ci cfg ev s = ua_straight pl ci cfg ev' s'"
  by (subst ua_straight.simps) simp

lemma ua_straight_send:
  "ua_segment pl ci cfg ev s = Some (ev', s') \<Longrightarrow> update_send ev' \<Longrightarrow> loop pl ci s' = Some s2 \<Longrightarrow>
   ua_straight pl ci cfg ev s = ua_straight pl ci cfg ev' s2"
  by (subst ua_straight.simps) (auto simp: update_continue_def update_send_def)

lemma ua_straight_stop:
  "ua_segment pl ci cfg ev s = Some (ev', s') \<Longrightarrow> \<not> update_continue ev' \<Longrightarrow> \<not> update_send ev' \<Longrightarrow>
   ua_straight pl ci cfg ev s = Some (ev', s')"
  by (subst ua_straight.simps) simp


context device_contract
begin

lemma slots_ready_same: "slots_ready n w \<Longrightarrow> \<forall>j\<in>ids. content j w' = content j w \<Longrightarrow> slots_ready n w'"
  by (auto simp: slots_ready_def)

lemma fsm_init_ok:
  assumes "slots_ready n w" and "0 < avail w" and "bootable (hd (active_slots (pl_slots pl)))"
  shows "\<exists>c ctx' w'. fsm_init pl ctx sf ob old w = (PULL_SUCCESS, ctx', w') \<and> c \<in> set (candidates True (pl_slots pl)) \<and>
    (\<forall>x\<in>set (candidates True (pl_slots pl)).
       content_version (content (slot_id x) w) \<le> content_version (content (slot_id c) w)) \<and>
    fsm_version ctx' = content_version (content (slot_id c) w) \<and> fsm_state ctx' = STATE_IDLE \<and> fsm_processed ctx' = 0 \<and>
    fsm_sf ctx' = sf \<and> (\<forall>j\<in>ids. content j w' = content j w) \<and> avail w \<le> avail w'"
proof -
  obtain s ss where act: "active_slots (pl_slots pl) = s # ss"
    using assms(1) by (cases "active_slots (pl_slots pl)") (simp_all add: slots_ready_def)
  have ok: "\<forall>x\<in>set (active_slots (pl_slots pl)). slot_id x \<in> ids \<and> sizeof_manifest \<le> length (content (slot_id x) w)"
    using assms(1) by (simp add: slots_ready_def)
  have pb: "True \<longrightarrow> bootable s" using assms(3) act by simp
  obtain r where r: "rng_init (pl_rng pl) (fsm_rctx ctx) = (PULL_SUCCESS, r)" using rng_init_ok by blast
  obtain c ob' w' where g: "get_ordered_firmware (pl_mem pl) (pl_slots pl) (fsm_old_id ctx) (fsm_version ctx) ob True True w =
      (PULL_SUCCESS, slot_id c, content_version (content (slot_id c) w), ob', w')"
    "c \<in> set (candidates True (pl_slots pl))"
    "\<forall>x\<in>set (candidates True (pl_slots pl)).
       content_version (content (slot_id x) w) \<le> content_version (content (slot_id c) w)"
    "\<forall>j\<in>ids. content j w' = content j w" "avail w \<le> avail w'"
    using get_ordered_firmware_ok [OF act pb ok assms(2), of "fsm_old_id ctx" "fsm_version ctx" ob True, unfolded if_True]
    by (elim exE conjE) (rule that)
  show ?thesis
    by (rule exI [of _ c]) (use g r in \<open>simp add: fsm_init_def get_newest_firmware_def\<close>)
qed

text \<open>
  The agent over a network that answers: the version that is offered, and after the request the blocks of the update.
\<close>

text \<open>The same, where an update is newer than every bootable slot.\<close>

lemma fsm_init_ready:
  assumes "slots_ready n w" and "0 < avail w" and "bootable (hd (active_slots (pl_slots pl)))"
    and "\<forall>x\<in>set (candidates True (pl_slots pl)). content_version (content (slot_id x) w) < v \<and> content_version (content (slot_id x) w) < v'"
  shows "\<exists>ctx' w'. fsm_init pl ctx sf ob old w = (PULL_SUCCESS, ctx', w') \<and> fsm_state ctx' = STATE_IDLE \<and> fsm_processed ctx' = 0 \<and>
    fsm_sf ctx' = sf \<and> fsm_version ctx' < v \<and> fsm_version ctx' < v' \<and> slots_ready n w' \<and>
    (\<forall>j\<in>ids. content j w' = content j w) \<and> 0 < avail w'"
proof -
  obtain c ctx' w' where i: "fsm_init pl ctx sf ob old w = (PULL_SUCCESS, ctx', w')" "c \<in> set (candidates True (pl_slots pl))"
    "fsm_version ctx' = content_version (content (slot_id c) w)" "fsm_state ctx' = STATE_IDLE" "fsm_processed ctx' = 0"
    "fsm_sf ctx' = sf" "\<forall>j\<in>ids. content j w' = content j w" "avail w \<le> avail w'"
    using fsm_init_ok [OF assms(1-3), of ctx sf ob old] by (elim exE conjE) (rule that)
  then show ?thesis using slots_ready_same [OF assms(1) i(7)] assms(2,4) by (intro exI [of _ ctx'] exI [of _ w']) auto
qed

lemma update_agent_ok:
  assumes net: "conn_init ci (uc_conn cfg) (ua_conn s) = (PULL_SUCCESS, n1)" "conn_on_data ci n1 = (PULL_SUCCESS, n2)"
    "conn_request ci GET ''/version'' [] n2 = (PULL_SUCCESS, n3)" "waits ci n3 [block_response (le_enc 2 (unat v))] n4"
    "\<forall>msg. length msg = length (ua_msg s) \<longrightarrow> (\<exists>n5 n6. conn_request ci GET_BLOCKWISE2 ''/firmware'' msg n4 = (PULL_SUCCESS, n5) \<and>
      waits ci n5 (map block_response (ds @ [d])) n6)"
    and init: "fsm_init pl (ua_fsmc s) (uc_safestore cfg) (ua_obj_t s) (ua_old_obj s) (ua_world s) = (PULL_SUCCESS, ctx0, w)"
    "fsm_state ctx0 = STATE_IDLE" "fsm_processed ctx0 = 0" "wf_static (ua_static s)"
    "length (is_buffer (ua_static s)) = FSM_BUFFER_SIZE" "sizeof_receiver_msg \<le> length (ua_msg s)"
    and mt: "fsm_version ctx0 < v" "wf_manifest mt" "fsm_version ctx0 < vm_version (vendor mt)"
    "authentic (pl_sec pl) hash (fsm_sf ctx0) mt" "sm_diff_version (server mt) = 0"
    "vm_offset (vendor mt) = word_of_nat sizeof_manifest"
    "vm_size (vendor mt) = word_of_nat (length fw)" "sm_prop_size (server mt) = word_of_nat (length fw)"
    and mem: "slots_ready (sizeof_manifest + length fw) w" "FSM_BUFFER_SIZE \<le> length fw" "0 < avail w"
    and upd: "concat ds @ d = manifest_bytes mt @ fw" "d \<noteq> []" "sizeof_manifest \<le> length (concat ds)"
  shows "\<exists>sl ob w0 s'. chosen sl ob w w0 \<and>
    update_agent pl ci cfg s = Some (if hash fw = vm_digest (vendor mt) then EVENT_APPLY else EVENT_RECEIVER_FAILURE_2, s') \<and>
    fsm_state (ua_fsmc s') = (if hash fw = vm_digest (vendor mt) then STATE_REBOOT else STATE_IDLE) \<and>
    fsm_id (ua_fsmc s') = slot_id sl \<and>
    content (slot_id sl) (ua_world s') = manifest_bytes mt @ fw @ drop (sizeof_manifest + length fw) (content (slot_id sl) w0) \<and>
    (\<forall>j\<in>ids. j \<noteq> slot_id sl \<longrightarrow> content j (ua_world s') = content j w)"
proof -
  define s1 where "s1 = s\<lparr>ua_err := PULL_SUCCESS, ua_conn := n1, ua_err := PULL_SUCCESS, ua_fsmc := ctx0, ua_world := w,
      ua_err := PULL_SUCCESS, ua_conn := n2\<rparr>"
  define s2 where "s2 = s1\<lparr>ua_err := PULL_SUCCESS, ua_conn := n3\<rparr>"
  let ?v = "le_enc 2 (unat v)" and ?ctx = "ctx0\<lparr>fsm_state := STATE_START_UPDATE\<rparr>"
  have 1: "update_agent pl ci cfg s = ua_straight pl ci cfg EVENT_SUBSCRIBE s1"
    unfolding update_agent_def by (rule ua_straight_go)
      (use net(1,2) init(1) in \<open>simp_all add: ua_segment_def ua_init_def ua_init_fsm_def ua_set_callback_def update_continue_def
        s1_def Let_def\<close>)
  have s1: "ua_fsmc s1 = ctx0" "ua_static s1 = ua_static s" "ua_world s1 = w" "ua_msg s1 = ua_msg s" "ua_conn s1 = n2"
    by (simp_all add: s1_def)
  have f: "fsm pl ctx0 (ua_static s) ?v w = Some (PULL_SUCCESS, ?ctx, ua_static s, ?v, w)"
    using init(2) mt(1) word_le_dec_enc_16 [of v] by (simp add: fsm_def fsm_idle_def not_le [symmetric])
  obtain s3 where s3: "loop pl ci s2 = Some s3" "ua_fed ?ctx (ua_static s) w PULL_SUCCESS s s3" "ua_conn s3 = n4"
    using loop_body_run [OF net(4), of "[?v]" "s2\<lparr>ua_loop := True\<rparr>" pl PULL_SUCCESS ?ctx "ua_static s" w] f s1
    by (auto simp: loop_def ua_fed_def s2_def)
  have 2: "ua_straight pl ci cfg EVENT_SUBSCRIBE s1 = ua_straight pl ci cfg EVENT_SUBSCRIBE_SEND s3"
    by (rule ua_straight_send [OF _ _ s3(1)])
      (use net(3) s1 in \<open>simp_all add: ua_segment_def ua_subscribe_def s2_def update_send_def\<close>)
  have 3: "ua_straight pl ci cfg EVENT_SUBSCRIBE_SEND s3 = ua_straight pl ci cfg EVENT_GET_MSG s3"
    by (rule ua_straight_go) (use s3 in \<open>simp_all add: ua_segment_def ua_subscribed_def ua_fed_def update_continue_def\<close>)
  obtain ctx1 fs1 where q: "\<And>cs. fsm_run pl (?v # ua_msg s # cs) ctx0 (ua_static s) w = fsm_run pl cs ctx1 fs1 w"
    "receiving ctx1 fs1 []" "fsm_sf ctx1 = fsm_sf ctx0" "fsm_version ctx1 = fsm_version ctx0"
    using request_ok [OF init(2-5) mt(1) init(6), of w] by blast
  have "fsm_run pl [ua_msg s] ?ctx (ua_static s) w = Some (PULL_SUCCESS, ctx1, fs1, w)" using q(1) [of "[]"] f by simp
  then obtain msg where m: "fsm pl ?ctx (ua_static s) (ua_msg s) w = Some (PULL_SUCCESS, ctx1, fs1, msg, w)"
    by (auto split: bind_splits if_splits)
  define s4 where "s4 = s3\<lparr>ua_err := PULL_SUCCESS, ua_fsmc := ctx1, ua_static := fs1, ua_msg := msg, ua_world := w\<rparr>"
  have 4: "ua_straight pl ci cfg EVENT_GET_MSG s3 = ua_straight pl ci cfg EVENT_RECEIVE s4"
    by (rule ua_straight_go) (use s3(2) m in \<open>simp_all add: ua_segment_def ua_get_msg_def ua_fed_def update_continue_def s4_def\<close>)
  obtain sl ob w0 e ctx2 fs2 w2 where u: "chosen sl ob w w0" "\<exists>r. fsm_run pl ds ctx1 fs1 w = Some (PULL_SUCCESS, r)"
    "fsm_run pl (ds @ [d]) ctx1 fs1 w = Some (e, ctx2, fs2, w2)"
    "e = (if hash fw = vm_digest (vendor mt) then PULL_SUCCESS else VERIFICATION_FAILED_ERROR)"
    "fsm_state ctx2 = (if hash fw = vm_digest (vendor mt) then STATE_REBOOT else STATE_IDLE)" "fsm_id ctx2 = slot_id sl"
    "content (slot_id sl) w2 = manifest_bytes mt @ fw @ drop (sizeof_manifest + length fw) (content (slot_id sl) w0)"
    "\<forall>j\<in>ids. j \<noteq> slot_id sl \<longrightarrow> content j w2 = content j w"
    using whole_update_ok [OF q(2), unfolded q(3,4), OF mt(2-8) mem upd] by (elim exE conjE) (rule that; blast)
  have "length msg = length (ua_msg s)"
    using m init(6) by (auto simp: fsm_def fsm_start_update_def put_msg_def sizeof_receiver_msg_def Let_def split: prod.splits if_splits)
  then have "length (ua_msg (ua_update_msg s4)) = length (ua_msg s)"
    using init(6) by (simp add: ua_update_msg_def s4_def sizeof_receiver_msg_def)
  with net(5) obtain n5 n6 where n5: "conn_request ci GET_BLOCKWISE2 ''/firmware'' (ua_msg (ua_update_msg s4)) n4 = (PULL_SUCCESS, n5)"
    "waits ci n5 (map block_response (ds @ [d])) n6" by blast
  define s5 where "s5 = (ua_update_msg s4)\<lparr>ua_err := PULL_SUCCESS, ua_conn := n5\<rparr>"
  have s5: "ua_fsmc s5 = ctx1" "ua_static s5 = fs1" "ua_world s5 = w" "ua_conn s5 = n5"
    by (simp_all add: s5_def s4_def ua_update_msg_def)
  have s5': "fsm_run pl (ds @ [d]) (ua_fsmc (s5\<lparr>ua_loop := True\<rparr>)) (ua_static (s5\<lparr>ua_loop := True\<rparr>)) (ua_world (s5\<lparr>ua_loop := True\<rparr>)) =
      Some (e, ctx2, fs2, w2)" "ds @ [d] \<noteq> [] \<longrightarrow> (\<exists>r. fsm_run pl (butlast (ds @ [d])) (ua_fsmc (s5\<lparr>ua_loop := True\<rparr>))
        (ua_static (s5\<lparr>ua_loop := True\<rparr>)) (ua_world (s5\<lparr>ua_loop := True\<rparr>)) = Some (PULL_SUCCESS, r))"
    using u(2,3) s5 by simp_all
  obtain s6 where s6: "loop pl ci s5 = Some s6" "ua_fed ctx2 fs2 w2 e (s5\<lparr>ua_loop := True\<rparr>) s6"
    using loop_body_run [OF n5(2) refl _ _ s5'] s5(4) by (auto simp: loop_def)
  have 5: "ua_straight pl ci cfg EVENT_RECEIVE s4 = ua_straight pl ci cfg EVENT_RECEIVE_SEND s6"
    by (rule ua_straight_send [OF _ _ s6(1)])
      (use n5(1) s3(3) in \<open>simp_all add: ua_segment_def ua_receive_def s5_def s4_def ua_update_msg_def update_send_def Let_def\<close>)
  have agent: "update_agent pl ci cfg s = ua_straight pl ci cfg EVENT_RECEIVE_SEND s6" using 1 2 3 4 5 by simp
  have "ua_straight pl ci cfg EVENT_RECEIVE_SEND s6 = (if e = PULL_SUCCESS
      then Some (EVENT_APPLY, s6\<lparr>ua_conn := conn_end ci (ua_conn s6)\<rparr>) else Some (EVENT_RECEIVER_FAILURE_2, s6))"
  proof (cases "e = PULL_SUCCESS")
    case True
    then have "ua_straight pl ci cfg EVENT_RECEIVE_SEND s6 = ua_straight pl ci cfg EVENT_SUBSCRIBE_TIMEOUT s6"
      using s6(2) by (intro ua_straight_go) (simp_all add: ua_segment_def ua_fed_def update_continue_def)
    moreover have "ua_straight pl ci cfg EVENT_SUBSCRIBE_TIMEOUT s6 = Some (EVENT_APPLY, s6\<lparr>ua_conn := conn_end ci (ua_conn s6)\<rparr>)"
      using s6(2) u(4,5) True
      by (intro ua_straight_stop) (auto simp: ua_segment_def ua_received_def ua_fed_def update_continue_def update_send_def)
    ultimately show ?thesis using True by simp
  next
    case False
    then have "ua_straight pl ci cfg EVENT_RECEIVE_SEND s6 = Some (EVENT_RECEIVER_FAILURE_2, s6)"
      using s6(2) by (intro ua_straight_stop) (auto simp: ua_segment_def ua_fed_def update_continue_def update_send_def)
    with False show ?thesis by simp
  qed
  with agent u s6(2) show ?thesis
    by (intro exI [of _ sl] exI [of _ ob] exI [of _ w0]) (auto simp: ua_fed_def)
qed

end

end
