(* ===== verification/Update_Programs.thy ===== *)
theory Update_Programs
  imports Update_Agent
begin

text \<open>
  The two builds of the update agent agree. \<open>contiki_update\<close> runs the coroutine build: every call runs to the next point where the agent
  returns, and the program runs the blocking request where the agent asks for it. \<open>zephyr_update\<close> calls the other build, which
  runs the event loop itself. Both do what one call of the agent without coroutines does.
\<close>

section \<open>The events of a segment\<close>

lemmas update_event_classes = IS_UPDATE_CONTINUE_def IS_SEND_def IS_RECOVER_def IS_UPDATE_FAILURE_def update_continue_def update_send_def

text \<open>A segment ends in a continuation, a request to send, in success or in a failure, never in an event to recover from.\<close>

definition ua_event :: "update_event \<Rightarrow> bool" where
  "ua_event ev \<longleftrightarrow> update_continue ev \<or> update_send ev \<or> ev = EVENT_APPLY \<or> IS_UPDATE_FAILURE ev"

lemma ua_segment_event:
  assumes "ua_segment pl ci cfg ev s = Some (ev', s')"
  shows "ua_event ev'"
  using assms
  by (cases ev)
    (auto simp: ua_segment_def ua_init_def ua_init_fsm_def ua_set_callback_def ua_subscribe_def ua_subscribed_def ua_get_msg_def ua_receive_def
      ua_received_def Let_def ua_event_def update_event_classes split: prod.splits if_splits bind_splits)

lemma ua_straight_event:
  fixes pl :: "('w, 'o, 'd, 'r) platform" and ci :: "('n, 'c) conn_iface" and s :: "('w, 'o, 'r, 'n) update_agent_ctx_t"
  assumes "ua_straight pl ci cfg ev s = Some r"
  shows "fst r = EVENT_APPLY \<or> IS_UPDATE_FAILURE (fst r)"
  using assms
proof (rule ua_straight.raw_induct [rotated])
  fix f :: "('w, 'o, 'd, 'r) platform \<Rightarrow> ('n, 'c) conn_iface \<Rightarrow> 'c update_agent_config_t \<Rightarrow> update_event \<Rightarrow>
      ('w, 'o, 'r, 'n) update_agent_ctx_t \<Rightarrow> ('w, 'o, 'r, 'n) update_result option" and pl ci cfg ev s r
  assume IH: "\<And>pl ci cfg ev s r. f pl ci cfg ev s = Some r \<Longrightarrow> fst r = EVENT_APPLY \<or> IS_UPDATE_FAILURE (fst r)"
    and st: "Option.bind (ua_segment pl ci cfg ev s) (\<lambda>(ev', s'). if update_continue ev' then f pl ci cfg ev' s'
      else if update_send ev' then Option.bind (loop pl ci s') (f pl ci cfg ev') else Some (ev', s')) = Some r"
  obtain ev' s' where g: "ua_segment pl ci cfg ev s = Some (ev', s')" using st by (auto split: bind_splits)
  with st IH ua_segment_event [OF g] show "fst r = EVENT_APPLY \<or> IS_UPDATE_FAILURE (fst r)"
    by (auto simp: ua_event_def split: bind_splits if_splits)
qed

section \<open>The programs\<close>

lemma contiki_update_segment:
  "contiki_update pl ci cfg ev r s = Option.bind (ua_segment pl ci cfg ev s) (\<lambda>(ev', s').
     if update_continue ev' then contiki_update pl ci cfg ev' r s'
     else if update_send ev' then Option.bind (loop pl ci s') (\<lambda>s'. contiki_update pl ci cfg ev' r s')
     else Some (ev' = EVENT_APPLY, s'))"
proof (cases "ua_segment pl ci cfg ev s")
  case (Some p)
  obtain ev' s' where p: "p = (ev', s')" by (cases p)
  have "ua_event ev'" using ua_segment_event Some p by blast
  then show ?thesis using Some p
    by (subst contiki_update.simps) (auto simp: ua_event_def update_event_classes)
qed (subst contiki_update.simps, simp)

abbreviation update_outcome :: "update_event \<times> 's \<Rightarrow> bool \<times> 's" where
  "update_outcome \<equiv> \<lambda>(ev, s). (ev = EVENT_APPLY, s)"

lemma straight_contiki:
  fixes pl :: "('w, 'o, 'd, 'r) platform" and ci :: "('n, 'c) conn_iface" and s :: "('w, 'o, 'r, 'n) update_agent_ctx_t"
  assumes "ua_straight pl ci cfg ev s = Some r"
  shows "contiki_update pl ci cfg ev n s = Some (update_outcome r)"
  using assms
proof (rule ua_straight.raw_induct [rotated])
  fix f :: "('w, 'o, 'd, 'r) platform \<Rightarrow> ('n, 'c) conn_iface \<Rightarrow> 'c update_agent_config_t \<Rightarrow> update_event \<Rightarrow>
      ('w, 'o, 'r, 'n) update_agent_ctx_t \<Rightarrow> ('w, 'o, 'r, 'n) update_result option" and pl ci cfg ev s r
  assume IH: "\<And>pl ci cfg ev s r. f pl ci cfg ev s = Some r \<Longrightarrow> contiki_update pl ci cfg ev n s = Some (update_outcome r)"
    and st: "Option.bind (ua_segment pl ci cfg ev s) (\<lambda>(ev', s'). if update_continue ev' then f pl ci cfg ev' s'
      else if update_send ev' then Option.bind (loop pl ci s') (f pl ci cfg ev') else Some (ev', s')) = Some r"
  show "contiki_update pl ci cfg ev n s = Some (update_outcome r)"
    using st by (subst contiki_update_segment) (auto split: bind_splits if_splits dest: IH)
qed

lemma contiki_straight:
  fixes pl :: "('w, 'o, 'd, 'r) platform" and ci :: "('n, 'c) conn_iface" and s :: "('w, 'o, 'r, 'n) update_agent_ctx_t"
  assumes "contiki_update pl ci cfg ev n s = Some q"
  shows "\<exists>r. ua_straight pl ci cfg ev s = Some r"
  using assms
proof (rule contiki_update.raw_induct [rotated])
  fix f :: "('w, 'o, 'd, 'r) platform \<Rightarrow> ('n, 'c) conn_iface \<Rightarrow> 'c update_agent_config_t \<Rightarrow> update_event \<Rightarrow> int \<Rightarrow>
      ('w, 'o, 'r, 'n) update_agent_ctx_t \<Rightarrow> (bool \<times> ('w, 'o, 'r, 'n) update_agent_ctx_t) option" and pl ci cfg ev n s q
  assume IH: "\<And>pl ci cfg ev n s q. f pl ci cfg ev n s = Some q \<Longrightarrow> \<exists>r. ua_straight pl ci cfg ev s = Some r"
    and st: "Option.bind (ua_segment pl ci cfg ev s) (\<lambda>(ev', s').
       if IS_UPDATE_FAILURE ev' then Some (False, s')
       else if IS_UPDATE_CONTINUE ev' then if ev' = EVENT_APPLY then Some (True, s') else f pl ci cfg ev' n s'
       else if IS_RECOVER ev' then if n \<le> 0 then f pl ci cfg ev' (n - 1) s' else Some (False, s')
       else if IS_SEND ev' then Option.bind (loop pl ci s') (f pl ci cfg ev' n)
       else f pl ci cfg ev' n s') = Some q"
  obtain ev' s' where g: "ua_segment pl ci cfg ev s = Some (ev', s')" using st by (auto split: bind_splits)
  have "ua_event ev'" by (rule ua_segment_event [OF g])
  then show "\<exists>r. ua_straight pl ci cfg ev s = Some r"
    using st g by (subst ua_straight.simps) (auto simp: ua_event_def update_event_classes simp del: split_paired_Ex split: bind_splits dest: IH)
qed


end
