(* ===== verification/Connection_Libcoap.thy ===== *)
theory Connection_Libcoap
  imports Update_Agent
begin

text \<open>
  The connection over libcoap (\<open>src/network/coap/libcoap/connection_libcoap.c\<close>, \<open>async_libcoap.c\<close>,
  \<open>include/libpull_network/coap/connection_libcoap.h\<close>).

  libcoap is not part of the repository: \<open>libcoap\<close> is a record of the functions that the file calls, over a type of
  outgoing messages, a type of received messages, a type of block options, a type of addresses and a state of
  the library. A function that returns a pointer returns an option here. The numbers
  of methods, message types and options are those of the protocol.

  \<open>conn_ctx\<close> holds the fields of the structure of the same name; the flag \<open>loop\<close> is part of the agent. Data that
  are \<open>NULL\<close> or have length 0 are the empty list, as the code treats both alike.

  Every path of the response handler ends in one call of the callback, after everything else; the handler returns the arguments
  of that call. \<open>libcoap_iface\<close> is the connection as the update agent sees it.
\<close>

section \<open>The library\<close>

datatype coap_proto = COAP_PROTO_UDP | COAP_PROTO_DTLS

definition COAP_DEFAULT_PORT :: u16 where "COAP_DEFAULT_PORT = 5683"
definition COAPS_DEFAULT_PORT :: u16 where "COAPS_DEFAULT_PORT = 5684"

definition COAP_MESSAGE_CON :: nat where "COAP_MESSAGE_CON = 0"
definition COAP_MESSAGE_RST :: nat where "COAP_MESSAGE_RST = 3"
definition COAP_OPTION_URI_PATH :: nat where "COAP_OPTION_URI_PATH = 11"
definition COAP_OPTION_BLOCK2 :: nat where "COAP_OPTION_BLOCK2 = 23"

lemmas coap_constants = COAP_MESSAGE_CON_def COAP_MESSAGE_RST_def COAP_OPTION_URI_PATH_def COAP_OPTION_BLOCK2_def

record dtls_psk_data_t =
  psk_hint :: string
  psk_key :: "byte list"

record dtls_ecdh_data_t =
  priv_key :: "byte list"
  pub_key_x :: "byte list"
  pub_key_y :: "byte list"

text \<open>What \<open>conn_data\<close> points to, read as either structure.\<close>

record dtls_conn_data =
  as_psk :: dtls_psk_data_t
  as_ecdh :: dtls_ecdh_data_t

record ('p, 'm, 'b, 'a, 'x) libcoap =
  coap_new_context :: "'x \<Rightarrow> bool \<times> 'x"
  coap_context_set_psk :: "dtls_psk_data_t \<Rightarrow> 'x \<Rightarrow> 'x"
  coap_context_set_ecdsa :: "dtls_ecdh_data_t \<Rightarrow> 'x \<Rightarrow> 'x"
  getaddrinfo :: "string \<Rightarrow> 'x \<Rightarrow> 'a list option"
  addr_fits :: "'a \<Rightarrow> bool"
  coap_new_client_session :: "'a \<Rightarrow> u16 \<Rightarrow> coap_proto \<Rightarrow> 'x \<Rightarrow> bool \<times> 'x"
  coap_session_release :: "'x \<Rightarrow> 'x"
  coap_free_context :: "'x \<Rightarrow> 'x"
  coap_cleanup :: "'x \<Rightarrow> 'x"
  coap_register_response_handler :: "'x \<Rightarrow> 'x"
  coap_pdu_init :: "nat \<Rightarrow> nat \<Rightarrow> 'x \<Rightarrow> 'p option \<times> 'x"
  coap_split_path :: "string \<Rightarrow> byte list list option"
  coap_encode_var_bytes :: "u32 \<Rightarrow> byte list"
  coap_add_option :: "nat \<Rightarrow> byte list \<Rightarrow> 'p \<Rightarrow> 'p"
  coap_add_data :: "byte list \<Rightarrow> 'p \<Rightarrow> 'p option"
  coap_send :: "'p \<Rightarrow> 'x \<Rightarrow> bool \<times> 'x"
  rx_type :: "'m \<Rightarrow> nat"
  rx_code :: "'m \<Rightarrow> byte"
  coap_check_block2 :: "'m \<Rightarrow> 'b option"
  coap_opt_block_more :: "'b \<Rightarrow> bool"
  coap_opt_block_num :: "'b \<Rightarrow> u32"
  coap_get_data :: "'m \<Rightarrow> byte list option"
  coap_run_once :: "'x \<Rightarrow> 'm list \<times> bool \<times> 'x"

section \<open>State\<close>

record blockwise_ctx_t =
  bc_method :: nat
  bc_enabled :: bool
  bc_resource :: string
  bc_data :: "byte list"

record 'x conn_ctx =
  coap_ctx :: bool
  coap_session :: bool
  lc_handler :: bool
  bctx :: blockwise_ctx_t
  lc_conn_data :: "dtls_conn_data option"
  lc_net :: 'x

definition BLOCK_SIZE :: u32 where "BLOCK_SIZE = 4"

text \<open>\<open>method_mapper\<close>; the array has no entry for \<open>OPTIONS\<close>, which is then 0.\<close>

fun method_mapper :: "rest_method \<Rightarrow> nat" where
  "method_mapper GET = 1"
| "method_mapper PUT = 3"
| "method_mapper POST = 2"
| "method_mapper DELETE = 4"
| "method_mapper OPTIONS = 0"
| "method_mapper GET_BLOCKWISE2 = 1"

section \<open>Setting up\<close>

text \<open>The loop over the results of \<open>getaddrinfo\<close>, up to the first session.\<close>

fun resolve_loop :: "('p, 'm, 'b, 'a, 'x) libcoap \<Rightarrow> 'a list \<Rightarrow> u16 \<Rightarrow> coap_proto \<Rightarrow> 'x \<Rightarrow> bool \<times> 'x" where
  "resolve_loop lib [] port proto x = (False, x)"
| "resolve_loop lib (a # as) port proto x =
     (if addr_fits lib a
      then (case coap_new_client_session lib a port proto x of (ok, x) \<Rightarrow>
        if ok then (True, x) else resolve_loop lib as port proto x)
      else resolve_loop lib as port proto x)"

text \<open>The switch over the type of the connection.\<close>

definition conn_protocol ::
  "('p, 'm, 'b, 'a, 'x) libcoap \<Rightarrow> u16 \<Rightarrow> conn_type \<Rightarrow> dtls_conn_data option \<Rightarrow> 'x \<Rightarrow> (coap_proto \<times> u16 \<times> 'x) option" where
  "conn_protocol lib port type data x = (case type of
     PULL_UDP \<Rightarrow> Some (COAP_PROTO_UDP, if port = 0 then COAP_DEFAULT_PORT else port, x)
   | PULL_DTLS_PSK \<Rightarrow> (case data of None \<Rightarrow> None
       | Some d \<Rightarrow> Some (COAP_PROTO_DTLS, if port = 0 then COAPS_DEFAULT_PORT else port, coap_context_set_psk lib (as_psk d) x))
   | PULL_DTLS_ECDH \<Rightarrow> (case data of None \<Rightarrow> None
       | Some d \<Rightarrow> Some (COAP_PROTO_DTLS, if port = 0 then COAPS_DEFAULT_PORT else port, coap_context_set_ecdsa lib (as_ecdh d) x))
   | PULL_TCP \<Rightarrow> None)"

definition libcoap_init ::
  "('p, 'm, 'b, 'a, 'x) libcoap \<Rightarrow> dtls_conn_data option conn_config_t \<Rightarrow> 'x conn_ctx \<Rightarrow> pull_error \<times> 'x conn_ctx" where
  "libcoap_init lib cfg c =
     (case coap_new_context lib (lc_net c) of (ok, x) \<Rightarrow>
        let c = c\<lparr>coap_ctx := ok, lc_net := x\<rparr> in
        if \<not> ok then (CONNECTION_INIT_ERROR, c)
        else (let c = c\<lparr>lc_conn_data := cfg_conn_data cfg\<rparr> in
          case conn_protocol lib (cfg_port cfg) (cfg_connection_type cfg) (cfg_conn_data cfg) (lc_net c) of
            None \<Rightarrow> (INVALID_CONN_DATA_ERROR, c)
          | Some (proto, port, x) \<Rightarrow>
              let c = c\<lparr>lc_net := x\<rparr> in
              case getaddrinfo lib (cfg_endpoint cfg) (lc_net c) of
                None \<Rightarrow> (RESOLVER_ERROR, c)
              | Some as \<Rightarrow> (case resolve_loop lib as port proto (lc_net c) of (ok, x) \<Rightarrow>
                  (if ok then PULL_SUCCESS else RESOLVER_ERROR, c\<lparr>coap_session := ok, lc_net := x\<rparr>))))"

text \<open>The agent passes a handler, so that the test for \<open>NULL\<close> does not fail.\<close>

definition libcoap_on_data :: "('p, 'm, 'b, 'a, 'x) libcoap \<Rightarrow> 'x conn_ctx \<Rightarrow> pull_error \<times> 'x conn_ctx" where
  "libcoap_on_data lib c = (PULL_SUCCESS, c\<lparr>lc_handler := True, lc_net := coap_register_response_handler lib (lc_net c)\<rparr>)"

definition libcoap_end :: "('p, 'm, 'b, 'a, 'x) libcoap \<Rightarrow> 'x conn_ctx \<Rightarrow> 'x conn_ctx" where
  "libcoap_end lib c =
     (let x = lc_net c;
          x = (if coap_session c then coap_session_release lib x else x);
          x = (if coap_ctx c then coap_free_context lib x else x)
      in c\<lparr>lc_net := coap_cleanup lib x\<rparr>)"

section \<open>Requests\<close>

text \<open>
  \<open>split_resource\<close> adds an option for each segment of the path. It returns \<open>PULL_SUCCESS\<close> always; where \<open>coap_split_path\<close> reports
  an error, which is a negative number, the loop \<open>while (res--)\<close> reads beyond the buffer: \<open>None\<close>.
\<close>

definition split_resource :: "('p, 'm, 'b, 'a, 'x) libcoap \<Rightarrow> string \<Rightarrow> 'p \<Rightarrow> 'p option" where
  "split_resource lib resource p = map_option (\<lambda>segs. fold (coap_add_option lib COAP_OPTION_URI_PATH) segs p) (coap_split_path lib resource)"

text \<open>Adding the data, if there are any.\<close>

definition add_payload :: "('p, 'm, 'b, 'a, 'x) libcoap \<Rightarrow> byte list \<Rightarrow> 'p \<Rightarrow> 'p option" where
  "add_payload lib data p = (if data \<noteq> [] then coap_add_data lib data p else Some p)"

text \<open>The block option with number \<open>n\<close>.\<close>

definition block_option :: "('p, 'm, 'b, 'a, 'x) libcoap \<Rightarrow> u32 \<Rightarrow> byte list" where
  "block_option lib n = coap_encode_var_bytes lib (or (push_bit 4 n) BLOCK_SIZE)"

definition libcoap_request ::
  "('p, 'm, 'b, 'a, 'x) libcoap \<Rightarrow> rest_method \<Rightarrow> string \<Rightarrow> byte list \<Rightarrow> 'x conn_ctx \<Rightarrow> (pull_error \<times> 'x conn_ctx) option" where
  "libcoap_request lib method resource data c =
     (case coap_pdu_init lib COAP_MESSAGE_CON (method_mapper method) (lc_net c) of (p, x) \<Rightarrow>
        let c = c\<lparr>lc_net := x\<rparr> in
        case p of None \<Rightarrow> Some (REQUEST_ERROR, c)
        | Some p \<Rightarrow> Option.bind (split_resource lib resource p) (\<lambda>p.
            let c1 = (if method = GET_BLOCKWISE2
                  then c\<lparr>bctx := \<lparr>bc_method = method_mapper method, bc_enabled = True, bc_resource = resource, bc_data = data\<rparr>\<rparr>
                  else c\<lparr>bctx := (bctx c)\<lparr>bc_enabled := False\<rparr>\<rparr>);
                p = (if method = GET_BLOCKWISE2 then coap_add_option lib COAP_OPTION_BLOCK2 (block_option lib 0) p else p);
                c2 = (if data \<noteq> [] then c1\<lparr>bctx := (bctx c1)\<lparr>bc_data := data\<rparr>\<rparr> else c1)
            in case add_payload lib data p of None \<Rightarrow> Some (INVALID_DATA_ERROR, c2)
               | Some p \<Rightarrow> (case coap_send lib p (lc_net c2) of (ok, x) \<Rightarrow>
                   Some (if ok then PULL_SUCCESS else SEND_ERROR, c2\<lparr>lc_net := x\<rparr>))))"

section \<open>Responses\<close>

abbreviation rst_response :: response where "rst_response \<equiv> (REQUEST_RST_ERROR, None, 0)"
abbreviation error_response :: response where "error_response \<equiv> (REQUEST_ERROR, None, 0)"

text \<open>The request for the block after the one with option \<open>b\<close>: \<open>None\<close> in the result is success.\<close>

definition request_next_block ::
  "('p, 'm, 'b, 'a, 'x) libcoap \<Rightarrow> 'b \<Rightarrow> 'x conn_ctx \<Rightarrow> (bool \<times> 'x conn_ctx) option" where
  "request_next_block lib b c =
     (case coap_pdu_init lib COAP_MESSAGE_CON (bc_method (bctx c)) (lc_net c) of (p, x) \<Rightarrow>
        let c = c\<lparr>lc_net := x\<rparr> in
        case p of None \<Rightarrow> Some (False, c)
        | Some p \<Rightarrow> Option.bind (split_resource lib (bc_resource (bctx c)) p) (\<lambda>p.
            let p = coap_add_option lib COAP_OPTION_BLOCK2 (block_option lib (coap_opt_block_num lib b + 1)) p in
            case add_payload lib (bc_data (bctx c)) p of None \<Rightarrow> Some (False, c)
            | Some p \<Rightarrow> (case coap_send lib p (lc_net c) of (ok, x) \<Rightarrow> Some (ok, c\<lparr>lc_net := x\<rparr>))))"

definition handler_libcoap ::
  "('p, 'm, 'b, 'a, 'x) libcoap \<Rightarrow> 'm \<Rightarrow> 'x conn_ctx \<Rightarrow> (response \<times> 'x conn_ctx) option" where
  "handler_libcoap lib m c =
     (if rx_type lib m = COAP_MESSAGE_RST then Some (rst_response, c)
      else if 4 \<le> unat (drop_bit 5 (rx_code lib m)) then Some (error_response, c)
      else (let deliver = (\<lambda>c. case coap_get_data lib m of None \<Rightarrow> (error_response, c)
                | Some data \<Rightarrow> ((PULL_SUCCESS, Some data, int (length data)), c)) in
        case coap_check_block2 lib m of
          None \<Rightarrow> Some (deliver c)
        | Some b \<Rightarrow>
            if bc_enabled (bctx c)
            then (if coap_opt_block_more lib b
              then map_option (\<lambda>(ok, c). if ok then deliver c else (error_response, c)) (request_next_block lib b c)
              else Some (deliver c))
            else Some (error_response, c)))"

text \<open>One turn of the event loop: \<open>coap_run_once\<close> calls the handler on every message it receives.\<close>

fun handle_all :: "('p, 'm, 'b, 'a, 'x) libcoap \<Rightarrow> 'm list \<Rightarrow> 'x conn_ctx \<Rightarrow> (response list \<times> 'x conn_ctx) option" where
  "handle_all lib [] c = Some ([], c)"
| "handle_all lib (m # ms) c = Option.bind (handler_libcoap lib m c) (\<lambda>(r, c).
     Option.bind (handle_all lib ms c) (\<lambda>(rs, c). Some (r # rs, c)))"

definition libcoap_wait :: "('p, 'm, 'b, 'a, 'x) libcoap \<Rightarrow> 'x conn_ctx \<Rightarrow> (response list \<times> bool \<times> 'x conn_ctx) option" where
  "libcoap_wait lib c = (case coap_run_once lib (lc_net c) of (ms, timeout, x) \<Rightarrow>
     map_option (\<lambda>(rs, c). (rs, timeout, c)) (handle_all lib ms (c\<lparr>lc_net := x\<rparr>)))"

text \<open>
  The connection of the agent. The two operations that may not be defined are taken to be: where the path of a resource can be split, which
  \<open>coap_server\<close> below states of the two resources that the agent asks for, they are.
\<close>

definition libcoap_iface :: "('p, 'm, 'b, 'a, 'x) libcoap \<Rightarrow> ('x conn_ctx, dtls_conn_data option) conn_iface" where
  "libcoap_iface lib = \<lparr>conn_init = libcoap_init lib, conn_on_data = libcoap_on_data lib,
     conn_request = (\<lambda>method resource data c. the (libcoap_request lib method resource data c)),
     conn_end = libcoap_end lib, conn_wait = (\<lambda>c. the (libcoap_wait lib c))\<rparr>"

section \<open>A server that answers\<close>

text \<open>The blocks of an image from block \<open>k\<close> on.\<close>

definition nblocks :: "byte list \<Rightarrow> nat" where
  "nblocks img = (length img + 255) div 256"

definition file_blocks :: "byte list \<Rightarrow> nat \<Rightarrow> byte list list" where
  "file_blocks img k = map (\<lambda>i. take 256 (drop (256 * i) img)) [k..<nblocks img]"

lemma file_blocks_Cons: "k < nblocks img \<Longrightarrow> file_blocks img k = take 256 (drop (256 * k) img) # file_blocks img (k + 1)"
  by (simp add: file_blocks_def upt_conv_Cons)

lemma concat_file_blocks: "concat (file_blocks img k) = drop (256 * k) img"
proof (induction "nblocks img - k" arbitrary: k)
  case 0
  then have "length img \<le> 256 * k" by (simp add: nblocks_def)
  with 0 show ?case by (simp add: file_blocks_def)
next
  case (Suc n)
  then have "concat (file_blocks img (k + 1)) = drop (256 * (k + 1)) img" by simp
  also have "\<dots> = drop 256 (drop (256 * k) img)" by (simp add: add.commute)
  finally show ?case using Suc.hyps(2) by (simp add: file_blocks_Cons del: drop_drop)
qed

lemma file_blocks_last:
  assumes "256 < length img"
  shows "\<exists>ds d. file_blocks img 0 = ds @ [d] \<and> d \<noteq> [] \<and> 256 \<le> length (concat ds)"
proof -
  obtain n where n: "nblocks img = Suc (Suc n)"
    using assms that [of "nblocks img - 2"] by (simp add: nblocks_def)
  let ?b = "\<lambda>i. take 256 (drop (256 * i) img)"
  have "file_blocks img 0 = map ?b [0..<Suc n] @ [?b (Suc n)]" by (simp add: file_blocks_def n)
  moreover have "256 * Suc n < length img" using n times_div_less_eq_dividend [of 256 "length img + 255"] unfolding nblocks_def by simp
  moreover have "256 \<le> length (concat (map ?b [0..<Suc n]))" using assms by (simp add: upt_conv_Cons del: upt_Suc)
  ultimately show ?thesis by (intro exI [of _ "map ?b [0..<Suc n]"] exI [of _ "?b (Suc n)"]) simp
qed

text \<open>
  \<open>req\<close> is what a message says: the segments of its path, its block option and its payload. In a state \<open>idle\<close> nothing is outstanding;
  \<open>waiting q\<close> says that the request \<open>q\<close> has been sent and its answer is to be expected. The server has a version and an
  image, which it sends in blocks of 256 bytes, as the option with \<open>BLOCK_SIZE\<close> asks.
\<close>

locale coap_server =
  fixes lib :: "('p, 'm, 'b, 'a, 'x) libcoap"
    and endpoint :: string
    and req :: "'p \<Rightarrow> byte list list \<times> byte list option \<times> byte list"
    and idle :: "'x \<Rightarrow> bool"
    and waiting :: "byte list list \<times> byte list option \<times> byte list \<Rightarrow> 'x \<Rightarrow> bool"
    and vpath fpath :: "byte list list"
    and version img :: "byte list"
  assumes new_context_ok: "\<exists>x'. coap_new_context lib x = (True, x')"
    and session_ok: "\<exists>a x'. getaddrinfo lib endpoint x = Some [a] \<and> addr_fits lib a \<and>
      coap_new_client_session lib a port COAP_PROTO_UDP x = (True, x') \<and> idle x'"
    and register_ok: "idle x \<Longrightarrow> idle (coap_register_response_handler lib x)"
    and pdu_init_ok: "idle x \<Longrightarrow> \<exists>p x'. coap_pdu_init lib t code x = (Some p, x') \<and> req p = ([], None, []) \<and> idle x'"
    and split_ok: "coap_split_path lib ''/version'' = Some vpath" "coap_split_path lib ''/firmware'' = Some fpath"
    and path_option: "req p = (segs, blk, d) \<Longrightarrow> req (coap_add_option lib COAP_OPTION_URI_PATH seg p) = (segs @ [seg], blk, d)"
    and block2_option: "req p = (segs, blk, d) \<Longrightarrow> req (coap_add_option lib COAP_OPTION_BLOCK2 b p) = (segs, Some b, d)"
    and add_data_ok: "req p = (segs, blk, []) \<Longrightarrow> length d \<le> 16 \<Longrightarrow> \<exists>p'. coap_add_data lib d p = Some p' \<and> req p' = (segs, blk, d)"
    and send_ok: "idle x \<Longrightarrow> \<exists>x'. coap_send lib p x = (True, x') \<and> waiting (req p) x'"
    and quiet: "idle x \<Longrightarrow> \<exists>x'. coap_run_once lib x = ([], True, x') \<and> idle x'"
    and version_answer: "waiting (vpath, None, []) x \<Longrightarrow> \<exists>m x'. coap_run_once lib x = ([m], False, x') \<and> idle x' \<and>
      rx_type lib m \<noteq> COAP_MESSAGE_RST \<and> unat (drop_bit 5 (rx_code lib m)) < 4 \<and>
      coap_check_block2 lib m = None \<and> coap_get_data lib m = Some version"
    and block_answer: "waiting (fpath, Some (block_option lib k), d) x \<Longrightarrow> 256 * unat k < length img \<Longrightarrow>
      \<exists>m b x'. coap_run_once lib x = ([m], False, x') \<and> idle x' \<and>
        rx_type lib m \<noteq> COAP_MESSAGE_RST \<and> unat (drop_bit 5 (rx_code lib m)) < 4 \<and> coap_check_block2 lib m = Some b \<and>
        coap_opt_block_num lib b = k \<and> (coap_opt_block_more lib b \<longleftrightarrow> 256 * (unat k + 1) < length img) \<and>
        coap_get_data lib m = Some (take 256 (drop (256 * unat k) img))"
    and file_size: "length img \<le> 2 ^ 28"
begin

lemma split_req:
  "req p = ([], blk, d) \<Longrightarrow> coap_split_path lib r = Some segs \<Longrightarrow> \<exists>p'. split_resource lib r p = Some p' \<and> req p' = (segs, blk, d)"
proof -
  have "req p = (pre, blk, d) \<Longrightarrow> req (fold (coap_add_option lib COAP_OPTION_URI_PATH) segs p) = (pre @ segs, blk, d)" for pre segs p
    by (induction segs arbitrary: pre p) (simp_all add: path_option)
  then show "req p = ([], blk, d) \<Longrightarrow> coap_split_path lib r = Some segs \<Longrightarrow> ?thesis" by (simp add: split_resource_def)
qed

lemma payload_req:
  "req p = (segs, blk, []) \<Longrightarrow> length d \<le> 16 \<Longrightarrow> \<exists>p'. add_payload lib d p = Some p' \<and> req p' = (segs, blk, d)"
  using add_data_ok by (auto simp: add_payload_def)

lemma request_version:
  assumes "idle (lc_net c)"
  shows "\<exists>c'. libcoap_request lib GET ''/version'' [] c = Some (PULL_SUCCESS, c') \<and> waiting (vpath, None, []) (lc_net c')"
proof -
  obtain p x where p: "coap_pdu_init lib COAP_MESSAGE_CON 1 (lc_net c) = (Some p, x)" "req p = ([], None, [])" "idle x"
    using pdu_init_ok [OF assms] by blast
  obtain q where q: "split_resource lib ''/version'' p = Some q" "req q = (vpath, None, [])"
    using split_req [OF p(2) split_ok(1)] by blast
  then show ?thesis using p send_ok [OF p(3), of q] by (auto simp: libcoap_request_def add_payload_def)
qed

definition fetching :: "nat \<Rightarrow> byte list \<Rightarrow> 'x conn_ctx \<Rightarrow> bool" where
  "fetching k msg c \<longleftrightarrow> bctx c = \<lparr>bc_method = 1, bc_enabled = True, bc_resource = ''/firmware'', bc_data = msg\<rparr> \<and>
     waiting (fpath, Some (block_option lib (word_of_nat k)), msg) (lc_net c)"

lemma request_firmware:
  assumes "idle (lc_net c)" and "length msg \<le> 16"
  shows "\<exists>c'. libcoap_request lib GET_BLOCKWISE2 ''/firmware'' msg c = Some (PULL_SUCCESS, c') \<and> fetching 0 msg c'"
proof -
  obtain p x where p: "coap_pdu_init lib COAP_MESSAGE_CON 1 (lc_net c) = (Some p, x)" "req p = ([], None, [])" "idle x"
    using pdu_init_ok [OF assms(1)] by blast
  obtain q where q: "split_resource lib ''/firmware'' p = Some q" "req q = (fpath, None, [])"
    using split_req [OF p(2) split_ok(2)] by blast
  obtain r where r: "add_payload lib msg (coap_add_option lib COAP_OPTION_BLOCK2 (block_option lib 0) q) = Some r"
    "req r = (fpath, Some (block_option lib 0), msg)"
    using payload_req [OF block2_option [OF q(2)] assms(2)] by blast
  from send_ok [OF p(3), of r] p(1) q(1) r show ?thesis
    by (cases "msg = []") (auto simp: libcoap_request_def fetching_def)
qed

lemma next_block:
  assumes "bctx c = \<lparr>bc_method = 1, bc_enabled = True, bc_resource = ''/firmware'', bc_data = msg\<rparr>" and "idle (lc_net c)"
    and "length msg \<le> 16" and "coap_opt_block_num lib b = word_of_nat k"
  shows "\<exists>c'. request_next_block lib b c = Some (True, c') \<and> fetching (k + 1) msg c'"
proof -
  obtain p x where p: "coap_pdu_init lib COAP_MESSAGE_CON 1 (lc_net c) = (Some p, x)" "req p = ([], None, [])" "idle x"
    using pdu_init_ok [OF assms(2)] by blast
  obtain q where q: "split_resource lib ''/firmware'' p = Some q" "req q = (fpath, None, [])"
    using split_req [OF p(2) split_ok(2)] by blast
  obtain r where r: "add_payload lib msg (coap_add_option lib COAP_OPTION_BLOCK2 (block_option lib (word_of_nat (k + 1))) q) = Some r"
    "req r = (fpath, Some (block_option lib (word_of_nat (k + 1))), msg)"
    using payload_req [OF block2_option [OF q(2)] assms(3)] by blast
  have "coap_opt_block_num lib b + 1 = word_of_nat (k + 1)" using assms(4) by simp
  with send_ok [OF p(3), of r] p(1) q(1) r assms(1) show ?thesis
    by (auto simp: request_next_block_def fetching_def simp del: of_nat_add of_nat_Suc)
qed

lemma version_waits:
  assumes "waiting (vpath, None, []) (lc_net c)"
  shows "\<exists>c'. waits (libcoap_iface lib) c [block_response version] c' \<and> idle (lc_net c')"
proof -
  obtain m x where m: "coap_run_once lib (lc_net c) = ([m], False, x)" "idle x" "rx_type lib m \<noteq> COAP_MESSAGE_RST"
    "unat (drop_bit 5 (rx_code lib m)) < 4" "coap_check_block2 lib m = None" "coap_get_data lib m = Some version"
    using version_answer [OF assms] by blast
  obtain x' where x': "coap_run_once lib x = ([], True, x')" "idle x'" using quiet [OF m(2)] by blast
  have 1: "conn_wait (libcoap_iface lib) c = ([block_response version], False, c\<lparr>lc_net := x\<rparr>)"
    using m by (simp add: libcoap_iface_def libcoap_wait_def handler_libcoap_def block_response_def)
  have 2: "conn_wait (libcoap_iface lib) (c\<lparr>lc_net := x\<rparr>) = ([], True, c\<lparr>lc_net := x'\<rparr>)"
    using x' by (simp add: libcoap_iface_def libcoap_wait_def)
  have "waits (libcoap_iface lib) c ([block_response version] @ []) (c\<lparr>lc_net := x'\<rparr>)"
    by (rule waits_more [OF 1 waits_last [OF 2]])
  with x'(2) show ?thesis by auto
qed

lemma blocks_wait:
  assumes "fetching k msg c" and "length msg \<le> 16" and "256 * k < length img"
  shows "\<exists>c'. waits (libcoap_iface lib) c (map block_response (file_blocks img k)) c'"
  using assms(1,3)
proof (induction "nblocks img - k" arbitrary: k c rule: less_induct)
  case less
  have k32: "k < 2 ^ 20" using less.prems(2) file_size by simp
  then have uk: "unat (word_of_nat k :: u32) = k" by (intro unat_word32) simp
  have b: "bctx c = \<lparr>bc_method = 1, bc_enabled = True, bc_resource = ''/firmware'', bc_data = msg\<rparr>"
    and w: "waiting (fpath, Some (block_option lib (word_of_nat k)), msg) (lc_net c)"
    using less.prems(1) by (simp_all add: fetching_def)
  obtain m bo x where m: "coap_run_once lib (lc_net c) = ([m], False, x)" "idle x" "rx_type lib m \<noteq> COAP_MESSAGE_RST"
    "unat (drop_bit 5 (rx_code lib m)) < 4" "coap_check_block2 lib m = Some bo" "coap_opt_block_num lib bo = word_of_nat k"
    "coap_opt_block_more lib bo \<longleftrightarrow> 256 * (k + 1) < length img" "coap_get_data lib m = Some (take 256 (drop (256 * k) img))"
    using block_answer [OF w] less.prems(2) unfolding uk by blast
  let ?d = "take 256 (drop (256 * k) img)"
  have lt: "k < nblocks img" using less.prems(2) by (simp add: nblocks_def)
  show ?case
  proof (cases "256 * (k + 1) < length img")
    case True
    obtain c1 where c1: "request_next_block lib bo (c\<lparr>lc_net := x\<rparr>) = Some (True, c1)" "fetching (k + 1) msg c1"
      using next_block [of "c\<lparr>lc_net := x\<rparr>" msg bo k] b m(2,6) assms(2) by auto
    have 1: "conn_wait (libcoap_iface lib) c = ([block_response ?d], False, c1)"
      using m True b c1(1) by (simp add: libcoap_iface_def libcoap_wait_def handler_libcoap_def block_response_def)
    obtain c' where "waits (libcoap_iface lib) c1 (map block_response (file_blocks img (k + 1))) c'"
      using less.hyps [OF _ c1(2) True] lt by (metis diff_less_mono2 less_add_one)
    with waits_more [OF 1 this] show ?thesis by (auto simp: file_blocks_Cons [OF lt])
  next
    case False
    then have last: "file_blocks img (k + 1) = []" by (simp add: file_blocks_def nblocks_def)
    obtain x' where x': "coap_run_once lib x = ([], True, x')" using quiet [OF m(2)] by blast
    have 1: "conn_wait (libcoap_iface lib) c = ([block_response ?d], False, c\<lparr>lc_net := x\<rparr>)"
      using m False b by (simp add: libcoap_iface_def libcoap_wait_def handler_libcoap_def block_response_def)
    have 2: "conn_wait (libcoap_iface lib) (c\<lparr>lc_net := x\<rparr>) = ([], True, c\<lparr>lc_net := x'\<rparr>)"
      using x' by (simp add: libcoap_iface_def libcoap_wait_def)
    from waits_more [OF 1 waits_last [OF 2]] last show ?thesis by (auto simp: file_blocks_Cons [OF lt])
  qed
qed

lemma init_ok:
  assumes "cfg_endpoint cfg = endpoint" and "cfg_connection_type cfg = PULL_UDP"
  shows "\<exists>c'. libcoap_init lib cfg c = (PULL_SUCCESS, c') \<and> idle (lc_net c')"
proof -
  obtain x1 where x1: "coap_new_context lib (lc_net c) = (True, x1)" using new_context_ok by blast
  obtain a x2 where "getaddrinfo lib endpoint x1 = Some [a]" "addr_fits lib a"
    "coap_new_client_session lib a (if cfg_port cfg = 0 then COAP_DEFAULT_PORT else cfg_port cfg) COAP_PROTO_UDP x1 = (True, x2)" "idle x2"
    using session_ok by blast
  with x1 assms show ?thesis by (simp add: libcoap_init_def conn_protocol_def Let_def)
qed

end

end
