(* ===== verification/Update_Posix.thy ===== *)
theory Update_Posix
  imports Update_Agent Fsm_Safety
begin

text \<open>
  The update agent on the POSIX device: a whole session over a network that answers, and what holds over every network.
\<close>

section \<open>A session\<close>

lemma update_agent_posix:
  assumes "tinycrypt_sha lib hash st" and "pl = posix_platform lib c0 slots sr rd"
    and "conn_init ci (uc_conn cfg) (ua_conn s) = (PULL_SUCCESS, n1)" and "conn_on_data ci n1 = (PULL_SUCCESS, n2)"
    and "conn_request ci GET ''/version'' [] n2 = (PULL_SUCCESS, n3)" and "waits ci n3 [block_response (le_enc 2 (unat v))] n4"
    and "\<forall>msg. length msg = sizeof_receiver_msg \<longrightarrow> (\<exists>n5 n6. conn_request ci GET_BLOCKWISE2 ''/firmware'' msg n4 = (PULL_SUCCESS, n5) \<and>
      waits ci n5 (map block_response (ds @ [d])) n6)"
    and "wf_static (ua_static s)" and "length (is_buffer (ua_static s)) = FSM_BUFFER_SIZE"
    and "length (ua_msg s) = sizeof_receiver_msg" and "w = ua_world s"
    and "\<forall>x\<in>set (candidates True slots). content_version (posix_content (slot_id x) w) < v \<and>
      content_version (posix_content (slot_id x) w) < vm_version (vendor mt)"
    and "wf_manifest mt" and "authentic (tinycrypt_iface lib c0) hash (uc_safestore cfg) mt"
    and "sm_diff_version (server mt) = 0" and "vm_offset (vendor mt) = word_of_nat sizeof_manifest"
    and "vm_size (vendor mt) = word_of_nat (length fw)" and "sm_prop_size (server mt) = word_of_nat (length fw)"
    and "FSM_BUFFER_SIZE \<le> length fw" and "N = sizeof_manifest + length fw"
    and "active_slots slots \<noteq> []" and "bootable (hd (active_slots slots))"
    and "\<forall>x\<in>set (active_slots slots). slot_id x \<in> posix_valid_ids \<and>
      N \<le> length (posix_content (slot_id x) w) \<and> length (posix_content (slot_id x) w) < 2 ^ 31"
    and "0 < posix_avail w"
    and "concat ds @ d = manifest_bytes mt @ fw" and "d \<noteq> []" and "sizeof_manifest \<le> length (concat ds)"
  shows "\<exists>sl s'. sl \<in> set (active_slots slots) \<and>
    (\<forall>x\<in>set (active_slots slots). content_version (posix_content (slot_id sl) w) \<le> content_version (posix_content (slot_id x) w)) \<and>
    update_agent pl ci cfg s = Some (if hash fw = vm_digest (vendor mt) then EVENT_APPLY else EVENT_RECEIVER_FAILURE_2, s') \<and>
    fsm_state (ua_fsmc s') = (if hash fw = vm_digest (vendor mt) then STATE_REBOOT else STATE_IDLE) \<and>
    posix_content (slot_id sl) (ua_world s') = manifest_bytes mt @ fw @ drop N (posix_content (slot_id sl) w) \<and>
    (\<forall>j\<in>posix_valid_ids. j \<noteq> slot_id sl \<longrightarrow> posix_content j (ua_world s') = posix_content j w)"
proof -
  note dev = posix_device [OF assms(1), of c0 slots sr rd, folded assms(2)]
  note uc = device_contract.axioms(1) [OF dev]
  have pl: "pl_slots pl = slots" "pl_sec pl = tinycrypt_iface lib c0" using assms(2) by simp_all
  have ready: "update_contract.slots_ready pl posix_valid_ids posix_content (\<lambda>i mode v. v) (\<lambda>i mode. splice_at) N w"
    using assms(20,21,23) posix.exact_seq_exact [OF posix_exact]
    by (auto simp: update_contract.slots_ready_def [OF uc] pl)
  obtain ctx0 w1 where i: "fsm_init pl (ua_fsmc s) (uc_safestore cfg) (ua_obj_t s) (ua_old_obj s) w = (PULL_SUCCESS, ctx0, w1)"
    "fsm_state ctx0 = STATE_IDLE" "fsm_processed ctx0 = 0" "fsm_sf ctx0 = uc_safestore cfg"
    "fsm_version ctx0 < v" "fsm_version ctx0 < vm_version (vendor mt)"
    "update_contract.slots_ready pl posix_valid_ids posix_content (\<lambda>i mode v. v) (\<lambda>i mode. splice_at) N w1"
    "\<forall>j\<in>posix_valid_ids. posix_content j w1 = posix_content j w" "0 < posix_avail w1"
    using device_contract.fsm_init_ready [OF dev ready assms(24), unfolded pl, OF assms(22,12),
        of "ua_fsmc s" "uc_safestore cfg" "ua_obj_t s" "ua_old_obj s"]
    by (elim exE conjE) (rule that)
  have au: "authentic (pl_sec pl) hash (fsm_sf ctx0) mt" "sizeof_receiver_msg \<le> length (ua_msg s)"
    using assms(10,14) pl(2) i(4) by simp_all
  obtain sl ob w0 s' where r: "update_contract.chosen pl posix_valid_ids posix_content posix_opened posix_avail 1
      (\<lambda>i mode v. v) (\<lambda>i mode. splice_at) sl ob w1 w0"
    "update_agent pl ci cfg s = Some (if hash fw = vm_digest (vendor mt) then EVENT_APPLY else EVENT_RECEIVER_FAILURE_2, s')"
    "fsm_state (ua_fsmc s') = (if hash fw = vm_digest (vendor mt) then STATE_REBOOT else STATE_IDLE)"
    "posix_content (slot_id sl) (ua_world s') = manifest_bytes mt @ fw @ drop (sizeof_manifest + length fw) (posix_content (slot_id sl) w0)"
    "\<forall>j\<in>posix_valid_ids. j \<noteq> slot_id sl \<longrightarrow> posix_content j (ua_world s') = posix_content j w1"
    using device_contract.update_agent_ok [OF dev assms(3-6) assms(7) [folded assms(10)] i(1) [unfolded assms(11)] i(2,3) assms(8,9) au(2) i(5) assms(13) i(6) au(1)
        assms(15-18) i(7) [unfolded assms(20)] assms(19) i(9) assms(25-27)]
    by (elim exE conjE) (rule that)
  have sl: "sl \<in> set (active_slots slots)" "posix_content (slot_id sl) w0 = posix_content (slot_id sl) w1"
    "\<forall>x\<in>set (active_slots slots). content_version (posix_content (slot_id sl) w1) \<le> content_version (posix_content (slot_id x) w1)"
    using r(1) unfolding update_contract.chosen_def [OF uc] pl by simp_all
  have same: "posix_content (slot_id x) w1 = posix_content (slot_id x) w" if "x \<in> set (active_slots slots)" for x
    using i(8) assms(23) that by blast
  show ?thesis
    by (rule exI [of _ sl], rule exI [of _ s']) (use r(2-5) sl i(8) same assms(20) in auto)
qed

text \<open>
  C2. A session of the update agent over files. The connection is set up, the server offers a newer version, and answers the
  request with the bytes of a signed manifest and of its firmware, in blocks of any sizes and over any number of turns of the
  event loop. The agent returns, has stored manifest and firmware in a slot whose version no slot undercuts, keeps
  every other object, and says \<open>EVENT_APPLY\<close> where the firmware has the digest that the manifest states, with
  the machine in the reboot state, and \<open>EVENT_RECEIVER_FAILURE_2\<close> otherwise.
\<close>

theorem posix_agent_update:
  assumes "tinycrypt_sha lib hash st" and "pl = posix_platform lib c0 slots sr rd"
    and "conn_init ci (uc_conn cfg) (ua_conn s) = (PULL_SUCCESS, n1)" and "conn_on_data ci n1 = (PULL_SUCCESS, n2)"
    and "conn_request ci GET ''/version'' [] n2 = (PULL_SUCCESS, n3)" and "waits ci n3 [block_response (le_enc 2 (unat v))] n4"
    and "\<forall>msg. length msg = sizeof_receiver_msg \<longrightarrow> (\<exists>n5 n6. conn_request ci GET_BLOCKWISE2 ''/firmware'' msg n4 = (PULL_SUCCESS, n5) \<and>
      waits ci n5 (map block_response (ds @ [d])) n6)"
    and "wf_static (ua_static s)" and "length (is_buffer (ua_static s)) = FSM_BUFFER_SIZE"
    and "length (ua_msg s) = sizeof_receiver_msg" and "w = ua_world s"
    and "\<forall>x\<in>set (candidates True slots). content_version (posix_content (slot_id x) w) < v \<and>
      content_version (posix_content (slot_id x) w) < vm_version (vendor mt)"
    and "wf_manifest mt" and "authentic (tinycrypt_iface lib c0) hash (uc_safestore cfg) mt"
    and "sm_diff_version (server mt) = 0" and "vm_offset (vendor mt) = word_of_nat sizeof_manifest"
    and "vm_size (vendor mt) = word_of_nat (length fw)" and "sm_prop_size (server mt) = word_of_nat (length fw)"
    and "FSM_BUFFER_SIZE \<le> length fw" and "N = sizeof_manifest + length fw"
    and "active_slots slots \<noteq> []" and "bootable (hd (active_slots slots))"
    and "\<forall>x\<in>set (active_slots slots). slot_id x \<in> posix_valid_ids \<and>
      N \<le> length (posix_content (slot_id x) w) \<and> length (posix_content (slot_id x) w) < 2 ^ 31"
    and "0 < posix_avail w"
    and "concat ds @ d = manifest_bytes mt @ fw" and "d \<noteq> []" and "sizeof_manifest \<le> length (concat ds)"
  shows "\<exists>sl s'. sl \<in> set (active_slots slots) \<and>
    (\<forall>x\<in>set (active_slots slots). content_version (posix_content (slot_id sl) w) \<le> content_version (posix_content (slot_id x) w)) \<and>
    update_agent pl ci cfg s = Some (if hash fw = vm_digest (vendor mt) then EVENT_APPLY else EVENT_RECEIVER_FAILURE_2, s') \<and>
    fsm_state (ua_fsmc s') = (if hash fw = vm_digest (vendor mt) then STATE_REBOOT else STATE_IDLE) \<and>
    posix_content (slot_id sl) (ua_world s') = manifest_bytes mt @ fw @ drop N (posix_content (slot_id sl) w) \<and>
    (\<forall>j\<in>posix_valid_ids. j \<noteq> slot_id sl \<longrightarrow> posix_content j (ua_world s') = posix_content j w)"
  by (rule update_agent_posix [OF assms])


text \<open>
  A network for the application to a concrete input: it offers version 4 and sends the update of \<open>demo_update\<close> in two blocks, over two
  turns of the event loop. The disk holds versions 3, 2 and 1.
\<close>

definition demo_net :: "(nat, unit) conn_iface" where
  "demo_net = \<lparr>conn_init = (\<lambda>cfg n. (PULL_SUCCESS, 0)), conn_on_data = (\<lambda>n. (PULL_SUCCESS, n)),
     conn_request = (\<lambda>m r d n. (PULL_SUCCESS, if m = GET then 1 else 2)), conn_end = (\<lambda>n. 9),
     conn_wait = (\<lambda>n. if n = 1 then ([block_response (le_enc 2 (unat (4 :: version_t)))], True, 3)
       else if n = 2 then ([block_response (take 300 demo_update)], False, 4)
       else ([block_response (drop 300 demo_update)], True, 5))\<rparr>"

definition demo_update_cfg :: "unit update_agent_config_t" where
  "demo_update_cfg = \<lparr>uc_conn = \<lparr>cfg_endpoint = ''::1'', cfg_port = 5683, cfg_connection_type = PULL_UDP, cfg_conn_data = ()\<rparr>,
     uc_safestore = demo_sf\<rparr>"

definition agent_disk :: posix_fs where
  "agent_disk = \<lparr>files = [posix_path OBJ_A \<mapsto> demo_image 3 1030, posix_path OBJ_B \<mapsto> demo_image 2 1030,
       posix_path OBJ_C \<mapsto> demo_image 1 1030], fdtab = Map.empty, fd_max = 8\<rparr>"

definition demo_agent :: "(posix_fs, posix_obj, nat, nat) update_agent_ctx_t" where
  "demo_agent = \<lparr>ua_obj_t = demo_obj 0, ua_old_obj = demo_obj 0, ua_err = PULL_SUCCESS, ua_fsmc = demo_fsm, ua_conn = 0,
     ua_loop = False, ua_reqc_err = PULL_SUCCESS, ua_msg = replicate 16 0, ua_static = demo_static, ua_world = agent_disk\<rparr>"

lemma demo_net_waits:
  "waits demo_net 1 [block_response (le_enc 2 (unat (4 :: version_t)))] 3"
  "waits demo_net 2 (map block_response ([take 300 demo_update] @ [drop 300 demo_update])) 5"
proof -
  show "waits demo_net 1 [block_response (le_enc 2 (unat (4 :: version_t)))] 3"
    by (rule waits_last) (simp add: demo_net_def)
  have "waits demo_net 4 [block_response (drop 300 demo_update)] 5" by (rule waits_last) (simp add: demo_net_def)
  from waits_more [OF _ this, of 2 "[block_response (take 300 demo_update)]"]
  show "waits demo_net 2 (map block_response ([take 300 demo_update] @ [drop 300 demo_update])) 5" by (simp add: demo_net_def)
qed

lemma demo_net_firmware:
  "\<forall>msg. length msg = sizeof_receiver_msg \<longrightarrow> (\<exists>n5 n6. conn_request demo_net GET_BLOCKWISE2 ''/firmware'' msg 3 = (PULL_SUCCESS, n5) \<and>
     waits demo_net n5 (map block_response ([take 300 demo_update] @ [drop 300 demo_update])) n6)"
  using demo_net_waits(2) by (auto simp: demo_net_def)

lemma agent_disk_slots:
  "\<forall>x\<in>set (active_slots posix_memory_slots). slot_id x \<in> posix_valid_ids \<and>
     1280 \<le> length (posix_content (slot_id x) agent_disk) \<and> length (posix_content (slot_id x) agent_disk) < 2 ^ 31"
proof -
  have "set (map slot_id (active_slots posix_memory_slots)) = {OBJ_A, OBJ_B, OBJ_C}" by code_simp
  then have "slot_id x \<in> {OBJ_A, OBJ_B, OBJ_C}" if "x \<in> set (active_slots posix_memory_slots)" for x using that by auto
  moreover have "{OBJ_A, OBJ_B, OBJ_C} \<subseteq> posix_valid_ids" by code_simp
  moreover have "length (posix_content OBJ_A agent_disk) = 1286" "length (posix_content OBJ_B agent_disk) = 1286"
    "length (posix_content OBJ_C agent_disk) = 1286" by code_simp+
  ultimately show ?thesis by fastforce
qed

lemma demo_net_simps:
  "conn_init demo_net c n = (PULL_SUCCESS, 0)" "conn_on_data demo_net n = (PULL_SUCCESS, n)"
  "conn_request demo_net GET r d n = (PULL_SUCCESS, 1)" "conn_request demo_net GET_BLOCKWISE2 r d n = (PULL_SUCCESS, 2)"
  by (simp_all add: demo_net_def)

lemma demo_agent_simps:
  "wf_static (ua_static demo_agent)" "length (is_buffer (ua_static demo_agent)) = FSM_BUFFER_SIZE"
  "length (ua_msg demo_agent) = sizeof_receiver_msg" "agent_disk = ua_world demo_agent" "uc_safestore demo_update_cfg = demo_sf"
  by (simp_all add: demo_agent_def demo_fsm_simps sizeof_receiver_msg_def demo_update_cfg_def)

lemma agent_disk_facts:
  "\<forall>x\<in>set (candidates True posix_memory_slots). content_version (posix_content (slot_id x) agent_disk) < 4 \<and>
     content_version (posix_content (slot_id x) agent_disk) < vm_version (vendor (demo_manifest 4 demo_firmware))"
  "active_slots posix_memory_slots \<noteq> []" "bootable (hd (active_slots posix_memory_slots))" "0 < posix_avail agent_disk"
proof -
  have "\<forall>x\<in>set (candidates True posix_memory_slots). content_version (posix_content (slot_id x) agent_disk) < 4" by code_simp
  then show "\<forall>x\<in>set (candidates True posix_memory_slots). content_version (posix_content (slot_id x) agent_disk) < 4 \<and>
     content_version (posix_content (slot_id x) agent_disk) < vm_version (vendor (demo_manifest 4 demo_firmware))"
    by (simp add: demo_manifest_fields)
qed code_simp+

theorem posix_agent_update_witness:
  "\<exists>sl s'. sl \<in> set (active_slots posix_memory_slots) \<and>
    (\<forall>x\<in>set (active_slots posix_memory_slots).
       content_version (posix_content (slot_id sl) agent_disk) \<le> content_version (posix_content (slot_id x) agent_disk)) \<and>
    update_agent demo_platform demo_net demo_update_cfg demo_agent =
      Some (if demo_hash demo_firmware = vm_digest (vendor (demo_manifest 4 demo_firmware)) then EVENT_APPLY else EVENT_RECEIVER_FAILURE_2, s') \<and>
    fsm_state (ua_fsmc s') = (if demo_hash demo_firmware = vm_digest (vendor (demo_manifest 4 demo_firmware)) then STATE_REBOOT else STATE_IDLE) \<and>
    posix_content (slot_id sl) (ua_world s') = manifest_bytes (demo_manifest 4 demo_firmware) @ demo_firmware @
      drop 1280 (posix_content (slot_id sl) agent_disk) \<and>
    (\<forall>j\<in>posix_valid_ids. j \<noteq> slot_id sl \<longrightarrow> posix_content j (ua_world s') = posix_content j agent_disk)"
  by (rule posix_agent_update [OF demo_tc.tinycrypt_sha_axioms demo_platform_def _ _ _ demo_net_waits(1) demo_net_firmware
      demo_agent_simps(1-4) agent_disk_facts(1) wf_demo_manifest _ _ _ _ _ _ _ agent_disk_facts(2,3) agent_disk_slots agent_disk_facts(4)])
    (simp_all add: demo_net_simps demo_agent_simps(5) demo_manifest_fields authentic_demo_manifest length_demo_firmware length_demo_update
      demo_update_def [symmetric] FSM_BUFFER_SIZE_def sizeof_manifest_def)

section \<open>Every network\<close>


text \<open>A network whose requests fail.\<close>

definition deaf_net :: "(nat, unit) conn_iface" where
  "deaf_net = demo_net\<lparr>conn_request := (\<lambda>m r d n. (SEND_ERROR, n))\<rparr>"

definition tiny_agent :: "(posix_fs, posix_obj, nat, nat) update_agent_ctx_t" where
  "tiny_agent = demo_agent\<lparr>ua_static := tiny_static, ua_world := tiny_disk\<rparr>"

lemma tiny_agent_wf: "wf_static (ua_static tiny_agent)"
  by (simp add: tiny_agent_def tiny_static_wf)


end
