(* ===== verification/Coap_Posix.thy ===== *)
theory Coap_Posix
  imports Connection_Libcoap Update_Posix
begin

text \<open>
  The update agent over libcoap and over files: a server that has a version and a file serves them, and the agent installs
  the file. The blocks of the transfer are those that the response handler asks for.
\<close>

section \<open>A simulated server\<close>

text \<open>The messages of the simulation: what a request says, and what a response holds; the state is the request that waits for its answer.\<close>

type_synonym sim_request = "byte list list \<times> byte list option \<times> byte list"

record sim_response =
  sim_block2 :: "(u32 \<times> bool) option"
  sim_data :: "byte list"

definition sim_bytes :: "string \<Rightarrow> byte list" where
  "sim_bytes = map (\<lambda>c. word_of_nat (of_char c))"

definition sim_answer :: "byte list \<Rightarrow> byte list \<Rightarrow> sim_request \<Rightarrow> sim_response" where
  "sim_answer ver img q = (case fst (snd q) of
     None \<Rightarrow> \<lparr>sim_block2 = None, sim_data = ver\<rparr>
   | Some b \<Rightarrow> (let k = drop_bit 4 (word_of_nat (le_dec b)) in
       \<lparr>sim_block2 = Some (k, 256 * (unat k + 1) < length img), sim_data = take 256 (drop (256 * unat k) img)\<rparr>))"

definition sim_libcoap :: "byte list \<Rightarrow> byte list \<Rightarrow> (sim_request, sim_response, u32 \<times> bool, nat, sim_request option) libcoap" where
  "sim_libcoap ver img = \<lparr>coap_new_context = Pair True, coap_context_set_psk = (\<lambda>_ x. x), coap_context_set_ecdsa = (\<lambda>_ x. x),
     getaddrinfo = (\<lambda>ep x. Some [6]), addr_fits = (\<lambda>a. a = 6), coap_new_client_session = (\<lambda>a port proto x. (True, None)),
     coap_session_release = (\<lambda>x. x), coap_free_context = (\<lambda>x. x), coap_cleanup = (\<lambda>x. x), coap_register_response_handler = (\<lambda>x. x),
     coap_pdu_init = (\<lambda>t code x. (Some ([], None, []), x)), coap_split_path = (\<lambda>r. Some [sim_bytes (tl r)]),
     coap_encode_var_bytes = (\<lambda>n. le_enc 4 (unat n)),
     coap_add_option = (\<lambda>opt bs (segs, blk, d). if opt = COAP_OPTION_URI_PATH then (segs @ [bs], blk, d) else (segs, Some bs, d)),
     coap_add_data = (\<lambda>d (segs, blk, _). Some (segs, blk, d)), coap_send = (\<lambda>p x. (True, Some p)),
     rx_type = (\<lambda>m. 2), rx_code = (\<lambda>m. 69), coap_check_block2 = sim_block2, coap_opt_block_more = snd, coap_opt_block_num = fst,
     coap_get_data = (\<lambda>m. Some (sim_data m)),
     coap_run_once = (\<lambda>x. case x of None \<Rightarrow> ([], True, None) | Some q \<Rightarrow> ([sim_answer ver img q], False, None))\<rparr>"

lemma high_bits_clear:
  assumes "unat (k :: u32) < 2 ^ m" and "m \<le> n"
  shows "\<not> bit k n"
proof
  assume b: "bit k n"
  then have "bit (unat k) n" by (simp add: bit_unsigned_iff bit_imp_le_length)
  moreover have "unat k < 2 ^ n" using assms by (meson less_le_trans one_le_numeral power_increasing)
  ultimately show False by (simp add: bit_iff_odd)
qed

lemma drop_block_num:
  assumes "unat k < 2 ^ 20"
  shows "drop_bit 4 (or (push_bit 4 k) BLOCK_SIZE) = (k :: u32)"
proof (rule bit_word_eqI)
  fix n assume n: "n < LENGTH(32)"
  have "\<not> bit (4 :: u32) (n + 4)" by (rule high_bits_clear [of _ 3]) simp_all
  moreover have "bit k n \<Longrightarrow> n < 20" using high_bits_clear [OF assms] by (meson not_le)
  ultimately show "bit (drop_bit 4 (or (push_bit 4 k) BLOCK_SIZE)) n = bit k n"
    by (auto simp: bit_simps BLOCK_SIZE_def add.commute)
qed

lemma le_dec_block_option: "word_of_nat (le_dec (block_option (sim_libcoap ver img) k)) = or (push_bit 4 k) BLOCK_SIZE"
  by (simp add: block_option_def sim_libcoap_def word_le_dec_enc_32)

lemma sim_answer_block:
  assumes "unat k < 2 ^ 20"
  shows "sim_answer ver img (p, Some (block_option (sim_libcoap ver img) k), d) =
    \<lparr>sim_block2 = Some (k, 256 * (unat k + 1) < length img), sim_data = take 256 (drop (256 * unat k) img)\<rparr>"
  unfolding sim_answer_def fst_conv snd_conv option.case Let_def le_dec_block_option drop_block_num [OF assms] ..

lemma sim_run_once: "coap_run_once (sim_libcoap ver img) (Some q) = ([sim_answer ver img q], False, None)"
  by (simp add: sim_libcoap_def)

lemma sim_response_fields:
  "rx_type (sim_libcoap ver img) m = 2" "rx_code (sim_libcoap ver img) m = 69" "coap_check_block2 (sim_libcoap ver img) = sim_block2"
  "coap_opt_block_more (sim_libcoap ver img) = snd" "coap_opt_block_num (sim_libcoap ver img) = fst"
  "coap_get_data (sim_libcoap ver img) m = Some (sim_data m)"
  by (simp_all add: sim_libcoap_def)

lemma sim_server:
  assumes "length img \<le> 2 ^ 28"
  shows "coap_server (sim_libcoap ver img) ep id (\<lambda>x. x = None) (\<lambda>q x. x = Some q) [sim_bytes ''version''] [sim_bytes ''firmware''] ver img"
proof (unfold_locales, goal_cases)
  case (13 k d x)
  then have "unat k < 2 ^ 20" using assms by simp
  with 13(1) show ?case by (simp add: sim_run_once sim_answer_block sim_response_fields coap_constants)
qed (use assms in \<open>auto simp: sim_libcoap_def sim_answer_def coap_constants\<close>)

interpretation demo_srv: coap_server "sim_libcoap (le_enc 2 (unat (4 :: version_t))) demo_update" ep id "\<lambda>x. x = None" "\<lambda>q x. x = Some q"
  "[sim_bytes ''version'']" "[sim_bytes ''firmware'']" "le_enc 2 (unat (4 :: version_t))" demo_update
  by (rule sim_server) (simp add: length_demo_update)

lemma demo_server:
  "coap_server (sim_libcoap (le_enc 2 (unat (4 :: version_t))) demo_update) ''::1'' id (\<lambda>x. x = None) (\<lambda>q x. x = Some q)
     [sim_bytes ''version''] [sim_bytes ''firmware''] (le_enc 2 (unat (4 :: version_t))) (manifest_bytes (demo_manifest 4 demo_firmware) @ demo_firmware)"
  unfolding demo_update_def [symmetric] by (rule demo_srv.coap_server_axioms)

section \<open>The agent over CoAP\<close>


definition demo_coap_cfg :: "dtls_conn_data option update_agent_config_t" where
  "demo_coap_cfg = \<lparr>uc_conn = \<lparr>cfg_endpoint = ''::1'', cfg_port = 0, cfg_connection_type = PULL_UDP, cfg_conn_data = None\<rparr>,
     uc_safestore = demo_sf\<rparr>"

definition demo_coap_agent :: "(posix_fs, posix_obj, nat, sim_request option conn_ctx) update_agent_ctx_t" where
  "demo_coap_agent = \<lparr>ua_obj_t = demo_obj 0, ua_old_obj = demo_obj 0, ua_err = PULL_SUCCESS, ua_fsmc = demo_fsm,
     ua_conn = \<lparr>coap_ctx = False, coap_session = False, lc_handler = False,
       bctx = \<lparr>bc_method = 0, bc_enabled = False, bc_resource = [], bc_data = []\<rparr>, lc_conn_data = None, lc_net = None\<rparr>,
     ua_loop = False, ua_reqc_err = PULL_SUCCESS, ua_msg = replicate 16 0, ua_static = demo_static, ua_world = agent_disk\<rparr>"

lemma demo_coap_simps:
  "cfg_endpoint (uc_conn demo_coap_cfg) = ''::1''" "cfg_connection_type (uc_conn demo_coap_cfg) = PULL_UDP"
  "wf_static (ua_static demo_coap_agent)" "length (is_buffer (ua_static demo_coap_agent)) = FSM_BUFFER_SIZE"
  "length (ua_msg demo_coap_agent) = sizeof_receiver_msg" "agent_disk = ua_world demo_coap_agent" "uc_safestore demo_coap_cfg = demo_sf"
  by (simp_all add: demo_coap_cfg_def demo_coap_agent_def demo_fsm_simps sizeof_receiver_msg_def)


end
