(* ===== verification/Ble.thy ===== *)
theory Ble
  imports Fsm_Safety Update_Posix
begin

text \<open>
  The Bluetooth receiver (\<open>src/network/ble/zephyr_ble.c\<close>, \<open>include/libpull/network/gatt.h\<close>).

  \<open>ble_t\<close> holds the static variables of the file: the context of the state machine, the flag
  \<open>notify_state_flag\<close>, and with them the static memory of the machine and the memory of the
  device. \<open>gatt_iface\<close> are the functions of the Bluetooth stack, which are not part of the
  repository, with \<open>sizeof(fsm_state_t)\<close> and \<open>BT_GATT_CCC_NOTIFY\<close>; \<open>ble_stack\<close> is the state of the stack. A
  handler gets the buffer, the length and the offset of the request; where it has a local
  \<open>receiver_msg_t\<close> that it does not initialise, the bytes found there are an argument.

  The lemmas relate sequences of requests to runs of the state machine. The
  properties are the update session over Bluetooth, that only an authenticated
  manifest changes the memory, that subscribers know the state as long as no request
  fails, and that after a failure no request but one starts a new update.
\<close>

section \<open>The handlers\<close>

record 'n gatt_iface =
  bt_gatt_attr_read :: "byte list \<Rightarrow> nat \<Rightarrow> nat \<Rightarrow> byte list \<Rightarrow> int \<times> byte list"
  bt_gatt_notify :: "byte list \<Rightarrow> 'n \<Rightarrow> int \<times> 'n"
  bt_gatt_service_register :: "'n \<Rightarrow> int \<times> 'n"
  sizeof_fsm_state :: nat
  ccc_notify :: "16 word"

record ('w, 'o, 'r, 'n) ble_t =
  ble_fsmc :: "('o, 'r) fsm_ctx"
  notify_state_flag :: byte
  ble_static :: "'o fsm_static"
  ble_world :: 'w
  ble_stack :: 'n

text \<open>The values of the enumeration \<open>fsm_state_t\<close>.\<close>

fun state_num :: "fsm_state_t \<Rightarrow> nat" where
  "state_num STATE_CLEAN = 0"
| "state_num STATE_IDLE = 1"
| "state_num STATE_START_UPDATE = 2"
| "state_num STATE_RECEIVE_MANIFEST = 3"
| "state_num STATE_VERIFY_MANIFEST = 4"
| "state_num STATE_RECEIVE_FIRMWARE = 5"
| "state_num STATE_VERIFY_FIRMWARE = 6"
| "state_num STATE_REBOOT = 7"

text \<open>A call of \<open>update_receiver_msg\<close> on the bytes of a message.\<close>

definition ble_update_msg :: "('o, 'r) fsm_ctx \<Rightarrow> byte list \<Rightarrow> byte list" where
  "ble_update_msg ctx msg = splice_at 12 (le_enc 4 (unat (msg_offset (snd (update_receiver_msg ctx (msg_of_bytes msg)))))) msg"

definition gatt_read_state :: "'n gatt_iface \<Rightarrow> byte list \<Rightarrow> nat \<Rightarrow> nat \<Rightarrow> ('w, 'o, 'r, 'n) ble_t \<Rightarrow> int \<times> byte list" where
  "gatt_read_state gi buf len off s =
     bt_gatt_attr_read gi buf len off (le_enc (sizeof_fsm_state gi) (state_num (fsm_state (ble_fsmc s))))"

definition gatt_read_version :: "'n gatt_iface \<Rightarrow> byte list \<Rightarrow> nat \<Rightarrow> nat \<Rightarrow> ('w, 'o, 'r, 'n) ble_t \<Rightarrow> int \<times> byte list" where
  "gatt_read_version gi buf len off s = bt_gatt_attr_read gi buf len off (le_enc 2 (unat (fsm_version (ble_fsmc s))))"

definition gatt_read_received ::
  "'n gatt_iface \<Rightarrow> byte list \<Rightarrow> byte list \<Rightarrow> nat \<Rightarrow> nat \<Rightarrow> ('w, 'o, 'r, 'n) ble_t \<Rightarrow> int \<times> byte list" where
  "gatt_read_received gi msg buf len off s =
     (let msg = ble_update_msg (ble_fsmc s) msg in bt_gatt_attr_read gi buf len off (block 12 4 msg))"

definition notify_state_cb :: "'n gatt_iface \<Rightarrow> 16 word \<Rightarrow> ('w, 'o, 'r, 'n) ble_t \<Rightarrow> ('w, 'o, 'r, 'n) ble_t" where
  "notify_state_cb gi value s = s\<lparr>notify_state_flag := if value = ccc_notify gi then 1 else 0\<rparr>"

text \<open>The notification at the end of three handlers.\<close>

definition ble_notify :: "'n gatt_iface \<Rightarrow> fsm_state_t \<Rightarrow> ('w, 'o, 'r, 'n) ble_t \<Rightarrow> ('w, 'o, 'r, 'n) ble_t" where
  "ble_notify gi old s =
     (if notify_state_flag s \<noteq> 0 \<and> old \<noteq> fsm_state (ble_fsmc s)
      then s\<lparr>ble_stack := snd (bt_gatt_notify gi (le_enc 1 (state_num (fsm_state (ble_fsmc s)))) (ble_stack s))\<rparr> else s)"

text \<open>A call of the machine on the static context.\<close>

definition ble_call ::
  "('w, 'o, 'd, 'r) platform \<Rightarrow> byte list \<Rightarrow> ('w, 'o, 'r, 'n) ble_t \<Rightarrow> (pull_error \<times> byte list \<times> ('w, 'o, 'r, 'n) ble_t) option" where
  "ble_call pl buf s = Option.bind (fsm pl (ble_fsmc s) (ble_static s) buf (ble_world s)) (\<lambda>(err, ctx, fs, buf', w).
     Some (err, buf', s\<lparr>ble_fsmc := ctx, ble_static := fs, ble_world := w\<rparr>))"

definition gatt_write_image ::
  "('w, 'o, 'd, 'r) platform \<Rightarrow> 'n gatt_iface \<Rightarrow> byte list \<Rightarrow> ('w, 'o, 'r, 'n) ble_t \<Rightarrow> (int \<times> ('w, 'o, 'r, 'n) ble_t) option" where
  "gatt_write_image pl gi buf s = Option.bind (ble_call pl buf s) (\<lambda>(err, buf', s').
     if err \<noteq> PULL_SUCCESS then Some (0, s')
     else Some (int (length buf), ble_notify gi (fsm_state (ble_fsmc s)) s'))"

definition gatt_write_version ::
  "('w, 'o, 'd, 'r) platform \<Rightarrow> 'n gatt_iface \<Rightarrow> byte list \<Rightarrow> ('w, 'o, 'r, 'n) ble_t \<Rightarrow> (int \<times> ('w, 'o, 'r, 'n) ble_t) option" where
  "gatt_write_version pl gi buf s =
     (if fsm_state (ble_fsmc s) \<noteq> STATE_IDLE then Some (-1, s)
      else Option.bind (ble_call pl buf s) (\<lambda>(err, buf', s').
        if err \<noteq> PULL_SUCCESS then Some (-1, s')
        else Some (int (length buf), ble_notify gi (fsm_state (ble_fsmc s)) s')))"

definition gatt_read_receiver_msg ::
  "('w, 'o, 'd, 'r) platform \<Rightarrow> 'n gatt_iface \<Rightarrow> byte list \<Rightarrow> byte list \<Rightarrow> nat \<Rightarrow> nat \<Rightarrow> ('w, 'o, 'r, 'n) ble_t \<Rightarrow>
   (int \<times> byte list \<times> ('w, 'o, 'r, 'n) ble_t) option" where
  "gatt_read_receiver_msg pl gi msg buf len off s =
     (if fsm_state (ble_fsmc s) = STATE_START_UPDATE
      then Option.bind (ble_call pl msg s) (\<lambda>(err, msg, s').
        if err \<noteq> PULL_SUCCESS then Some (-1, buf, s')
        else (case bt_gatt_attr_read gi buf len off msg of (ret, out) \<Rightarrow>
          Some (ret, out, ble_notify gi (fsm_state (ble_fsmc s)) s')))
      else (case bt_gatt_attr_read gi buf len off (ble_update_msg (ble_fsmc s) msg) of (ret, out) \<Rightarrow>
          Some (ret, out, ble_notify gi (fsm_state (ble_fsmc s)) s)))"

definition libpull_gatt_init ::
  "('w, 'o, 'd, 'r) platform \<Rightarrow> 'n gatt_iface \<Rightarrow> safestore_t \<Rightarrow> 'o \<Rightarrow> 'o \<Rightarrow> ('w, 'o, 'r, 'n) ble_t \<Rightarrow>
   pull_error \<times> ('w, 'o, 'r, 'n) ble_t" where
  "libpull_gatt_init pl gi sf obj objold s =
     (case fsm_init pl (ble_fsmc s) sf obj objold (ble_world s) of (err, ctx, w) \<Rightarrow>
        let s = s\<lparr>ble_fsmc := ctx, ble_world := w\<rparr> in
        if err \<noteq> PULL_SUCCESS then (err, s)
        else (case bt_gatt_service_register gi (ble_stack s) of (ret, n) \<Rightarrow>
          (if ret \<noteq> 0 then RECEIVER_OPEN_ERROR else PULL_SUCCESS, s\<lparr>ble_stack := n\<rparr>)))"

section \<open>The attribute table\<close>

text \<open>
  The requests that the table of attributes accepts, each with the arguments of its handler; the first
  argument of the two that have a local message are the bytes found in it.
\<close>

datatype gatt_request =
    READ_VERSION "byte list" nat nat
  | WRITE_VERSION "byte list"
  | READ_RECEIVER_MSG "byte list" "byte list" nat nat
  | WRITE_IMAGE "byte list"
  | READ_STATE "byte list" nat nat
  | WRITE_CCC "16 word"
  | READ_RECEIVED "byte list" "byte list" nat nat

definition libpull_attrs ::
  "('w, 'o, 'd, 'r) platform \<Rightarrow> 'n gatt_iface \<Rightarrow> gatt_request \<Rightarrow> ('w, 'o, 'r, 'n) ble_t \<Rightarrow>
   (int \<times> byte list \<times> ('w, 'o, 'r, 'n) ble_t) option" where
  "libpull_attrs pl gi r s = (case r of
     READ_VERSION buf len off \<Rightarrow> (case gatt_read_version gi buf len off s of (ret, out) \<Rightarrow> Some (ret, out, s))
   | WRITE_VERSION buf \<Rightarrow> map_option (\<lambda>(ret, s). (ret, [], s)) (gatt_write_version pl gi buf s)
   | READ_RECEIVER_MSG msg buf len off \<Rightarrow> gatt_read_receiver_msg pl gi msg buf len off s
   | WRITE_IMAGE buf \<Rightarrow> map_option (\<lambda>(ret, s). (ret, [], s)) (gatt_write_image pl gi buf s)
   | READ_STATE buf len off \<Rightarrow> (case gatt_read_state gi buf len off s of (ret, out) \<Rightarrow> Some (ret, out, s))
   | WRITE_CCC value \<Rightarrow> Some (0, [], notify_state_cb gi value s)
   | READ_RECEIVED msg buf len off \<Rightarrow> (case gatt_read_received gi msg buf len off s of (ret, out) \<Rightarrow> Some (ret, out, s)))"

text \<open>A sequence of requests, with what each returns.\<close>

fun gatt_run ::
  "('w, 'o, 'd, 'r) platform \<Rightarrow> 'n gatt_iface \<Rightarrow> gatt_request list \<Rightarrow> ('w, 'o, 'r, 'n) ble_t \<Rightarrow>
   ((int \<times> byte list) list \<times> ('w, 'o, 'r, 'n) ble_t) option" where
  "gatt_run pl gi [] s = Some ([], s)"
| "gatt_run pl gi (r # rs) s = Option.bind (libpull_attrs pl gi r s) (\<lambda>(ret, out, s1).
     Option.bind (gatt_run pl gi rs s1) (\<lambda>(rets, s2). Some ((ret, out) # rets, s2)))"

lemmas gatt_defs = libpull_attrs_def gatt_read_version_def gatt_write_version_def gatt_read_receiver_msg_def
  gatt_write_image_def gatt_read_state_def notify_state_cb_def gatt_read_received_def ble_call_def

section \<open>Lemmas\<close>

lemma ble_notify_fields [simp]:
  "ble_fsmc (ble_notify gi old s) = ble_fsmc s" "ble_static (ble_notify gi old s) = ble_static s"
  "ble_world (ble_notify gi old s) = ble_world s" "notify_state_flag (ble_notify gi old s) = notify_state_flag s"
  by (simp_all add: ble_notify_def)

text \<open>A request leaves the machine alone or calls it once.\<close>

lemma libpull_attrs_cases:
  assumes "libpull_attrs pl gi r s = Some (ret, out, s')"
  shows "(ble_fsmc s' = ble_fsmc s \<and> ble_static s' = ble_static s \<and> ble_world s' = ble_world s) \<or>
    (\<exists>buf e buf'. fsm pl (ble_fsmc s) (ble_static s) buf (ble_world s) =
       Some (e, ble_fsmc s', ble_static s', buf', ble_world s'))"
  using assms by (cases r) (auto simp: gatt_defs split: if_splits bind_splits prod.splits)

lemma libpull_attrs_session:
  assumes "libpull_attrs pl gi r s = Some (ret, out, s')" and "fsm_session pl sf v wi (ble_fsmc s) (ble_static s) (ble_world s)"
  shows "fsm_session pl sf v wi (ble_fsmc s') (ble_static s') (ble_world s')"
  using libpull_attrs_cases [OF assms(1)] assms(2) by (auto intro: fsm_session_call)

lemma gatt_run_append:
  "gatt_run pl gi (rs @ qs) s = Option.bind (gatt_run pl gi rs s) (\<lambda>(rets, s1).
     Option.bind (gatt_run pl gi qs s1) (\<lambda>(rets', s2). Some (rets @ rets', s2)))"
  by (induction rs arbitrary: s) (auto split: bind_splits prod.splits)

lemma gatt_run_session:
  "gatt_run pl gi rs s = Some (rets, s') \<Longrightarrow> fsm_session pl sf v wi (ble_fsmc s) (ble_static s) (ble_world s) \<Longrightarrow>
   fsm_session pl sf v wi (ble_fsmc s') (ble_static s') (ble_world s')"
  by (induction rs arbitrary: s rets) (auto split: bind_splits prod.splits intro: libpull_attrs_session)

text \<open>Writes to the image characteristic are a run of the machine, up to the first error.\<close>

definition ble_fed :: "('o, 'r) fsm_ctx \<Rightarrow> 'o fsm_static \<Rightarrow> 'w \<Rightarrow> ('w, 'o, 'r, 'n) ble_t \<Rightarrow> bool" where
  "ble_fed ctx fs w s \<longleftrightarrow> ble_fsmc s = ctx \<and> ble_static s = fs \<and> ble_world s = w"

lemma gatt_images_run:
  assumes "fsm_run pl ds ctx fs w = Some (PULL_SUCCESS, ctx', fs', w')" and "ble_fed ctx fs w s"
  shows "\<exists>s'. gatt_run pl gi (map WRITE_IMAGE ds) s = Some (map (\<lambda>c. (int (length c), [])) ds, s') \<and> ble_fed ctx' fs' w' s'"
  using assms
proof (induction ds arbitrary: ctx fs w s)
  case (Cons c cs)
  from Cons.prems(1) obtain ctx1 fs1 c1 w1 where
    f: "fsm pl ctx fs c w = Some (PULL_SUCCESS, ctx1, fs1, c1, w1)" "fsm_run pl cs ctx1 fs1 w1 = Some (PULL_SUCCESS, ctx', fs', w')"
    by (auto split: bind_splits if_splits prod.splits)
  let ?s = "ble_notify gi (fsm_state ctx) (s\<lparr>ble_fsmc := ctx1, ble_static := fs1, ble_world := w1\<rparr>)"
  have "libpull_attrs pl gi (WRITE_IMAGE c) s = Some (int (length c), [], ?s)"
    using f(1) Cons.prems(2) by (simp add: gatt_defs ble_fed_def)
  moreover have "ble_fed ctx1 fs1 w1 ?s" by (simp add: ble_fed_def)
  ultimately show ?case using Cons.IH [OF f(2)] by fastforce
qed (auto simp: ble_fed_def)

lemma gatt_images_last:
  assumes "fsm_run pl ds ctx fs w = Some (PULL_SUCCESS, r)" and "fsm_run pl (ds @ [d]) ctx fs w = Some (e, ctx', fs', w')"
    and "ble_fed ctx fs w s"
  shows "\<exists>s'. gatt_run pl gi (map WRITE_IMAGE (ds @ [d])) s =
      Some (map (\<lambda>c. (int (length c), [])) ds @ [(if e = PULL_SUCCESS then int (length d) else 0, [])], s') \<and> ble_fed ctx' fs' w' s'"
proof -
  obtain ctx1 fs1 w1 where r: "r = (ctx1, fs1, w1)" by (cases r)
  obtain s1 where s1: "gatt_run pl gi (map WRITE_IMAGE ds) s = Some (map (\<lambda>c. (int (length c), [])) ds, s1)" "ble_fed ctx1 fs1 w1 s1"
    using gatt_images_run [OF assms(1) [unfolded r] assms(3)] by blast
  obtain d' where "fsm pl ctx1 fs1 d w1 = Some (e, ctx', fs', d', w')"
    using assms(1,2) r by (auto simp: fsm_run_append split: bind_splits if_splits prod.splits)
  then show ?thesis using s1
    by (auto simp: gatt_run_append gatt_defs ble_fed_def)
qed

text \<open>The two requests that precede the image.\<close>

lemma gatt_request_run:
  assumes "\<And>cs. fsm_run pl (le_enc 2 (unat v) # msg # cs) ctx fs w = fsm_run pl cs ctx' fs' w" and "ble_fed ctx fs w s"
    and "fsm_state ctx = STATE_IDLE" and "fsm_version ctx < v"
  shows "\<exists>ret out s'. gatt_run pl gi [WRITE_VERSION (le_enc 2 (unat v)), READ_RECEIVER_MSG msg buf len off] s =
      Some ([(2, []), (ret, out)], s') \<and> ble_fed ctx' fs' w s'"
proof -
  let ?v = "le_enc 2 (unat v)" and ?ctx = "ctx\<lparr>fsm_state := STATE_START_UPDATE\<rparr>"
  have f: "fsm pl ctx fs ?v w = Some (PULL_SUCCESS, ?ctx, fs, ?v, w)"
    using assms(3,4) word_le_dec_enc_16 [of v] by (simp add: fsm_def fsm_idle_def not_le [symmetric])
  have "fsm_run pl [msg] ?ctx fs w = Some (PULL_SUCCESS, ctx', fs', w)" using assms(1) [of "[]"] f by simp
  then obtain msg' where m: "fsm pl ?ctx fs msg w = Some (PULL_SUCCESS, ctx', fs', msg', w)"
    by (auto split: bind_splits if_splits prod.splits)
  let ?s = "ble_notify gi STATE_IDLE (s\<lparr>ble_fsmc := ?ctx, ble_static := fs, ble_world := w\<rparr>)"
  have "libpull_attrs pl gi (WRITE_VERSION ?v) s = Some (2, [], ?s)"
    using f assms(2,3) by (simp add: gatt_defs ble_fed_def)
  moreover have "\<exists>ret out s'. libpull_attrs pl gi (READ_RECEIVER_MSG msg buf len off) ?s = Some (ret, out, s') \<and> ble_fed ctx' fs' w s'"
    using m by (auto simp: gatt_defs ble_fed_def split: prod.splits)
  ultimately show ?thesis by auto
qed

section \<open>A session\<close>

context device_contract
begin

lemma ble_session_ok:
  assumes reg: "bt_gatt_service_register gi (ble_stack s) = (0, n)"
    and st: "wf_static (ble_static s)" "length (is_buffer (ble_static s)) = FSM_BUFFER_SIZE" "sizeof_receiver_msg \<le> length msg"
    and mt: "\<forall>x\<in>set (candidates True (pl_slots pl)). content_version (content (slot_id x) (ble_world s)) < v \<and>
      content_version (content (slot_id x) (ble_world s)) < vm_version (vendor mt)"
    "wf_manifest mt" "authentic (pl_sec pl) hash sf mt" "sm_diff_version (server mt) = 0"
    "vm_offset (vendor mt) = word_of_nat sizeof_manifest"
    "vm_size (vendor mt) = word_of_nat (length fw)" "sm_prop_size (server mt) = word_of_nat (length fw)"
    and mem: "slots_ready (sizeof_manifest + length fw) (ble_world s)" "bootable (hd (active_slots (pl_slots pl)))"
    "FSM_BUFFER_SIZE \<le> length fw" "0 < avail (ble_world s)"
    and upd: "concat ds @ d = manifest_bytes mt @ fw" "d \<noteq> []" "sizeof_manifest \<le> length (concat ds)"
  shows "\<exists>s0 sl ob w0 ret out s'. libpull_gatt_init pl gi sf obj objold s = (PULL_SUCCESS, s0) \<and>
    (\<forall>j\<in>ids. content j (ble_world s0) = content j (ble_world s)) \<and> chosen sl ob (ble_world s0) w0 \<and>
    gatt_run pl gi (WRITE_VERSION (le_enc 2 (unat v)) # READ_RECEIVER_MSG msg buf len off # map WRITE_IMAGE (ds @ [d])) s0 =
      Some ((2, []) # (ret, out) # map (\<lambda>c. (int (length c), [])) ds @
        [(if hash fw = vm_digest (vendor mt) then int (length d) else 0, [])], s') \<and>
    fsm_state (ble_fsmc s') = (if hash fw = vm_digest (vendor mt) then STATE_REBOOT else STATE_IDLE) \<and>
    content (slot_id sl) (ble_world s') = manifest_bytes mt @ fw @ drop (sizeof_manifest + length fw) (content (slot_id sl) w0) \<and>
    (\<forall>j\<in>ids. j \<noteq> slot_id sl \<longrightarrow> content j (ble_world s') = content j (ble_world s0))"
proof -
  obtain ctx0 w1 where i: "fsm_init pl (ble_fsmc s) sf obj objold (ble_world s) = (PULL_SUCCESS, ctx0, w1)"
    "fsm_state ctx0 = STATE_IDLE" "fsm_processed ctx0 = 0" "fsm_sf ctx0 = sf" "fsm_version ctx0 < v"
    "fsm_version ctx0 < vm_version (vendor mt)" "slots_ready (sizeof_manifest + length fw) w1"
    "\<forall>j\<in>ids. content j w1 = content j (ble_world s)" "0 < avail w1"
    using fsm_init_ready [OF mem(1,4,2) mt(1), of "ble_fsmc s" sf obj objold] by (elim exE conjE) (rule that)
  let ?s0 = "s\<lparr>ble_fsmc := ctx0, ble_world := w1, ble_stack := n\<rparr>"
  have init: "libpull_gatt_init pl gi sf obj objold s = (PULL_SUCCESS, ?s0)" "ble_fed ctx0 (ble_static s) w1 ?s0"
    using i(1) reg by (simp_all add: libpull_gatt_init_def ble_fed_def)
  obtain ctx1 fs1 where r: "\<And>cs. fsm_run pl (le_enc 2 (unat v) # msg # cs) ctx0 (ble_static s) w1 = fsm_run pl cs ctx1 fs1 w1"
    "receiving ctx1 fs1 []" "fsm_sf ctx1 = sf" "fsm_version ctx1 = fsm_version ctx0"
    using request_ok [OF i(2,3) st(1,2) i(5) st(3)] i(4) by blast
  obtain ret out s1 where q: "gatt_run pl gi [WRITE_VERSION (le_enc 2 (unat v)), READ_RECEIVER_MSG msg buf len off] ?s0 =
      Some ([(2, []), (ret, out)], s1)" "ble_fed ctx1 fs1 w1 s1"
    using gatt_request_run [OF r(1) init(2) i(2,5)] by blast
  obtain sl ob w0 e ctx' fs' w' where u: "chosen sl ob w1 w0" "\<exists>r. fsm_run pl ds ctx1 fs1 w1 = Some (PULL_SUCCESS, r)"
    "fsm_run pl (ds @ [d]) ctx1 fs1 w1 = Some (e, ctx', fs', w')"
    "e = (if hash fw = vm_digest (vendor mt) then PULL_SUCCESS else VERIFICATION_FAILED_ERROR)"
    "fsm_state ctx' = (if hash fw = vm_digest (vendor mt) then STATE_REBOOT else STATE_IDLE)"
    "content (slot_id sl) w' = manifest_bytes mt @ fw @ drop (sizeof_manifest + length fw) (content (slot_id sl) w0)"
    "\<forall>j\<in>ids. j \<noteq> slot_id sl \<longrightarrow> content j w' = content j w1"
    using whole_update_ok [OF r(2), unfolded r(3,4), OF mt(2) i(6) mt(3-7) i(7) mem(3) i(9) upd] by blast
  obtain s' where g: "gatt_run pl gi (map WRITE_IMAGE (ds @ [d])) s1 =
      Some (map (\<lambda>c. (int (length c), [])) ds @ [(if e = PULL_SUCCESS then int (length d) else 0, [])], s')" "ble_fed ctx' fs' w' s'"
    using u(2) gatt_images_last [OF _ u(3) q(2)] by blast
  have "gatt_run pl gi (WRITE_VERSION (le_enc 2 (unat v)) # READ_RECEIVER_MSG msg buf len off # map WRITE_IMAGE (ds @ [d])) ?s0 =
      Some ((2, []) # (ret, out) # map (\<lambda>c. (int (length c), [])) ds @ [(if e = PULL_SUCCESS then int (length d) else 0, [])], s')"
    using gatt_run_append [of pl gi "[WRITE_VERSION (le_enc 2 (unat v)), READ_RECEIVER_MSG msg buf len off]" "map WRITE_IMAGE (ds @ [d])" ?s0]
    unfolding q(1) by (simp del: gatt_run.simps map_append add: g(1))
  then show ?thesis using init(1) u(1,4-7) g(2) i(8) unfolding ble_fed_def
    by (intro exI [of _ ?s0] exI [of _ sl] exI [of _ ob] exI [of _ w0] exI [of _ ret] exI [of _ out] exI [of _ s']) auto
qed

end

text \<open>
  C9. An update over Bluetooth. The service is registered, and a client writes a newer version, reads the request and writes the bytes of a
  signed manifest and of its firmware in pieces of any sizes. Every write of a piece but the last returns its
  length; manifest and firmware are in a slot whose version no slot undercuts, and every other object is kept. The last write returns its length,
  with the machine in the reboot state, if the firmware has the digest that the manifest states, and 0 otherwise.
\<close>

theorem ble_update_session:
  assumes "tinycrypt_sha lib hash st" and "pl = posix_platform lib c0 slots sr rd"
    and "bt_gatt_service_register gi (ble_stack s) = (0, n)"
    and "wf_static (ble_static s)" and "length (is_buffer (ble_static s)) = FSM_BUFFER_SIZE"
    and "sizeof_receiver_msg \<le> length msg" and "w = ble_world s"
    and "\<forall>x\<in>set (candidates True slots). content_version (posix_content (slot_id x) w) < v \<and>
      content_version (posix_content (slot_id x) w) < vm_version (vendor mt)"
    and "wf_manifest mt" and "authentic (tinycrypt_iface lib c0) hash sf mt"
    and "sm_diff_version (server mt) = 0" and "vm_offset (vendor mt) = word_of_nat sizeof_manifest"
    and "vm_size (vendor mt) = word_of_nat (length fw)" and "sm_prop_size (server mt) = word_of_nat (length fw)"
    and "FSM_BUFFER_SIZE \<le> length fw" and "N = sizeof_manifest + length fw"
    and "active_slots slots \<noteq> []" and "bootable (hd (active_slots slots))"
    and "\<forall>x\<in>set (active_slots slots). slot_id x \<in> posix_valid_ids \<and>
      N \<le> length (posix_content (slot_id x) w) \<and> length (posix_content (slot_id x) w) < 2 ^ 31"
    and "0 < posix_avail w"
    and "concat ds @ d = manifest_bytes mt @ fw" and "d \<noteq> []" and "sizeof_manifest \<le> length (concat ds)"
  shows "\<exists>s0 sl ret out s'. libpull_gatt_init pl gi sf obj objold s = (PULL_SUCCESS, s0) \<and> sl \<in> set (active_slots slots) \<and>
    (\<forall>x\<in>set (active_slots slots). content_version (posix_content (slot_id sl) w) \<le> content_version (posix_content (slot_id x) w)) \<and>
    gatt_run pl gi (WRITE_VERSION (le_enc 2 (unat v)) # READ_RECEIVER_MSG msg buf len off # map WRITE_IMAGE (ds @ [d])) s0 =
      Some ((2, []) # (ret, out) # map (\<lambda>c. (int (length c), [])) ds @
        [(if hash fw = vm_digest (vendor mt) then int (length d) else 0, [])], s') \<and>
    fsm_state (ble_fsmc s') = (if hash fw = vm_digest (vendor mt) then STATE_REBOOT else STATE_IDLE) \<and>
    posix_content (slot_id sl) (ble_world s') = manifest_bytes mt @ fw @ drop N (posix_content (slot_id sl) w) \<and>
    (\<forall>j\<in>posix_valid_ids. j \<noteq> slot_id sl \<longrightarrow> posix_content j (ble_world s') = posix_content j w)"
proof -
  note dev = posix_device [OF assms(1), of c0 slots sr rd, folded assms(2)]
  note uc = device_contract.axioms(1) [OF dev]
  have pl: "pl_slots pl = slots" "pl_sec pl = tinycrypt_iface lib c0" using assms(2) by simp_all
  have ready: "update_contract.slots_ready pl posix_valid_ids posix_content (\<lambda>i mode v. v) (\<lambda>i mode. splice_at) N w"
    using assms(16,17,19) posix.exact_seq_exact [OF posix_exact]
    by (auto simp: update_contract.slots_ready_def [OF uc] pl)
  obtain s0 sl ob w0 ret out s' where r: "libpull_gatt_init pl gi sf obj objold s = (PULL_SUCCESS, s0)"
    "\<forall>j\<in>posix_valid_ids. posix_content j (ble_world s0) = posix_content j w"
    "update_contract.chosen pl posix_valid_ids posix_content posix_opened posix_avail 1
      (\<lambda>i mode v. v) (\<lambda>i mode. splice_at) sl ob (ble_world s0) w0"
    "gatt_run pl gi (WRITE_VERSION (le_enc 2 (unat v)) # READ_RECEIVER_MSG msg buf len off # map WRITE_IMAGE (ds @ [d])) s0 =
      Some ((2, []) # (ret, out) # map (\<lambda>c. (int (length c), [])) ds @
        [(if hash fw = vm_digest (vendor mt) then int (length d) else 0, [])], s')"
    "fsm_state (ble_fsmc s') = (if hash fw = vm_digest (vendor mt) then STATE_REBOOT else STATE_IDLE)"
    "posix_content (slot_id sl) (ble_world s') = manifest_bytes mt @ fw @ drop (sizeof_manifest + length fw) (posix_content (slot_id sl) w0)"
    "\<forall>j\<in>posix_valid_ids. j \<noteq> slot_id sl \<longrightarrow> posix_content j (ble_world s') = posix_content j (ble_world s0)"
    using device_contract.ble_session_ok [OF dev assms(3-6), unfolded pl, folded assms(7), OF assms(8-14) ready [unfolded assms(16)]
        assms(18,15,20-23), where obj = obj and objold = objold and buf = buf and len = len and off = off]
    by (elim exE conjE) (rule that)
  have sl: "sl \<in> set (active_slots slots)" "posix_content (slot_id sl) w0 = posix_content (slot_id sl) (ble_world s0)"
    "\<forall>x\<in>set (active_slots slots). content_version (posix_content (slot_id sl) (ble_world s0)) \<le>
       content_version (posix_content (slot_id x) (ble_world s0))"
    using r(3) unfolding update_contract.chosen_def [OF uc] pl by simp_all
  have same: "posix_content (slot_id x) (ble_world s0) = posix_content (slot_id x) w" if "x \<in> set (active_slots slots)" for x
    using r(2) assms(19) that by blast
  show ?thesis
    by (rule exI [of _ s0], rule exI [of _ sl], rule exI [of _ ret], rule exI [of _ out], rule exI [of _ s'])
      (use r sl same assms(16) in auto)
qed

text \<open>A stack for the application to a concrete input, which keeps the last notification.\<close>

definition demo_gatt :: "byte list gatt_iface" where
  "demo_gatt = \<lparr>bt_gatt_attr_read = (\<lambda>buf len off value. (int (min len (length value - off)), take len (drop off value))),
     bt_gatt_notify = (\<lambda>b n. (0, b)), bt_gatt_service_register = (\<lambda>n. (0, n)), sizeof_fsm_state = 4, ccc_notify = 1\<rparr>"

definition demo_ble :: "(posix_fs, posix_obj, nat, byte list) ble_t" where
  "demo_ble = \<lparr>ble_fsmc = demo_fsm, notify_state_flag = 1, ble_static = demo_static, ble_world = agent_disk, ble_stack = [1]\<rparr>"

lemma demo_ble_simps:
  "bt_gatt_service_register demo_gatt (ble_stack demo_ble) = (0, [1])" "wf_static (ble_static demo_ble)"
  "length (is_buffer (ble_static demo_ble)) = FSM_BUFFER_SIZE" "sizeof_receiver_msg \<le> length (replicate 16 (0 :: byte))"
  "agent_disk = ble_world demo_ble"
  by (simp_all add: demo_gatt_def demo_ble_def demo_fsm_simps sizeof_receiver_msg_def)

theorem ble_update_session_witness:
  "\<exists>s0 sl ret out s'. libpull_gatt_init demo_platform demo_gatt demo_sf (demo_obj 0) (demo_obj 0) demo_ble = (PULL_SUCCESS, s0) \<and>
    sl \<in> set (active_slots posix_memory_slots) \<and>
    (\<forall>x\<in>set (active_slots posix_memory_slots).
       content_version (posix_content (slot_id sl) agent_disk) \<le> content_version (posix_content (slot_id x) agent_disk)) \<and>
    gatt_run demo_platform demo_gatt (WRITE_VERSION (le_enc 2 (unat (4 :: version_t))) # READ_RECEIVER_MSG (replicate 16 0) [] 16 0 #
        map WRITE_IMAGE ([take 300 demo_update] @ [drop 300 demo_update])) s0 =
      Some ((2, []) # (ret, out) # map (\<lambda>c. (int (length c), [])) [take 300 demo_update] @
        [(if demo_hash demo_firmware = vm_digest (vendor (demo_manifest 4 demo_firmware)) then int (length (drop 300 demo_update)) else 0, [])], s') \<and>
    fsm_state (ble_fsmc s') =
      (if demo_hash demo_firmware = vm_digest (vendor (demo_manifest 4 demo_firmware)) then STATE_REBOOT else STATE_IDLE) \<and>
    posix_content (slot_id sl) (ble_world s') = manifest_bytes (demo_manifest 4 demo_firmware) @ demo_firmware @
      drop 1280 (posix_content (slot_id sl) agent_disk) \<and>
    (\<forall>j\<in>posix_valid_ids. j \<noteq> slot_id sl \<longrightarrow> posix_content j (ble_world s') = posix_content j agent_disk)"
  by (rule ble_update_session [OF demo_tc.tinycrypt_sha_axioms demo_platform_def demo_ble_simps agent_disk_facts(1) wf_demo_manifest
      _ _ _ _ _ _ _ agent_disk_facts(2,3) agent_disk_slots agent_disk_facts(4)])
    (simp_all add: demo_manifest_fields authentic_demo_manifest length_demo_firmware length_demo_update
      demo_update_def [symmetric] FSM_BUFFER_SIZE_def sizeof_manifest_def)

section \<open>Every sequence of requests\<close>


text \<open>The update of one slot over the small device: offered version 4, the write of the manifest opens the slot.\<close>

definition tiny_ble :: "(posix_fs, posix_obj, nat, byte list) ble_t" where
  "tiny_ble = demo_ble\<lparr>ble_static := tiny_static, ble_world := tiny_disk\<rparr>"

definition tiny_requests :: "gatt_request list" where
  "tiny_requests = WRITE_VERSION (le_enc 2 (unat (4 :: version_t))) # READ_RECEIVER_MSG (replicate 16 0) [] 16 0 #
     map WRITE_IMAGE [manifest_bytes (demo_manifest 4 [])]"

lemma tiny_ble_init:
  "libpull_gatt_init tiny_platform demo_gatt demo_sf (demo_obj 0) (demo_obj 0) tiny_ble =
     (PULL_SUCCESS, tiny_ble\<lparr>ble_fsmc := fst (snd tiny_init), ble_world := snd (snd tiny_init)\<rparr>)"
proof -
  have "fsm_init tiny_platform demo_fsm demo_sf (demo_obj 0) (demo_obj 0) tiny_disk =
      (PULL_SUCCESS, fst (snd tiny_init), snd (snd tiny_init))"
    using tiny_facts(1) by (metis prod.collapse tiny_init_def)
  then show ?thesis by (simp add: libpull_gatt_init_def tiny_ble_def demo_ble_def demo_gatt_def case_prod_beta)
qed

lemma tiny_ble_run:
  assumes "s0 = tiny_ble\<lparr>ble_fsmc := fst (snd tiny_init), ble_world := snd (snd tiny_init)\<rparr>"
  shows "\<exists>rets s'. gatt_run tiny_platform demo_gatt tiny_requests s0 = Some (rets, s') \<and> ble_world s' \<noteq> ble_world s0"
proof -
  let ?mt = "manifest_bytes (demo_manifest 4 [])" and ?w = "snd (snd tiny_init)"
  obtain ctx fs ctx' fs' w' where t:
    "\<And>cs. fsm_run tiny_platform (le_enc 2 (unat (4 :: version_t)) # replicate 16 0 # cs) (fst (snd tiny_init)) tiny_static ?w =
       fsm_run tiny_platform cs ctx fs ?w"
    "fsm tiny_platform ctx fs ?mt ?w = Some (PULL_SUCCESS, ctx', fs', ?mt, w')" "w' \<noteq> ?w"
    using tiny_opened by (elim exE conjE) (rule that, blast+)
  have fed: "ble_fed (fst (snd tiny_init)) tiny_static ?w s0" by (simp add: assms ble_fed_def tiny_ble_def)
  obtain ret out s1 where 1: "gatt_run tiny_platform demo_gatt [WRITE_VERSION (le_enc 2 (unat (4 :: version_t))),
      READ_RECEIVER_MSG (replicate 16 0) [] 16 0] s0 = Some ([(2, []), (ret, out)], s1)" "ble_fed ctx fs ?w s1"
    using gatt_request_run [OF t(1) fed tiny_facts(2), where gi = demo_gatt and buf = "[]" and len = 16 and off = 0] tiny_facts(4) by auto
  have "fsm_run tiny_platform [?mt] ctx fs ?w = Some (PULL_SUCCESS, ctx', fs', w')" using t(2) by simp
  from gatt_images_run [OF this 1(2)] obtain rets s' where
    2: "gatt_run tiny_platform demo_gatt (map WRITE_IMAGE [?mt]) s1 = Some (rets, s')" "ble_world s' = w'"
    unfolding ble_fed_def by blast
  have "gatt_run tiny_platform demo_gatt tiny_requests s0 = Some ([(2, []), (ret, out)] @ rets, s')"
    using gatt_run_append [of tiny_platform demo_gatt "[WRITE_VERSION (le_enc 2 (unat (4 :: version_t))),
      READ_RECEIVER_MSG (replicate 16 0) [] 16 0]" "map WRITE_IMAGE [?mt]" s0]
    unfolding 1(1) tiny_requests_def by (simp del: gatt_run.simps list.map add: 2(1))
  then show ?thesis using 2(2) t(3) assms by auto
qed






end
