(* ===== verification/Memory_Flash.thy ===== *)
theory Memory_Flash
  imports Pipeline_Buffer
begin

unbundle bit_operations_syntax

text \<open>
  The memory implementation for flash (\<open>src/core/memory/memory_flash.c\<close>,
  \<open>include/libpull/memory/flash_interface.h\<close>). A memory object is a range of addresses of a device
  with a descriptor, \<open>flash_descr\<close>: the driver functions that the platforms supply, where \<open>NULL\<close> is \<open>None\<close>.
  The table \<open>flash_objects\<close> is a list, indexed by the identifier; an identifier outside it
  is an access out of bounds, on which nothing is stated.

  \<open>flash_contract\<close> says what the drivers do: an erase sets a page to ones, a program clears
  bits. It gives \<open>memory_contract\<close>, with the effects of a flash.
\<close>

section \<open>Descriptors and objects\<close>

record 'w flash_descr =
  fd_page_size :: nat
  fd_open :: "('w \<Rightarrow> int \<times> 'w) option"
  fd_erase :: "address_t \<Rightarrow> nat \<Rightarrow> 'w \<Rightarrow> int \<times> 'w"
  fd_program :: "byte list \<Rightarrow> address_t \<Rightarrow> nat \<Rightarrow> 'w \<Rightarrow> int \<times> 'w"
  fd_read :: "byte list \<Rightarrow> address_t \<Rightarrow> nat \<Rightarrow> 'w \<Rightarrow> int \<times> byte list \<times> 'w"
  fd_close :: "('w \<Rightarrow> int \<times> 'w) option"
  fd_rst :: "('w \<Rightarrow> 'w) option"

record 'w flash_obj =
  fo_start :: u32
  fo_end :: u32
  fo_descr :: "'w flash_descr"
  fo_mode :: mem_mode_t

definition get_start_offset :: "'w flash_obj list \<Rightarrow> mem_id_t \<Rightarrow> u32" where
  "get_start_offset objs i = fo_start (objs ! nat i)"

definition get_end_offset :: "'w flash_obj list \<Rightarrow> mem_id_t \<Rightarrow> u32" where
  "get_end_offset objs i = fo_end (objs ! nat i)"

section \<open>The four interface functions\<close>

text \<open>A driver function that may be \<open>NULL\<close>, in which case it is not called.\<close>

definition call_opt :: "('w \<Rightarrow> int \<times> 'w) option \<Rightarrow> 'w \<Rightarrow> int \<times> 'w" where
  "call_opt f w = (case f of None \<Rightarrow> (0, w) | Some g \<Rightarrow> g w)"

text \<open>The loop that erases the pages of an object; the offset is an \<open>address_t\<close> and wraps.\<close>

partial_function (option) flash_erase_loop ::
  "'w flash_obj \<Rightarrow> address_t \<Rightarrow> 'w \<Rightarrow> (pull_error \<times> 'w) option" where
  "flash_erase_loop ctx offset w =
     (if offset < fo_end ctx
      then (case fd_erase (fo_descr ctx) offset (fd_page_size (fo_descr ctx))
              (case fd_rst (fo_descr ctx) of None \<Rightarrow> w | Some r \<Rightarrow> r w) of (r, w1) \<Rightarrow>
        if r \<noteq> 0 then Some (MEMORY_OPEN_ERROR, w1)
        else flash_erase_loop ctx (offset + word_of_nat (fd_page_size (fo_descr ctx))) w1)
      else Some (PULL_SUCCESS, w))"

declare flash_erase_loop.simps [code]

definition flash_memory_open ::
  "'w flash_obj list \<Rightarrow> 'w flash_obj \<Rightarrow> mem_id_t \<Rightarrow> mem_mode_t \<Rightarrow> 'w \<Rightarrow> (pull_error \<times> 'w flash_obj \<times> 'w) option" where
  "flash_memory_open objs ctx i mode w =
     (let ctx1 = (objs ! nat i)\<lparr>fo_mode := mode\<rparr> in
      case call_opt (fd_open (fo_descr ctx1)) w of (r, w1) \<Rightarrow>
        if r \<noteq> 0 then Some (MEMORY_OPEN_ERROR, ctx1, w1)
        else if fo_mode ctx1 = WRITE_ALL
        then map_option (\<lambda>(e, w2). (e, ctx1, w2)) (flash_erase_loop ctx1 (fo_start ctx1) w1)
        else Some (PULL_SUCCESS, ctx1, w1))"

definition flash_memory_read ::
  "'w flash_obj \<Rightarrow> byte list \<Rightarrow> nat \<Rightarrow> address_t \<Rightarrow> 'w \<Rightarrow> int \<times> byte list \<times> 'w" where
  "flash_memory_read ctx buf n off w =
     (case fd_read (fo_descr ctx) buf (fo_start ctx + off) n w of (r, buf1, w1) \<Rightarrow>
        (if r = 0 then int n else - 1, buf1, w1))"

definition flash_memory_write ::
  "'w flash_obj \<Rightarrow> byte list \<Rightarrow> nat \<Rightarrow> address_t \<Rightarrow> 'w \<Rightarrow> int \<times> 'w" where
  "flash_memory_write ctx buf n off w =
     (case (if fo_mode ctx = SEQUENTIAL_REWRITE \<and> unat (fo_start ctx + off) mod fd_page_size (fo_descr ctx) = 0
            then fd_erase (fo_descr ctx) (fo_start ctx + off) (fd_page_size (fo_descr ctx)) w else (0, w)) of (r, w1) \<Rightarrow>
        if r \<noteq> 0 then (- 1, w1)
        else (case fd_program (fo_descr ctx) buf (fo_start ctx + off) n w1 of (r, w2) \<Rightarrow>
          (if r = 0 then int n else - 1, w2)))"

definition flash_memory_close :: "'w flash_obj \<Rightarrow> 'w \<Rightarrow> pull_error \<times> 'w" where
  "flash_memory_close ctx w =
     (case call_opt (fd_close (fo_descr ctx)) w of (r, w1) \<Rightarrow>
        (if r \<noteq> 0 then MEMORY_CLOSE_ERROR else PULL_SUCCESS, w1))"

text \<open>
  The interface takes the result of opening, which exists for every table whose objects are
  made of pages (lemma \<open>erase_loop_ok\<close>).
\<close>

definition flash_iface :: "'w flash_obj list \<Rightarrow> ('w, 'w flash_obj) mem_iface" where
  "flash_iface objs = \<lparr>memory_open_impl = (\<lambda>ctx i mode w. the (flash_memory_open objs ctx i mode w)),
     memory_read_impl = flash_memory_read, memory_write_impl = flash_memory_write,
     memory_close_impl = flash_memory_close\<rparr>"

section \<open>What a flash does\<close>

text \<open>The effect of programming a block: bits can only be cleared.\<close>

definition flash_prog :: "nat \<Rightarrow> byte list \<Rightarrow> byte list \<Rightarrow> byte list" where
  "flash_prog k bs v = splice_at k (map2 (AND) bs (block k (length bs) v)) v"

definition flash_oeff :: "mem_mode_t \<Rightarrow> byte list \<Rightarrow> byte list" where
  "flash_oeff mode v = (if mode = WRITE_ALL then replicate (length v) 0xFF else v)"

definition flash_weff :: "nat \<Rightarrow> mem_mode_t \<Rightarrow> nat \<Rightarrow> byte list \<Rightarrow> byte list \<Rightarrow> byte list" where
  "flash_weff page mode k bs v =
     flash_prog k bs (if mode = SEQUENTIAL_REWRITE \<and> k mod page = 0 then splice_at k (replicate page 0xFF) v else v)"

lemma length_flash_prog: "k + length bs \<le> length v \<Longrightarrow> length (flash_prog k bs v) = length v"
  by (simp add: flash_prog_def)

lemma map2_and_ones: "length (xs :: byte list) = n \<Longrightarrow> map2 (AND) xs (replicate n 0xFF) = xs"
proof (induction xs arbitrary: n)
  case Nil
  then show ?case by simp
next
  case (Cons x xs)
  have "(0xFF :: byte) = - 1" by simp
  then have "x AND 0xFF = x" by (metis and.right_neutral)
  with Cons show ?case by (cases n) simp_all
qed

text \<open>Programming an erased block stores it; programming zeros clears everything.\<close>

lemma flash_prog_erased:
  "block k (length bs) v = replicate (length bs) 0xFF \<Longrightarrow> flash_prog k bs v = splice_at k bs v"
  by (simp add: flash_prog_def map2_and_ones)

lemma flash_prog_zeros:
  assumes "k + n \<le> length v"
  shows "flash_prog k (replicate n 0) v = splice_at k (replicate n 0) v"
proof -
  have "map2 (AND) (replicate (length u) 0) u = replicate (length u) 0" for u :: "byte list"
    by (induction u) simp_all
  from this [of "block k n v"] assms show ?thesis by (simp add: flash_prog_def)
qed

text \<open>
  A device is named by a number; \<open>cells d w\<close> are its bytes by address, and \<open>ready d w\<close> says that its
  driver can be used. \<open>sane w\<close> is an invariant of the variables of the drivers. An operation on device \<open>d\<close> changes its cells by a function, and keeps the other devices
  and what is ready.
\<close>

locale flash_contract =
  fixes objs :: "'w flash_obj list"
    and ids :: "mem_id_t set"
    and dev :: "mem_id_t \<Rightarrow> nat"
    and cells :: "nat \<Rightarrow> 'w \<Rightarrow> nat \<Rightarrow> byte"
    and ready :: "nat \<Rightarrow> 'w \<Rightarrow> bool"
    and sane :: "'w \<Rightarrow> bool"
    and page :: nat
  assumes page_pos: "0 < page"
    and geometry: "i \<in> ids \<Longrightarrow> fd_page_size (fo_descr (objs ! nat i)) = page \<and> page dvd unat (fo_start (objs ! nat i)) \<and>
      page dvd unat (fo_end (objs ! nat i)) \<and> unat (fo_start (objs ! nat i)) \<le> unat (fo_end (objs ! nat i)) \<and>
      unat (fo_end (objs ! nat i)) + page < 2 ^ 32"
    and disjoint: "\<lbrakk>i \<in> ids; j \<in> ids; i \<noteq> j; dev i = dev j\<rbrakk> \<Longrightarrow>
      unat (fo_end (objs ! nat i)) \<le> unat (fo_start (objs ! nat j)) \<or> unat (fo_end (objs ! nat j)) \<le> unat (fo_start (objs ! nat i))"
    and flash_open_ok: "\<lbrakk>i \<in> ids; sane w\<rbrakk> \<Longrightarrow> \<exists>w'. call_opt (fd_open (fo_descr (objs ! nat i))) w = (0, w') \<and>
      (\<forall>d. cells d w' = cells d w) \<and> ready (dev i) w' \<and> (\<forall>d. ready d w \<longrightarrow> ready d w') \<and> sane w'"
    and flash_close_ok: "\<lbrakk>i \<in> ids; ready (dev i) w\<rbrakk> \<Longrightarrow> \<exists>w'. call_opt (fd_close (fo_descr (objs ! nat i))) w = (0, w') \<and>
      (\<forall>d. cells d w' = cells d w) \<and> (\<forall>d. ready d w \<longrightarrow> ready d w') \<and> (sane w \<longrightarrow> sane w')"
    and no_watchdog: "i \<in> ids \<Longrightarrow> fd_rst (fo_descr (objs ! nat i)) = None"
    and flash_erase_ok: "\<lbrakk>i \<in> ids; ready (dev i) w; page dvd unat a; unat (fo_start (objs ! nat i)) \<le> unat a;
        unat a + page \<le> unat (fo_end (objs ! nat i))\<rbrakk> \<Longrightarrow>
      \<exists>w'. fd_erase (fo_descr (objs ! nat i)) a page w = (0, w') \<and>
        cells (dev i) w' = (\<lambda>x. if unat a \<le> x \<and> x < unat a + page then 0xFF else cells (dev i) w x) \<and>
        (\<forall>d. d \<noteq> dev i \<longrightarrow> cells d w' = cells d w) \<and> (\<forall>d. ready d w' \<longleftrightarrow> ready d w) \<and> (sane w' \<longleftrightarrow> sane w)"
    and flash_program_ok: "\<lbrakk>i \<in> ids; ready (dev i) w; n \<le> length buf; unat (fo_start (objs ! nat i)) \<le> unat a;
        unat a + n \<le> unat (fo_end (objs ! nat i))\<rbrakk> \<Longrightarrow>
      \<exists>w'. fd_program (fo_descr (objs ! nat i)) buf a n w = (0, w') \<and>
        cells (dev i) w' = (\<lambda>x. if unat a \<le> x \<and> x < unat a + n then buf ! (x - unat a) AND cells (dev i) w x
          else cells (dev i) w x) \<and>
        (\<forall>d. d \<noteq> dev i \<longrightarrow> cells d w' = cells d w) \<and> (\<forall>d. ready d w' \<longleftrightarrow> ready d w) \<and> (sane w' \<longleftrightarrow> sane w)"
    and flash_read_ok: "\<lbrakk>i \<in> ids; ready (dev i) w; n \<le> length buf; unat (fo_start (objs ! nat i)) \<le> unat a;
        unat a + n \<le> unat (fo_end (objs ! nat i))\<rbrakk> \<Longrightarrow>
      \<exists>w'. fd_read (fo_descr (objs ! nat i)) buf a n w = (0, map (cells (dev i) w) [unat a..<unat a + n] @ drop n buf, w') \<and>
        (\<forall>d. cells d w' = cells d w) \<and> (\<forall>d. ready d w' \<longleftrightarrow> ready d w) \<and> (sane w' \<longleftrightarrow> sane w)"

context flash_contract
begin

definition base :: "mem_id_t \<Rightarrow> nat" where "base i = unat (fo_start (objs ! nat i))"

definition lim :: "mem_id_t \<Rightarrow> nat" where "lim i = unat (fo_end (objs ! nat i))"

definition flash_content :: "mem_id_t \<Rightarrow> 'w \<Rightarrow> byte list" where
  "flash_content i w = map (cells (dev i) w) [base i..<lim i]"

definition flash_opened :: "'w flash_obj \<Rightarrow> mem_id_t \<Rightarrow> mem_mode_t \<Rightarrow> 'w \<Rightarrow> bool" where
  "flash_opened ob i mode w \<longleftrightarrow> i \<in> ids \<and> ob = (objs ! nat i)\<lparr>fo_mode := mode\<rparr> \<and> ready (dev i) w"

lemma length_flash_content [simp]: "length (flash_content i w) = lim i - base i"
  by (simp add: flash_content_def)

lemma geometry_base:
  assumes "i \<in> ids"
  shows "fd_page_size (fo_descr (objs ! nat i)) = page" "page dvd base i" "page dvd lim i" "base i \<le> lim i"
    "lim i + page < 2 ^ 32"
  using geometry [OF assms] by (simp_all add: base_def lim_def)

lemma flash_address:
  assumes "i \<in> ids" and "unat off \<le> lim i - base i"
  shows "unat (fo_start (objs ! nat i) + off) = base i + unat off"
  using geometry_base(4,5) [OF assms(1)] assms(2) unfolding base_def
  by (simp add: unat_word_ariths)

lemma content_update:
  assumes "i \<in> ids" and "cells (dev i) w' = (\<lambda>x. if a \<le> x \<and> x < a + n then f x else cells (dev i) w x)"
    and "\<forall>d. d \<noteq> dev i \<longrightarrow> cells d w' = cells d w" and "base i \<le> a" and "a + n \<le> lim i"
  shows "flash_content i w' = splice_at (a - base i) (map f [a..<a + n]) (flash_content i w)"
    and "\<forall>j\<in>ids. j \<noteq> i \<longrightarrow> flash_content j w' = flash_content j w"
proof -
  show "flash_content i w' = splice_at (a - base i) (map f [a..<a + n]) (flash_content i w)"
  proof (rule nth_equalityI)
    show "length (flash_content i w') = length (splice_at (a - base i) (map f [a..<a + n]) (flash_content i w))"
      using assms(4,5) by simp
    fix k assume "k < length (flash_content i w')"
    then show "flash_content i w' ! k = splice_at (a - base i) (map f [a..<a + n]) (flash_content i w) ! k"
      using assms(2,4,5) by (auto simp: nth_splice_at flash_content_def add.commute [of "base i"])
  qed
  show "\<forall>j\<in>ids. j \<noteq> i \<longrightarrow> flash_content j w' = flash_content j w"
  proof (intro ballI impI)
    fix j assume j: "j \<in> ids" "j \<noteq> i"
    show "flash_content j w' = flash_content j w"
    proof (cases "dev j = dev i")
      case True
      then have "lim i \<le> base j \<or> lim j \<le> base i"
        using disjoint [OF assms(1) j(1)] j(2) by (auto simp: base_def lim_def)
      then have "cells (dev j) w' x = cells (dev j) w x" if "base j \<le> x" "x < lim j" for x
        using that assms(2,4,5) True by auto
      then show ?thesis by (simp add: flash_content_def)
    next
      case False
      with assms(3) show ?thesis by (simp add: flash_content_def)
    qed
  qed
qed

text \<open>Erasing an object page by page.\<close>

lemma erase_loop_ok:
  assumes "i \<in> ids" and "ready (dev i) w" and "ob = (objs ! nat i)\<lparr>fo_mode := mode\<rparr>"
    and "page dvd k" and "k \<le> lim i - base i"
  shows "\<exists>w'. flash_erase_loop ob (fo_start ob + word_of_nat k) w = Some (PULL_SUCCESS, w') \<and>
    flash_content i w' = take k (flash_content i w) @ replicate (lim i - base i - k) 0xFF \<and>
    (\<forall>j\<in>ids. j \<noteq> i \<longrightarrow> flash_content j w' = flash_content j w) \<and> (\<forall>d. ready d w' \<longleftrightarrow> ready d w) \<and> (sane w' \<longleftrightarrow> sane w)"
  using assms(2,4,5)
proof (induction "lim i - base i - k" arbitrary: k w rule: less_induct)
  case less
  note g = geometry_base [OF assms(1)]
  have "k < 2 ^ 32" using less.prems(3) g(5) by simp
  then have uk: "unat (word_of_nat k :: u32) = k" by (rule unat_word32)
  have st: "fo_start ob = fo_start (objs ! nat i)" "fo_end ob = fo_end (objs ! nat i)" "fo_descr ob = fo_descr (objs ! nat i)"
    using assms(3) by simp_all
  let ?a = "fo_start ob + word_of_nat k"
  have ua: "unat ?a = base i + k" using flash_address [OF assms(1), of "word_of_nat k"] uk less.prems(3) st by simp
  have lt: "?a < fo_end ob \<longleftrightarrow> base i + k < lim i" unfolding word_less_nat_alt ua st(2) lim_def ..
  show ?case
  proof (cases "base i + k < lim i")
    case False
    then have "flash_erase_loop ob ?a w = Some (PULL_SUCCESS, w)" using lt by (simp add: flash_erase_loop.simps [of ob ?a])
    with False show ?thesis by simp
  next
    case True
    have pd: "page dvd base i + k" using g(2) less.prems(2) by simp
    have le: "base i + k + page \<le> lim i"
      using pd g(3) True by (metis add.commute dvd_diff_nat dvd_imp_le le_diff_conv2 less_imp_le_nat nat_less_le zero_less_diff)
    have "page dvd unat ?a" "unat (fo_start (objs ! nat i)) \<le> unat ?a" "unat ?a + page \<le> unat (fo_end (objs ! nat i))"
      using pd le by (simp_all add: ua base_def [symmetric] lim_def [symmetric])
    from flash_erase_ok [OF assms(1) less.prems(1) this]
    obtain w1 where e: "fd_erase (fo_descr (objs ! nat i)) ?a page w = (0, w1)"
      "cells (dev i) w1 = (\<lambda>x. if base i + k \<le> x \<and> x < base i + k + page then 0xFF else cells (dev i) w x)"
      "\<forall>d. d \<noteq> dev i \<longrightarrow> cells d w1 = cells d w" "\<forall>d. ready d w1 \<longleftrightarrow> ready d w" "sane w1 \<longleftrightarrow> sane w"
      unfolding ua by blast
    have c1: "flash_content i w1 = splice_at k (replicate page 0xFF) (flash_content i w)"
      "\<forall>j\<in>ids. j \<noteq> i \<longrightarrow> flash_content j w1 = flash_content j w"
      using content_update [OF assms(1) e(2,3) _ le] by (simp_all add: map_replicate_const)
    have "ready (dev i) w1" "page dvd k + page" "k + page \<le> lim i - base i"
      "lim i - base i - (k + page) < lim i - base i - k"
      using less.prems(1,2) e(4) le page_pos by simp_all
    from less.hyps [OF this(4,1,2,3)]
    obtain w' where w': "flash_erase_loop ob (fo_start ob + word_of_nat (k + page)) w1 = Some (PULL_SUCCESS, w')"
      "flash_content i w' = take (k + page) (flash_content i w1) @ replicate (lim i - base i - (k + page)) 0xFF"
      "\<forall>j\<in>ids. j \<noteq> i \<longrightarrow> flash_content j w' = flash_content j w1" "\<forall>d. ready d w' \<longleftrightarrow> ready d w1" "sane w' \<longleftrightarrow> sane w1"
      by blast
    have "flash_erase_loop ob ?a w = Some (PULL_SUCCESS, w')"
      using True lt e(1) w'(1) g(1) no_watchdog [OF assms(1)] st
      by (subst flash_erase_loop.simps) (simp add: add.assoc)
    moreover have "take (k + page) (flash_content i w1) = take k (flash_content i w) @ replicate page 0xFF"
      unfolding c1(1) using le by (simp add: splice_at_def)
    moreover have "replicate page (0xFF :: byte) @ replicate (lim i - base i - (k + page)) 0xFF = replicate (lim i - base i - k) 0xFF"
      unfolding replicate_add [symmetric] using le by simp
    ultimately show ?thesis using w'(2-5) c1(2) e(4,5) by simp
  qed
qed


text \<open>The four interface functions under the contract.\<close>

lemma flash_open_impl:
  assumes "i \<in> ids" and "sane w"
  shows "\<exists>w'. flash_memory_open objs obj i mode w = Some (PULL_SUCCESS, (objs ! nat i)\<lparr>fo_mode := mode\<rparr>, w') \<and>
    flash_content i w' = flash_oeff mode (flash_content i w) \<and>
    (\<forall>j\<in>ids. j \<noteq> i \<longrightarrow> flash_content j w' = flash_content j w) \<and> ready (dev i) w' \<and> (\<forall>d. ready d w \<longrightarrow> ready d w') \<and> sane w'"
proof -
  let ?ob = "(objs ! nat i)\<lparr>fo_mode := mode\<rparr>"
  from flash_open_ok [OF assms] obtain w1 where w1: "call_opt (fd_open (fo_descr (objs ! nat i))) w = (0, w1)"
    "\<forall>d. cells d w1 = cells d w" "ready (dev i) w1" "\<forall>d. ready d w \<longrightarrow> ready d w1" "sane w1" by blast
  have c: "flash_content j w1 = flash_content j w" for j using w1(2) by (simp add: flash_content_def)
  show ?thesis
  proof (cases "mode = WRITE_ALL")
    case False
    with w1 c show ?thesis by (simp add: flash_memory_open_def flash_oeff_def)
  next
    case True
    from erase_loop_ok [OF assms(1) w1(3) refl, of 0 mode]
    obtain w' where "flash_erase_loop ?ob (fo_start ?ob) w1 = Some (PULL_SUCCESS, w')"
      "flash_content i w' = replicate (lim i - base i) 0xFF" "\<forall>j\<in>ids. j \<noteq> i \<longrightarrow> flash_content j w' = flash_content j w1"
      "\<forall>d. ready d w' \<longleftrightarrow> ready d w1" "sane w' \<longleftrightarrow> sane w1" by auto
    with True w1 c show ?thesis by (simp add: flash_memory_open_def flash_oeff_def)
  qed
qed

lemma flash_read_impl:
  assumes "flash_opened ob i mode w" and "unat off + n \<le> lim i - base i" and "n \<le> length buf"
  shows "\<exists>w'. flash_memory_read ob buf n off w = (int n, block (unat off) n (flash_content i w) @ drop n buf, w') \<and>
    (\<forall>j. flash_content j w' = flash_content j w) \<and> (\<forall>d. ready d w' \<longleftrightarrow> ready d w) \<and> (sane w' \<longleftrightarrow> sane w)"
proof -
  from assms(1) have i: "i \<in> ids" "ob = (objs ! nat i)\<lparr>fo_mode := mode\<rparr>" "ready (dev i) w"
    by (simp_all add: flash_opened_def)
  let ?a = "fo_start (objs ! nat i) + off"
  have ua: "unat ?a = base i + unat off" using flash_address [OF i(1)] assms(2) by simp
  have "unat (fo_start (objs ! nat i)) \<le> unat ?a" "unat ?a + n \<le> unat (fo_end (objs ! nat i))"
    using assms(2) geometry_base(4) [OF i(1)] unfolding ua by (simp_all add: base_def lim_def)
  from flash_read_ok [OF i(1,3) assms(3) this]
  obtain w' where w': "fd_read (fo_descr (objs ! nat i)) buf ?a n w =
      (0, map (cells (dev i) w) [unat ?a..<unat ?a + n] @ drop n buf, w')"
    "\<forall>d. cells d w' = cells d w" "\<forall>d. ready d w' \<longleftrightarrow> ready d w" "sane w' \<longleftrightarrow> sane w" by blast
  have "map (cells (dev i) w) [unat ?a..<unat ?a + n] = block (unat off) n (flash_content i w)"
    using assms(2) geometry_base(4) [OF i(1)] unfolding ua block_def flash_content_def
    by (simp add: drop_map take_map add.assoc)
  with w' show ?thesis by (simp add: flash_memory_read_def i(2) flash_content_def)
qed

lemma flash_program_impl:
  assumes "i \<in> ids" and "ready (dev i) w" and "unat off + n \<le> lim i - base i" and "n \<le> length buf"
  shows "\<exists>w'. fd_program (fo_descr (objs ! nat i)) buf (fo_start (objs ! nat i) + off) n w = (0, w') \<and>
    flash_content i w' = flash_prog (unat off) (take n buf) (flash_content i w) \<and>
    (\<forall>j\<in>ids. j \<noteq> i \<longrightarrow> flash_content j w' = flash_content j w) \<and> (\<forall>d. ready d w' \<longleftrightarrow> ready d w) \<and> (sane w' \<longleftrightarrow> sane w)"
proof -
  let ?a = "fo_start (objs ! nat i) + off"
  have ua: "unat ?a = base i + unat off" using flash_address [OF assms(1)] assms(3) by simp
  have "unat (fo_start (objs ! nat i)) \<le> unat ?a" "unat ?a + n \<le> unat (fo_end (objs ! nat i))"
    using assms(3) geometry_base(4) [OF assms(1)] unfolding ua by (simp_all add: base_def lim_def)
  from flash_program_ok [OF assms(1,2,4) this]
  obtain w' where w': "fd_program (fo_descr (objs ! nat i)) buf ?a n w = (0, w')"
    "cells (dev i) w' = (\<lambda>x. if base i + unat off \<le> x \<and> x < base i + unat off + n
      then buf ! (x - (base i + unat off)) AND cells (dev i) w x else cells (dev i) w x)"
    "\<forall>d. d \<noteq> dev i \<longrightarrow> cells d w' = cells d w" "\<forall>d. ready d w' \<longleftrightarrow> ready d w" "sane w' \<longleftrightarrow> sane w"
    unfolding ua by blast
  have le: "base i + unat off + n \<le> lim i" using assms(3) geometry_base(4) [OF assms(1)] by simp
  have "map (\<lambda>x. buf ! (x - (base i + unat off)) AND cells (dev i) w x) [base i + unat off..<base i + unat off + n] =
    map2 (AND) (take n buf) (block (unat off) n (flash_content i w))"
    using assms(3,4) le by (intro nth_equalityI) (simp_all add: block_def flash_content_def add.assoc)
  with content_update [OF assms(1) w'(2,3) _ le] w'(1,4,5) assms(3,4) show ?thesis
    by (simp add: flash_prog_def min_def)
qed

lemma flash_write_impl:
  assumes "flash_opened ob i mode w" and "unat off + n \<le> lim i - base i" and "n \<le> length buf"
    and "n = 0 \<longrightarrow> mode \<noteq> SEQUENTIAL_REWRITE"
  shows "\<exists>w'. flash_memory_write ob buf n off w = (int n, w') \<and>
    flash_content i w' = flash_weff page mode (unat off) (take n buf) (flash_content i w) \<and>
    (\<forall>j\<in>ids. j \<noteq> i \<longrightarrow> flash_content j w' = flash_content j w) \<and> (\<forall>d. ready d w' \<longleftrightarrow> ready d w) \<and> (sane w' \<longleftrightarrow> sane w)"
proof -
  from assms(1) have i: "i \<in> ids" "ob = (objs ! nat i)\<lparr>fo_mode := mode\<rparr>" "ready (dev i) w"
    by (simp_all add: flash_opened_def)
  note g = geometry_base [OF i(1)]
  let ?a = "fo_start (objs ! nat i) + off"
  have ua: "unat ?a = base i + unat off" using flash_address [OF i(1)] assms(2) by simp
  have al: "unat ?a mod page = 0 \<longleftrightarrow> unat off mod page = 0"
    unfolding ua mod_eq_0_iff_dvd using g(2) by (simp add: dvd_add_right_iff)
  show ?thesis
  proof (cases "mode = SEQUENTIAL_REWRITE \<and> unat off mod page = 0")
    case False
    from flash_program_impl [OF i(1,3) assms(2,3)] False al g(1) show ?thesis
      by (auto simp: flash_memory_write_def flash_weff_def i(2))
  next
    case True
    then have pd: "page dvd base i + unat off" using g(2) by (simp add: mod_eq_0_iff_dvd)
    have "base i + unat off < lim i" using assms(2,4) True g(4) by simp
    then have le: "base i + unat off + page \<le> lim i"
      using pd g(3) by (metis add.commute dvd_diff_nat dvd_imp_le le_diff_conv2 less_imp_le_nat nat_less_le zero_less_diff)
    have "page dvd unat ?a" "unat (fo_start (objs ! nat i)) \<le> unat ?a" "unat ?a + page \<le> unat (fo_end (objs ! nat i))"
      using pd le unfolding ua by (simp_all add: base_def [symmetric] lim_def [symmetric])
    from flash_erase_ok [OF i(1,3) this] obtain w1 where e: "fd_erase (fo_descr (objs ! nat i)) ?a page w = (0, w1)"
      "cells (dev i) w1 = (\<lambda>x. if base i + unat off \<le> x \<and> x < base i + unat off + page then 0xFF else cells (dev i) w x)"
      "\<forall>d. d \<noteq> dev i \<longrightarrow> cells d w1 = cells d w" "\<forall>d. ready d w1 \<longleftrightarrow> ready d w" "sane w1 \<longleftrightarrow> sane w"
      unfolding ua by blast
    have c1: "flash_content i w1 = splice_at (unat off) (replicate page 0xFF) (flash_content i w)"
      "\<forall>j\<in>ids. j \<noteq> i \<longrightarrow> flash_content j w1 = flash_content j w"
      using content_update [OF i(1) e(2,3) _ le] by (simp_all add: map_replicate_const)
    have "ready (dev i) w1" using i(3) e(4) by simp
    from flash_program_impl [OF i(1) this assms(2,3)] obtain w' where
      "fd_program (fo_descr (objs ! nat i)) buf ?a n w1 = (0, w')"
      "flash_content i w' = flash_prog (unat off) (take n buf) (flash_content i w1)"
      "\<forall>j\<in>ids. j \<noteq> i \<longrightarrow> flash_content j w' = flash_content j w1" "\<forall>d. ready d w' \<longleftrightarrow> ready d w1" "sane w' \<longleftrightarrow> sane w1" by blast
    with e(1,4,5) c1 True al g(1) show ?thesis by (simp add: flash_memory_write_def flash_weff_def i(2))
  qed
qed

lemma flash_close_impl:
  assumes "flash_opened ob i mode w"
  shows "\<exists>w'. flash_memory_close ob w = (PULL_SUCCESS, w') \<and> (\<forall>j. flash_content j w' = flash_content j w) \<and>
    (\<forall>d. ready d w \<longrightarrow> ready d w') \<and> (sane w \<longrightarrow> sane w')"
  using flash_close_ok [of i w] assms by (auto simp: flash_opened_def flash_memory_close_def flash_content_def)

end

sublocale flash_contract \<subseteq> mem: memory_contract "flash_iface objs" ids flash_content flash_opened "\<lambda>_ _. True" "\<lambda>w. of_bool (sane w)" 0
  "\<lambda>i. flash_oeff" "\<lambda>i. flash_weff page"
proof (unfold_locales, goal_cases)
  case (1 i w obj mode)
  with flash_open_impl [of i w obj mode] show ?case by (auto simp: flash_iface_def flash_opened_def)
next
  case (2 obj i mode w off n buf)
  then have "flash_opened obj i mode w" "unat off + n \<le> lim i - base i" "n \<le> length buf" by simp_all
  from flash_read_impl [OF this] show ?case by (auto simp: flash_iface_def flash_opened_def)
next
  case (3 obj i mode w off n buf)
  then have "flash_opened obj i mode w" "unat off + n \<le> lim i - base i" "n \<le> length buf" "n = 0 \<longrightarrow> mode \<noteq> SEQUENTIAL_REWRITE"
    by simp_all
  from flash_write_impl [OF this] show ?case by (auto simp: flash_iface_def flash_opened_def)
next
  case (4 obj i mode w)
  from flash_close_impl [OF this] show ?case by (auto simp: flash_iface_def flash_opened_def)
next
  case (5 i mode v)
  then show ?case by (simp add: flash_oeff_def)
next
  case (6 i v)
  then show ?case by (simp add: flash_oeff_def)
qed

context flash_contract
begin

text \<open>An object that has been erased can be written from its start on.\<close>

lemma erased_seq_exact: "mem.seq_exact i WRITE_ALL (replicate n 0xFF)"
  unfolding mem.seq_exact_def
proof (intro conjI allI impI)
  fix bs c :: "byte list"
  assume le: "length bs + length c \<le> length (replicate n (0xFF :: byte))"
  let ?v = "bs @ drop (length bs) (replicate n (0xFF :: byte))"
  have "block (length bs) (length c) ?v = replicate (length c) 0xFF"
    using le by (auto simp: block_def min_def)
  from flash_prog_erased [OF this] show "flash_weff page WRITE_ALL (length bs) c ?v = bs @ c @ drop (length bs + length c) (replicate n 0xFF)"
    by (simp add: flash_weff_def splice_at_def add.commute)
qed simp_all

end

end
