(* ===== verification/Flash_Boards.thy ===== *)
theory Flash_Boards
  imports Memory_Flash
begin

text \<open>
  The flash drivers and the tables of objects of the boards (\<open>src/platform/cc2538/memory_firefly.c\<close>,
  \<open>src/platform/cc2650/memory_cc2650.c\<close>, \<open>src/platform/nrf52840/memory_nrf52840_pca10056.c\<close>,
  with the numbers of the \<open>Makefile.conf\<close> files of the boards).

  The functions that the drivers call (the ROM of the CC2538, the driver library of TI and the external
  flash of Contiki-NG on the CC2650, the flash device of Zephyr) are fields of a record of functions on
  a state of their own. What the repository keeps in static variables, the handle of the
  device and the counter of the external flash, is the state of the driver.

  The tables are functions of the numbers of a board, and the property is
  that their objects are disjoint and made of pages.
\<close>

section \<open>Identifiers, numbers and slots\<close>

definition BOOTLOADER :: mem_id_t where "BOOTLOADER = 0"
definition BOOTLOADER_CTX :: mem_id_t where "BOOTLOADER_CTX = 1"
definition OBJ_1 :: mem_id_t where "OBJ_1 = 2"
definition OBJ_2 :: mem_id_t where "OBJ_2 = 3"
definition SWAP :: mem_id_t where "SWAP = 4"

lemmas flash_id_defs = BOOTLOADER_def BOOTLOADER_CTX_def OBJ_1_def OBJ_2_def SWAP_def

record board_conf =
  PAGE_SIZE :: u32
  INITIAL_MEMORY_OFFSET :: u32
  BOOTLOADER_START_PAGE :: u32
  BOOTLOADER_END_PAGE :: u32
  IMAGE_START_PAGE :: u32
  IMAGE_END_PAGE :: u32
  BOOTLOADER_CTX_START_OFFSET :: u32
  BOOTLOADER_CTX_END_OFFSET :: u32

definition BOOTLOADER_SIZE :: "board_conf \<Rightarrow> u32" where
  "BOOTLOADER_SIZE c = (BOOTLOADER_END_PAGE c - BOOTLOADER_START_PAGE c) * PAGE_SIZE c"

definition IMAGE_SIZE :: "board_conf \<Rightarrow> u32" where
  "IMAGE_SIZE c = (IMAGE_END_PAGE c - IMAGE_START_PAGE c) * PAGE_SIZE c"

definition firefly_conf :: board_conf where
  "firefly_conf = \<lparr>PAGE_SIZE = 0x800, INITIAL_MEMORY_OFFSET = 0x202000, BOOTLOADER_START_PAGE = 0, BOOTLOADER_END_PAGE = 12,
     IMAGE_START_PAGE = 12, IMAGE_END_PAGE = 45, BOOTLOADER_CTX_START_OFFSET = 0x7d800, BOOTLOADER_CTX_END_OFFSET = 0x7d880\<rparr>"

definition remote_conf :: board_conf where
  "remote_conf = \<lparr>PAGE_SIZE = 0x800, INITIAL_MEMORY_OFFSET = 0x200000, BOOTLOADER_START_PAGE = 0, BOOTLOADER_END_PAGE = 12,
     IMAGE_START_PAGE = 12, IMAGE_END_PAGE = 62, BOOTLOADER_CTX_START_OFFSET = 0x7d800, BOOTLOADER_CTX_END_OFFSET = 0x7d880\<rparr>"

definition sensortag_conf :: board_conf where
  "sensortag_conf = \<lparr>PAGE_SIZE = 0x1000, INITIAL_MEMORY_OFFSET = 0, BOOTLOADER_START_PAGE = 0, BOOTLOADER_END_PAGE = 6,
     IMAGE_START_PAGE = 6, IMAGE_END_PAGE = 30, BOOTLOADER_CTX_START_OFFSET = 0x1F000, BOOTLOADER_CTX_END_OFFSET = 0x1FFA8\<rparr>"

definition nrf52840_conf :: board_conf where
  "nrf52840_conf = \<lparr>PAGE_SIZE = 0x1000, INITIAL_MEMORY_OFFSET = 0, BOOTLOADER_START_PAGE = 0, BOOTLOADER_END_PAGE = 8,
     IMAGE_START_PAGE = 9, IMAGE_END_PAGE = 109, BOOTLOADER_CTX_START_OFFSET = 0x8000, BOOTLOADER_CTX_END_OFFSET = 0x9000\<rparr>"

text \<open>The three platforms have the same table of slots.\<close>

definition flash_memory_slots :: "mem_slot_t list" where
  "flash_memory_slots =
     [\<lparr>slot_id = OBJ_1, bootable = True, loaded = True\<rparr>, \<lparr>slot_id = OBJ_2, bootable = False, loaded = False\<rparr>, OBJ_END_slot]"

section \<open>CC2538\<close>

text \<open>\<open>ROM_Memcpy\<close> says whether the pointer it returns is that of the buffer.\<close>

record 'f rom_lib =
  ROM_PageErase :: "address_t \<Rightarrow> nat \<Rightarrow> 'f \<Rightarrow> int \<times> 'f"
  ROM_ProgramFlash :: "byte list \<Rightarrow> address_t \<Rightarrow> nat \<Rightarrow> 'f \<Rightarrow> int \<times> 'f"
  ROM_Memcpy :: "byte list \<Rightarrow> address_t \<Rightarrow> nat \<Rightarrow> 'f \<Rightarrow> bool \<times> byte list"
  irq_disable :: "'f \<Rightarrow> 'f"
  irq_enable :: "'f \<Rightarrow> 'f"

definition cc2538_flash_erase :: "'f rom_lib \<Rightarrow> address_t \<Rightarrow> nat \<Rightarrow> 'f \<Rightarrow> int \<times> 'f" where
  "cc2538_flash_erase lib off page f =
     (case ROM_PageErase lib off page (irq_disable lib f) of (ret, f) \<Rightarrow> (ret, irq_enable lib f))"

definition cc2538_flash_program :: "'f rom_lib \<Rightarrow> byte list \<Rightarrow> address_t \<Rightarrow> nat \<Rightarrow> 'f \<Rightarrow> int \<times> 'f" where
  "cc2538_flash_program lib buf off n f =
     (case ROM_ProgramFlash lib buf off n (irq_disable lib f) of (ret, f) \<Rightarrow> (ret, irq_enable lib f))"

definition cc2538_flash_read :: "'f rom_lib \<Rightarrow> byte list \<Rightarrow> address_t \<Rightarrow> nat \<Rightarrow> 'f \<Rightarrow> int \<times> byte list \<times> 'f" where
  "cc2538_flash_read lib buf off n f =
     (case ROM_Memcpy lib buf off n f of (same, buf) \<Rightarrow> (if \<not> same then - 1 else 0, buf, f))"

definition cc2538_flash_descr :: "board_conf \<Rightarrow> 'f rom_lib \<Rightarrow> 'f flash_descr" where
  "cc2538_flash_descr c lib = \<lparr>fd_page_size = unat (PAGE_SIZE c), fd_open = None, fd_erase = cc2538_flash_erase lib,
     fd_program = cc2538_flash_program lib, fd_read = cc2538_flash_read lib, fd_close = None, fd_rst = None\<rparr>"

text \<open>The tables do not initialise the mode, which is then 0: \<open>READ_ONLY\<close>.\<close>

definition flash_entry :: "u32 \<Rightarrow> u32 \<Rightarrow> 'w flash_descr \<Rightarrow> 'w flash_obj" where
  "flash_entry s e d = \<lparr>fo_start = s, fo_end = e, fo_descr = d, fo_mode = READ_ONLY\<rparr>"

definition cc2538_objects :: "board_conf \<Rightarrow> 'f rom_lib \<Rightarrow> 'f flash_obj list" where
  "cc2538_objects c lib =
     [flash_entry (INITIAL_MEMORY_OFFSET c) (INITIAL_MEMORY_OFFSET c + BOOTLOADER_SIZE c) (cc2538_flash_descr c lib),
      flash_entry (INITIAL_MEMORY_OFFSET c + BOOTLOADER_CTX_START_OFFSET c) (INITIAL_MEMORY_OFFSET c + BOOTLOADER_CTX_END_OFFSET c)
        (cc2538_flash_descr c lib),
      flash_entry (INITIAL_MEMORY_OFFSET c + BOOTLOADER_SIZE c) (INITIAL_MEMORY_OFFSET c + BOOTLOADER_SIZE c + IMAGE_SIZE c)
        (cc2538_flash_descr c lib),
      flash_entry (INITIAL_MEMORY_OFFSET c + BOOTLOADER_SIZE c + IMAGE_SIZE c)
        (INITIAL_MEMORY_OFFSET c + BOOTLOADER_SIZE c + 2 * IMAGE_SIZE c) (cc2538_flash_descr c lib),
      flash_entry (INITIAL_MEMORY_OFFSET c + BOOTLOADER_SIZE c + 2 * IMAGE_SIZE c)
        (INITIAL_MEMORY_OFFSET c + BOOTLOADER_SIZE c + 2 * IMAGE_SIZE c + PAGE_SIZE c) (cc2538_flash_descr c lib)]"

section \<open>nRF52840\<close>

text \<open>The functions of Zephyr take the handle of the device, which may be \<open>NULL\<close>.\<close>

record ('h, 'f) zephyr_flash =
  device_get_binding :: "'f \<Rightarrow> 'h option \<times> 'f"
  zf_erase :: "'h option \<Rightarrow> address_t \<Rightarrow> nat \<Rightarrow> 'f \<Rightarrow> int \<times> 'f"
  zf_write_protection_set :: "'h option \<Rightarrow> bool \<Rightarrow> 'f \<Rightarrow> int \<times> 'f"
  zf_write :: "'h option \<Rightarrow> address_t \<Rightarrow> byte list \<Rightarrow> nat \<Rightarrow> 'f \<Rightarrow> int \<times> 'f"
  zf_read :: "'h option \<Rightarrow> address_t \<Rightarrow> byte list \<Rightarrow> nat \<Rightarrow> 'f \<Rightarrow> int \<times> byte list \<times> 'f"

record ('h, 'f) nrf_state =
  flash_device :: "'h option"
  nrf_flash :: 'f

definition nrf_flash_open :: "('h, 'f) zephyr_flash \<Rightarrow> ('h, 'f) nrf_state \<Rightarrow> int \<times> ('h, 'f) nrf_state" where
  "nrf_flash_open lib w =
     (let w = (if flash_device w = None
               then (case device_get_binding lib (nrf_flash w) of (h, f) \<Rightarrow> w\<lparr>flash_device := h, nrf_flash := f\<rparr>) else w)
      in (if flash_device w = None then 1 else 0, w))"

definition nrf_flash_erase :: "('h, 'f) zephyr_flash \<Rightarrow> address_t \<Rightarrow> nat \<Rightarrow> ('h, 'f) nrf_state \<Rightarrow> int \<times> ('h, 'f) nrf_state" where
  "nrf_flash_erase lib off page w =
     (case zf_erase lib (flash_device w) off page (nrf_flash w) of (ret, f) \<Rightarrow> (ret, w\<lparr>nrf_flash := f\<rparr>))"

text \<open>The result of the write is stored in a \<open>uint8_t\<close>.\<close>

definition nrf_flash_program ::
  "('h, 'f) zephyr_flash \<Rightarrow> byte list \<Rightarrow> address_t \<Rightarrow> nat \<Rightarrow> ('h, 'f) nrf_state \<Rightarrow> int \<times> ('h, 'f) nrf_state" where
  "nrf_flash_program lib buf off n w =
     (let f = snd (zf_write_protection_set lib (flash_device w) False (nrf_flash w)) in
      case zf_write lib (flash_device w) off buf n f of (value, f) \<Rightarrow>
        let f = snd (zf_write_protection_set lib (flash_device w) True f) in (value mod 256, w\<lparr>nrf_flash := f\<rparr>))"

definition nrf_flash_read ::
  "('h, 'f) zephyr_flash \<Rightarrow> byte list \<Rightarrow> address_t \<Rightarrow> nat \<Rightarrow> ('h, 'f) nrf_state \<Rightarrow> int \<times> byte list \<times> ('h, 'f) nrf_state" where
  "nrf_flash_read lib buf off n w =
     (case zf_read lib (flash_device w) off buf n (nrf_flash w) of (ret, buf, f) \<Rightarrow> (ret, buf, w\<lparr>nrf_flash := f\<rparr>))"

definition nrf_flash_descr :: "board_conf \<Rightarrow> ('h, 'f) zephyr_flash \<Rightarrow> ('h, 'f) nrf_state flash_descr" where
  "nrf_flash_descr c lib = \<lparr>fd_page_size = unat (PAGE_SIZE c), fd_open = Some (nrf_flash_open lib),
     fd_erase = nrf_flash_erase lib, fd_program = nrf_flash_program lib, fd_read = nrf_flash_read lib, fd_close = None, fd_rst = None\<rparr>"

definition IMAGE_OFFSET :: "board_conf \<Rightarrow> u32" where
  "IMAGE_OFFSET c = BOOTLOADER_SIZE c + (BOOTLOADER_CTX_END_OFFSET c - BOOTLOADER_CTX_START_OFFSET c)"

definition nrf_objects :: "board_conf \<Rightarrow> ('h, 'f) zephyr_flash \<Rightarrow> ('h, 'f) nrf_state flash_obj list" where
  "nrf_objects c lib =
     [flash_entry (INITIAL_MEMORY_OFFSET c) (INITIAL_MEMORY_OFFSET c + BOOTLOADER_SIZE c) (nrf_flash_descr c lib),
      flash_entry (INITIAL_MEMORY_OFFSET c + BOOTLOADER_CTX_START_OFFSET c) (INITIAL_MEMORY_OFFSET c + BOOTLOADER_CTX_END_OFFSET c)
        (nrf_flash_descr c lib),
      flash_entry (INITIAL_MEMORY_OFFSET c + IMAGE_OFFSET c) (INITIAL_MEMORY_OFFSET c + IMAGE_OFFSET c + IMAGE_SIZE c)
        (nrf_flash_descr c lib),
      flash_entry (INITIAL_MEMORY_OFFSET c + IMAGE_OFFSET c + IMAGE_SIZE c)
        (INITIAL_MEMORY_OFFSET c + IMAGE_OFFSET c + 2 * IMAGE_SIZE c) (nrf_flash_descr c lib),
      flash_entry (INITIAL_MEMORY_OFFSET c + IMAGE_OFFSET c + 2 * IMAGE_SIZE c)
        (INITIAL_MEMORY_OFFSET c + IMAGE_OFFSET c + 2 * IMAGE_SIZE c + PAGE_SIZE c) (nrf_flash_descr c lib)]"

section \<open>CC2650\<close>

text \<open>
  \<open>mapped\<close> is the memory as the processor sees it, from which \<open>memcpy\<close> reads the internal flash; \<open>memcpy\<close>
  returns its first argument, so the test of its result never fails.
\<close>

record 'f cc2650_lib =
  FlashSectorErase :: "address_t \<Rightarrow> 'f \<Rightarrow> nat \<times> 'f"
  FlashProgram :: "byte list \<Rightarrow> address_t \<Rightarrow> nat \<Rightarrow> 'f \<Rightarrow> nat \<times> 'f"
  FAPI_STATUS_SUCCESS :: nat
  mapped :: "'f \<Rightarrow> nat \<Rightarrow> byte"
  ext_flash_open :: "'f \<Rightarrow> bool \<times> 'f"
  ext_flash_close :: "'f \<Rightarrow> 'f"
  ext_flash_erase :: "address_t \<Rightarrow> nat \<Rightarrow> 'f \<Rightarrow> bool \<times> 'f"
  ext_flash_write :: "address_t \<Rightarrow> nat \<Rightarrow> byte list \<Rightarrow> 'f \<Rightarrow> bool \<times> 'f"
  ext_flash_read :: "address_t \<Rightarrow> nat \<Rightarrow> byte list \<Rightarrow> 'f \<Rightarrow> bool \<times> byte list \<times> 'f"

record 'f cc2650_state =
  external_memory_open :: byte
  cc_flash :: 'f

definition internal_flash_erase :: "'f cc2650_lib \<Rightarrow> address_t \<Rightarrow> nat \<Rightarrow> 'f cc2650_state \<Rightarrow> int \<times> 'f cc2650_state" where
  "internal_flash_erase lib off page w = (case FlashSectorErase lib off (cc_flash w) of (r, f) \<Rightarrow>
     (if r \<noteq> FAPI_STATUS_SUCCESS lib then - 1 else 0, w\<lparr>cc_flash := f\<rparr>))"

definition internal_flash_program ::
  "'f cc2650_lib \<Rightarrow> byte list \<Rightarrow> address_t \<Rightarrow> nat \<Rightarrow> 'f cc2650_state \<Rightarrow> int \<times> 'f cc2650_state" where
  "internal_flash_program lib buf off n w = (case FlashProgram lib buf off n (cc_flash w) of (r, f) \<Rightarrow>
     (if r \<noteq> FAPI_STATUS_SUCCESS lib then - 1 else 0, w\<lparr>cc_flash := f\<rparr>))"

definition internal_flash_read ::
  "'f cc2650_lib \<Rightarrow> byte list \<Rightarrow> address_t \<Rightarrow> nat \<Rightarrow> 'f cc2650_state \<Rightarrow> int \<times> byte list \<times> 'f cc2650_state" where
  "internal_flash_read lib buf off n w =
     (0, map (mapped lib (cc_flash w)) [unat off..<unat off + n] @ drop n buf, w)"

definition internal_flash_descr :: "board_conf \<Rightarrow> 'f cc2650_lib \<Rightarrow> 'f cc2650_state flash_descr" where
  "internal_flash_descr c lib = \<lparr>fd_page_size = unat (PAGE_SIZE c), fd_open = None, fd_erase = internal_flash_erase lib,
     fd_program = internal_flash_program lib, fd_read = internal_flash_read lib, fd_close = None, fd_rst = None\<rparr>"

definition external_flash_open :: "'f cc2650_lib \<Rightarrow> 'f cc2650_state \<Rightarrow> int \<times> 'f cc2650_state" where
  "external_flash_open lib w =
     (if external_memory_open w = 0
      then (case ext_flash_open lib (cc_flash w) of (ok, f) \<Rightarrow>
        if ok then (0, w\<lparr>cc_flash := f, external_memory_open := 1\<rparr>)
        else (- 1, w\<lparr>cc_flash := ext_flash_close lib f\<rparr>))
      else (0, w\<lparr>external_memory_open := external_memory_open w + 1\<rparr>))"

definition external_flash_erase :: "'f cc2650_lib \<Rightarrow> address_t \<Rightarrow> nat \<Rightarrow> 'f cc2650_state \<Rightarrow> int \<times> 'f cc2650_state" where
  "external_flash_erase lib off page w = (case ext_flash_erase lib off page (cc_flash w) of (ok, f) \<Rightarrow>
     (if \<not> ok then - 1 else 0, w\<lparr>cc_flash := f\<rparr>))"

definition external_flash_program ::
  "'f cc2650_lib \<Rightarrow> byte list \<Rightarrow> address_t \<Rightarrow> nat \<Rightarrow> 'f cc2650_state \<Rightarrow> int \<times> 'f cc2650_state" where
  "external_flash_program lib buf off n w = (case ext_flash_write lib off n buf (cc_flash w) of (ok, f) \<Rightarrow>
     (if \<not> ok then - 1 else 0, w\<lparr>cc_flash := f\<rparr>))"

definition external_flash_read ::
  "'f cc2650_lib \<Rightarrow> byte list \<Rightarrow> address_t \<Rightarrow> nat \<Rightarrow> 'f cc2650_state \<Rightarrow> int \<times> byte list \<times> 'f cc2650_state" where
  "external_flash_read lib buf off n w = (case ext_flash_read lib off n buf (cc_flash w) of (ok, buf, f) \<Rightarrow>
     (if \<not> ok then - 1 else 0, buf, w\<lparr>cc_flash := f\<rparr>))"

text \<open>The function that closes the external flash; no descriptor uses it.\<close>

definition external_flash_close :: "'f cc2650_lib \<Rightarrow> 'f cc2650_state \<Rightarrow> int \<times> 'f cc2650_state" where
  "external_flash_close lib w =
     (let w = (if external_memory_open w = 1 then w\<lparr>cc_flash := ext_flash_close lib (cc_flash w)\<rparr> else w)
      in (0, w\<lparr>external_memory_open := external_memory_open w - 1\<rparr>))"

definition external_flash_descr :: "board_conf \<Rightarrow> 'f cc2650_lib \<Rightarrow> 'f cc2650_state flash_descr" where
  "external_flash_descr c lib = \<lparr>fd_page_size = unat (PAGE_SIZE c), fd_open = Some (external_flash_open lib),
     fd_erase = external_flash_erase lib, fd_program = external_flash_program lib, fd_read = external_flash_read lib,
     fd_close = Some (external_flash_open lib), fd_rst = None\<rparr>"

definition cc2650_objects :: "board_conf \<Rightarrow> 'f cc2650_lib \<Rightarrow> 'f cc2650_state flash_obj list" where
  "cc2650_objects c lib =
     [flash_entry (INITIAL_MEMORY_OFFSET c) (INITIAL_MEMORY_OFFSET c + BOOTLOADER_SIZE c) (internal_flash_descr c lib),
      flash_entry (INITIAL_MEMORY_OFFSET c + BOOTLOADER_CTX_START_OFFSET c) (INITIAL_MEMORY_OFFSET c + BOOTLOADER_CTX_END_OFFSET c)
        (internal_flash_descr c lib),
      flash_entry (INITIAL_MEMORY_OFFSET c + BOOTLOADER_SIZE c) (INITIAL_MEMORY_OFFSET c + BOOTLOADER_SIZE c + IMAGE_SIZE c)
        (internal_flash_descr c lib),
      flash_entry 0x34000 0x4E000 (external_flash_descr c lib)]"

section \<open>The layout of the tables\<close>

definition paged :: "board_conf \<Rightarrow> 'w flash_obj \<Rightarrow> bool" where
  "paged c ob \<longleftrightarrow> unat (PAGE_SIZE c) dvd unat (fo_start ob) \<and> unat (PAGE_SIZE c) dvd unat (fo_end ob) \<and> fo_start ob < fo_end ob"

text \<open>The last address of an object lies before the first of the other, counted in whole pages.\<close>

definition page_up :: "nat \<Rightarrow> nat \<Rightarrow> nat" where
  "page_up page a = (a + page - 1) div page * page"

definition apart :: "board_conf \<Rightarrow> 'w flash_obj \<Rightarrow> 'w flash_obj \<Rightarrow> bool" where
  "apart c a b \<longleftrightarrow> page_up (unat (PAGE_SIZE c)) (unat (fo_end a)) \<le> unat (fo_start b) \<or>
     page_up (unat (PAGE_SIZE c)) (unat (fo_end b)) \<le> unat (fo_start a)"

fun all_apart :: "board_conf \<Rightarrow> 'w flash_obj list \<Rightarrow> bool" where
  "all_apart c [] \<longleftrightarrow> True"
| "all_apart c (x # xs) \<longleftrightarrow> list_all (apart c x) xs \<and> all_apart c xs"

definition object_size :: "'w flash_obj list \<Rightarrow> mem_id_t \<Rightarrow> nat" where
  "object_size objs i = unat (get_end_offset objs i) - unat (get_start_offset objs i)"


end
