(* ===== verification/Device_Cc2650.thy ===== *)
theory Device_Cc2650
  imports Flash_Boards Update_Agent Device_Posix
begin

text \<open>
  The SensorTag with the CC2650: the contract of a flash interpreted on its drivers and its table of objects, and the update
  of an image in its two flash memories.

  \<open>cc2650_flash\<close> states what the documentation of the library says: erasing a sector of the internal flash, of
  which there are 128 kB, sets it to ones, programming clears bits, and the external flash,
  of 512 kB, does the same once it has been opened.
\<close>

section \<open>What the library does\<close>

definition cell_erased :: "nat \<Rightarrow> nat \<Rightarrow> (nat \<Rightarrow> byte) \<Rightarrow> nat \<Rightarrow> byte" where
  "cell_erased a n c = (\<lambda>x. if a \<le> x \<and> x < a + n then 0xFF else c x)"

definition cell_programmed :: "nat \<Rightarrow> nat \<Rightarrow> byte list \<Rightarrow> (nat \<Rightarrow> byte) \<Rightarrow> nat \<Rightarrow> byte" where
  "cell_programmed a n buf c = (\<lambda>x. if a \<le> x \<and> x < a + n then buf ! (x - a) AND c x else c x)"

locale cc2650_flash =
  fixes lib :: "'f cc2650_lib"
    and ext :: "'f \<Rightarrow> nat \<Rightarrow> byte"
    and powered :: "'f \<Rightarrow> bool"
  assumes sector_erase: "\<lbrakk>4096 dvd unat a; unat a + 4096 \<le> 0x20000\<rbrakk> \<Longrightarrow>
      \<exists>f'. FlashSectorErase lib a f = (FAPI_STATUS_SUCCESS lib, f') \<and> mapped lib f' = cell_erased (unat a) 4096 (mapped lib f) \<and>
        ext f' = ext f \<and> powered f' = powered f"
    and flash_program: "\<lbrakk>n \<le> length buf; unat a + n \<le> 0x20000\<rbrakk> \<Longrightarrow>
      \<exists>f'. FlashProgram lib buf a n f = (FAPI_STATUS_SUCCESS lib, f') \<and> mapped lib f' = cell_programmed (unat a) n buf (mapped lib f) \<and>
        ext f' = ext f \<and> powered f' = powered f"
    and ext_open: "\<exists>f'. ext_flash_open lib f = (True, f') \<and> powered f' \<and> ext f' = ext f \<and> mapped lib f' = mapped lib f"
    and ext_erase: "\<lbrakk>powered f; 4096 dvd unat a; unat a + 4096 \<le> 0x80000\<rbrakk> \<Longrightarrow>
      \<exists>f'. ext_flash_erase lib a 4096 f = (True, f') \<and> ext f' = cell_erased (unat a) 4096 (ext f) \<and>
        mapped lib f' = mapped lib f \<and> powered f'"
    and ext_write: "\<lbrakk>powered f; n \<le> length buf; unat a + n \<le> 0x80000\<rbrakk> \<Longrightarrow>
      \<exists>f'. ext_flash_write lib a n buf f = (True, f') \<and> ext f' = cell_programmed (unat a) n buf (ext f) \<and>
        mapped lib f' = mapped lib f \<and> powered f'"
    and ext_read: "\<lbrakk>powered f; n \<le> length buf; unat a + n \<le> 0x80000\<rbrakk> \<Longrightarrow>
      \<exists>f'. ext_flash_read lib a n buf f = (True, map (ext f) [unat a..<unat a + n] @ drop n buf, f') \<and> ext f' = ext f \<and>
        mapped lib f' = mapped lib f \<and> powered f'"

definition sensortag_ids :: "mem_id_t set" where
  "sensortag_ids = {BOOTLOADER, OBJ_1, OBJ_2}"

definition sensortag_dev :: "mem_id_t \<Rightarrow> nat" where
  "sensortag_dev i = (if i = OBJ_2 then 1 else 0)"

definition sensortag_cells :: "'f cc2650_lib \<Rightarrow> ('f \<Rightarrow> nat \<Rightarrow> byte) \<Rightarrow> nat \<Rightarrow> 'f cc2650_state \<Rightarrow> nat \<Rightarrow> byte" where
  "sensortag_cells lib ext d w = (if d = 0 then mapped lib (cc_flash w) else if d = 1 then ext (cc_flash w) else (\<lambda>_. 0))"

definition sensortag_ready :: "('f \<Rightarrow> bool) \<Rightarrow> nat \<Rightarrow> 'f cc2650_state \<Rightarrow> bool" where
  "sensortag_ready powered d w \<longleftrightarrow> d = 0 \<or> powered (cc_flash w)"

text \<open>The counter of the external flash is not 0 only where the flash has been opened.\<close>

definition sensortag_sane :: "('f \<Rightarrow> bool) \<Rightarrow> 'f cc2650_state \<Rightarrow> bool" where
  "sensortag_sane powered w \<longleftrightarrow> (external_memory_open w \<noteq> 0 \<longrightarrow> powered (cc_flash w))"

definition sensortag_range :: "mem_id_t \<Rightarrow> nat \<times> nat" where
  "sensortag_range i = (if i = OBJ_2 then (0x34000, 0x4E000) else if i = OBJ_1 then (0x6000, 0x1E000) else (0, 0x6000))"

lemma sensortag_table:
  assumes "i \<in> sensortag_ids"
  shows "unat (fo_start (cc2650_objects sensortag_conf lib ! nat i)) = fst (sensortag_range i)"
    and "unat (fo_end (cc2650_objects sensortag_conf lib ! nat i)) = snd (sensortag_range i)"
    and "fo_descr (cc2650_objects sensortag_conf lib ! nat i) =
      (if i = OBJ_2 then external_flash_descr sensortag_conf lib else internal_flash_descr sensortag_conf lib)"
  using assms by (auto simp: sensortag_ids_def flash_id_defs sensortag_range_def cc2650_objects_def flash_entry_def
      sensortag_conf_def BOOTLOADER_SIZE_def IMAGE_SIZE_def)

lemmas sensortag_model = sensortag_dev_def sensortag_cells_def sensortag_ready_def sensortag_sane_def sensortag_range_def
  internal_flash_descr_def external_flash_descr_def call_opt_def

lemma sensortag_page: "unat (PAGE_SIZE sensortag_conf) = 4096"
  by (simp add: sensortag_conf_def)

context cc2650_flash
begin

lemma external_open_ok:
  assumes "sensortag_sane powered w"
  shows "\<exists>w'. external_flash_open lib w = (0, w') \<and> ext (cc_flash w') = ext (cc_flash w) \<and>
    mapped lib (cc_flash w') = mapped lib (cc_flash w) \<and> powered (cc_flash w') \<and> sensortag_sane powered w'"
  using ext_open [of "cc_flash w"] assms by (auto simp: external_flash_open_def sensortag_sane_def)

lemma external_reopen_ok:
  assumes "powered (cc_flash w)"
  shows "\<exists>w'. external_flash_open lib w = (0, w') \<and> ext (cc_flash w') = ext (cc_flash w) \<and>
    mapped lib (cc_flash w') = mapped lib (cc_flash w) \<and> powered (cc_flash w') \<and> sensortag_sane powered w'"
  using ext_open [of "cc_flash w"] assms by (auto simp: external_flash_open_def sensortag_sane_def)

end

sublocale cc2650_flash \<subseteq> flash: flash_contract "cc2650_objects sensortag_conf lib" sensortag_ids sensortag_dev
  "sensortag_cells lib ext" "sensortag_ready powered" "sensortag_sane powered" 4096
proof (unfold_locales, goal_cases)
  case 1
  show ?case by simp
next
  case (2 i)
  then show ?case
    by (simp add: sensortag_table, auto simp: sensortag_range_def internal_flash_descr_def external_flash_descr_def sensortag_page)
next
  case (3 i j)
  then show ?case by (simp add: sensortag_table, auto simp: sensortag_range_def sensortag_dev_def sensortag_ids_def flash_id_defs split: if_splits)
next
  case (4 i w)
  then show ?case using external_open_ok [of w] by (cases "i = OBJ_2") (auto simp: sensortag_table sensortag_model)
next
  case (5 i w)
  then show ?case using external_reopen_ok [of w] by (cases "i = OBJ_2") (auto simp: sensortag_table sensortag_model)
next
  case (6 i)
  then show ?case by (simp add: sensortag_table sensortag_model)
next
  case (7 i w a)
  then have "4096 dvd unat a" "i \<noteq> OBJ_2 \<longrightarrow> unat a + 4096 \<le> 0x20000" "i = OBJ_2 \<longrightarrow> unat a + 4096 \<le> 0x80000 \<and> powered (cc_flash w)"
    by (auto simp: sensortag_table sensortag_range_def sensortag_ready_def sensortag_dev_def split: if_splits)
  then show ?case using sector_erase [of a "cc_flash w"] ext_erase [of "cc_flash w" a] 7(1)
    by (cases "i = OBJ_2") (auto simp: sensortag_table sensortag_model internal_flash_erase_def external_flash_erase_def cell_erased_def
        cong: if_cong)
next
  case (8 i w n buf a)
  then have "i \<noteq> OBJ_2 \<longrightarrow> unat a + n \<le> 0x20000" "i = OBJ_2 \<longrightarrow> unat a + n \<le> 0x80000 \<and> powered (cc_flash w)"
    by (auto simp: sensortag_table sensortag_range_def sensortag_ready_def sensortag_dev_def split: if_splits)
  then show ?case using flash_program [of n buf a "cc_flash w"] ext_write [of "cc_flash w" n buf a] 8(1,3)
    by (cases "i = OBJ_2") (auto simp: sensortag_table sensortag_model internal_flash_program_def external_flash_program_def cell_programmed_def
        cong: if_cong)
next
  case (9 i w n buf a)
  then have "i = OBJ_2 \<longrightarrow> unat a + n \<le> 0x80000 \<and> powered (cc_flash w)"
    by (auto simp: sensortag_table sensortag_range_def sensortag_ready_def sensortag_dev_def split: if_splits)
  then show ?case using ext_read [of "cc_flash w" n buf a] 9(1,3)
    by (cases "i = OBJ_2") (auto simp: sensortag_table sensortag_model internal_flash_read_def external_flash_read_def)
qed

section \<open>The device\<close>

definition sensortag_content :: "'f cc2650_lib \<Rightarrow> ('f \<Rightarrow> nat \<Rightarrow> byte) \<Rightarrow> mem_id_t \<Rightarrow> 'f cc2650_state \<Rightarrow> byte list" where
  "sensortag_content lib ext i w =
     map (sensortag_cells lib ext (sensortag_dev i) w) [fst (sensortag_range i)..<snd (sensortag_range i)]"

context cc2650_flash
begin

lemma cc2650_content: "i \<in> sensortag_ids \<Longrightarrow> flash.flash_content i w = sensortag_content lib ext i w"
  by (simp add: flash.flash_content_def sensortag_content_def flash.base_def flash.lim_def sensortag_table)

end

definition cc2650_platform ::
  "('t, 'a) tinycrypt_lib \<Rightarrow> 't digest_ctx \<Rightarrow> 'f cc2650_lib \<Rightarrow> (trng_word \<Rightarrow> 'r \<Rightarrow> u32 \<times> 'r) \<Rightarrow>
   ('f cc2650_state, 'f cc2650_state flash_obj, 't digest_ctx, 'r) platform" where
  "cc2650_platform tc c0 lib trng = \<lparr>pl_mem = flash_iface (cc2650_objects sensortag_conf lib), pl_sec = tinycrypt_iface tc c0,
     pl_slots = flash_memory_slots, pl_rng = cc2650_rng trng\<rparr>"

lemma cc2650_platform_simps [simp]:
  "pl_mem (cc2650_platform tc c0 lib trng) = flash_iface (cc2650_objects sensortag_conf lib)"
  "pl_sec (cc2650_platform tc c0 lib trng) = tinycrypt_iface tc c0"
  "pl_slots (cc2650_platform tc c0 lib trng) = flash_memory_slots"
  "pl_rng (cc2650_platform tc c0 lib trng) = cc2650_rng trng"
  by (simp_all add: cc2650_platform_def)

lemma flash_slots:
  "active_slots flash_memory_slots = [\<lparr>slot_id = OBJ_1, bootable = True, loaded = True\<rparr>, \<lparr>slot_id = OBJ_2, bootable = False, loaded = False\<rparr>]"
  "candidates True flash_memory_slots = [\<lparr>slot_id = OBJ_1, bootable = True, loaded = True\<rparr>]"
  by code_simp+

locale cc2650_device = cc2650_flash lib ext powered + tinycrypt_sha tc hash st
  for lib :: "'f cc2650_lib" and ext powered and tc :: "('t, 'a) tinycrypt_lib" and hash st +
  fixes c0 :: "'t digest_ctx"
    and trng :: "trng_word \<Rightarrow> 'r \<Rightarrow> u32 \<times> 'r"

sublocale cc2650_device \<subseteq> dev: device_contract "cc2650_platform tc c0 lib trng" sensortag_ids flash.flash_content flash.flash_opened
  "\<lambda>_ _. True" "\<lambda>w. of_bool (sensortag_sane powered w)" 0 "\<lambda>i. flash_oeff" "\<lambda>i. flash_weff 4096" hash "\<lambda>c. st (sha_ctx c)"
  using flash.mem.memory_contract_axioms tinycrypt.digest_contract_axioms [of c0] cc2650_rng.rng_contract_axioms [of trng]
  by (simp add: device_contract_def update_contract_def verifier_contract_def)

context cc2650_device
begin

lemma length_sensortag_content: "length (sensortag_content lib ext i w) = snd (sensortag_range i) - fst (sensortag_range i)"
  by (simp add: sensortag_content_def)

lemma cc2650_slots_ready:
  assumes "n \<le> 0x18000"
  shows "dev.slots_ready n w"
proof -
  have "OBJ_1 \<in> sensortag_ids" "OBJ_2 \<in> sensortag_ids" by (simp_all add: sensortag_ids_def)
  then show ?thesis
    using assms by (auto simp: dev.slots_ready_def flash_slots flash_oeff_def flash.erased_seq_exact cc2650_content
        length_sensortag_content sensortag_range_def sizeof_manifest_def flash_id_defs simp del: flash.length_flash_content)
qed

lemma cc2650_update_ok:
  assumes "sensortag_sane powered w" and "wf_static fs" and "length (is_buffer fs) = FSM_BUFFER_SIZE"
    and "sizeof_receiver_msg \<le> length msg"
    and "content_version (sensortag_content lib ext OBJ_1 w) < v" and "content_version (sensortag_content lib ext OBJ_1 w) < vm_version (vendor mt)"
    and "wf_manifest mt" and "authentic (tinycrypt_iface tc c0) hash sf mt" and "sm_diff_version (server mt) = 0"
    and "vm_offset (vendor mt) = word_of_nat sizeof_manifest"
    and "vm_size (vendor mt) = word_of_nat (length fw)" and "sm_prop_size (server mt) = word_of_nat (length fw)"
    and "FSM_BUFFER_SIZE \<le> length fw" and "sizeof_manifest + length fw \<le> 0x18000"
    and "concat ds @ d = manifest_bytes mt @ fw" and "d \<noteq> []" and "sizeof_manifest \<le> length (concat ds)"
  shows "\<exists>ctx1 w1 i ctx' fs' w'. fsm_init (cc2650_platform tc c0 lib trng) ctx sf ob old w = (PULL_SUCCESS, ctx1, w1) \<and> i \<in> {OBJ_1, OBJ_2} \<and>
    content_version (sensortag_content lib ext i w) \<le> content_version (sensortag_content lib ext OBJ_1 w) \<and>
    content_version (sensortag_content lib ext i w) \<le> content_version (sensortag_content lib ext OBJ_2 w) \<and>
    fsm_run (cc2650_platform tc c0 lib trng) (le_enc 2 (unat v) # msg # ds @ [d]) ctx1 fs w1 =
      Some (if hash fw = vm_digest (vendor mt) then PULL_SUCCESS else VERIFICATION_FAILED_ERROR, ctx', fs', w') \<and>
    fsm_state ctx' = (if hash fw = vm_digest (vendor mt) then STATE_REBOOT else STATE_IDLE) \<and> fsm_id ctx' = i \<and>
    sensortag_content lib ext i w' = manifest_bytes mt @ fw @
      replicate (snd (sensortag_range i) - fst (sensortag_range i) - (sizeof_manifest + length fw)) 0xFF \<and>
    (\<forall>j\<in>sensortag_ids. j \<noteq> i \<longrightarrow> sensortag_content lib ext j w' = sensortag_content lib ext j w)"
proof -
  let ?pl = "cc2650_platform tc c0 lib trng"
  have ids: "OBJ_1 \<in> sensortag_ids" "OBJ_2 \<in> sensortag_ids" by (simp_all add: sensortag_ids_def)
  have av: "0 < (of_bool (sensortag_sane powered w) :: nat)" using assms(1) by simp
  obtain ctx1 w1 where i: "fsm_init ?pl ctx sf ob old w = (PULL_SUCCESS, ctx1, w1)" "fsm_state ctx1 = STATE_IDLE" "fsm_processed ctx1 = 0"
    "fsm_sf ctx1 = sf" "fsm_version ctx1 < v" "fsm_version ctx1 < vm_version (vendor mt)"
    "dev.slots_ready (sizeof_manifest + length fw) w1"
    "\<forall>j\<in>sensortag_ids. flash.flash_content j w1 = flash.flash_content j w" "0 < (of_bool (sensortag_sane powered w1) :: nat)"
    using dev.fsm_init_ready [OF cc2650_slots_ready [OF assms(14)] av, of v "vm_version (vendor mt)" ctx sf ob old] assms(5,6) ids
    by (auto simp: flash_slots cc2650_content simp del: of_bool_eq)
  have au: "authentic (pl_sec ?pl) hash (fsm_sf ctx1) mt" using assms(8) i(4) by simp
  obtain s ob' w0 e ctx' fs' w' where r: "dev.chosen s ob' w1 w0"
    "fsm_run ?pl (le_enc 2 (unat v) # msg # ds @ [d]) ctx1 fs w1 = Some (e, ctx', fs', w')"
    "e = (if hash fw = vm_digest (vendor mt) then PULL_SUCCESS else VERIFICATION_FAILED_ERROR)"
    "fsm_state ctx' = (if hash fw = vm_digest (vendor mt) then STATE_REBOOT else STATE_IDLE)" "fsm_id ctx' = slot_id s"
    "flash.flash_content (slot_id s) w' = manifest_bytes mt @ fw @ drop (sizeof_manifest + length fw) (flash.flash_content (slot_id s) w0)"
    "\<forall>j\<in>sensortag_ids. j \<noteq> slot_id s \<longrightarrow> flash.flash_content j w' = flash.flash_content j w1"
    using dev.session_ok [OF i(2,3) assms(2,3) i(5) assms(4,7) i(6) au assms(9-12) i(7) assms(13) i(9) assms(15-17)]
    by (elim exE conjE) (rule that)
  have s: "slot_id s \<in> {OBJ_1, OBJ_2}" "slot_id s \<in> sensortag_ids"
    "\<forall>x\<in>{OBJ_1, OBJ_2}. content_version (flash.flash_content (slot_id s) w1) \<le> content_version (flash.flash_content x w1)"
    "flash.flash_content (slot_id s) w0 = replicate (length (flash.flash_content (slot_id s) w1)) 0xFF"
    using r(1) ids by (auto simp: dev.chosen_def flash_slots flash_oeff_def simp del: flash.length_flash_content)
  have "length (flash.flash_content (slot_id s) w1) = snd (sensortag_range (slot_id s)) - fst (sensortag_range (slot_id s))"
    using s(2) by (simp add: cc2650_content length_sensortag_content del: flash.length_flash_content)
  then show ?thesis
    using i(1,8) r(2-7) s ids
    by (intro exI [of _ ctx1] exI [of _ w1] exI [of _ "slot_id s"] exI [of _ ctx'] exI [of _ fs'] exI [of _ w'])
      (auto simp: cc2650_content simp del: flash.length_flash_content)
qed

end

section \<open>An update\<close>

text \<open>
  C15. An update of the SensorTag. The machine is initialised, is offered a version newer than the image in the internal flash, is asked for its request and
  receives a signed manifest and its firmware, in blocks of any sizes of which the last comes after the manifest is complete. If the
  image is no larger than the internal slot, every call returns, and the slot with the older version,
  internal or external, holds manifest and firmware followed by erased bytes, while the other
  slot and the bootloader are kept. The machine asks for the reboot where the firmware has the digest that the manifest states.
\<close>

theorem cc2650_update:
  assumes "cc2650_flash lib ext powered" and "tinycrypt_sha tc hash st" and "pl = cc2650_platform tc c0 lib trng"
    and "sensortag_sane powered w" and "wf_static fs" and "length (is_buffer fs) = FSM_BUFFER_SIZE"
    and "sizeof_receiver_msg \<le> length msg"
    and "content_version (sensortag_content lib ext OBJ_1 w) < v" and "content_version (sensortag_content lib ext OBJ_1 w) < vm_version (vendor mt)"
    and "wf_manifest mt" and "authentic (tinycrypt_iface tc c0) hash sf mt" and "sm_diff_version (server mt) = 0"
    and "vm_offset (vendor mt) = word_of_nat sizeof_manifest"
    and "vm_size (vendor mt) = word_of_nat (length fw)" and "sm_prop_size (server mt) = word_of_nat (length fw)"
    and "FSM_BUFFER_SIZE \<le> length fw" and "sizeof_manifest + length fw \<le> 0x18000"
    and "concat ds @ d = manifest_bytes mt @ fw" and "d \<noteq> []" and "sizeof_manifest \<le> length (concat ds)"
  shows "\<exists>ctx1 w1 i ctx' fs' w'. fsm_init pl ctx sf ob old w = (PULL_SUCCESS, ctx1, w1) \<and> i \<in> {OBJ_1, OBJ_2} \<and>
    content_version (sensortag_content lib ext i w) \<le> content_version (sensortag_content lib ext OBJ_1 w) \<and>
    content_version (sensortag_content lib ext i w) \<le> content_version (sensortag_content lib ext OBJ_2 w) \<and>
    fsm_run pl (le_enc 2 (unat v) # msg # ds @ [d]) ctx1 fs w1 =
      Some (if hash fw = vm_digest (vendor mt) then PULL_SUCCESS else VERIFICATION_FAILED_ERROR, ctx', fs', w') \<and>
    fsm_state ctx' = (if hash fw = vm_digest (vendor mt) then STATE_REBOOT else STATE_IDLE) \<and> fsm_id ctx' = i \<and>
    sensortag_content lib ext i w' = manifest_bytes mt @ fw @
      replicate (snd (sensortag_range i) - fst (sensortag_range i) - (sizeof_manifest + length fw)) 0xFF \<and>
    (\<forall>j\<in>sensortag_ids. j \<noteq> i \<longrightarrow> sensortag_content lib ext j w' = sensortag_content lib ext j w)"
proof -
  have "cc2650_device lib ext powered tc hash st" using assms(1,2) by (rule cc2650_device.intro)
  from cc2650_device.cc2650_update_ok [OF this assms(4-20)] show ?thesis unfolding assms(3) .
qed

text \<open>A simulated device for the application to a concrete input: version 3 in the internal slot, version 0 in the external one.\<close>

record flash_sim =
  sim_int :: "nat \<Rightarrow> byte"
  sim_ext :: "nat \<Rightarrow> byte"
  sim_on :: bool

definition demo_cc2650 :: "flash_sim cc2650_lib" where
  "demo_cc2650 = \<lparr>FlashSectorErase = (\<lambda>a f. (0, f\<lparr>sim_int := cell_erased (unat a) 4096 (sim_int f)\<rparr>)),
     FlashProgram = (\<lambda>buf a n f. (0, f\<lparr>sim_int := cell_programmed (unat a) n buf (sim_int f)\<rparr>)), FAPI_STATUS_SUCCESS = 0,
     mapped = sim_int, ext_flash_open = (\<lambda>f. (True, f\<lparr>sim_on := True\<rparr>)), ext_flash_close = sim_on_update (\<lambda>_. False),
     ext_flash_erase = (\<lambda>a n f. (True, f\<lparr>sim_ext := cell_erased (unat a) n (sim_ext f)\<rparr>)),
     ext_flash_write = (\<lambda>a n buf f. (True, f\<lparr>sim_ext := cell_programmed (unat a) n buf (sim_ext f)\<rparr>)),
     ext_flash_read = (\<lambda>a n buf f. (True, map (sim_ext f) [unat a..<unat a + n] @ drop n buf, f))\<rparr>"

interpretation demo_cc: cc2650_flash demo_cc2650 sim_ext sim_on
  by unfold_locales (simp_all add: demo_cc2650_def)

definition demo_sensortag :: "flash_sim cc2650_state" where
  "demo_sensortag = \<lparr>external_memory_open = 0, cc_flash = \<lparr>sim_int = (\<lambda>x. if 0x6000 \<le> x \<and> x < 0x6100
     then manifest_bytes (demo_manifest 3 []) ! (x - 0x6000) else 0xFF), sim_ext = (\<lambda>_. 0), sim_on = False\<rparr>\<rparr>"

lemma map_upt_prefix:
  assumes "\<And>i. i < length xs \<Longrightarrow> f (a + i) = xs ! i" and "a + length xs \<le> b"
  shows "map f [a..<b] = xs @ map f [a + length xs..<b]"
proof -
  have "[a..<b] = [a..<a + length xs] @ [a + length xs..<b]"
    using upt_add_eq_append [of a "a + length xs" "b - (a + length xs)"] assms(2) by simp
  moreover have "map f [a..<a + length xs] = xs" using assms(1) by (intro nth_equalityI) simp_all
  ultimately show ?thesis by simp
qed

lemma demo_sensortag_version: "content_version (sensortag_content demo_cc2650 sim_ext OBJ_1 demo_sensortag) = 3"
proof -
  let ?c = "sensortag_cells demo_cc2650 sim_ext 0 demo_sensortag" and ?mt = "manifest_bytes (demo_manifest 3 [])"
  have len: "length ?mt = 256" by (simp add: sizeof_manifest_def)
  have r: "fst (sensortag_range OBJ_1) = 0x6000" "snd (sensortag_range OBJ_1) = 0x1E000" "sensortag_dev OBJ_1 = 0"
    by (simp_all add: sensortag_range_def sensortag_dev_def flash_id_defs)
  have c: "?c (0x6000 + i) = ?mt ! i" if "i < length ?mt" for i
    using that len by (simp add: sensortag_cells_def demo_sensortag_def demo_cc2650_def)
  have "sensortag_content demo_cc2650 sim_ext OBJ_1 demo_sensortag =
      ?mt @ map ?c [fst (sensortag_range OBJ_1) + length ?mt..<snd (sensortag_range OBJ_1)]"
    unfolding sensortag_content_def r(3) by (rule map_upt_prefix) (use r(1,2) len c in simp_all)
  then show ?thesis by (simp only: content_version_def content_manifest_append [OF wf_demo_manifest] get_version_impl_def demo_manifest_fields)
qed

lemma demo_sensortag_sane: "sensortag_sane sim_on demo_sensortag"
  by (simp add: sensortag_sane_def demo_sensortag_def)

definition demo_cc_platform :: "(flash_sim cc2650_state, flash_sim cc2650_state flash_obj, byte list digest_ctx, u32) platform" where
  "demo_cc_platform = cc2650_platform demo_tinycrypt demo_ctx0 demo_cc2650 (\<lambda>_ r. (r, r + 1))"

definition demo_cc_fsm :: "(flash_sim cc2650_state flash_obj, u32) fsm_ctx" where
  "demo_cc_fsm = \<lparr>fsm_state = STATE_IDLE, fsm_version = 0, fsm_sf = demo_sf, fsm_processed = 0, fsm_expected = 0,
     fsm_id = 0, fsm_obj = hd (cc2650_objects sensortag_conf demo_cc2650), fsm_rctx = 1, fsm_old_id = 0,
     fsm_old_obj = hd (cc2650_objects sensortag_conf demo_cc2650)\<rparr>"

definition demo_cc_static :: "flash_sim cc2650_state flash_obj fsm_static" where
  "demo_cc_static = \<lparr>is_buffer = replicate FSM_BUFFER_SIZE 0, is_pipe = None, st_buffer = demo_buffer,
     st_writer = pipeline_writer_init (hd (cc2650_objects sensortag_conf demo_cc2650)), st_lzss = demo_lzss, st_bspatch = demo_bspatch\<rparr>"

theorem cc2650_update_witness:
  "\<exists>ctx1 w1 i ctx' fs' w'. fsm_init demo_cc_platform demo_cc_fsm demo_sf (fsm_obj demo_cc_fsm) (fsm_obj demo_cc_fsm) demo_sensortag =
      (PULL_SUCCESS, ctx1, w1) \<and> i \<in> {OBJ_1, OBJ_2} \<and>
    content_version (sensortag_content demo_cc2650 sim_ext i demo_sensortag) \<le> content_version (sensortag_content demo_cc2650 sim_ext OBJ_1 demo_sensortag) \<and>
    content_version (sensortag_content demo_cc2650 sim_ext i demo_sensortag) \<le> content_version (sensortag_content demo_cc2650 sim_ext OBJ_2 demo_sensortag) \<and>
    fsm_run demo_cc_platform (le_enc 2 (unat (4 :: version_t)) # replicate 16 0 # [take 300 demo_update] @ [drop 300 demo_update]) ctx1 demo_cc_static w1 =
      Some (if demo_hash demo_firmware = vm_digest (vendor (demo_manifest 4 demo_firmware)) then PULL_SUCCESS
        else VERIFICATION_FAILED_ERROR, ctx', fs', w') \<and>
    fsm_state ctx' = (if demo_hash demo_firmware = vm_digest (vendor (demo_manifest 4 demo_firmware)) then STATE_REBOOT else STATE_IDLE) \<and>
    fsm_id ctx' = i \<and>
    sensortag_content demo_cc2650 sim_ext i w' = manifest_bytes (demo_manifest 4 demo_firmware) @ demo_firmware @
      replicate (snd (sensortag_range i) - fst (sensortag_range i) - (sizeof_manifest + length demo_firmware)) 0xFF \<and>
    (\<forall>j\<in>sensortag_ids. j \<noteq> i \<longrightarrow> sensortag_content demo_cc2650 sim_ext j w' = sensortag_content demo_cc2650 sim_ext j demo_sensortag)"
  by (rule cc2650_update [OF demo_cc.cc2650_flash_axioms demo_tc.tinycrypt_sha_axioms demo_cc_platform_def demo_sensortag_sane _ _ _ _ _
      wf_demo_manifest])
    (simp_all add: demo_sensortag_version demo_manifest_fields authentic_demo_manifest length_demo_firmware length_demo_update
      demo_update_def [symmetric] FSM_BUFFER_SIZE_def sizeof_manifest_def sizeof_receiver_msg_def demo_cc_static_def wf_static_def
      demo_fsm_simps(3) [unfolded wf_static_def demo_static_def, simplified])

end
