(* ===== verification/Loader.thy ===== *)
theory Loader
  imports Device_Cc2650
begin

text \<open>
  The loaders that the bootloader ends with (\<open>src/cpu/arm/arm_cortex_loader.c\<close> and \<open>build/zephyr/board/nrf52840_pca10056/loader.c\<close>).
  Both open the object, read its manifest for the offset of the image, and jump to the reset vector of the image.

  The registers the loaders write are the record \<open>cpu\<close>; \<open>cpu_pc\<close> is where the call of \<open>load_addr\<close> goes, \<open>None\<close> while the loader has not
  jumped. The macros of the platform, \<open>INTERRUPTS_DISABLE\<close> and \<open>sys_clock_disable\<close>, are functions on it. Memory that is read through a
  pointer is \<open>rd\<close>, the bytes of the address space.
\<close>

section \<open>Definitions\<close>

record cpu =
  cpu_vtor :: u32
  cpu_msp :: u32
  cpu_psp :: u32
  cpu_irq :: bool
  cpu_clock :: bool
  cpu_pc :: "u32 option"

definition RESET_VECTOR :: u32 where
  "RESET_VECTOR = 4"

text \<open>The target of a pointer to \<open>uint32_t\<close> on a little-endian core.\<close>

definition load_u32 :: "(nat \<Rightarrow> byte) \<Rightarrow> u32 \<Rightarrow> u32" where
  "load_u32 c a = word_of_nat (le_dec (map (\<lambda>k. c (unat (a + word_of_nat k))) [0..<4]))"

definition cc2650_interrupts_disable :: "cpu \<Rightarrow> cpu" where
  "cc2650_interrupts_disable c = c"

definition cc2538_interrupts_disable :: "cpu \<Rightarrow> cpu" where
  "cc2538_interrupts_disable c = c\<lparr>cpu_irq := False\<rparr>"

definition nrf52840_interrupts_disable :: "cpu \<Rightarrow> cpu" where
  "nrf52840_interrupts_disable c = c\<lparr>cpu_irq := False\<rparr>"

definition load_object ::
  "'w flash_obj list \<Rightarrow> ('w \<Rightarrow> nat \<Rightarrow> byte) \<Rightarrow> (cpu \<Rightarrow> cpu) \<Rightarrow> 'w flash_obj \<Rightarrow> manifest_t \<Rightarrow> mem_id_t \<Rightarrow> cpu \<Rightarrow> 'w \<Rightarrow> cpu \<times> 'w" where
  "load_object objs rd interrupts_disable obj mt i c w =
     (case memory_open (flash_iface objs) obj i READ_ONLY w of (err, obj1, w1) \<Rightarrow>
        if err \<noteq> PULL_SUCCESS then (c, w1)
        else (case read_firmware_manifest (flash_iface objs) obj1 mt w1 of (err, mt1, w2) \<Rightarrow>
          if err \<noteq> PULL_SUCCESS then (c, w2)
          else (case memory_close (flash_iface objs) obj1 w2 of (_, w3) \<Rightarrow>
            let destination_address = get_start_offset objs i + get_offset_impl mt1;
                c1 = (interrupts_disable c)\<lparr>cpu_vtor := destination_address\<rparr>;
                stack = load_u32 (rd w3) destination_address;
                c2 = c1\<lparr>cpu_msp := stack, cpu_psp := stack\<rparr>
            in (c2\<lparr>cpu_pc := Some (load_u32 (rd w3) (destination_address + RESET_VECTOR))\<rparr>, w3))))"

definition zephyr_load_object ::
  "'w flash_obj list \<Rightarrow> ('w \<Rightarrow> nat \<Rightarrow> byte) \<Rightarrow> 'w flash_obj \<Rightarrow> manifest_t \<Rightarrow> mem_id_t \<Rightarrow> cpu \<Rightarrow> 'w \<Rightarrow> cpu \<times> 'w" where
  "zephyr_load_object objs rd obj mt i c w =
     (case memory_open (flash_iface objs) obj i READ_ONLY w of (err, obj1, w1) \<Rightarrow>
        if err \<noteq> PULL_SUCCESS then (c, w1)
        else (case read_firmware_manifest (flash_iface objs) obj1 mt w1 of (err, mt1, w2) \<Rightarrow>
          if err \<noteq> PULL_SUCCESS then (c, w2)
          else (case memory_close (flash_iface objs) obj1 w2 of (_, w3) \<Rightarrow>
            let destination_address = get_start_offset objs i + get_offset_impl mt1;
                c1 = (nrf52840_interrupts_disable c)\<lparr>cpu_clock := False\<rparr>;
                c2 = c1\<lparr>cpu_msp := destination_address, cpu_psp := destination_address\<rparr>
            in (c2\<lparr>cpu_pc := Some (load_u32 (rd w3) (destination_address + RESET_VECTOR))\<rparr>, w3))))"

section \<open>What is entered\<close>

definition le_word :: "byte list \<Rightarrow> u32" where
  "le_word bs = word_of_nat (le_dec bs)"

lemma load_u32_image:
  assumes "\<And>k. k < n \<Longrightarrow> c (unat a + k) = xs ! k" and "length xs = n" and "unat a + n \<le> 2 ^ 32" and "o4 + 4 \<le> n"
    and "b = a + word_of_nat o4"
  shows "load_u32 c b = le_word (block o4 4 xs)"
proof -
  have "c (unat (b + word_of_nat k)) = xs ! (o4 + k)" if "k < 4" for k
  proof -
    have "b + word_of_nat k = word_of_nat (unat a + (o4 + k))" using assms(5) by simp
    then have "unat (b + word_of_nat k) = unat a + (o4 + k)"
      using that assms(3,4) by (simp only: unsigned_of_nat) (simp add: take_bit_nat_eq_self)
    then show ?thesis using assms(1) [of "o4 + k"] that assms(4) by simp
  qed
  then have "map (\<lambda>k. c (unat (b + word_of_nat k))) [0..<4] = block o4 4 xs"
    using assms(2,4) by (intro nth_equalityI) (simp_all add: block_def)
  then show ?thesis by (simp add: load_u32_def le_word_def)
qed

context flash_contract
begin

text \<open>The words of an image that starts behind its manifest, in an object that is mapped in the address space.\<close>

lemma mapped_words:
  assumes "i \<in> ids" and "cells (dev i) w = c" and "flash_content i w = manifest_bytes mt @ fw @ rest" and "wf_manifest mt"
    and "vm_offset (vendor mt) = word_of_nat sizeof_manifest" and "8 \<le> length fw"
  shows "load_u32 c (get_start_offset objs i + get_offset_impl mt) = le_word (take 4 fw)"
    and "load_u32 c (get_start_offset objs i + get_offset_impl mt + RESET_VECTOR) = le_word (take 4 (drop 4 fw))"
proof -
  let ?v = "flash_content i w" and ?a = "fo_start (objs ! nat i)"
  have len: "length ?v = lim i - base i" by simp
  have lv: "sizeof_manifest + 8 \<le> length ?v" using assms(3,4,6) by simp
  have g: "unat (fo_end (objs ! nat i)) + page < 2 ^ 32" "unat ?a \<le> unat (fo_end (objs ! nat i))" using geometry [OF assms(1)] by auto
  have b: "c (unat ?a + k) = ?v ! k" if "k < length ?v" for k
    using that assms(2) by (simp add: flash_content_def base_def lim_def)
  have u: "unat ?a + length ?v \<le> 2 ^ 32" using g len by (simp add: base_def lim_def)
  have bl: "block sizeof_manifest 4 ?v = take 4 fw" "block (sizeof_manifest + 4) 4 ?v = take 4 (drop 4 fw)"
    using assms(3,4,6) by (simp_all add: block_def)
  have ad: "get_start_offset objs i + get_offset_impl mt = ?a + word_of_nat sizeof_manifest"
    "get_start_offset objs i + get_offset_impl mt + RESET_VECTOR = ?a + word_of_nat (sizeof_manifest + 4)"
    using assms(5) by (simp_all add: get_start_offset_def get_offset_impl_def RESET_VECTOR_def)
  show "load_u32 c (get_start_offset objs i + get_offset_impl mt) = le_word (take 4 fw)"
    using load_u32_image [OF b refl u _ ad(1)] lv bl(1) by simp
  show "load_u32 c (get_start_offset objs i + get_offset_impl mt + RESET_VECTOR) = le_word (take 4 (drop 4 fw))"
    using load_u32_image [OF b refl u _ ad(2)] lv bl(2) by simp
qed

lemma loaders_enter:
  assumes "i \<in> ids" and "sane w" and "\<And>w. cells (dev i) w = rd w" and "flash_content i w = manifest_bytes mt @ fw @ rest"
    and "wf_manifest mt" and "wf_manifest mt0" and "vm_offset (vendor mt) = word_of_nat sizeof_manifest" and "8 \<le> length fw"
  shows "\<exists>w'. load_object objs rd irq obj mt0 i c w =
      ((irq c)\<lparr>cpu_vtor := get_start_offset objs i + word_of_nat sizeof_manifest, cpu_msp := le_word (take 4 fw),
         cpu_psp := le_word (take 4 fw), cpu_pc := Some (le_word (take 4 (drop 4 fw)))\<rparr>, w') \<and>
    zephyr_load_object objs rd obj mt0 i c w =
      (c\<lparr>cpu_msp := get_start_offset objs i + word_of_nat sizeof_manifest, cpu_psp := get_start_offset objs i + word_of_nat sizeof_manifest,
         cpu_irq := False, cpu_clock := False, cpu_pc := Some (le_word (take 4 (drop 4 fw)))\<rparr>, w') \<and>
    (\<forall>j\<in>ids. flash_content j w' = flash_content j w)"
proof -
  have cm: "content_manifest (flash_content i w) = mt" using assms(4,5) by (simp add: content_manifest_append)
  have "0 < (of_bool (sane w) :: nat)" "sizeof_manifest \<le> length (flash_content i w)"
    using assms(2,4,5) by (simp_all del: length_flash_content)
  from mem.probe_slot [OF assms(1) this assms(6), of obj, unfolded cm]
  obtain obj1 w1 w2 w3 where p: "memory_open (flash_iface objs) obj i READ_ONLY w = (PULL_SUCCESS, obj1, w1)"
    "read_firmware_manifest (flash_iface objs) obj1 mt0 w1 = (PULL_SUCCESS, mt, w2)" "memory_close (flash_iface objs) obj1 w2 = (PULL_SUCCESS, w3)"
    "\<forall>j\<in>ids. flash_content j w3 = flash_content j w" by blast
  have "flash_content i w3 = manifest_bytes mt @ fw @ rest" using p(4) assms(1,4) by simp
  note ws = mapped_words [OF assms(1,3) this assms(5,7,8)]
  show ?thesis
    using p ws assms(7)
    by (intro exI [of _ w3]) (simp add: load_object_def zephyr_load_object_def Let_def nrf52840_interrupts_disable_def get_offset_impl_def)
qed

end

section \<open>The SensorTag\<close>

context cc2650_flash
begin

lemma sensortag_load_ok:
  assumes "sensortag_sane powered w" and "sensortag_content lib ext OBJ_1 w = manifest_bytes mt @ fw @ rest" and "wf_manifest mt"
    and "wf_manifest mt0" and "vm_offset (vendor mt) = word_of_nat sizeof_manifest" and "8 \<le> length fw"
    and "objs = cc2650_objects sensortag_conf lib" and "rd = (\<lambda>w. mapped lib (cc_flash w))"
  shows "\<exists>w'. load_object objs rd cc2650_interrupts_disable obj mt0 OBJ_1 c w =
      (c\<lparr>cpu_vtor := 0x6100, cpu_msp := le_word (take 4 fw), cpu_psp := le_word (take 4 fw),
         cpu_pc := Some (le_word (take 4 (drop 4 fw)))\<rparr>, w') \<and>
    zephyr_load_object objs rd obj mt0 OBJ_1 c w =
      (c\<lparr>cpu_msp := 0x6100, cpu_psp := 0x6100, cpu_irq := False, cpu_clock := False,
         cpu_pc := Some (le_word (take 4 (drop 4 fw)))\<rparr>, w') \<and>
    (\<forall>j\<in>sensortag_ids. sensortag_content lib ext j w' = sensortag_content lib ext j w)"
proof -
  have i: "OBJ_1 \<in> sensortag_ids" by (simp add: sensortag_ids_def)
  have m: "sensortag_cells lib ext (sensortag_dev OBJ_1) w = mapped lib (cc_flash w)" for w
    by (simp add: sensortag_cells_def sensortag_dev_def flash_id_defs)
  have a: "get_start_offset (cc2650_objects sensortag_conf lib) OBJ_1 + word_of_nat sizeof_manifest = 0x6100"
    by (simp add: get_start_offset_def flash_id_defs cc2650_objects_def flash_entry_def sensortag_conf_def BOOTLOADER_SIZE_def sizeof_manifest_def)
  have "flash.flash_content OBJ_1 w = manifest_bytes mt @ fw @ rest" using assms(2) i by (simp add: cc2650_content)
  from flash.loaders_enter [OF i assms(1) m this assms(3-6), of cc2650_interrupts_disable obj c, unfolded a] show ?thesis
    unfolding assms(7,8) by (simp add: cc2650_content cc2650_interrupts_disable_def)
qed

end

text \<open>
  C16. The end of the boot of the SensorTag. Where the internal slot holds a manifest, whose offset is its own size, and a firmware, the loader
  sets the vector table to the address of the firmware, both stack pointers to the first word of the firmware, and jumps to the address that
  the second word holds; nothing else of the registers and no content of the flash is changed. This is the slot as an update leaves it.
  The loader of the Zephyr board jumps to the same address, but with the address of the vector table itself as stack pointer.
\<close>

theorem sensortag_load:
  assumes "cc2650_flash lib ext powered" and "sensortag_sane powered w"
    and "sensortag_content lib ext OBJ_1 w = manifest_bytes mt @ fw @ rest" and "wf_manifest mt" and "wf_manifest mt0"
    and "vm_offset (vendor mt) = word_of_nat sizeof_manifest" and "8 \<le> length fw"
    and "objs = cc2650_objects sensortag_conf lib" and "rd = (\<lambda>w. mapped lib (cc_flash w))"
  shows "\<exists>w'. load_object objs rd cc2650_interrupts_disable obj mt0 OBJ_1 c w =
      (c\<lparr>cpu_vtor := 0x6100, cpu_msp := le_word (take 4 fw), cpu_psp := le_word (take 4 fw),
         cpu_pc := Some (le_word (take 4 (drop 4 fw)))\<rparr>, w') \<and>
    zephyr_load_object objs rd obj mt0 OBJ_1 c w =
      (c\<lparr>cpu_msp := 0x6100, cpu_psp := 0x6100, cpu_irq := False, cpu_clock := False,
         cpu_pc := Some (le_word (take 4 (drop 4 fw)))\<rparr>, w') \<and>
    (\<forall>j\<in>sensortag_ids. sensortag_content lib ext j w' = sensortag_content lib ext j w)"
  using assms by (rule cc2650_flash.sensortag_load_ok)

text \<open>A device whose internal slot holds an image of two vectors, a stack at \<open>0x20005000\<close> and an entry at \<open>0x6201\<close>.\<close>

definition demo_vectors :: "byte list" where
  "demo_vectors = [0x00, 0x50, 0x00, 0x20, 0x01, 0x62, 0x00, 0x00]"

definition demo_tag_image :: "byte list" where
  "demo_tag_image = manifest_bytes (demo_manifest 3 demo_vectors) @ demo_vectors"

definition demo_boot_tag :: "flash_sim cc2650_state" where
  "demo_boot_tag = \<lparr>external_memory_open = 0, cc_flash = \<lparr>sim_int = (\<lambda>x. if 0x6000 \<le> x \<and> x < 0x6108 then demo_tag_image ! (x - 0x6000)
     else 0xFF), sim_ext = (\<lambda>_. 0), sim_on = False\<rparr>\<rparr>"

definition demo_cpu :: cpu where
  "demo_cpu = \<lparr>cpu_vtor = 0, cpu_msp = 0, cpu_psp = 0, cpu_irq = True, cpu_clock = True, cpu_pc = None\<rparr>"

lemma demo_boot_tag_content:
  "sensortag_content demo_cc2650 sim_ext OBJ_1 demo_boot_tag =
     manifest_bytes (demo_manifest 3 demo_vectors) @ demo_vectors @ map (sensortag_cells demo_cc2650 sim_ext 0 demo_boot_tag) [0x6108..<0x1E000]"
proof -
  let ?c = "sensortag_cells demo_cc2650 sim_ext 0 demo_boot_tag"
  have len: "length demo_tag_image = 264" by (simp add: demo_tag_image_def demo_vectors_def sizeof_manifest_def)
  have c: "?c (0x6000 + i) = demo_tag_image ! i" if "i < length demo_tag_image" for i
    using that len by (simp add: sensortag_cells_def demo_boot_tag_def demo_cc2650_def)
  have "map ?c [0x6000..<0x1E000] = demo_tag_image @ map ?c [0x6000 + length demo_tag_image..<0x1E000]"
    by (rule map_upt_prefix) (use len c in simp_all)
  moreover have "0x6000 + length demo_tag_image = 0x6108" using len by simp
  moreover have "fst (sensortag_range OBJ_1) = 0x6000" "snd (sensortag_range OBJ_1) = 0x1E000" "sensortag_dev OBJ_1 = 0"
    by (simp_all add: sensortag_range_def sensortag_dev_def flash_id_defs)
  ultimately show ?thesis unfolding sensortag_content_def by (simp only: demo_tag_image_def append_assoc)
qed

theorem sensortag_load_witness:
  "\<exists>w'. load_object (cc2650_objects sensortag_conf demo_cc2650) (\<lambda>w. mapped demo_cc2650 (cc_flash w)) cc2650_interrupts_disable
      (fsm_obj demo_cc_fsm) zero_manifest OBJ_1 demo_cpu demo_boot_tag =
      (demo_cpu\<lparr>cpu_vtor := 0x6100, cpu_msp := 0x20005000, cpu_psp := 0x20005000, cpu_pc := Some 0x6201\<rparr>, w') \<and>
    zephyr_load_object (cc2650_objects sensortag_conf demo_cc2650) (\<lambda>w. mapped demo_cc2650 (cc_flash w))
      (fsm_obj demo_cc_fsm) zero_manifest OBJ_1 demo_cpu demo_boot_tag =
      (demo_cpu\<lparr>cpu_msp := 0x6100, cpu_psp := 0x6100, cpu_irq := False, cpu_clock := False, cpu_pc := Some 0x6201\<rparr>, w') \<and>
    (\<forall>j\<in>sensortag_ids. sensortag_content demo_cc2650 sim_ext j w' = sensortag_content demo_cc2650 sim_ext j demo_boot_tag)"
proof -
  have v: "le_word (take 4 demo_vectors) = 0x20005000" "le_word (take 4 (drop 4 demo_vectors)) = 0x6201" "8 \<le> length demo_vectors"
    by (simp_all add: demo_vectors_def le_word_def)
  have "sensortag_sane sim_on demo_boot_tag" "vm_offset (vendor (demo_manifest 3 demo_vectors)) = word_of_nat sizeof_manifest"
    by (simp_all add: sensortag_sane_def demo_boot_tag_def demo_manifest_fields sizeof_manifest_def)
  from sensortag_load [OF demo_cc.cc2650_flash_axioms this(1) demo_boot_tag_content wf_demo_manifest wf_zero_manifest this(2) v(3) refl refl]
  show ?thesis unfolding v .
qed

end
