(* ===== verification/Signing.thy ===== *)
theory Signing
  imports Verifier
begin

text \<open>
  Signing a manifest (\<open>sign_manifest_vendor\<close>, \<open>sign_manifest_server\<close> of \<open>src/core/memory/simple_manifest.c\<close>) over TinyCrypt: with keys that belong
  together, what is signed is verified. The firmware tool and the server rely on it.
\<close>

text \<open>
  What is documented of the elliptic curves: \<open>uECC_make_key\<close> makes a private and a public key that belong together, and a
  signature made with the one is verified with the other.
\<close>

locale uecc_keys = tinycrypt_sha lib hash st
  for lib :: "('t, 'a) tinycrypt_lib" and hash and st +
  fixes make_key :: "'r \<Rightarrow> bool \<times> byte list \<times> byte list \<times> 'r"
    and keypair :: "byte list \<Rightarrow> byte list \<Rightarrow> bool"
  assumes make_key_ok: "\<exists>pub priv r'. make_key r = (True, pub, priv, r') \<and> length pub = 64 \<and> length priv = 32 \<and> keypair priv pub"
    and sign_ok: "length h = 32 \<Longrightarrow> length sb = 64 \<Longrightarrow> keypair priv pub \<Longrightarrow>
      \<exists>sig. uECC_sign lib priv h 32 sb = (1, sig) \<and> length sig = 64 \<and> uECC_verify lib pub h 32 sig = 1"
begin

lemma sign_data:
  assumes "keypair priv pub" and "length sb = 64"
  shows "\<exists>sig. sign_data_impl (tinycrypt_iface lib c0) data priv sb = Some (PULL_SUCCESS, sig) \<and> length sig = 64 \<and>
    uECC_verify lib pub (hash data) 32 sig = 1"
proof -
  obtain c1 c2 c3 where d: "digest_init (tinycrypt_iface lib c0) (sec_ctx0 (tinycrypt_iface lib c0)) = (PULL_SUCCESS, c1)"
    "digest_update (tinycrypt_iface lib c0) c1 data = (PULL_SUCCESS, c2)"
    "digest_finalize (tinycrypt_iface lib c0) c2 = (Some (hash data), c3)"
    by (rule tinycrypt.digest_once)
  obtain sig where "uECC_sign lib priv (hash data) 32 sb = (1, sig)" "length sig = 64" "uECC_verify lib pub (hash data) 32 sig = 1"
    using sign_ok [OF hash_length assms(2,1)] by blast
  with d show ?thesis
    by (simp add: sign_data_impl_def) (simp add: tinycrypt_iface_def tinycrypt_ecc_sign_def tinycrypt_get_digest_size_def)
qed


lemma sign_vendor:
  assumes "keypair priv pub" and "wf_manifest mt" and "length sb = 64"
  shows "\<exists>sig. sign_manifest_vendor (tinycrypt_iface lib c0) mt priv sb =
      Some (PULL_SUCCESS, mt\<lparr>vendor_signature_r := take 32 sig, vendor_signature_s := drop 32 sig\<rparr>, sig) \<and> length sig = 64 \<and>
    uECC_verify lib pub (hash (vendor_bytes (vendor mt))) 32 sig = 1"
proof -
  obtain sig where s: "sign_data_impl (tinycrypt_iface lib c0) (vendor_bytes (vendor mt)) priv sb = Some (PULL_SUCCESS, sig)"
    "length sig = 64" "uECC_verify lib pub (hash (vendor_bytes (vendor mt))) 32 sig = 1"
    using sign_data [OF assms(1,3)] by blast
  moreover have "get_curve_size (tinycrypt_iface lib c0) = 32" by (simp add: tinycrypt_iface_def tinycrypt_get_curve_size_def)
  ultimately show ?thesis using assms(2)
    by (simp add: sign_manifest_vendor_def sign_manifest_vendor_impl_def set_vendor_signature_r_impl_def set_vendor_signature_s_impl_def
        wf_manifest_def splice_at_def)
qed

lemma sign_server:
  assumes "keypair priv pub" and "wf_manifest mt" and "length sb = 64"
  shows "\<exists>sig. sign_manifest_server (tinycrypt_iface lib c0) mt priv sb =
      Some (PULL_SUCCESS, mt\<lparr>server_signature_r := take 32 sig, server_signature_s := drop 32 sig\<rparr>, sig) \<and> length sig = 64 \<and>
    uECC_verify lib pub (hash (server_bytes (server mt))) 32 sig = 1"
proof -
  obtain sig where s: "sign_data_impl (tinycrypt_iface lib c0) (server_bytes (server mt)) priv sb = Some (PULL_SUCCESS, sig)"
    "length sig = 64" "uECC_verify lib pub (hash (server_bytes (server mt))) 32 sig = 1"
    using sign_data [OF assms(1,3)] by blast
  moreover have "get_curve_size (tinycrypt_iface lib c0) = 32" by (simp add: tinycrypt_iface_def tinycrypt_get_curve_size_def)
  ultimately show ?thesis using assms(2)
    by (simp add: sign_manifest_server_def sign_manifest_server_impl_def set_server_signature_r_impl_def set_server_signature_s_impl_def
        wf_manifest_def splice_at_def)
qed

text \<open>\<open>mt\<close> signed with both keys is authentic for a device with the public key of the vendor.\<close>

lemma signed_authentic:
  assumes "length vpub = 64" and "length spub = 64" and "length vsig = 64" and "length ssig = 64"
    and "vm_server_key_x (vendor mt) = take 32 spub" and "vm_server_key_y (vendor mt) = drop 32 spub"
    and "uECC_verify lib vpub (hash (vendor_bytes (vendor mt))) 32 vsig = 1"
    and "uECC_verify lib spub (hash (server_bytes (server mt))) 32 ssig = 1"
  shows "vendor_signed (tinycrypt_iface lib c0) hash \<lparr>ks_x = take 32 vpub, ks_y = drop 32 vpub\<rparr>
      (mt\<lparr>vendor_signature_r := take 32 vsig, vendor_signature_s := drop 32 vsig,
        server_signature_r := take 32 ssig, server_signature_s := drop 32 ssig\<rparr>)"
    and "server_signed (tinycrypt_iface lib c0) hash
      (mt\<lparr>vendor_signature_r := take 32 vsig, vendor_signature_s := drop 32 vsig,
        server_signature_r := take 32 ssig, server_signature_s := drop 32 ssig\<rparr>)"
  using assms by (simp_all add: vendor_signed_def server_signed_def tinycrypt_iface_def tinycrypt_ecc_verify_def tinycrypt_get_digest_size_def Let_def)

end

section \<open>Concrete keys\<close>

text \<open>Keys of which the public one is twice the private one.\<close>

definition demo_uecc :: "(byte list, byte list) tinycrypt_lib" where
  "demo_uecc = demo_tinycrypt\<lparr>uECC_sign := \<lambda>sk h n s. (1, demo_sign (sk @ sk) (take n h))\<rparr>"

definition demo_pair :: "byte list \<Rightarrow> byte list \<Rightarrow> bool" where
  "demo_pair priv pub \<longleftrightarrow> length priv = 32 \<and> pub = priv @ priv"

definition demo_make_key :: "nat \<Rightarrow> bool \<times> byte list \<times> byte list \<times> nat" where
  "demo_make_key r = (True, replicate 64 (word_of_nat r), replicate 32 (word_of_nat r), r + 1)"

interpretation demo_keys: uecc_keys demo_uecc demo_hash "(=)" demo_make_key demo_pair
proof
  show "\<exists>pub priv r'. demo_make_key r = (True, pub, priv, r') \<and> length pub = 64 \<and> length priv = 32 \<and> demo_pair priv pub" for r
    by (simp add: demo_make_key_def demo_pair_def flip: replicate_add)
  show "\<exists>sig. uECC_sign demo_uecc priv h 32 sb = (1, sig) \<and> length sig = 64 \<and> uECC_verify demo_uecc pub h 32 sig = 1"
    if "length h = 32" "demo_pair priv pub" for h sb priv pub
    using that by (auto simp: demo_uecc_def demo_tinycrypt_def demo_pair_def demo_sign_def)
qed (simp_all add: demo_uecc_def demo_tinycrypt_def)

section \<open>The layout of a manifest is kept\<close>



end
