(* ===== verification/Server.thy ===== *)
theory Server
  imports Signing Device_Posix Connection_Libcoap
begin

text \<open>
  The update server (\<open>utils/server/server.c\<close>, \<open>server.h\<close> and \<open>utils/server/resources\<close>): its resources are handlers of libcoap that
  fill a response for a request. A request has the type \<open>'q\<close>, a response the type \<open>'p\<close>; the functions of libcoap that the handlers
  call are the record \<open>server_lib\<close>, in which a response code is the number that is given to \<open>COAP_RESPONSE_CODE\<close>.

  The firmware file is mapped privately, so that the handlers write to the memory of the server only: \<open>mapped_file\<close> is the content of the mapping,
  whose first bytes are the manifest. A handler that reads the manifest of a shorter file is undefined: \<open>None\<close>. The keys
  are arguments, as they come from \<open>default_keys.h\<close>.
\<close>

section \<open>State and library\<close>

record server_ctx_t =
  firmware_name :: string
  mapped_file :: "byte list"

record ('q, 'p) server_lib =
  srv_get_data :: "'q \<Rightarrow> byte list option"
  srv_block2 :: "'q \<Rightarrow> (nat \<times> nat) option"
  srv_observer :: "'q \<Rightarrow> nat option"
  srv_content_type :: "'q \<Rightarrow> byte list option"
  srv_encode :: "nat \<Rightarrow> byte list"
  srv_set_code :: "nat \<Rightarrow> 'p \<Rightarrow> 'p"
  srv_add_option :: "nat \<Rightarrow> byte list \<Rightarrow> 'p \<Rightarrow> 'p"
  srv_write_block_opt :: "nat \<times> nat \<Rightarrow> nat \<Rightarrow> 'p \<Rightarrow> bool \<times> (nat \<times> nat) \<times> 'p"
  srv_add_block :: "byte list \<Rightarrow> nat \<Rightarrow> nat \<Rightarrow> 'p \<Rightarrow> bool \<times> 'p"
  srv_add_data :: "byte list \<Rightarrow> 'p \<Rightarrow> 'p"

definition OPTION_OBSERVE :: nat where "OPTION_OBSERVE = 6"
definition OPTION_CONTENT_TYPE :: nat where "OPTION_CONTENT_TYPE = 12"
definition OPTION_MAXAGE :: nat where "OPTION_MAXAGE = 14"
definition OCTET_STREAM :: nat where "OCTET_STREAM = 42"
definition VERSION_MAX_AGE :: nat where "VERSION_MAX_AGE = 3600"

text \<open>\<open>update_server_context\<close> maps the file anew; where it cannot be opened or is empty the server exits.\<close>

definition update_server_context :: "(string \<rightharpoonup> byte list) \<Rightarrow> server_ctx_t \<Rightarrow> server_ctx_t option" where
  "update_server_context fs s = (case fs (firmware_name s) of None \<Rightarrow> None
     | Some bs \<Rightarrow> if bs = [] then None else Some (s\<lparr>mapped_file := bs\<rparr>))"

definition mapped_file_manifest :: "server_ctx_t \<Rightarrow> manifest_t" where
  "mapped_file_manifest s = manifest_of_bytes (take sizeof_manifest (mapped_file s))"

definition set_mapped_manifest :: "manifest_t \<Rightarrow> server_ctx_t \<Rightarrow> server_ctx_t" where
  "set_mapped_manifest mt s = s\<lparr>mapped_file := manifest_bytes mt @ drop sizeof_manifest (mapped_file s)\<rparr>"

text \<open>The fields of a \<open>receiver_msg_t\<close> in the data of a request.\<close>

abbreviation req_udid :: "byte list \<Rightarrow> udid_t" where "req_udid raw \<equiv> msg_udid (msg_of_bytes raw)"
abbreviation req_nonce :: "byte list \<Rightarrow> nonce_t" where "req_nonce raw \<equiv> msg_nonce (msg_of_bytes raw)"
abbreviation req_version :: "byte list \<Rightarrow> version_t" where "req_version raw \<equiv> msg_version (msg_of_bytes raw)"
abbreviation req_offset :: "byte list \<Rightarrow> address_t" where "req_offset raw \<equiv> msg_offset (msg_of_bytes raw)"

section \<open>The firmware\<close>

text \<open>
  The manifest is signed for a request whose device or nonce is not the one it is signed for. The resource of the full image
  sets the size of what is sent (\<open>full\<close>), that of differences does not.
\<close>

definition firmware_sign ::
  "'d sec_iface \<Rightarrow> byte list \<Rightarrow> bool \<Rightarrow> byte list \<Rightarrow> server_ctx_t \<Rightarrow> (pull_error \<times> server_ctx_t) option" where
  "firmware_sign sec key full raw s =
     (let mt = mapped_file_manifest s in
      if sm_udid (server mt) \<noteq> req_udid raw \<or> sm_nonce (server mt) \<noteq> req_nonce raw
      then (let mt = set_udid_impl mt (req_udid raw);
                mt = set_nonce_impl mt (req_nonce raw);
                mt = set_diff_version_impl mt (req_version raw);
                mt = (if full then set_prop_size_impl mt (word_of_nat (length (mapped_file s) - sizeof_manifest)) else mt)
            in map_option (\<lambda>(err, mt, _). (err, set_mapped_manifest mt s)) (sign_manifest_server sec mt key (replicate 64 0)))
      else Some (PULL_SUCCESS, s))"

text \<open>The block of \<open>data\<close> that the request asks for, the first one of 256 bytes where it has no block option.\<close>

definition requested_block :: "('q, 'p) server_lib \<Rightarrow> 'q \<Rightarrow> nat \<times> nat" where
  "requested_block lib q = (case srv_block2 lib q of None \<Rightarrow> (0, 4) | Some b \<Rightarrow> b)"

definition send_block :: "('q, 'p) server_lib \<Rightarrow> nat \<times> nat \<Rightarrow> nat \<Rightarrow> byte list \<Rightarrow> 'p \<Rightarrow> 'p" where
  "send_block lib blk len data p =
     (case srv_write_block_opt lib blk len p of (ok, (num, szx), p) \<Rightarrow>
        if \<not> ok then srv_set_code lib 400 p
        else (case srv_add_block lib data num szx p of (ok, p) \<Rightarrow> if \<not> ok then srv_set_code lib 400 p else p))"

definition octet_response :: "('q, 'p) server_lib \<Rightarrow> 'p \<Rightarrow> 'p" where
  "octet_response lib p = srv_add_option lib OPTION_CONTENT_TYPE (srv_encode lib OCTET_STREAM) (srv_set_code lib 205 p)"

definition resource_firmware_of ::
  "bool \<Rightarrow> 'd sec_iface \<Rightarrow> byte list \<Rightarrow> ('q, 'p) server_lib \<Rightarrow> 'q \<Rightarrow> 'p \<Rightarrow> server_ctx_t \<Rightarrow> ('p \<times> server_ctx_t) option" where
  "resource_firmware_of full sec key lib q p s =
     (case srv_get_data lib q of None \<Rightarrow> Some (srv_set_code lib 400 p, s)
      | Some raw \<Rightarrow>
        if length raw \<noteq> sizeof_receiver_msg then Some (srv_set_code lib 400 p, s)
        else if length (mapped_file s) < sizeof_manifest then None
        else Option.bind (firmware_sign sec key full raw s) (\<lambda>(err, s).
          if err \<noteq> PULL_SUCCESS then Some (srv_set_code lib 400 p, s)
          else (let p = octet_response lib p; off = unat (req_offset raw) in
            if length (mapped_file s) \<le> off then Some (srv_set_code lib 404 p, s)
            else (let data = drop off (mapped_file s) in
              Some (send_block lib (requested_block lib q) (length data) data p, s)))))"

definition resource_firmware ::
  "'d sec_iface \<Rightarrow> byte list \<Rightarrow> ('q, 'p) server_lib \<Rightarrow> 'q \<Rightarrow> 'p \<Rightarrow> server_ctx_t \<Rightarrow> ('p \<times> server_ctx_t) option" where
  "resource_firmware = resource_firmware_of True"

definition resource_firmware_diff ::
  "'d sec_iface \<Rightarrow> byte list \<Rightarrow> ('q, 'p) server_lib \<Rightarrow> 'q \<Rightarrow> 'p \<Rightarrow> server_ctx_t \<Rightarrow> ('p \<times> server_ctx_t) option" where
  "resource_firmware_diff = resource_firmware_of False"

section \<open>The other resources\<close>

definition resource_version :: "('q, 'p) server_lib \<Rightarrow> 'q \<Rightarrow> 'p \<Rightarrow> server_ctx_t \<Rightarrow> ('p \<times> server_ctx_t) option" where
  "resource_version lib q p s =
     (if length (mapped_file s) < sizeof_manifest then None
      else (let p = srv_set_code lib 205 p;
                p = (case srv_observer lib q of None \<Rightarrow> p | Some n \<Rightarrow> srv_add_option lib OPTION_OBSERVE (srv_encode lib n) p);
                p = srv_add_option lib OPTION_CONTENT_TYPE (srv_encode lib OCTET_STREAM) p;
                p = srv_add_option lib OPTION_MAXAGE (srv_encode lib VERSION_MAX_AGE) p
            in Some (srv_add_data lib (le_enc 2 (unat (get_version_impl (mapped_file_manifest s)))) p, s)))"

definition resource_version_invalid :: "('q, 'p) server_lib \<Rightarrow> 'p \<Rightarrow> 'p" where
  "resource_version_invalid lib p =
     srv_add_data lib (le_enc 2 0) (srv_add_option lib OPTION_MAXAGE (srv_encode lib VERSION_MAX_AGE) (octet_response lib p))"

text \<open>The version is an \<open>uint16_t\<close> and wraps.\<close>

definition resource_next_version ::
  "'d sec_iface \<Rightarrow> byte list \<Rightarrow> ('q, 'p) server_lib \<Rightarrow> 'p \<Rightarrow> server_ctx_t \<Rightarrow> ('p \<times> server_ctx_t) option" where
  "resource_next_version sec key lib p s =
     (if length (mapped_file s) < sizeof_manifest then None
      else (let p = srv_set_code lib 205 p; mt = mapped_file_manifest s; v = get_version_impl mt + 1 in
        map_option (\<lambda>(err, mt, _). (if err \<noteq> PULL_SUCCESS then srv_set_code lib 400 p else srv_add_data lib (le_enc 2 (unat v)) p,
            set_mapped_manifest mt s))
          (sign_manifest_vendor sec (set_version_impl mt v) key (replicate 64 0))))"

definition invalid_manifest :: manifest_t where
  "invalid_manifest = set_size_impl (set_version_impl (set_appid_impl zero_manifest 0xffff) 0xffff) 0xffffffff"

definition resource_firmware_invalid_size :: "('q, 'p) server_lib \<Rightarrow> 'q \<Rightarrow> 'p \<Rightarrow> 'p" where
  "resource_firmware_invalid_size lib q p =
     send_block lib (requested_block lib q) sizeof_manifest (manifest_bytes invalid_manifest) (octet_response lib p)"

text \<open>
  A block whose number is a multiple of 42 is taken from a position that is 42 bytes too far; the length that is given
  reaches 42 bytes beyond the end of the mapping, whose content there is \<open>beyond\<close>.
\<close>

definition resource_firmware_invalid_signature ::
  "('q, 'p) server_lib \<Rightarrow> byte list \<Rightarrow> 'q \<Rightarrow> 'p \<Rightarrow> server_ctx_t \<Rightarrow> 'p" where
  "resource_firmware_invalid_signature lib beyond q p s =
     (let len = length (mapped_file s) in
      case srv_write_block_opt lib (requested_block lib q) len (octet_response lib p) of (ok, (num, szx), p) \<Rightarrow>
        if \<not> ok then srv_set_code lib 400 p
        else (case srv_add_block lib (if num mod 42 = 0 then drop 42 (mapped_file s) @ take 42 beyond else mapped_file s) num szx p of (ok, p) \<Rightarrow>
          if \<not> ok then srv_set_code lib 400 p else p))"

definition resource_echo :: "('q, 'p) server_lib \<Rightarrow> 'q \<Rightarrow> 'p \<Rightarrow> 'p" where
  "resource_echo lib q p = (case srv_get_data lib q of None \<Rightarrow> srv_set_code lib 400 p
     | Some data \<Rightarrow> if data = [] then srv_set_code lib 400 p
       else (let p = srv_set_code lib 205 p;
                 p = (case srv_content_type lib q of None \<Rightarrow> p | Some v \<Rightarrow> srv_add_option lib OPTION_CONTENT_TYPE v p)
             in srv_add_data lib data p))"

text \<open>The verification of the client's key in \<open>network.c\<close>.\<close>

definition verify_key :: "byte list \<Rightarrow> byte list \<Rightarrow> byte list \<Rightarrow> byte list \<Rightarrow> nat \<Rightarrow> int" where
  "verify_key client_x client_y x y n = (if take n x = take n client_x \<and> take n y = take n client_y then 1 else -1)"

section \<open>Serving a file in blocks\<close>

text \<open>
  What the handlers rely on of libcoap: \<open>view\<close> is the code and the payload of a response. A block option for a block that is not empty can be written,
  and the block is added to a response that has no payload yet.
\<close>

locale server_contract =
  fixes lib :: "('q, 'p) server_lib"
    and view :: "'p \<Rightarrow> nat \<times> byte list"
  assumes set_code: "view (srv_set_code lib c p) = (c, snd (view p))"
    and add_option: "view (srv_add_option lib n v p) = view p"
    and write_block_opt: "num * 2 ^ (szx + 4) < len \<Longrightarrow> szx \<le> 6 \<Longrightarrow>
      \<exists>p'. srv_write_block_opt lib (num, szx) len p = (True, (num, szx), p') \<and> view p' = view p"
    and add_block: "snd (view p) = [] \<Longrightarrow> num * 2 ^ (szx + 4) < length data \<Longrightarrow> szx \<le> 6 \<Longrightarrow>
      \<exists>p'. srv_add_block lib data num szx p = (True, p') \<and>
        view p' = (fst (view p), take (2 ^ (szx + 4)) (drop (num * 2 ^ (szx + 4)) data))"
begin

lemma send_block_ok:
  assumes "snd (view p) = []" and "num * 2 ^ (szx + 4) < length data" and "szx \<le> 6"
  shows "view (send_block lib (num, szx) (length data) data p) = (fst (view p), take (2 ^ (szx + 4)) (drop (num * 2 ^ (szx + 4)) data))"
proof -
  obtain p1 where p1: "srv_write_block_opt lib (num, szx) (length data) p = (True, (num, szx), p1)" "view p1 = view p"
    using write_block_opt [OF assms(2,3)] by blast
  then have "snd (view p1) = []" using assms(1) by simp
  from add_block [OF this assms(2,3)] obtain p2 where "srv_add_block lib data num szx p1 = (True, p2)"
    "view p2 = (fst (view p1), take (2 ^ (szx + 4)) (drop (num * 2 ^ (szx + 4)) data))" by blast
  with p1 show ?thesis by (simp add: send_block_def)
qed

end

text \<open>The requests of one transfer, each with a fresh response.\<close>

fun serve :: "('q \<Rightarrow> 'p \<Rightarrow> server_ctx_t \<Rightarrow> ('p \<times> server_ctx_t) option) \<Rightarrow> 'p \<Rightarrow> 'q list \<Rightarrow> server_ctx_t \<Rightarrow> ('p list \<times> server_ctx_t) option" where
  "serve h p0 [] s = Some ([], s)"
| "serve h p0 (q # qs) s = Option.bind (h q p0 s) (\<lambda>(p, s). Option.bind (serve h p0 qs s) (\<lambda>(ps, s). Some (p # ps, s)))"

text \<open>\<open>asks raw k q\<close>: the request \<open>q\<close> is for block \<open>k\<close> of 256 bytes, with the message \<open>raw\<close>.\<close>

definition asks :: "('q, 'p) server_lib \<Rightarrow> byte list \<Rightarrow> nat \<Rightarrow> 'q \<Rightarrow> bool" where
  "asks lib raw k q \<longleftrightarrow> srv_get_data lib q = Some raw \<and> srv_block2 lib q = Some (k, 4)"

text \<open>The manifest that is made for a message.\<close>

definition request_manifest :: "byte list \<Rightarrow> nat \<Rightarrow> manifest_t \<Rightarrow> manifest_t" where
  "request_manifest raw n mt = mt\<lparr>server := (server mt)\<lparr>sm_udid := req_udid raw, sm_nonce := req_nonce raw,
     sm_diff_version := req_version raw, sm_prop_size := word_of_nat n\<rparr>\<rparr>"

definition signed_for :: "byte list \<Rightarrow> server_ctx_t \<Rightarrow> bool" where
  "signed_for raw s \<longleftrightarrow> sizeof_manifest \<le> length (mapped_file s) \<and>
     sm_udid (server (mapped_file_manifest s)) = req_udid raw \<and> sm_nonce (server (mapped_file_manifest s)) = req_nonce raw"

lemma mapped_manifest: "length m = sizeof_manifest \<Longrightarrow> mapped_file s = m @ fw \<Longrightarrow> mapped_file_manifest s = manifest_of_bytes m"
  by (simp add: mapped_file_manifest_def)

context server_contract
begin

lemma serve_signed:
  assumes "signed_for raw s" and "length raw = sizeof_receiver_msg" and "req_offset raw = 0" and "snd (view p0) = []"
    and "\<forall>k. asks lib raw k (q k)" and "n \<le> nblocks (mapped_file s)"
  shows "\<exists>ps. serve (resource_firmware sec key lib) p0 (map q [k..<n]) s = Some (ps, s) \<and>
    map view ps = map (\<lambda>i. (205, take 256 (drop (256 * i) (mapped_file s)))) [k..<n]"
proof (induction "n - k" arbitrary: k)
  case 0
  then show ?case by simp
next
  case (Suc d)
  have d: "d = n - Suc k" using Suc.hyps(2) by simp
  have k: "k < n" "[k..<n] = k # [Suc k..<n]" using Suc.hyps(2) by (simp_all add: upt_conv_Cons)
  then have lt: "k * 2 ^ (4 + 4) < length (mapped_file s)" using assms(6) by (simp add: nblocks_def)
  let ?p = "send_block lib (k, 4) (length (mapped_file s)) (mapped_file s) (octet_response lib p0)"
  have h: "resource_firmware sec key lib (q k) p0 s = Some (?p, s)"
    using assms(1-3,5) lt
    by (auto simp: resource_firmware_def resource_firmware_of_def firmware_sign_def signed_for_def asks_def requested_block_def Let_def)
  have "view (octet_response lib p0) = (205, [])" using assms(4) by (simp add: octet_response_def add_option set_code)
  then have v: "view ?p = (205, take 256 (drop (256 * k) (mapped_file s)))"
    using send_block_ok [of "octet_response lib p0" k 4 "mapped_file s"] lt by (simp add: mult.commute)
  obtain ps where "serve (resource_firmware sec key lib) p0 (map q [Suc k..<n]) s = Some (ps, s)"
    "map view ps = map (\<lambda>i. (205, take 256 (drop (256 * i) (mapped_file s)))) [Suc k..<n]"
    using Suc.hyps(1) [of "Suc k"] d by auto
  with h v k(2) show ?case by simp
qed

end

text \<open>The first request signs the manifest for its message; afterwards nothing changes.\<close>

lemma resource_firmware_signs:
  assumes "srv_get_data lib q = Some raw" and "length raw = sizeof_receiver_msg" and "sizeof_manifest \<le> length (mapped_file s)"
    and "firmware_sign sec key True raw s = Some (PULL_SUCCESS, s')" and "signed_for raw s'"
  shows "resource_firmware sec key lib q p s = resource_firmware sec key lib q p s'"
proof -
  have "firmware_sign sec key True raw s' = Some (PULL_SUCCESS, s')"
    using assms(5) by (simp add: firmware_sign_def signed_for_def Let_def)
  with assms show ?thesis by (simp add: resource_firmware_def resource_firmware_of_def signed_for_def)
qed

context uecc_keys
begin

lemma firmware_sign_ok:
  assumes "keypair key pub" and "mapped_file s = manifest_bytes mt @ fw" and "wf_manifest mt"
    and "sm_udid (server mt) \<noteq> req_udid raw \<or> sm_nonce (server mt) \<noteq> req_nonce raw"
  shows "\<exists>sig mt'. firmware_sign (tinycrypt_iface lib c0) key True raw s = Some (PULL_SUCCESS, s\<lparr>mapped_file := manifest_bytes mt' @ fw\<rparr>) \<and>
    mt' = (request_manifest raw (length fw) mt)\<lparr>server_signature_r := take 32 sig, server_signature_s := drop 32 sig\<rparr> \<and> length sig = 64 \<and>
    uECC_verify lib pub (hash (server_bytes (server (request_manifest raw (length fw) mt)))) 32 sig = 1 \<and>
    signed_for raw (s\<lparr>mapped_file := manifest_bytes mt' @ fw\<rparr>)"
proof -
  let ?mt = "request_manifest raw (length fw) mt"
  have wf: "wf_manifest ?mt" using assms(3) by (simp add: request_manifest_def wf_manifest_def)
  obtain sig where s: "sign_manifest_server (tinycrypt_iface lib c0) ?mt key (replicate 64 0) =
      Some (PULL_SUCCESS, ?mt\<lparr>server_signature_r := take 32 sig, server_signature_s := drop 32 sig\<rparr>, sig)" "length sig = 64"
      "uECC_verify lib pub (hash (server_bytes (server ?mt))) 32 sig = 1"
    using sign_server [OF assms(1) wf, of "replicate 64 0"] by auto
  let ?mt' = "?mt\<lparr>server_signature_r := take 32 sig, server_signature_s := drop 32 sig\<rparr>"
  have m: "mapped_file_manifest s = mt" using assms(2,3) by (simp add: mapped_file_manifest_def manifest_of_manifest_bytes)
  have n: "length (mapped_file s) - sizeof_manifest = length fw" using assms(2,3) by simp
  have "set_prop_size_impl (set_diff_version_impl (set_nonce_impl (set_udid_impl mt (req_udid raw)) (req_nonce raw)) (req_version raw))
      (word_of_nat (length fw)) = ?mt"
    by (simp add: request_manifest_def set_udid_impl_def set_nonce_impl_def set_diff_version_impl_def set_prop_size_impl_def)
  then have "firmware_sign (tinycrypt_iface lib c0) key True raw s = Some (PULL_SUCCESS, s\<lparr>mapped_file := manifest_bytes ?mt' @ fw\<rparr>)"
    using assms(2-4) s(1) m n by (auto simp: firmware_sign_def set_mapped_manifest_def Let_def)
  moreover have "wf_manifest ?mt'" using wf s(2) by (simp add: wf_manifest_def)
  then have "signed_for raw (s\<lparr>mapped_file := manifest_bytes ?mt' @ fw\<rparr>)"
    by (simp add: signed_for_def mapped_file_manifest_def manifest_of_manifest_bytes request_manifest_def)
  ultimately show ?thesis using s(2,3) by blast
qed

end

text \<open>A server with a key, over the libraries.\<close>

locale signing_server = server_contract lib view + uecc_keys tc hash st make_key keypair
  for lib :: "('q, 'p) server_lib" and view and tc :: "('t, 'a) tinycrypt_lib" and hash st
    and make_key :: "'r \<Rightarrow> bool \<times> byte list \<times> byte list \<times> 'r" and keypair
begin

lemma serve_ok:
  assumes "keypair key pub" and "length pub = 64" and "mapped_file s = manifest_bytes mt @ fw" and "wf_manifest mt" and "fw \<noteq> []"
    and "sm_udid (server mt) \<noteq> req_udid raw \<or> sm_nonce (server mt) \<noteq> req_nonce raw"
    and "length raw = sizeof_receiver_msg" and "req_offset raw = 0" and "snd (view p0) = []" and "\<forall>k. asks lib raw k (q k)"
  shows "\<exists>sig mt' ps. mt' = (request_manifest raw (length fw) mt)\<lparr>server_signature_r := take 32 sig, server_signature_s := drop 32 sig\<rparr> \<and>
    length sig = 64 \<and> wf_manifest mt' \<and>
    serve (resource_firmware (tinycrypt_iface tc c0) key lib) p0 (map q [0..<nblocks (mapped_file s)]) s =
      Some (ps, s\<lparr>mapped_file := manifest_bytes mt' @ fw\<rparr>) \<and>
    map view ps = map (Pair 205) (file_blocks (manifest_bytes mt' @ fw) 0) \<and>
    uECC_verify tc pub (hash (server_bytes (server mt'))) 32 sig = 1"
proof -
  let ?sec = "tinycrypt_iface tc c0"
  obtain sig mt' where g: "firmware_sign ?sec key True raw s = Some (PULL_SUCCESS, s\<lparr>mapped_file := manifest_bytes mt' @ fw\<rparr>)"
    "mt' = (request_manifest raw (length fw) mt)\<lparr>server_signature_r := take 32 sig, server_signature_s := drop 32 sig\<rparr>" "length sig = 64"
    "uECC_verify tc pub (hash (server_bytes (server (request_manifest raw (length fw) mt)))) 32 sig = 1"
    "signed_for raw (s\<lparr>mapped_file := manifest_bytes mt' @ fw\<rparr>)"
    using firmware_sign_ok [OF assms(1,3,4,6), of c0] by blast
  let ?s = "s\<lparr>mapped_file := manifest_bytes mt' @ fw\<rparr>"
  have wf: "wf_manifest mt'" using assms(4) g(2,3) by (simp add: request_manifest_def wf_manifest_def)
  let ?n = "nblocks (mapped_file s)"
  have n: "?n = nblocks (mapped_file ?s)" using assms(3,4) wf by (simp add: nblocks_def)
  obtain ps where ps: "serve (resource_firmware ?sec key lib) p0 (map q [0..<?n]) ?s = Some (ps, ?s)"
    "map view ps = map (\<lambda>i. (205, take 256 (drop (256 * i) (mapped_file ?s)))) [0..<?n]"
    using serve_signed [OF g(5) assms(7-10) eq_refl [OF n], of ?sec key 0] by blast
  have "srv_get_data lib (q 0) = Some raw" using assms(10) by (simp add: asks_def)
  from resource_firmware_signs [OF this assms(7) _ g(1,5)] have first: "resource_firmware ?sec key lib (q 0) p s = resource_firmware ?sec key lib (q 0) p ?s" for p
    using assms(3,4) by simp
  have "0 < length fw" using assms(5) by simp
  then have "256 \<le> length (mapped_file s) + 255" using assms(3) by (simp del: length_greater_0_conv)
  then have "0 < ?n" unfolding nblocks_def by (simp add: div_greater_zero_iff)
  then have "[0..<?n] = 0 # [1..<?n]" by (simp add: upt_conv_Cons)
  then have "serve (resource_firmware ?sec key lib) p0 (map q [0..<?n]) s = Some (ps, ?s)" using ps(1) first by simp
  moreover have "map view ps = map (Pair 205) (file_blocks (manifest_bytes mt' @ fw) 0)"
    using ps(2) n by (simp add: file_blocks_def)
  ultimately show ?thesis using g(2-4) wf by (intro exI [of _ sig] exI [of _ mt'] exI [of _ ps]) simp
qed

end

section \<open>A device and the server\<close>

lemma put_msg_fields:
  assumes "length msg = sizeof_receiver_msg"
  shows "length (put_msg u v n msg) = sizeof_receiver_msg" "req_udid (put_msg u v n msg) = u" "req_nonce (put_msg u v n msg) = n"
    "req_version (put_msg u v n msg) = v" "req_offset (put_msg u v n msg) = req_offset msg"
proof -
  obtain a b c d where m: "msg = a @ b @ c @ d" "length a = 4" "length b = 4" "length c = 4" "length d = 4"
    using assms that [of "take 4 msg" "take 4 (drop 4 msg)" "take 4 (drop 8 msg)" "drop 12 msg"]
    by (simp add: sizeof_receiver_msg_def flip: append_assoc take_add)
  have p: "put_msg u v n msg = le_enc 2 (unat u) @ drop 2 a @ le_enc 4 (unat n) @ le_enc 2 (unat v) @ drop 2 c @ d"
    using m by (simp add: put_msg_def splice_at_def numeral_2_eq_2)
  show "length (put_msg u v n msg) = sizeof_receiver_msg" unfolding p using m by (simp add: sizeof_receiver_msg_def)
  show "req_udid (put_msg u v n msg) = u" "req_nonce (put_msg u v n msg) = n" "req_version (put_msg u v n msg) = v"
    unfolding p using m by (simp_all add: msg_of_bytes_def block_layout)
  show "req_offset (put_msg u v n msg) = req_offset msg"
    unfolding p using m by (simp add: msg_of_bytes_def block_append_skip block_all)
qed

section \<open>Concrete requests and responses\<close>

text \<open>A request is a message and a block number, a response its code and payload; blocks are cut as RFC 7959 says.\<close>

definition demo_server_lib :: "(byte list \<times> nat, nat \<times> byte list) server_lib" where
  "demo_server_lib = \<lparr>srv_get_data = (\<lambda>q. Some (fst q)), srv_block2 = (\<lambda>q. Some (snd q, 4)), srv_observer = (\<lambda>_. None),
     srv_content_type = (\<lambda>_. None), srv_encode = (\<lambda>n. le_enc 2 n), srv_set_code = (\<lambda>c p. (c, snd p)), srv_add_option = (\<lambda>_ _ p. p),
     srv_write_block_opt = (\<lambda>(num, szx) len p. (num * 2 ^ (szx + 4) < len, (num, szx), p)),
     srv_add_block = (\<lambda>data num szx p. (True, fst p, take (2 ^ (szx + 4)) (drop (num * 2 ^ (szx + 4)) data))),
     srv_add_data = (\<lambda>d p. (fst p, d))\<rparr>"

interpretation demo_server: signing_server demo_server_lib "\<lambda>p. p" demo_uecc demo_hash "(=)" demo_make_key demo_pair
  by unfold_locales (simp_all add: demo_server_lib_def)

lemma demo_asks: "asks demo_server_lib raw k (raw, k)"
  by (simp add: asks_def demo_server_lib_def)

text \<open>An image whose server key is that of \<open>demo_key\<close> 2, signed by the vendor with key 1.\<close>

definition demo_server_manifest :: manifest_t where
  "demo_server_manifest = (let mt = demo_unsigned 4 demo_firmware;
      mt = set_server_key_y_impl (set_server_key_x_impl mt (replicate 32 2)) (replicate 32 2);
      vs = demo_sign (replicate 64 1) (demo_hash (vendor_bytes (vendor mt)))
    in mt\<lparr>vendor_signature_r := take 32 vs, vendor_signature_s := drop 32 vs\<rparr>)"

definition demo_server_ctx :: server_ctx_t where
  "demo_server_ctx = \<lparr>firmware_name = ''firmware.bin'', mapped_file = manifest_bytes demo_server_manifest @ demo_firmware\<rparr>"

definition demo_server_fsm :: "(posix_obj, nat) fsm_ctx" where
  "demo_server_fsm = demo_fsm\<lparr>fsm_sf := demo_sf\<lparr>keystore := \<lparr>ks_x = replicate 32 1, ks_y = replicate 32 1\<rparr>\<rparr>\<rparr>"

lemma demo_server_manifest_fields:
  "wf_manifest demo_server_manifest" "vm_server_key_x (vendor demo_server_manifest) = take 32 (replicate 64 2)"
  "vm_server_key_y (vendor demo_server_manifest) = drop 32 (replicate 64 2)" "vm_appid (vendor demo_server_manifest) = 5"
  "vm_offset (vendor demo_server_manifest) = 256" "vm_size (vendor demo_server_manifest) = 1024" "vm_version (vendor demo_server_manifest) = 4"
  "sm_udid (server demo_server_manifest) = 0"
  "vendor_signed (tinycrypt_iface demo_uecc demo_ctx0) demo_hash \<lparr>ks_x = replicate 32 1, ks_y = replicate 32 1\<rparr> demo_server_manifest"
proof -
  note d = demo_server_manifest_def demo_unsigned_def manifest_setters zero_manifest_fields splice_at_0 Let_def demo_sign_def
  have z: "length (server_signature_r zero_manifest) = 32" "length (server_signature_s zero_manifest) = 32" "sm_udid (server zero_manifest) = 0"
    using wf_zero_manifest by (simp add: wf_manifest_def, simp add: wf_manifest_def, code_simp)
  show "wf_manifest demo_server_manifest" using z by (simp add: d wf_manifest_def wf_vendor_def)
  show "vm_server_key_x (vendor demo_server_manifest) = take 32 (replicate 64 2)"
    "vm_server_key_y (vendor demo_server_manifest) = drop 32 (replicate 64 2)" "vm_appid (vendor demo_server_manifest) = 5"
    "vm_offset (vendor demo_server_manifest) = 256" "vm_size (vendor demo_server_manifest) = 1024" "vm_version (vendor demo_server_manifest) = 4"
    "sm_udid (server demo_server_manifest) = 0"
    using z by (simp_all add: d length_demo_firmware)
  show "vendor_signed (tinycrypt_iface demo_uecc demo_ctx0) demo_hash \<lparr>ks_x = replicate 32 1, ks_y = replicate 32 1\<rparr> demo_server_manifest"
    by (simp add: vendor_signed_def tinycrypt_iface_def tinycrypt_ecc_verify_def tinycrypt_get_digest_size_def demo_uecc_def demo_tinycrypt_def d
        flip: replicate_add)
qed

lemma demo_server_pair: "demo_pair (replicate 32 2) (replicate 64 2)"
  by (simp add: demo_pair_def flip: replicate_add)

section \<open>Properties\<close>

text \<open>
  C21. A transfer. A message of a device or with a nonce for which the manifest is not signed, and requests for the blocks of the
  file with it: the first request signs the manifest for the message, no later one changes it, every response has code 2.05, and the payloads are
  the blocks of one image. Its manifest has the vendor part of the file, names device, nonce and version of the message and the size
  of the rest of the file, and its server part verifies with the public key that belongs to the key of the server.
\<close>

theorem server_transfer:
  assumes "signing_server lib view tc hash st make_key keypair" and "keypair key pub" and "length pub = 64"
    and "mapped_file s = manifest_bytes mt @ fw" and "wf_manifest mt" and "fw \<noteq> []"
    and "vm_server_key_x (vendor mt) = take 32 pub" and "vm_server_key_y (vendor mt) = drop 32 pub"
    and "sm_udid (server mt) \<noteq> req_udid raw \<or> sm_nonce (server mt) \<noteq> req_nonce raw"
    and "length raw = sizeof_receiver_msg" and "req_offset raw = 0" and "snd (view p0) = []" and "\<forall>k. asks lib raw k (q k)"
  shows "\<exists>mt' ps. serve (resource_firmware (tinycrypt_iface tc c0) key lib) p0 (map q [0..<nblocks (mapped_file s)]) s =
      Some (ps, s\<lparr>mapped_file := manifest_bytes mt' @ fw\<rparr>) \<and>
    map view ps = map (Pair 205) (file_blocks (manifest_bytes mt' @ fw) 0) \<and> concat (map (snd \<circ> view) ps) = manifest_bytes mt' @ fw \<and>
    vendor mt' = vendor mt \<and> vendor_signature_r mt' = vendor_signature_r mt \<and> vendor_signature_s mt' = vendor_signature_s mt \<and>
    sm_udid (server mt') = req_udid raw \<and> sm_nonce (server mt') = req_nonce raw \<and> sm_diff_version (server mt') = req_version raw \<and>
    sm_prop_size (server mt') = word_of_nat (length fw) \<and> wf_manifest mt' \<and> server_signed (tinycrypt_iface tc c0) hash mt'"
proof -
  obtain sig mt' ps where s: "mt' = (request_manifest raw (length fw) mt)\<lparr>server_signature_r := take 32 sig, server_signature_s := drop 32 sig\<rparr>"
    "length sig = 64" "wf_manifest mt'"
    "serve (resource_firmware (tinycrypt_iface tc c0) key lib) p0 (map q [0..<nblocks (mapped_file s)]) s =
      Some (ps, s\<lparr>mapped_file := manifest_bytes mt' @ fw\<rparr>)"
    "map view ps = map (Pair 205) (file_blocks (manifest_bytes mt' @ fw) 0)"
    "uECC_verify tc pub (hash (server_bytes (server mt'))) 32 sig = 1"
    using signing_server.serve_ok [OF assms(1-6,9-13), of c0] by blast
  have "map (snd \<circ> view) ps = file_blocks (manifest_bytes mt' @ fw) 0"
    using arg_cong [OF s(5), of "map snd"] by (simp add: comp_def)
  then have "concat (map (snd \<circ> view) ps) = manifest_bytes mt' @ fw" by (simp add: concat_file_blocks)
  moreover have "server_signed (tinycrypt_iface tc c0) hash mt'"
    using s(1,2,6) assms(3,7,8)
    by (simp add: server_signed_def tinycrypt_iface_def tinycrypt_ecc_verify_def tinycrypt_get_digest_size_def request_manifest_def Let_def)
  ultimately show ?thesis using s(1,3-5) by (intro exI [of _ mt'] exI [of _ ps]) (simp add: request_manifest_def)
qed

theorem server_transfer_witness:
  "\<exists>mt' ps. serve (resource_firmware (tinycrypt_iface demo_uecc demo_ctx0) (replicate 32 2) demo_server_lib) (0, [])
      (map (\<lambda>k. (7 # replicate 15 0, k)) [0..<nblocks (mapped_file demo_server_ctx)]) demo_server_ctx =
      Some (ps, demo_server_ctx\<lparr>mapped_file := manifest_bytes mt' @ demo_firmware\<rparr>) \<and>
    map (\<lambda>p. p) ps = map (Pair 205) (file_blocks (manifest_bytes mt' @ demo_firmware) 0) \<and>
    concat (map (snd \<circ> (\<lambda>p. p)) ps) = manifest_bytes mt' @ demo_firmware \<and>
    vendor mt' = vendor demo_server_manifest \<and> vendor_signature_r mt' = vendor_signature_r demo_server_manifest \<and>
    vendor_signature_s mt' = vendor_signature_s demo_server_manifest \<and>
    sm_udid (server mt') = req_udid (7 # replicate 15 0) \<and> sm_nonce (server mt') = req_nonce (7 # replicate 15 0) \<and>
    sm_diff_version (server mt') = req_version (7 # replicate 15 0) \<and>
    sm_prop_size (server mt') = word_of_nat (length demo_firmware) \<and> wf_manifest mt' \<and>
    server_signed (tinycrypt_iface demo_uecc demo_ctx0) demo_hash mt'"
proof (rule server_transfer [OF demo_server.signing_server_axioms demo_server_pair _ _ demo_server_manifest_fields(1) _ demo_server_manifest_fields(2,3)])
  have "req_udid (7 # replicate 15 0) = 7" by code_simp
  then show "sm_udid (server demo_server_manifest) \<noteq> req_udid (7 # replicate 15 0) \<or>
      sm_nonce (server demo_server_manifest) \<noteq> req_nonce (7 # replicate 15 0)"
    by (simp add: demo_server_manifest_fields)
  show "req_offset (7 # replicate 15 0) = 0" by code_simp
qed (simp_all add: demo_server_ctx_def demo_firmware_def sizeof_receiver_msg_def demo_asks)

text \<open>
  C20. A device and the server. An idle device is offered the version of the manifest, makes its request, and the answers of the server to it are
  given to the machine. The server signs an image for the request that passes both signature checks, with the version of the device as
  its base version. The machine accepts it, but stores the manifest with the base version cleared and verifies what is stored: the
  update ends with the reboot only if the server's signature holds for the cleared manifest as well and the firmware has the signed digest. For a
  device of version 0 nothing is cleared.
\<close>

theorem server_device_update:
  assumes "signing_server lib view tc hash st make_key keypair" and "keypair key pub" and "length pub = 64"
    and "mapped_file s = manifest_bytes mt @ fw" and "wf_manifest mt"
    and "vm_server_key_x (vendor mt) = take 32 pub" and "vm_server_key_y (vendor mt) = drop 32 pub"
    and "vm_appid (vendor mt) = sf_appid (fsm_sf ctx)" and "vendor_signed (tinycrypt_iface tc c0) hash (keystore (fsm_sf ctx)) mt"
    and "vm_offset (vendor mt) = word_of_nat sizeof_manifest" and "vm_size (vendor mt) = word_of_nat (length fw)"
    and "fsm_version ctx < vm_version (vendor mt)" and "sm_udid (server mt) \<noteq> sf_udid (fsm_sf ctx)"
    and "snd (view p0) = []" and "\<forall>raw k. asks lib raw k (q raw k)"
    and "pl = posix_platform tc c0 slots sr rd"
    and "fsm_state ctx = STATE_IDLE" and "fsm_processed ctx = 0" and "wf_static st0"
    and "length (is_buffer st0) = FSM_BUFFER_SIZE" and "length msg = sizeof_receiver_msg" and "req_offset msg = 0"
    and "FSM_BUFFER_SIZE \<le> length fw" and "N = sizeof_manifest + length fw"
    and "active_slots slots \<noteq> []" and "\<forall>x\<in>set (active_slots slots). slot_id x \<in> posix_valid_ids \<and>
      N \<le> length (posix_content (slot_id x) w) \<and> length (posix_content (slot_id x) w) < 2 ^ 31"
    and "0 < posix_avail w"
  shows "\<exists>ctx1 ctx2 st2 raw mt' ps slot e ctx' st' w'.
    fsm pl ctx st0 (le_enc 2 (unat (vm_version (vendor mt)))) w = Some (PULL_SUCCESS, ctx1, st0, le_enc 2 (unat (vm_version (vendor mt))), w) \<and>
    fsm pl ctx1 st0 msg w = Some (PULL_SUCCESS, ctx2, st2, raw, w) \<and>
    serve (resource_firmware (tinycrypt_iface tc c0) key lib) p0 (map (q raw) [0..<nblocks (mapped_file s)]) s =
      Some (ps, s\<lparr>mapped_file := manifest_bytes mt' @ fw\<rparr>) \<and>
    authentic (tinycrypt_iface tc c0) hash (fsm_sf ctx) mt' \<and> sm_nonce (server mt') = req_nonce raw \<and>
    sm_diff_version (server mt') = fsm_version ctx \<and>
    fsm_run pl (map (snd \<circ> view) ps) ctx2 st2 w = Some (e, ctx', st', w') \<and>
    e = (if \<not> server_signed (tinycrypt_iface tc c0) hash (full_image mt') then GENERIC_ERROR
         else if hash fw = vm_digest (vendor mt) then PULL_SUCCESS else VERIFICATION_FAILED_ERROR) \<and>
    (fsm_version ctx = 0 \<longrightarrow> server_signed (tinycrypt_iface tc c0) hash (full_image mt')) \<and>
    fsm_state ctx' = (if e = PULL_SUCCESS then STATE_REBOOT else STATE_IDLE) \<and> fsm_id ctx' = slot_id slot \<and>
    slot \<in> set (active_slots slots) \<and>
    (\<forall>x\<in>set (active_slots slots). content_version (posix_content (slot_id slot) w) \<le> content_version (posix_content (slot_id x) w)) \<and>
    posix_content (slot_id slot) w' = manifest_bytes (full_image mt') @ fw @ drop N (posix_content (slot_id slot) w) \<and>
    (\<forall>j\<in>posix_valid_ids. j \<noteq> slot_id slot \<longrightarrow> posix_content j w' = posix_content j w)"
proof -
  let ?sec = "tinycrypt_iface tc c0"
  have sha: "tinycrypt_sha tc hash st" using assms(1) by (simp add: signing_server_def uecc_keys_def)
  note dev = posix_device [OF sha, of c0 slots sr rd, folded assms(16)]
  note uc = device_contract.axioms(1) [OF dev]
  have sec: "pl_sec pl = ?sec" using assms(16) by simp
  obtain nonce ctx1 ctx2 st2 where r:
    "fsm pl ctx st0 (le_enc 2 (unat (vm_version (vendor mt)))) w = Some (PULL_SUCCESS, ctx1, st0, le_enc 2 (unat (vm_version (vendor mt))), w)"
    "fsm pl ctx1 st0 msg w = Some (PULL_SUCCESS, ctx2, st2, put_msg (sf_udid (fsm_sf ctx)) (fsm_version ctx) nonce msg, w)"
    "receiving ctx2 st2 []" "fsm_sf ctx2 = fsm_sf ctx" "fsm_version ctx2 = fsm_version ctx"
    using device_contract.request_message [OF dev assms(17-20,12) eq_refl [OF assms(21) [symmetric]]] by blast
  define raw where "raw = put_msg (sf_udid (fsm_sf ctx)) (fsm_version ctx) nonce msg"
  note raw = put_msg_fields [OF assms(21), of "sf_udid (fsm_sf ctx)" "fsm_version ctx" nonce, folded raw_def]
  have len: "256 \<le> length fw" using assms(23) by (simp add: FSM_BUFFER_SIZE_def sizeof_manifest_def)
  have pre: "fw \<noteq> []" "sm_udid (server mt) \<noteq> req_udid raw \<or> sm_nonce (server mt) \<noteq> req_nonce raw" "req_offset raw = 0"
    "\<forall>k. asks lib raw k (q raw k)"
    using len raw(2,5) assms(13,15,22) by auto
  obtain sig mt' ps where t: "mt' = (request_manifest raw (length fw) mt)\<lparr>server_signature_r := take 32 sig, server_signature_s := drop 32 sig\<rparr>"
    "length sig = 64" "wf_manifest mt'"
    "serve (resource_firmware ?sec key lib) p0 (map (q raw) [0..<nblocks (mapped_file s)]) s = Some (ps, s\<lparr>mapped_file := manifest_bytes mt' @ fw\<rparr>)"
    "map view ps = map (Pair 205) (file_blocks (manifest_bytes mt' @ fw) 0)"
    "uECC_verify tc pub (hash (server_bytes (server mt'))) 32 sig = 1"
    using signing_server.serve_ok [OF assms(1-5) pre(1,2) raw(1) pre(3) assms(14) pre(4), of c0] by blast
  have blocks: "map (snd \<circ> view) ps = file_blocks (manifest_bytes mt' @ fw) 0"
    using arg_cong [OF t(5), of "map snd"] by (simp add: comp_def)
  have m: "vendor mt' = vendor mt" "sm_nonce (server mt') = req_nonce raw" "sm_diff_version (server mt') = fsm_version ctx"
    "sm_prop_size (server mt') = word_of_nat (length fw)"
    using t(1) raw(4) by (simp_all add: request_manifest_def)
  have ss: "server_signed ?sec hash mt'"
    using t(1,2,6) assms(3,6,7)
    by (simp add: server_signed_def tinycrypt_iface_def tinycrypt_ecc_verify_def tinycrypt_get_digest_size_def request_manifest_def Let_def)
  have au: "authentic ?sec hash (fsm_sf ctx) mt'"
    using ss assms(8,9) t(1) by (simp add: authentic_def vendor_signed_def request_manifest_def)
  obtain ds d where ds: "file_blocks (manifest_bytes mt' @ fw) 0 = ds @ [d]" "d \<noteq> []" "256 \<le> length (concat ds)"
    using file_blocks_last [of "manifest_bytes mt' @ fw"] t(3) pre(1) by (auto simp: sizeof_manifest_def)
  have cc: "concat ds @ d = manifest_bytes mt' @ fw"
    using arg_cong [OF ds(1), of concat] by (simp add: concat_file_blocks)
  have "sizeof_manifest \<le> N" using assms(24) by simp
  note ready = posix_slots_ready [OF sha assms(16,25,26) this, unfolded assms(24)]
  obtain slot ob w0 e ctx' st' w' where u:
    "update_contract.chosen pl posix_valid_ids posix_content posix_opened posix_avail 1 (\<lambda>i mode v. v) (\<lambda>i mode. splice_at) slot ob w w0"
    "fsm_run pl (ds @ [d]) ctx2 st2 w = Some (e, ctx', st', w')"
    "e = (if \<not> server_signed ?sec hash (full_image mt') then GENERIC_ERROR
         else if hash fw = vm_digest (vendor mt) then PULL_SUCCESS else VERIFICATION_FAILED_ERROR)"
    "fsm_state ctx' = (if e = PULL_SUCCESS then STATE_REBOOT else STATE_IDLE)" "fsm_id ctx' = slot_id slot"
    "posix_content (slot_id slot) w' = manifest_bytes (full_image mt') @ fw @ drop (sizeof_manifest + length fw) (posix_content (slot_id slot) w0)"
    "\<forall>j\<in>posix_valid_ids. j \<noteq> slot_id slot \<longrightarrow> posix_content j w' = posix_content j w"
    using update_contract.whole_update_stored [OF uc r(3) t(3) _ _ _ _ m(4) ready assms(23,27) cc ds(2)] r(4,5) m(1) sec au ds(3) assms(10-12)
    by (auto simp: sizeof_manifest_def)
  note ch = posix_chosen [OF sha assms(16) u(1)]
  have z: "fsm_version ctx = 0 \<longrightarrow> server_signed ?sec hash (full_image mt')" using ss m(3) by (simp add: set_diff_version_id)
  have run: "fsm_run pl (map (snd \<circ> view) ps) ctx2 st2 w = Some (e, ctx', st', w')" using u(2) blocks ds(1) by simp
  have con: "posix_content (slot_id slot) w' = manifest_bytes (full_image mt') @ fw @ drop N (posix_content (slot_id slot) w)"
    using u(6) ch(3) assms(24) by simp
  note facts = r(1) r(2) [folded raw_def] t(4) au m(2,3) run u(3) z u(4,5) ch(1,2) con u(7)
  show ?thesis by (intro exI conjI) (fact facts)+
qed

theorem server_device_update_witness:
  "\<exists>ctx1 ctx2 st2 raw mt' ps slot e ctx' st' w'.
    fsm (posix_platform demo_uecc demo_ctx0 posix_memory_slots (\<lambda>r. r) (\<lambda>r. (int r, r + 1))) demo_server_fsm demo_static
      (le_enc 2 (unat (vm_version (vendor demo_server_manifest)))) demo_disk =
      Some (PULL_SUCCESS, ctx1, demo_static, le_enc 2 (unat (vm_version (vendor demo_server_manifest))), demo_disk) \<and>
    fsm (posix_platform demo_uecc demo_ctx0 posix_memory_slots (\<lambda>r. r) (\<lambda>r. (int r, r + 1))) ctx1 demo_static (replicate 16 0) demo_disk =
      Some (PULL_SUCCESS, ctx2, st2, raw, demo_disk) \<and>
    serve (resource_firmware (tinycrypt_iface demo_uecc demo_ctx0) (replicate 32 2) demo_server_lib) (0, [])
      (map (Pair raw) [0..<nblocks (mapped_file demo_server_ctx)]) demo_server_ctx =
      Some (ps, demo_server_ctx\<lparr>mapped_file := manifest_bytes mt' @ demo_firmware\<rparr>) \<and>
    authentic (tinycrypt_iface demo_uecc demo_ctx0) demo_hash (fsm_sf demo_server_fsm) mt' \<and> sm_nonce (server mt') = req_nonce raw \<and>
    sm_diff_version (server mt') = fsm_version demo_server_fsm \<and>
    fsm_run (posix_platform demo_uecc demo_ctx0 posix_memory_slots (\<lambda>r. r) (\<lambda>r. (int r, r + 1))) (map (snd \<circ> (\<lambda>p. p)) ps) ctx2 st2 demo_disk =
      Some (e, ctx', st', w') \<and>
    e = (if \<not> server_signed (tinycrypt_iface demo_uecc demo_ctx0) demo_hash (full_image mt') then GENERIC_ERROR
         else if demo_hash demo_firmware = vm_digest (vendor demo_server_manifest) then PULL_SUCCESS else VERIFICATION_FAILED_ERROR) \<and>
    (fsm_version demo_server_fsm = 0 \<longrightarrow> server_signed (tinycrypt_iface demo_uecc demo_ctx0) demo_hash (full_image mt')) \<and>
    fsm_state ctx' = (if e = PULL_SUCCESS then STATE_REBOOT else STATE_IDLE) \<and> fsm_id ctx' = slot_id slot \<and>
    slot \<in> set (active_slots posix_memory_slots) \<and>
    (\<forall>x\<in>set (active_slots posix_memory_slots).
      content_version (posix_content (slot_id slot) demo_disk) \<le> content_version (posix_content (slot_id x) demo_disk)) \<and>
    posix_content (slot_id slot) w' = manifest_bytes (full_image mt') @ demo_firmware @ drop 1280 (posix_content (slot_id slot) demo_disk) \<and>
    (\<forall>j\<in>posix_valid_ids. j \<noteq> slot_id slot \<longrightarrow> posix_content j w' = posix_content j demo_disk)"
  by (rule server_device_update [OF demo_server.signing_server_axioms demo_server_pair _ _ demo_server_manifest_fields(1-3) _ _ _ _ _ _ _ _ refl
      _ _ _ _ _ _ _ _ _ demo_disk_slots])
    (simp add: demo_server_ctx_def demo_server_fsm_def demo_sf_def demo_server_manifest_fields demo_fsm_simps demo_fsm_def length_demo_firmware
      FSM_BUFFER_SIZE_def sizeof_manifest_def sizeof_receiver_msg_def demo_asks; fail | code_simp)+

end
