(* ===== verification/Connection_Zoap.thy ===== *)
theory Connection_Zoap
  imports Connection_Libcoap
begin

text \<open>
  The connection of Zephyr (\<open>src/network/coap/zoap/connection_zoap.c\<close>, \<open>include/libpull_network/coap/connection_zoap.h\<close>).

  Network and CoAP functions of Zephyr are the record \<open>zephyr\<close>: \<open>'k\<close> are packets, \<open>'r\<close> is a request under construction, \<open>'m\<close> a parsed
  response, \<open>'b\<close> a block context and \<open>'x\<close> the state of the network. A function that returns a negative number on failure returns \<open>None\<close> or
  \<open>False\<close>. The size and the content of the payload of a response are \<open>z_payload_len\<close> and \<open>z_read\<close>.

  As in \<open>Connection_Libcoap\<close> the handler returns the arguments of its one call of the callback; the packet is released after the call,
  which does not touch the network.
\<close>

section \<open>The library and the state\<close>

record ('k, 'r, 'm, 'b, 'x) zephyr =
  z_addr_pton :: "string \<Rightarrow> bool"
  z_context_get :: "'x \<Rightarrow> bool \<times> 'x"
  z_context_bind :: "'x \<Rightarrow> bool \<times> 'x"
  z_context_put :: "'x \<Rightarrow> 'x"
  z_get_tx :: "'x \<Rightarrow> 'k option \<times> 'x"
  z_get_data :: "'x \<Rightarrow> bool \<times> 'x"
  z_frag_add :: "'k \<Rightarrow> 'x \<Rightarrow> 'x"
  z_unref :: "'k \<Rightarrow> 'x \<Rightarrow> 'x"
  z_packet_init :: "'k \<Rightarrow> nat \<Rightarrow> 'x \<Rightarrow> 'r option \<times> 'x"
  z_append_option :: "nat \<Rightarrow> string \<Rightarrow> 'r \<Rightarrow> 'r option"
  z_block_init :: "nat \<Rightarrow> 'b \<Rightarrow> 'b option"
  z_append_block2 :: "'b \<Rightarrow> 'r \<Rightarrow> 'r option"
  z_payload_marker :: "'r \<Rightarrow> 'r option"
  z_append_payload :: "byte list \<Rightarrow> 'r \<Rightarrow> 'r option"
  z_sendto :: "'k \<Rightarrow> 'r \<Rightarrow> 'x \<Rightarrow> bool \<times> 'x"
  z_parse :: "'k \<Rightarrow> 'm option"
  z_next_block :: "'m \<Rightarrow> 'b \<Rightarrow> bool \<times> 'b"
  z_update_from_block :: "'m \<Rightarrow> 'b \<Rightarrow> 'b option"
  z_payload_len :: "'m \<Rightarrow> nat option"
  z_read :: "'m \<Rightarrow> nat \<Rightarrow> byte list option"

record ('b, 'x) zoap_ctx =
  zc_net :: bool
  zc_dest :: "string \<times> u16"
  zc_handler :: bool
  zc_bctx :: blockwise_ctx_t
  zc_block :: 'b
  zc_world :: 'x

definition ZOAP_BLOCK_SIZE :: nat where "ZOAP_BLOCK_SIZE = 2"
definition MAX_COAP_PAYLOAD_LEN :: nat where "MAX_COAP_PAYLOAD_LEN = 256"

section \<open>Setting up\<close>

text \<open>The port is an argument that is not used. \<open>my_addr\<close> is \<open>CONFIG_NET_APP_MY_IPV6_ADDR\<close>.\<close>

definition zoap_init :: "('k, 'r, 'm, 'b, 'x) zephyr \<Rightarrow> string \<Rightarrow> string \<Rightarrow> ('b, 'x) zoap_ctx \<Rightarrow> pull_error \<times> ('b, 'x) zoap_ctx" where
  "zoap_init z my_addr addr c =
     (if \<not> z_addr_pton z addr then (CONNECTION_INIT_ERROR, c)
      else (let c = c\<lparr>zc_dest := (addr, COAP_DEFAULT_PORT)\<rparr> in
        case z_context_get z (zc_world c) of (ok, x) \<Rightarrow>
          let c = c\<lparr>zc_world := x\<rparr> in
          if \<not> ok then (CONNECTION_INIT_ERROR, c)
          else (let c = c\<lparr>zc_net := True\<rparr> in
            if \<not> z_addr_pton z my_addr then (CONNECTION_INIT_ERROR, c)
            else (case z_context_bind z (zc_world c) of (ok, x) \<Rightarrow>
              (if ok then PULL_SUCCESS else CONNECTION_INIT_ERROR, c\<lparr>zc_world := x\<rparr>)))))"

definition zoap_on_data :: "('b, 'x) zoap_ctx \<Rightarrow> pull_error \<times> ('b, 'x) zoap_ctx" where
  "zoap_on_data c = (PULL_SUCCESS, c\<lparr>zc_handler := True\<rparr>)"

definition zoap_end :: "('k, 'r, 'm, 'b, 'x) zephyr \<Rightarrow> ('b, 'x) zoap_ctx \<Rightarrow> ('b, 'x) zoap_ctx" where
  "zoap_end z c = c\<lparr>zc_world := z_context_put z (zc_world c), zc_net := False\<rparr>"

section \<open>Requests\<close>

text \<open>
  The loop that splits the path. \<open>p\<close> is the position of the last slash and \<open>a\<close> the position that is looked at; the string ends with a zero
  character, which is at position \<open>length res\<close>. After an option the loop goes on two positions behind the new slash.
\<close>

function zoap_split :: "('k, 'r, 'm, 'b, 'x) zephyr \<Rightarrow> string \<Rightarrow> nat \<Rightarrow> nat \<Rightarrow> 'r \<Rightarrow> 'r option" where
  "zoap_split z res p a r =
     (if length res < a then Some r
      else if res ! p \<noteq> CHR ''/'' then None
      else if a < length res \<and> res ! a \<noteq> CHR ''/'' then zoap_split z res p (a + 1) r
      else Option.bind (z_append_option z COAP_OPTION_URI_PATH (block (p + 1) (a - p - 1) res) r) (\<lambda>r.
        if a = length res then Some r else zoap_split z res a (a + 2) r))"
  by pat_completeness auto
termination by (relation "measure (\<lambda>(z, res, p, a, r). Suc (length res) - a)") auto

declare zoap_split.simps [simp del]

text \<open>The packet of a request up to its path; where a step fails the packet is released.\<close>

definition zoap_packet :: "('k, 'r, 'm, 'b, 'x) zephyr \<Rightarrow> nat \<Rightarrow> string \<Rightarrow> 'x \<Rightarrow> ('k \<times> 'r) option \<times> 'x" where
  "zoap_packet z method res x =
     (case z_get_tx z x of (pkt, x) \<Rightarrow>
      case pkt of None \<Rightarrow> (None, x)
      | Some pkt \<Rightarrow> (case z_get_data z x of (ok, x) \<Rightarrow>
          if \<not> ok then (None, z_unref z pkt x)
          else (case z_packet_init z pkt method (z_frag_add z pkt x) of (r, x) \<Rightarrow>
            case r of None \<Rightarrow> (None, z_unref z pkt x)
            | Some r \<Rightarrow>
              if length res < 2 then (None, z_unref z pkt x)
              else (case zoap_split z res 0 1 r of None \<Rightarrow> (None, z_unref z pkt x) | Some r \<Rightarrow> (Some (pkt, r), x)))))"

text \<open>The end of a request: its payload, if there is any, and the transmission.\<close>

definition zoap_payload :: "('k, 'r, 'm, 'b, 'x) zephyr \<Rightarrow> byte list \<Rightarrow> 'r \<Rightarrow> 'r option" where
  "zoap_payload z data r = (if data \<noteq> [] then Option.bind (z_payload_marker z r) (z_append_payload z data) else Some r)"

definition zoap_send :: "('k, 'r, 'm, 'b, 'x) zephyr \<Rightarrow> 'k \<Rightarrow> byte list \<Rightarrow> 'r \<Rightarrow> 'x \<Rightarrow> bool \<times> 'x" where
  "zoap_send z pkt data r x =
     (case zoap_payload z data r of None \<Rightarrow> (False, z_unref z pkt x)
      | Some r \<Rightarrow> (case z_sendto z pkt r x of (ok, x) \<Rightarrow> if ok then (True, x) else (False, z_unref z pkt x)))"

definition zoap_request ::
  "('k, 'r, 'm, 'b, 'x) zephyr \<Rightarrow> rest_method \<Rightarrow> string \<Rightarrow> byte list \<Rightarrow> ('b, 'x) zoap_ctx \<Rightarrow> pull_error \<times> ('b, 'x) zoap_ctx" where
  "zoap_request z method res data c =
     (case zoap_packet z (method_mapper method) res (zc_world c) of (pr, x) \<Rightarrow>
        let c = c\<lparr>zc_world := x\<rparr> in
        case pr of None \<Rightarrow> (REQUEST_ERROR, c)
        | Some (pkt, r) \<Rightarrow>
          if method = GET_BLOCKWISE2
          then (let c = c\<lparr>zc_bctx := \<lparr>bc_method = method_mapper method, bc_enabled = True, bc_resource = res, bc_data = data\<rparr>\<rparr> in
            case z_block_init z ZOAP_BLOCK_SIZE (zc_block c) of None \<Rightarrow> (REQUEST_ERROR, c\<lparr>zc_world := z_unref z pkt (zc_world c)\<rparr>)
            | Some b \<Rightarrow> (let c = c\<lparr>zc_block := b\<rparr> in
                case z_append_block2 z b r of None \<Rightarrow> (REQUEST_ERROR, c\<lparr>zc_world := z_unref z pkt (zc_world c)\<rparr>)
                | Some r \<Rightarrow> (case zoap_send z pkt data r (zc_world c) of (ok, x) \<Rightarrow>
                    (if ok then PULL_SUCCESS else REQUEST_ERROR, c\<lparr>zc_world := x\<rparr>))))
          else (let c = c\<lparr>zc_bctx := (zc_bctx c)\<lparr>bc_enabled := False\<rparr>\<rparr> in
            case zoap_send z pkt data r (zc_world c) of (ok, x) \<Rightarrow>
              (if ok then PULL_SUCCESS else REQUEST_ERROR, c\<lparr>zc_world := x\<rparr>)))"

section \<open>Responses\<close>

text \<open>The request for the next block.\<close>

definition zoap_next :: "('k, 'r, 'm, 'b, 'x) zephyr \<Rightarrow> 'm \<Rightarrow> ('b, 'x) zoap_ctx \<Rightarrow> bool \<times> ('b, 'x) zoap_ctx" where
  "zoap_next z m c =
     (case zoap_packet z (bc_method (zc_bctx c)) (bc_resource (zc_bctx c)) (zc_world c) of (pr, x) \<Rightarrow>
        let c = c\<lparr>zc_world := x\<rparr> in
        case pr of None \<Rightarrow> (False, c)
        | Some (pkt, r) \<Rightarrow>
          (case z_update_from_block z m (zc_block c) of None \<Rightarrow> (False, c\<lparr>zc_world := z_unref z pkt (zc_world c)\<rparr>)
           | Some b \<Rightarrow> (let c = c\<lparr>zc_block := snd (z_next_block z m b)\<rparr> in
              case z_append_block2 z (zc_block c) r of None \<Rightarrow> (False, c\<lparr>zc_world := z_unref z pkt (zc_world c)\<rparr>)
              | Some r \<Rightarrow> (case zoap_send z pkt (bc_data (zc_bctx c)) r (zc_world c) of (ok, x) \<Rightarrow> (ok, c\<lparr>zc_world := x\<rparr>)))))"

definition zoap_deliver :: "('k, 'r, 'm, 'b, 'x) zephyr \<Rightarrow> 'm \<Rightarrow> response" where
  "zoap_deliver z m =
     (case z_payload_len z m of None \<Rightarrow> error_response
      | Some n \<Rightarrow>
        if n = 0 then (PULL_SUCCESS, None, 0)
        else if MAX_COAP_PAYLOAD_LEN < n then error_response
        else (case z_read z m n of None \<Rightarrow> error_response | Some data \<Rightarrow> (PULL_SUCCESS, Some data, int n)))"

text \<open>
  \<open>b0\<close> is the block context of the function, which is not initialised. Where the request for the next block fails, the function returns
  before it releases the packet.
\<close>

definition udp_receive ::
  "('k, 'r, 'm, 'b, 'x) zephyr \<Rightarrow> 'b \<Rightarrow> 'k \<Rightarrow> int \<Rightarrow> ('b, 'x) zoap_ctx \<Rightarrow> response \<times> ('b, 'x) zoap_ctx" where
  "udp_receive z b0 pkt status c =
     (let fin = (\<lambda>(r, c). (r, c\<lparr>zc_world := z_unref z pkt (zc_world c)\<rparr>)) in
      if status < 0 then fin (error_response, c)
      else (case z_parse z pkt of None \<Rightarrow> fin (error_response, c)
        | Some m \<Rightarrow>
          if fst (z_next_block z m b0) \<and> bc_enabled (zc_bctx c)
          then (case zoap_next z m c of (ok, c) \<Rightarrow> if \<not> ok then (error_response, c) else fin (zoap_deliver z m, c))
          else fin (zoap_deliver z m, c)))"

section \<open>The path\<close>

text \<open>A path of segments, and its segments added one after the other.\<close>

definition path_of :: "string list \<Rightarrow> string" where
  "path_of segs = concat (map ((#) (CHR ''/'')) segs)"

fun append_segments :: "('k, 'r, 'm, 'b, 'x) zephyr \<Rightarrow> string list \<Rightarrow> 'r \<Rightarrow> 'r option" where
  "append_segments z [] r = Some r"
| "append_segments z (s # segs) r = Option.bind (z_append_option z COAP_OPTION_URI_PATH s r) (append_segments z segs)"

definition proper_segment :: "string \<Rightarrow> bool" where
  "proper_segment s \<longleftrightarrow> s \<noteq> [] \<and> CHR ''/'' \<notin> set s"

lemma path_of_simps [simp]: "path_of [] = []" "path_of (s # segs) = CHR ''/'' # s @ path_of segs"
  by (simp_all add: path_of_def)

text \<open>Inside a segment the loop moves on.\<close>

lemma zoap_split_scan:
  assumes "res = pre @ CHR ''/'' # s @ rest" and "proper_segment s" and "i \<le> length s"
  shows "zoap_split z res (length pre) (length pre + 1 + i) r = zoap_split z res (length pre) (length pre + 1 + length s) r"
  using assms(3)
proof (induction "length s - i" arbitrary: i)
  case 0
  then show ?case by simp
next
  case (Suc d)
  then have i: "i < length s" "d = length s - Suc i" by simp_all
  have "res ! (length pre + 1 + i) = s ! i" using assms(1) i(1) by (simp add: nth_append)
  moreover have "s ! i \<noteq> CHR ''/''" using assms(2) i(1) nth_mem by (fastforce simp: proper_segment_def)
  ultimately have "zoap_split z res (length pre) (length pre + 1 + i) r = zoap_split z res (length pre) (length pre + 1 + Suc i) r"
    using assms(1) i(1) by (subst zoap_split.simps) simp
  with Suc.hyps(1) [OF i(2)] i(1) show ?case by simp
qed

lemma zoap_split_path:
  "\<forall>s\<in>set segs. proper_segment s \<Longrightarrow> segs \<noteq> [] \<Longrightarrow> suf \<in> {[], ''/''} \<Longrightarrow> i \<le> 1 \<Longrightarrow>
   zoap_split z (pre @ path_of segs @ suf) (length pre) (length pre + 1 + i) r = append_segments z segs r"
proof (induction segs arbitrary: pre i r)
  case Nil
  then show ?case by simp
next
  case (Cons s segs)
  note step = Cons.IH and prems = Cons.prems
  let ?res = "pre @ path_of (s # segs) @ suf"
  let ?a = "length pre + 1 + length s"
  have s: "proper_segment s" "i \<le> length s" using prems(1,4) by (auto simp: proper_segment_def Suc_le_eq le_Suc_eq)
  have scan: "zoap_split z ?res (length pre) (length pre + 1 + i) r = zoap_split z ?res (length pre) ?a r"
    using zoap_split_scan [OF _ s, of ?res pre "path_of segs @ suf"] by simp
  have b: "block (length pre + 1) (?a - length pre - 1) ?res = s" by (simp add: block_def)
  have p: "?res ! length pre = CHR ''/''" by simp
  show ?case
  proof (cases segs)
    case Nil
    have fin: "zoap_split z ?res ?a (?a + 2) r' = Some r'" for r'
      using Nil prems(3) by (subst zoap_split.simps) auto
    have "length ?res = ?a \<or> ?a < length ?res \<and> ?res ! ?a = CHR ''/''" using Nil prems(3) by (auto simp: nth_append)
    then show ?thesis unfolding scan using b p fin Nil by (subst zoap_split.simps) (auto split: bind_split)
  next
    case (Cons t ts)
    have IH: "zoap_split z ((pre @ CHR ''/'' # s) @ path_of segs @ suf) (length (pre @ CHR ''/'' # s)) (length (pre @ CHR ''/'' # s) + 1 + 1) r' =
        append_segments z segs r'" for r'
      using step [of 1 "pre @ CHR ''/'' # s" r'] prems(1,3) Cons by simp
    have "?a < length ?res" "?res ! ?a = CHR ''/''" using Cons by (simp_all add: nth_append)
    then show ?thesis unfolding scan using b p IH by (subst zoap_split.simps) (auto split: bind_split)
  qed
qed

section \<open>A transfer in blocks\<close>

text \<open>The packets of a transfer, in the order in which they arrive.\<close>

fun receive_all :: "('k, 'r, 'm, 'b, 'x) zephyr \<Rightarrow> 'b \<Rightarrow> 'k list \<Rightarrow> ('b, 'x) zoap_ctx \<Rightarrow> response list \<times> ('b, 'x) zoap_ctx" where
  "receive_all z b0 [] c = ([], c)"
| "receive_all z b0 (pkt # pkts) c = (case udp_receive z b0 pkt 0 c of (r, c) \<Rightarrow>
     case receive_all z b0 pkts c of (rs, c) \<Rightarrow> (r # rs, c))"

text \<open>
  What the file relies on of Zephyr, where nothing runs out: \<open>view\<close> is the path, the block number and the payload of a request, \<open>sent\<close> the requests that
  were sent, \<open>num\<close> the number of the block of a context, and \<open>resp\<close> the block number, whether there are more blocks, and the payload of a response.
\<close>

locale zoap_net =
  fixes z :: "('k, 'r, 'm, 'b, 'x) zephyr"
    and view :: "'r \<Rightarrow> string list \<times> nat option \<times> byte list"
    and sent :: "'x \<Rightarrow> (string list \<times> nat option \<times> byte list) list"
    and num :: "'b \<Rightarrow> nat"
    and resp :: "'m \<Rightarrow> nat \<times> bool \<times> byte list"
  assumes get_tx_ok: "\<exists>k x'. z_get_tx z x = (Some k, x') \<and> sent x' = sent x"
    and get_data_ok: "\<exists>x'. z_get_data z x = (True, x') \<and> sent x' = sent x"
    and frag_add_ok: "sent (z_frag_add z k x) = sent x"
    and unref_ok: "sent (z_unref z k x) = sent x"
    and packet_init_ok: "\<exists>r x'. z_packet_init z k meth x = (Some r, x') \<and> view r = ([], None, []) \<and> sent x' = sent x"
    and append_option_ok: "view r = (segs, nb, d) \<Longrightarrow>
      \<exists>r'. z_append_option z COAP_OPTION_URI_PATH s r = Some r' \<and> view r' = (segs @ [s], nb, d)"
    and append_block2_ok: "view r = (segs, None, d) \<Longrightarrow> \<exists>r'. z_append_block2 z b r = Some r' \<and> view r' = (segs, Some (num b), d)"
    and marker_ok: "\<exists>r'. z_payload_marker z r = Some r' \<and> view r' = view r"
    and append_payload_ok: "view r = (segs, nb, []) \<Longrightarrow> length d \<le> 16 \<Longrightarrow>
      \<exists>r'. z_append_payload z d r = Some r' \<and> view r' = (segs, nb, d)"
    and sendto_ok: "\<exists>x'. z_sendto z k r x = (True, x') \<and> sent x' = sent x @ [view r]"
    and block_init_ok: "\<exists>b'. z_block_init z n b = Some b' \<and> num b' = 0"
    and update_ok: "resp m = (i, mr, d) \<Longrightarrow> \<exists>b'. z_update_from_block z m b = Some b' \<and> num b' = i"
    and next_ok: "resp m = (i, mr, d) \<Longrightarrow> fst (z_next_block z m b) = mr \<and> (mr \<longrightarrow> num (snd (z_next_block z m b)) = num b + 1)"
    and payload_ok: "resp m = (i, mr, d) \<Longrightarrow> z_payload_len z m = Some (length d) \<and> z_read z m (length d) = Some d"
begin

lemma segments_ok:
  "view r = (pre, b, d) \<Longrightarrow> \<exists>r'. append_segments z segs r = Some r' \<and> view r' = (pre @ segs, b, d)"
proof (induction segs arbitrary: pre r)
  case Nil
  then show ?case by simp
next
  case (Cons s segs)
  obtain r1 where "z_append_option z COAP_OPTION_URI_PATH s r = Some r1" "view r1 = (pre @ [s], b, d)"
    using append_option_ok [OF Cons.prems] by blast
  with Cons.IH [of r1 "pre @ [s]"] show ?case by simp
qed

lemma packet_ok:
  assumes "\<forall>s\<in>set segs. proper_segment s" and "segs \<noteq> []"
  shows "\<exists>k r x'. zoap_packet z meth (path_of segs) x = (Some (k, r), x') \<and> view r = (segs, None, []) \<and> sent x' = sent x"
proof -
  obtain k x1 where 1: "z_get_tx z x = (Some k, x1)" "sent x1 = sent x" using get_tx_ok by blast
  obtain x2 where 2: "z_get_data z x1 = (True, x2)" "sent x2 = sent x1" using get_data_ok by blast
  obtain r x3 where 3: "z_packet_init z k meth (z_frag_add z k x2) = (Some r, x3)" "view r = ([], None, [])" "sent x3 = sent x2"
    using packet_init_ok frag_add_ok by metis
  obtain r' where 4: "append_segments z segs r = Some r'" "view r' = (segs, None, [])"
    using segments_ok [OF 3(2), of segs] by auto
  have "zoap_split z (path_of segs) 0 1 r = Some r'" using zoap_split_path [OF assms, of "[]" 0 z "[]" r] 4(1) by simp
  moreover obtain s ss where "segs = s # ss" using assms(2) by (cases segs) auto
  then have "\<not> length (path_of segs) < 2" using assms(1) by (cases s) (auto simp: proper_segment_def)
  ultimately show ?thesis using 1 2 3 4(2) by (simp add: zoap_packet_def)
qed

lemma send_ok:
  assumes "view r = (segs, b, [])" and "length d \<le> 16"
  shows "\<exists>x'. zoap_send z k d r x = (True, x') \<and> sent x' = sent x @ [(segs, b, d)]"
proof -
  obtain r1 where r1: "zoap_payload z d r = Some r1" "view r1 = (segs, b, d)"
  proof (cases "d = []")
    case True
    with assms(1) that show ?thesis by (simp add: zoap_payload_def)
  next
    case False
    obtain r2 where r2: "z_payload_marker z r = Some r2" "view r2 = (segs, b, [])" using marker_ok assms(1) by metis
    obtain r3 where "z_append_payload z d r2 = Some r3" "view r3 = (segs, b, d)" using append_payload_ok [OF r2(2) assms(2)] by blast
    with r2(1) False that show ?thesis by (simp add: zoap_payload_def)
  qed
  obtain x1 where "z_sendto z k r1 x = (True, x1)" "sent x1 = sent x @ [view r1]" using sendto_ok by blast
  with r1 show ?thesis by (simp add: zoap_send_def)
qed

definition transferring :: "string list \<Rightarrow> byte list \<Rightarrow> ('b, 'x) zoap_ctx \<Rightarrow> bool" where
  "transferring segs d c \<longleftrightarrow> zc_bctx c = \<lparr>bc_method = 1, bc_enabled = True, bc_resource = path_of segs, bc_data = d\<rparr>"

lemma request_ok:
  assumes "\<forall>s\<in>set segs. proper_segment s" and "segs \<noteq> []" and "length d \<le> 16"
  shows "\<exists>c'. zoap_request z GET_BLOCKWISE2 (path_of segs) d c = (PULL_SUCCESS, c') \<and> transferring segs d c' \<and>
    sent (zc_world c') = sent (zc_world c) @ [(segs, Some 0, d)]"
proof -
  obtain k r x where p: "zoap_packet z 1 (path_of segs) (zc_world c) = (Some (k, r), x)" "view r = (segs, None, [])" "sent x = sent (zc_world c)"
    using packet_ok [OF assms(1,2)] by blast
  obtain b where b: "z_block_init z ZOAP_BLOCK_SIZE (zc_block c) = Some b" "num b = 0" using block_init_ok by blast
  obtain r1 where r1: "z_append_block2 z b r = Some r1" "view r1 = (segs, Some 0, [])" using append_block2_ok [OF p(2), of b] b(2) by auto
  obtain x1 where "zoap_send z k d r1 x = (True, x1)" "sent x1 = sent x @ [(segs, Some 0, d)]" using send_ok [OF r1(2) assms(3)] by blast
  with p b r1 show ?thesis by (simp add: zoap_request_def transferring_def)
qed

lemma next_block:
  assumes "\<forall>s\<in>set segs. proper_segment s" and "segs \<noteq> []" and "length d \<le> 16" and "transferring segs d c" and "resp m = (k, True, pl)"
  shows "\<exists>c'. zoap_next z m c = (True, c') \<and> transferring segs d c' \<and> sent (zc_world c') = sent (zc_world c) @ [(segs, Some (k + 1), d)]"
proof -
  obtain pk r x where p: "zoap_packet z 1 (path_of segs) (zc_world c) = (Some (pk, r), x)" "view r = (segs, None, [])" "sent x = sent (zc_world c)"
    using packet_ok [OF assms(1,2)] by blast
  obtain b where b: "z_update_from_block z m (zc_block c) = Some b" "num b = k" using update_ok [OF assms(5)] by blast
  have n: "num (snd (z_next_block z m b)) = k + 1" using next_ok [OF assms(5), of b] b(2) by simp
  obtain r1 where r1: "z_append_block2 z (snd (z_next_block z m b)) r = Some r1" "view r1 = (segs, Some (k + 1), [])"
    using append_block2_ok [OF p(2), of "snd (z_next_block z m b)"] n by auto
  obtain x1 where "zoap_send z pk d r1 x = (True, x1)" "sent x1 = sent x @ [(segs, Some (k + 1), d)]" using send_ok [OF r1(2) assms(3)] by blast
  with p b r1 assms(4) show ?thesis by (simp add: zoap_next_def transferring_def Let_def)
qed

lemma receive_ok:
  assumes "\<forall>s\<in>set segs. proper_segment s" and "segs \<noteq> []" and "length d \<le> 16" and "transferring segs d c"
    and "z_parse z pkt = Some m" and "resp m = (k, mr, pl)" and "pl \<noteq> []" and "length pl \<le> MAX_COAP_PAYLOAD_LEN"
  shows "\<exists>c'. udp_receive z b0 pkt 0 c = (block_response pl, c') \<and> transferring segs d c' \<and>
    sent (zc_world c') = sent (zc_world c) @ (if mr then [(segs, Some (k + 1), d)] else [])"
proof -
  have dl: "zoap_deliver z m = block_response pl"
    using payload_ok [OF assms(6)] assms(7,8) by (simp add: zoap_deliver_def block_response_def)
  have f: "fst (z_next_block z m b0) = mr" using next_ok [OF assms(6)] by blast
  have e: "bc_enabled (zc_bctx c)" using assms(4) by (simp add: transferring_def)
  show ?thesis
  proof (cases mr)
    case True
    obtain c1 where "zoap_next z m c = (True, c1)" "transferring segs d c1" "sent (zc_world c1) = sent (zc_world c) @ [(segs, Some (k + 1), d)]"
      using next_block [OF assms(1-4), of m k pl] assms(6) True by auto
    with True f e assms(5) dl unref_ok show ?thesis by (simp add: udp_receive_def transferring_def)
  next
    case False
    with f assms(4,5) dl unref_ok show ?thesis by (simp add: udp_receive_def transferring_def)
  qed
qed

lemma receive_all_ok:
  assumes "\<forall>s\<in>set segs. proper_segment s" and "segs \<noteq> []" and "length d \<le> 16"
    and "\<forall>i<length ds. z_parse z (pk i) = Some (m i) \<and> resp (m i) = (i, i + 1 < length ds, ds ! i) \<and>
      ds ! i \<noteq> [] \<and> length (ds ! i) \<le> MAX_COAP_PAYLOAD_LEN"
  shows "k < length ds \<Longrightarrow> transferring segs d c \<Longrightarrow>
    \<exists>c'. receive_all z b0 (map pk [k..<length ds]) c = (map block_response (drop k ds), c') \<and>
      sent (zc_world c') = sent (zc_world c) @ map (\<lambda>i. (segs, Some i, d)) [Suc k..<length ds]"
proof (induction "length ds - k" arbitrary: k c)
  case 0
  then show ?case by simp
next
  case (Suc n)
  note k = Suc.prems(1)
  from assms(4) k have m: "z_parse z (pk k) = Some (m k)" "resp (m k) = (k, k + 1 < length ds, ds ! k)" "ds ! k \<noteq> []"
    "length (ds ! k) \<le> MAX_COAP_PAYLOAD_LEN" by blast+
  obtain c1 where c1: "udp_receive z b0 (pk k) 0 c = (block_response (ds ! k), c1)" "transferring segs d c1"
    "sent (zc_world c1) = sent (zc_world c) @ (if k + 1 < length ds then [(segs, Some (k + 1), d)] else [])"
    using receive_ok [OF assms(1-3) Suc.prems(2) m] by blast
  have u: "[k..<length ds] = k # [Suc k..<length ds]" "drop k ds = ds ! k # drop (Suc k) ds"
    using k by (simp_all add: upt_conv_Cons Cons_nth_drop_Suc)
  show ?case
  proof (cases "Suc k < length ds")
    case True
    have "n = length ds - Suc k" using Suc.hyps(2) by simp
    from Suc.hyps(1) [OF this True c1(2)] obtain c2 where "receive_all z b0 (map pk [Suc k..<length ds]) c1 = (map block_response (drop (Suc k) ds), c2)"
      "sent (zc_world c2) = sent (zc_world c1) @ map (\<lambda>i. (segs, Some i, d)) [Suc (Suc k)..<length ds]" by blast
    with c1 u True show ?thesis by (simp add: upt_conv_Cons [OF True])
  next
    case False
    then show ?thesis using c1 u by simp
  qed
qed

end

section \<open>A concrete network\<close>

text \<open>A packet is the response it holds, and the state of the network is the list of the requests.\<close>

definition demo_zephyr :: "(nat \<times> bool \<times> byte list, string list \<times> nat option \<times> byte list, nat \<times> bool \<times> byte list, nat,
    (string list \<times> nat option \<times> byte list) list) zephyr" where
  "demo_zephyr = \<lparr>z_addr_pton = (\<lambda>_. True), z_context_get = (\<lambda>x. (True, x)), z_context_bind = (\<lambda>x. (True, x)), z_context_put = (\<lambda>x. x),
     z_get_tx = (\<lambda>x. (Some (0, False, []), x)), z_get_data = (\<lambda>x. (True, x)), z_frag_add = (\<lambda>_ x. x), z_unref = (\<lambda>_ x. x),
     z_packet_init = (\<lambda>_ _ x. (Some ([], None, []), x)), z_append_option = (\<lambda>_ s (segs, b, d). Some (segs @ [s], b, d)),
     z_block_init = (\<lambda>_ _. Some 0), z_append_block2 = (\<lambda>b (segs, _, d). Some (segs, Some b, d)), z_payload_marker = Some,
     z_append_payload = (\<lambda>d (segs, b, _). Some (segs, b, d)), z_sendto = (\<lambda>_ r x. (True, x @ [r])), z_parse = Some,
     z_next_block = (\<lambda>(i, mr, d) b. (mr, if mr then b + 1 else b)), z_update_from_block = (\<lambda>(i, mr, d) _. Some i),
     z_payload_len = (\<lambda>(i, mr, d). Some (length d)), z_read = (\<lambda>(i, mr, d) n. Some (take n d))\<rparr>"

interpretation demo_zoap: zoap_net demo_zephyr "\<lambda>r. r" "\<lambda>x. x" "\<lambda>b. b" "\<lambda>m. m"
  by unfold_locales (auto simp: demo_zephyr_def)

section \<open>Properties\<close>

text \<open>
  C35. The loop that splits a path adds the segments of the path in order, for every path of segments that are not empty, and with a slash at its end as well.
\<close>

theorem zoap_split_segments:
  assumes "\<forall>s\<in>set segs. proper_segment s" and "segs \<noteq> []" and "suf \<in> {[], ''/''}"
  shows "zoap_split z (path_of segs @ suf) 0 1 r = append_segments z segs r"
  using zoap_split_path [OF assms, of 0 z "[]" r] by simp

theorem zoap_split_segments_witness:
  "zoap_split demo_zephyr (path_of [''firmware'', ''invalid_size''] @ ''/'') 0 1 ([], None, []) =
     append_segments demo_zephyr [''firmware'', ''invalid_size''] ([], None, [])"
  by (rule zoap_split_segments) (simp_all add: proper_segment_def)

text \<open>
  C34. A transfer in blocks over Zephyr. A request in blocks, followed by the packets with the blocks of the answer in their order: every packet leads to one call of the
  callback with its payload, every packet but the last to a request for the block after it, and each of the requests
  has the path and the data of the first one.
\<close>

theorem zoap_transfer:
  assumes "zoap_net z view sent num resp" and "\<forall>s\<in>set segs. proper_segment s" and "segs \<noteq> []" and "length d \<le> 16" and "ds \<noteq> []"
    and "\<forall>i<length ds. z_parse z (pk i) = Some (m i) \<and> resp (m i) = (i, i + 1 < length ds, ds ! i) \<and>
      ds ! i \<noteq> [] \<and> length (ds ! i) \<le> MAX_COAP_PAYLOAD_LEN"
  shows "\<exists>c1 c2. zoap_request z GET_BLOCKWISE2 (path_of segs) d c = (PULL_SUCCESS, c1) \<and>
    receive_all z b0 (map pk [0..<length ds]) c1 = (map block_response ds, c2) \<and>
    sent (zc_world c2) = sent (zc_world c) @ map (\<lambda>i. (segs, Some i, d)) [0..<length ds]"
proof -
  obtain c1 where c1: "zoap_request z GET_BLOCKWISE2 (path_of segs) d c = (PULL_SUCCESS, c1)" "zoap_net.transferring segs d c1"
    "sent (zc_world c1) = sent (zc_world c) @ [(segs, Some 0, d)]"
    using zoap_net.request_ok [OF assms(1-4)] by blast
  have "0 < length ds" using assms(5) by simp
  from zoap_net.receive_all_ok [OF assms(1-4,6) this c1(2)] obtain c2 where
    "receive_all z b0 (map pk [0..<length ds]) c1 = (map block_response (drop 0 ds), c2)"
    "sent (zc_world c2) = sent (zc_world c1) @ map (\<lambda>i. (segs, Some i, d)) [Suc 0..<length ds]" by blast
  moreover have "[0..<length ds] = 0 # [Suc 0..<length ds]" using assms(5) by (simp add: upt_conv_Cons)
  ultimately show ?thesis using c1(1,3) by simp
qed

definition demo_zoap_ctx :: "(nat, (string list \<times> nat option \<times> byte list) list) zoap_ctx" where
  "demo_zoap_ctx = \<lparr>zc_net = True, zc_dest = (''2001:db8::2'', COAP_DEFAULT_PORT), zc_handler = True,
     zc_bctx = \<lparr>bc_method = 0, bc_enabled = False, bc_resource = [], bc_data = []\<rparr>, zc_block = 0, zc_world = []\<rparr>"

theorem zoap_transfer_witness:
  "\<exists>c1 c2. zoap_request demo_zephyr GET_BLOCKWISE2 (path_of [''firmware'']) [1, 2] demo_zoap_ctx = (PULL_SUCCESS, c1) \<and>
    receive_all demo_zephyr 7 (map (\<lambda>i. (i, i + 1 < 3, [[10, 11], [12, 13], [14]] ! i)) [0..<length [[10, 11], [12, 13], [14 :: byte]]]) c1 =
      (map block_response [[10, 11], [12, 13], [14]], c2) \<and>
    zc_world c2 = zc_world demo_zoap_ctx @ map (\<lambda>i. ([''firmware''], Some i, [1, 2])) [0..<length [[10, 11], [12, 13], [14 :: byte]]]"
  by (rule zoap_transfer [OF demo_zoap.zoap_net_axioms, where m = "\<lambda>i. (i, i + 1 < 3, [[10, 11], [12, 13], [14]] ! i)"])
    (simp_all add: proper_segment_def demo_zephyr_def MAX_COAP_PAYLOAD_LEN_def less_Suc_eq numeral_eq_Suc)

end
