(* ===== verification/Connection_Ercoap.thy ===== *)
theory Connection_Ercoap
  imports Update_Agent
begin

text \<open>
  The connection of Contiki-NG (\<open>src/network/coap/er-coap/connection_ercoap.c\<close> and
  \<open>include/libpull_network/coap/connection_ercoap.h\<close>), over the CoAP library of that system.

  The library is a record of the functions that the file calls, over a type of endpoints, of messages, of
  responses and a state of the system. A request is only prepared by \<open>conn_request\<close>; it is sent by the macro \<open>COAP_SEND\<close>, a call of
  \<open>coap_blocking_request\<close>, which calls the handler for every response. \<open>coap_blocking_request\<close> is seen here at its turns: the
  responses of one turn, whether the transfer is at its end, and the new state. It stops as well once \<open>break_loop\<close> has removed the
  response, which is the flag \<open>ua_loop\<close> of the agent. Data that are \<open>NULL\<close> or have length 0 are the empty list.
\<close>

section \<open>The library\<close>

datatype er_type = COAP_TYPE_CON | COAP_TYPE_NON | COAP_TYPE_ACK | COAP_TYPE_RST

datatype er_method = COAP_GET | COAP_POST | COAP_PUT | COAP_DELETE

record ('e, 'm, 'r, 'x) ercoap =
  coap_endpoint_parse :: "string \<Rightarrow> 'e option"
  coap_endpoint_connect :: "'e \<Rightarrow> 'x \<Rightarrow> bool \<times> 'x"
  coap_init_message :: "er_type \<Rightarrow> er_method \<Rightarrow> u16 \<Rightarrow> 'm"
  coap_set_header_uri_path :: "string \<Rightarrow> 'm \<Rightarrow> 'm"
  coap_set_header_block2 :: "u32 \<Rightarrow> bool \<Rightarrow> u16 \<Rightarrow> 'm \<Rightarrow> 'm"
  coap_set_payload :: "byte list \<Rightarrow> 'm \<Rightarrow> 'm"
  coap_get_payload :: "'r \<Rightarrow> byte list"
  coap_blocking_request :: "'e option \<Rightarrow> 'm \<Rightarrow> 'x \<Rightarrow> 'r list \<times> bool \<times> 'x"

section \<open>State and operations\<close>

record ('e, 'm, 'x) er_conn_ctx =
  er_cb :: bool
  er_endpoint :: "'e option"
  er_message :: 'm
  er_net :: 'x

definition ercoap_init ::
  "('e, 'm, 'r, 'x) ercoap \<Rightarrow> 'c conn_config_t \<Rightarrow> ('e, 'm, 'x) er_conn_ctx \<Rightarrow> pull_error \<times> ('e, 'm, 'x) er_conn_ctx" where
  "ercoap_init lib cfg c = (case coap_endpoint_parse lib (cfg_endpoint cfg) of
     None \<Rightarrow> (CONNECTION_INIT_ERROR, c)
   | Some e \<Rightarrow> (case coap_endpoint_connect lib e (er_net c) of (ok, x) \<Rightarrow>
       (if ok then PULL_SUCCESS else CONNECTION_INIT_ERROR, c\<lparr>er_endpoint := Some e, er_net := x\<rparr>)))"

text \<open>The agent passes a handler, so that the test for \<open>NULL\<close> does not fail.\<close>

definition ercoap_on_data :: "('e, 'm, 'x) er_conn_ctx \<Rightarrow> pull_error \<times> ('e, 'm, 'x) er_conn_ctx" where
  "ercoap_on_data c = (PULL_SUCCESS, c\<lparr>er_cb := True\<rparr>)"

definition ercoap_request ::
  "('e, 'm, 'r, 'x) ercoap \<Rightarrow> rest_method \<Rightarrow> string \<Rightarrow> byte list \<Rightarrow> ('e, 'm, 'x) er_conn_ctx \<Rightarrow> pull_error \<times> ('e, 'm, 'x) er_conn_ctx" where
  "ercoap_request lib method resource data c =
     (let p = coap_set_header_uri_path lib resource (coap_init_message lib COAP_TYPE_CON COAP_GET 0);
          p = (if data \<noteq> [] then coap_set_payload lib data (coap_set_header_block2 lib 0 False 64 p) else p)
      in (PULL_SUCCESS, c\<lparr>er_message := p\<rparr>))"

definition ercoap_handler :: "('e, 'm, 'r, 'x) ercoap \<Rightarrow> 'r \<Rightarrow> response" where
  "ercoap_handler lib r = (let chunk = coap_get_payload lib r in (PULL_SUCCESS, Some chunk, int (length chunk)))"

definition COAP_SEND :: "('e, 'm, 'r, 'x) ercoap \<Rightarrow> ('e, 'm, 'x) er_conn_ctx \<Rightarrow> response list \<times> bool \<times> ('e, 'm, 'x) er_conn_ctx" where
  "COAP_SEND lib c = (case coap_blocking_request lib (er_endpoint c) (er_message c) (er_net c) of (rs, done, x) \<Rightarrow>
     (map (ercoap_handler lib) rs, done, c\<lparr>er_net := x\<rparr>))"

definition ercoap_observe :: "string \<Rightarrow> byte list \<Rightarrow> ('e, 'm, 'x) er_conn_ctx \<Rightarrow> pull_error \<times> ('e, 'm, 'x) er_conn_ctx" where
  "ercoap_observe resource token c = (PULL_SUCCESS, c)"

definition ercoap_end :: "('e, 'm, 'x) er_conn_ctx \<Rightarrow> ('e, 'm, 'x) er_conn_ctx" where
  "ercoap_end c = c"

definition ercoap_iface :: "('e, 'm, 'r, 'x) ercoap \<Rightarrow> (('e, 'm, 'x) er_conn_ctx, 'c) conn_iface" where
  "ercoap_iface lib = \<lparr>conn_init = ercoap_init lib, conn_on_data = ercoap_on_data, conn_request = ercoap_request lib,
     conn_end = ercoap_end, conn_wait = COAP_SEND lib\<rparr>"

section \<open>What the agent sees\<close>

text \<open>The payloads that the turns of one blocking request deliver.\<close>

inductive er_turns :: "('e, 'm, 'r, 'x) ercoap \<Rightarrow> 'e option \<Rightarrow> 'm \<Rightarrow> 'x \<Rightarrow> byte list list \<Rightarrow> 'x \<Rightarrow> bool" for lib e p where
  er_last: "coap_blocking_request lib e p x = (rs, True, x') \<Longrightarrow> er_turns lib e p x (map (coap_get_payload lib) rs) x'"
| er_more: "coap_blocking_request lib e p x = (rs, False, x1) \<Longrightarrow> er_turns lib e p x1 bs x' \<Longrightarrow>
    er_turns lib e p x (map (coap_get_payload lib) rs @ bs) x'"

lemma handler_block_response: "ercoap_handler lib = block_response \<circ> coap_get_payload lib"
  by (simp add: fun_eq_iff ercoap_handler_def block_response_def Let_def)

lemma er_turns_waits:
  assumes "er_turns lib (er_endpoint c) (er_message c) x bs x'" and "ci = ercoap_iface lib"
  shows "waits ci (c\<lparr>er_net := x\<rparr>) (map block_response bs) (c\<lparr>er_net := x'\<rparr>)"
  using assms(1) unfolding assms(2)
proof (induction rule: er_turns.induct)
  case (er_last x rs x')
  then show ?case by (intro waits_last) (simp add: ercoap_iface_def COAP_SEND_def handler_block_response)
next
  case (er_more x rs x1 bs x')
  have "conn_wait (ercoap_iface lib) (c\<lparr>er_net := x\<rparr>) = (map block_response (map (coap_get_payload lib) rs), False, c\<lparr>er_net := x1\<rparr>)"
    using er_more.hyps(1) by (simp add: ercoap_iface_def COAP_SEND_def handler_block_response)
  from waits_more [OF this er_more.IH] show ?case by simp
qed

text \<open>
  Where the endpoint can be reached and the blocking request for the version delivers \<open>ver\<close>, and the one for the firmware, whatever its payload, delivers \<open>bs\<close>,
  the connection does what the session of the agent asks of it.
\<close>

lemma ercoap_serves:
  fixes ci :: "(('e, 'm, 'x) er_conn_ctx, 'c) conn_iface"
  assumes "coap_endpoint_parse lib (cfg_endpoint cfg) = Some e" and "coap_endpoint_connect lib e (er_net c) = (True, x1)"
    and "msg_of = (\<lambda>resource. coap_set_header_uri_path lib resource (coap_init_message lib COAP_TYPE_CON COAP_GET 0))"
    and "er_turns lib (Some e) (msg_of ''/version'') x1 [ver] x2"
    and "\<And>data. data \<noteq> [] \<Longrightarrow>
      \<exists>x3. er_turns lib (Some e) (coap_set_payload lib data (coap_set_header_block2 lib 0 False 64 (msg_of ''/firmware''))) x2 bs x3"
    and "ci = ercoap_iface lib"
  shows "\<exists>n1 n2 n3 n4. conn_init ci cfg c = (PULL_SUCCESS, n1) \<and> conn_on_data ci n1 = (PULL_SUCCESS, n2) \<and>
    conn_request ci GET ''/version'' [] n2 = (PULL_SUCCESS, n3) \<and> waits ci n3 [block_response ver] n4 \<and>
    (\<forall>msg. msg \<noteq> [] \<longrightarrow> (\<exists>n5 n6. conn_request ci GET_BLOCKWISE2 ''/firmware'' msg n4 = (PULL_SUCCESS, n5) \<and>
      waits ci n5 (map block_response bs) n6))"
proof -
  let ?c = "c\<lparr>er_endpoint := Some e, er_cb := True\<rparr>"
  let ?v = "?c\<lparr>er_message := msg_of ''/version''\<rparr>"
  have v: "waits ci (?v\<lparr>er_net := x1\<rparr>) [block_response ver] (?v\<lparr>er_net := x2\<rparr>)"
    using er_turns_waits [of lib ?v x1 "[ver]" x2 ci] assms(4,6) by simp
  have f: "\<exists>n5 n6. conn_request ci GET_BLOCKWISE2 ''/firmware'' msg (?v\<lparr>er_net := x2\<rparr>) = (PULL_SUCCESS, n5) \<and>
      waits ci n5 (map block_response bs) n6" if ne: "msg \<noteq> []" for msg
  proof -
    let ?f = "?c\<lparr>er_message := coap_set_payload lib msg (coap_set_header_block2 lib 0 False 64 (msg_of ''/firmware''))\<rparr>"
    obtain x3 where "er_turns lib (er_endpoint ?f) (er_message ?f) x2 bs x3" using assms(5) [OF ne] by auto
    moreover have "conn_request ci GET_BLOCKWISE2 ''/firmware'' msg (?v\<lparr>er_net := x2\<rparr>) = (PULL_SUCCESS, ?f\<lparr>er_net := x2\<rparr>)"
      using ne by (simp add: assms(6) ercoap_iface_def ercoap_request_def assms(3))
    ultimately show ?thesis using er_turns_waits [OF _ assms(6), of ?f] by blast
  qed
  show ?thesis
    by (intro exI [of _ "c\<lparr>er_endpoint := Some e, er_net := x1\<rparr>"] exI [of _ "?c\<lparr>er_net := x1\<rparr>"] exI [of _ "?v\<lparr>er_net := x1\<rparr>"]
        exI [of _ "?v\<lparr>er_net := x2\<rparr>"] conjI v allI impI f)
      (simp_all add: assms(6) ercoap_iface_def ercoap_init_def ercoap_on_data_def ercoap_request_def assms(1-3))
qed

end
