(* ===== verification/Tool_Lzss.thy ===== *)
theory Tool_Lzss
  imports Pipeline_Posix
begin

text \<open>
  The LZSS encoder of the firmware tool (\<open>utils/firmware_tool/commands/pipeline.cpp\<close>), with its bit output, its sliding
  buffer and its search for matches, and the decoder of the tool. What the encoder writes is a stream of tokens that stands for
  the input, so the decoder of the device and that of the tool both restore it.

  A \<open>char\<close> of the tool is signed; the comparison with a byte of the buffer is one of integers.
\<close>

section \<open>Bit output\<close>

record lz_out =
  bit_buffer :: nat
  bit_mask :: nat
  codecount :: nat
  outfile :: "byte list"

definition lz_out0 :: lz_out where
  "lz_out0 = \<lparr>bit_buffer = 0, bit_mask = 128, codecount = 0, outfile = []\<rparr>"

definition putbit0 :: "lz_out \<Rightarrow> lz_out" where
  "putbit0 ob = (let m = drop_bit 1 (bit_mask ob) in
     if m = 0 then ob\<lparr>outfile := outfile ob @ [word_of_nat (bit_buffer ob)], bit_buffer := 0, bit_mask := 128,
       codecount := codecount ob + 1\<rparr>
     else ob\<lparr>bit_mask := m\<rparr>)"

definition putbit1 :: "lz_out \<Rightarrow> lz_out" where
  "putbit1 ob = putbit0 (ob\<lparr>bit_buffer := or (bit_buffer ob) (bit_mask ob)\<rparr>)"

definition flush_bit_buffer :: "lz_out \<Rightarrow> lz_out" where
  "flush_bit_buffer ob = (if bit_mask ob \<noteq> 128
     then ob\<lparr>outfile := outfile ob @ [word_of_nat (bit_buffer ob)], codecount := codecount ob + 1\<rparr> else ob)"

text \<open>\<open>while (mask >>= 1) if (v & mask) putbit1 else putbit0\<close>\<close>

function put_loop :: "nat \<Rightarrow> nat \<Rightarrow> lz_out \<Rightarrow> lz_out" where
  "put_loop v msk ob = (let msk = drop_bit 1 msk in
     if msk = 0 then ob else put_loop v msk (if and v msk \<noteq> 0 then putbit1 ob else putbit0 ob))"
  by pat_completeness auto
termination
proof (relation "measure (\<lambda>(v, msk, ob). msk)")
  fix v msk x :: nat and ob :: lz_out
  assume "x = drop_bit 1 msk" "x \<noteq> 0"
  then show "((v, x, if and v x \<noteq> 0 then putbit1 ob else putbit0 ob), v, msk, ob) \<in> measure (\<lambda>(v, msk, ob). msk)"
    by (simp add: drop_bit_eq_div)
qed simp

declare put_loop.simps [simp del]

definition output1 :: "byte \<Rightarrow> lz_out \<Rightarrow> lz_out" where
  "output1 c ob = put_loop (unat c) 256 (putbit1 ob)"

definition output2 :: "nat \<Rightarrow> nat \<Rightarrow> lz_out \<Rightarrow> lz_out" where
  "output2 x y ob = put_loop y (push_bit EJ 1) (put_loop x lzss_N (putbit0 ob))"

section \<open>The encoder\<close>

text \<open>The loop over \<open>j\<close>, and the loop over \<open>i\<close> from \<open>r - 1\<close> down to \<open>s\<close>, with \<open>n\<close> iterations left.\<close>

function match_loop :: "byte list \<Rightarrow> nat \<Rightarrow> nat \<Rightarrow> nat \<Rightarrow> nat \<Rightarrow> nat" where
  "match_loop buf i r f1 j = (if j < f1 \<and> buf ! (i + j) = buf ! (r + j) then match_loop buf i r f1 (j + 1) else j)"
  by pat_completeness auto
termination
  by (relation "measure (\<lambda>(buf, i, r, f1, j). f1 - j)") auto

declare match_loop.simps [simp del]

fun search_loop :: "byte list \<Rightarrow> nat \<Rightarrow> nat \<Rightarrow> nat \<Rightarrow> nat \<Rightarrow> nat \<Rightarrow> nat \<Rightarrow> nat \<times> nat" where
  "search_loop buf r s f1 0 x y = (x, y)"
| "search_loop buf r s f1 (Suc n) x y = (let i = s + n in
     if uint (buf ! i) = sint (buf ! r)
     then let j = match_loop buf i r f1 1 in
       if j > y then search_loop buf r s f1 n i j else search_loop buf r s f1 n x y
     else search_loop buf r s f1 n x y)"

text \<open>Reading from the input to the end of the buffer.\<close>

fun fill :: "byte list \<Rightarrow> nat \<Rightarrow> byte list \<Rightarrow> byte list \<times> nat \<times> byte list" where
  "fill buf k [] = (buf, k, [])"
| "fill buf k (c # cs) = (if k < 2 * lzss_N then fill (buf[k := c]) (k + 1) cs else (buf, k, c # cs))"

definition slide :: "byte list \<Rightarrow> byte list" where
  "slide buf = map (\<lambda>i. buf ! (i + lzss_N)) [0..<lzss_N] @ drop lzss_N buf"

lemma match_loop_ge: "j \<le> match_loop buf i r f1 j"
  by (induction buf i r f1 j rule: match_loop.induct) (subst match_loop.simps, auto)

lemma match_loop_le: "j \<le> f1 \<Longrightarrow> match_loop buf i r f1 j \<le> f1"
  by (induction buf i r f1 j rule: match_loop.induct) (subst match_loop.simps, auto)

lemma search_loop_ge: "y \<le> snd (search_loop buf r s f1 n x y)"
  by (induction n arbitrary: x y) (auto simp: Let_def intro: order_trans less_imp_le)

lemma fill_count: "fill buf k cs = (buf', k', cs') \<Longrightarrow> k' + length cs' = k + length cs \<and> k \<le> k'"
  by (induction buf k cs rule: fill.induct) (auto split: if_splits)

text \<open>One token: its length, and the output.\<close>

definition lz_step :: "byte list \<Rightarrow> nat \<Rightarrow> nat \<Rightarrow> nat \<Rightarrow> lz_out \<Rightarrow> nat \<times> lz_out" where
  "lz_step buf bufferend r s ob =
     (let f1 = (if lzss_F \<le> bufferend - r then lzss_F else bufferend - r);
          (x, y) = search_loop buf r s f1 (r - s) 0 1
      in if y \<le> 1 then (1, output1 (buf ! r) ob) else (y, output2 (and x (lzss_N - 1)) (y - 2) ob))"

lemma lz_step_pos: "0 < fst (lz_step buf bufferend r s ob)"
  by (auto simp: lz_step_def Let_def split: prod.splits)

function compress_loop :: "byte list \<Rightarrow> nat \<Rightarrow> nat \<Rightarrow> nat \<Rightarrow> byte list \<Rightarrow> lz_out \<Rightarrow> lz_out" where
  "compress_loop buf bufferend r s input ob =
     (if r < bufferend then
        let (y, ob') = lz_step buf bufferend r s ob in
        if r + y \<ge> lzss_N * 2 - lzss_F
        then let (buf', bufferend', input') = fill (slide buf) (bufferend - lzss_N) input
          in compress_loop buf' bufferend' (r + y - lzss_N) (s + y - lzss_N) input' ob'
        else compress_loop buf bufferend (r + y) (s + y) input ob'
      else ob)"
  by pat_completeness auto
termination
proof (relation "measure (\<lambda>(buf, bufferend, r, s, input, ob). length input + (bufferend - r))", goal_cases)
  case (2 buf bufferend r s input ob st y ob' fl buf' rest bufferend' input')
  then have "0 < y" using lz_step_pos [of buf bufferend r s ob] by (metis fst_conv)
  moreover have "bufferend' + length input' = bufferend - lzss_N + length input" "bufferend - lzss_N \<le> bufferend'"
    using fill_count [of "slide buf" "bufferend - lzss_N" input buf' bufferend' input'] 2 by auto
  moreover have "lzss_N \<le> r + y" using 2 by (simp add: lzss_consts)
  ultimately show ?case using 2(1) by simp
next
  case (3 buf bufferend r s input ob st y ob')
  then have "0 < y" using lz_step_pos [of buf bufferend r s ob] by (metis fst_conv)
  with 3(1) show ?case by simp
qed simp

declare compress_loop.simps [simp del]

definition compress :: "byte list \<Rightarrow> lz_out" where
  "compress input = (let buffer = replicate (lzss_N - lzss_F) 32 @ replicate (lzss_N + lzss_F) 0;
       (buffer, bufferend, input) = fill buffer (lzss_N - lzss_F) input
     in flush_bit_buffer (compress_loop buffer bufferend (lzss_N - lzss_F) 0 input lz_out0))"

text \<open>
  The command: the exit code and the file that is written. The report at the end divides by the number of bytes read; for an empty
  file the program ends there with a division by zero, which is \<open>None\<close>.
\<close>

definition pipeline_compress_command :: "byte list option \<Rightarrow> bool \<Rightarrow> (int \<times> byte list) option" where
  "pipeline_compress_command binary_file out_opens = (case binary_file of
     None \<Rightarrow> Some (1, [])
   | Some input \<Rightarrow> if \<not> out_opens then Some (1, [])
       else if length input = 0 then None
       else Some (0, outfile (compress input)))"

section \<open>The decoder of the tool\<close>

text \<open>\<open>getbit(input, n)\<close>: \<open>None\<close> is \<open>EOF\<close>.\<close>

fun tool_getbit :: "nat \<Rightarrow> nat \<Rightarrow> nat \<Rightarrow> nat \<Rightarrow> byte list \<Rightarrow> (nat \<times> nat \<times> nat \<times> byte list) option" where
  "tool_getbit 0 x b msk input = Some (x, b, msk, input)"
| "tool_getbit (Suc n) x b msk input =
     (if msk = 0
      then (case input of
          [] \<Rightarrow> None
        | y # ys \<Rightarrow> tool_getbit n (2 * x + (if and (unat y) 128 \<noteq> 0 then 1 else 0)) (unat y) (drop_bit 1 128) ys)
      else tool_getbit n (2 * x + (if and b msk \<noteq> 0 then 1 else 0)) b (drop_bit 1 msk) input)"

fun tool_copy :: "nat \<Rightarrow> nat \<Rightarrow> byte list \<Rightarrow> nat \<Rightarrow> byte list \<Rightarrow> byte list \<times> nat \<times> byte list" where
  "tool_copy 0 p buf r out = (buf, r, out)"
| "tool_copy (Suc n) p buf r out = (let c = buf ! and p (lzss_N - 1) in
     tool_copy n (p + 1) (buf[r := c]) (and (r + 1) (lzss_N - 1)) (out @ [c]))"

lemma tool_getbit_eq:
  "tool_getbit (n - s) x b msk input = (case getbit n s x b msk input of Inl _ \<Rightarrow> None | Inr q \<Rightarrow> Some q)"
proof (induction n s x b msk input rule: getbit.induct)
  case (1 n s x b msk bufp)
  show ?case
  proof (cases "s < n")
    case True
    then have "n - s = Suc (n - (s + 1))" by simp
    with 1 True show ?thesis by (subst getbit.simps) (auto split: list.splits)
  qed (subst getbit.simps, simp)
qed

lemma tool_getbit_bits:
  "tool_getbit n x b msk input = Some (x', b', msk', r) \<Longrightarrow> n + bits_left msk' r = bits_left msk input"
  by (induction n x b msk input rule: tool_getbit.induct)
    (auto simp: bits_left_def mask_bits_pos drop_bit_Suc mask_bits_64 split: if_splits list.splits)

function decompress_loop :: "byte list \<Rightarrow> nat \<Rightarrow> nat \<Rightarrow> nat \<Rightarrow> byte list \<Rightarrow> byte list \<Rightarrow> byte list" where
  "decompress_loop buf r b msk input out = (case tool_getbit 1 0 b msk input of
     None \<Rightarrow> out
   | Some (c, b, msk, input) \<Rightarrow>
       if c \<noteq> 0 then (case tool_getbit 8 0 b msk input of
           None \<Rightarrow> out
         | Some (c, b, msk, input) \<Rightarrow>
             decompress_loop (buf[r := word_of_nat c]) (and (r + 1) (lzss_N - 1)) b msk input (out @ [word_of_nat c]))
       else (case tool_getbit EI 0 b msk input of
           None \<Rightarrow> out
         | Some (i, b, msk, input) \<Rightarrow> (case tool_getbit EJ 0 b msk input of
             None \<Rightarrow> out
           | Some (j, b, msk, input) \<Rightarrow> (case tool_copy (j + 2) i buf r out of (buf, r, out) \<Rightarrow>
               decompress_loop buf r b msk input out))))"
  by pat_completeness auto
termination
  by (relation "measure (\<lambda>(buf, r, b, msk, input, out). bits_left msk input)")
    (auto simp del: tool_getbit.simps dest!: tool_getbit_bits)

declare decompress_loop.simps [simp del]

definition decompress :: "byte list \<Rightarrow> byte list" where
  "decompress input = decompress_loop (replicate (lzss_N - lzss_F) 32 @ replicate (lzss_N + lzss_F) 0) (lzss_N - lzss_F) 0 0 input []"

definition pipeline_decompress_command :: "byte list option \<Rightarrow> bool \<Rightarrow> int \<times> byte list" where
  "pipeline_decompress_command binary_file out_opens = (case binary_file of
     None \<Rightarrow> (1, [])
   | Some input \<Rightarrow> if \<not> out_opens then (1, []) else (0, decompress input))"

section \<open>The bits that are written\<close>

definition emitted :: "lz_out \<Rightarrow> bool list \<Rightarrow> bool" where
  "emitted ob bits \<longleftrightarrow> (\<exists>cur. length cur < 8 \<and> bit_mask ob = 2 ^ (7 - length cur) \<and>
     bit_buffer ob = acc 0 cur * 2 ^ (8 - length cur) \<and> bits = bits_of (outfile ob) @ cur)"

lemma acc_append: "acc x (cs @ ds) = acc (acc x cs) ds"
  by (simp add: acc_def)

lemma acc_shift: "acc x cs = x * 2 ^ length cs + acc 0 cs"
proof (induction cs arbitrary: x)
  case (Cons c cs)
  show ?case using Cons.IH [of "2 * x + (if c then 1 else 0)"] Cons.IH [of "if c then 1 else 0"]
    by (cases c) (simp_all add: algebra_simps)
qed simp

lemma acc_less: "acc 0 cs < 2 ^ length cs"
proof (induction cs)
  case (Cons c cs)
  then show ?case using acc_shift [of 1 cs] by simp
qed simp

lemma nat_bits_low: "nat_bits n (x * 2 ^ m + v) = nat_bits n v" if "n \<le> m"
  using that
proof (induction n)
  case (Suc n)
  have "x * 2 ^ m = 2 ^ n * (2 * (x * 2 ^ (m - Suc n)))" using Suc.prems
    by (simp flip: power_Suc power_add mult.assoc add: mult.left_commute)
  then have "(x * 2 ^ m + v) div 2 ^ n = 2 * (x * 2 ^ (m - Suc n)) + v div 2 ^ n"
    by (metis add.commute div_mult_self2 power_not_zero zero_neq_numeral)
  then show ?case using Suc by simp
qed simp

lemma nat_bits_acc: "nat_bits (length cs) (acc 0 cs) = cs"
proof (induction cs)
  case (Cons c cs)
  have "nat_bits (length cs) (acc 1 cs) = cs" using acc_shift [of 1 cs] nat_bits_low [of "length cs" "length cs" 1 "acc 0 cs"] Cons
    by simp
  moreover have "acc 1 cs div 2 ^ length cs = 1" using acc_shift [of 1 cs] acc_less [of cs]
    by (simp add: div_nat_eqI)
  ultimately show ?case using Cons acc_less [of cs] by simp
qed simp

lemma pend_nat_bits: "pend b (2 ^ n) = nat_bits (Suc n) b"
proof (induction n)
  case 0
  then show ?case using and_exp_eq_0_iff_not_bit [of b 0] pend_pos [of 1 b] by (simp add: bit_iff_odd odd_iff_mod_2_eq_one)
next
  case (Suc n)
  have "pend b (2 ^ Suc n) = (and b (2 ^ Suc n) \<noteq> 0) # pend b (2 ^ n)"
    using pend_pos [of "2 ^ Suc n" b] by (simp add: drop_bit_eq_div)
  then show ?case using Suc and_exp_eq_0_iff_not_bit [of b "Suc n"] by (simp add: bit_iff_odd odd_iff_mod_2_eq_one del: power_Suc)
qed

lemma pend_acc: "length cs = 8 \<Longrightarrow> pend (unat (word_of_nat (acc 0 cs) :: byte)) 128 = cs"
  using nat_bits_acc [of cs] acc_less [of cs] pend_nat_bits [of "acc 0 cs" 7]
  by (simp add: unat_of_nat take_bit_eq_mod)

lemma bits_of_append: "bits_of (xs @ ys) = bits_of xs @ bits_of ys"
  by (simp add: bits_of_def)

lemma putbit0_emitted:
  assumes "length cur < 8" and "bit_mask ob = 2 ^ (7 - length cur)" and "bit_buffer ob = acc 0 (cur @ [c]) * 2 ^ (7 - length cur)"
    and "bits = bits_of (outfile ob) @ cur @ [c]"
  shows "emitted (putbit0 ob) bits"
proof (cases "length cur = 7")
  case True
  then have "pend (unat (word_of_nat (bit_buffer ob) :: byte)) 128 = cur @ [c]" using pend_acc [of "cur @ [c]"] assms(3) by simp
  then show ?thesis unfolding emitted_def
    by (intro exI [of _ "[]"]) (use True assms in \<open>simp add: putbit0_def bits_of_append bits_of_Cons drop_bit_Suc bits_of_def\<close>)
next
  case False
  then have "7 - length cur = Suc (7 - length (cur @ [c]))" using assms(1) by simp
  then have "drop_bit 1 (bit_mask ob) = 2 ^ (7 - length (cur @ [c]))" using assms(2) by (simp add: drop_bit_eq_div)
  then show ?thesis unfolding emitted_def
    by (intro exI [of _ "cur @ [c]"]) (use False assms in \<open>simp add: putbit0_def Let_def\<close>)
qed

lemma putbit_emitted:
  assumes "emitted ob bits"
  shows "emitted (putbit0 ob) (bits @ [False])" "emitted (putbit1 ob) (bits @ [True])"
proof -
  obtain cur where c: "length cur < 8" "bit_mask ob = 2 ^ (7 - length cur)" "bit_buffer ob = acc 0 cur * 2 ^ (8 - length cur)"
    "bits = bits_of (outfile ob) @ cur"
    using assms by (auto simp: emitted_def)
  have e: "8 - length cur = Suc (7 - length cur)" using c(1) by simp
  have b: "bit_buffer ob = push_bit (Suc (7 - length cur)) (acc 0 cur)" using c(3) e by (simp add: push_bit_eq_mult)
  have "and (bit_buffer ob) (bit_mask ob) = 0"
    unfolding b c(2) and_exp_eq_0_iff_not_bit bit_push_bit_iff_nat by simp
  then have o: "or (bit_buffer ob) (bit_mask ob) = bit_buffer ob + bit_mask ob"
    using disjunctive_add_eq_or [of "bit_buffer ob" "bit_mask ob"] by simp
  show "emitted (putbit0 ob) (bits @ [False])"
    by (rule putbit0_emitted [OF c(1,2), where c = False]) (use c(3,4) e in \<open>simp_all add: acc_append\<close>)
  show "emitted (putbit1 ob) (bits @ [True])" unfolding putbit1_def
    by (rule putbit0_emitted [OF c(1), where c = True]) (use c e o in \<open>simp_all add: acc_append algebra_simps\<close>)
qed

lemma put_loop_emitted: "emitted ob bits \<Longrightarrow> emitted (put_loop v (2 ^ n) ob) (bits @ nat_bits n v)"
proof (induction n arbitrary: ob bits)
  case 0
  then show ?case by (subst put_loop.simps) (simp add: drop_bit_eq_div)
next
  case (Suc n)
  let ?ob = "if and v (2 ^ n) \<noteq> 0 then putbit1 ob else putbit0 ob"
  have "emitted ?ob (bits @ [v div 2 ^ n mod 2 = 1])"
    using putbit_emitted [OF Suc.prems] and_exp_eq_0_iff_not_bit [of v n]
    by (simp add: bit_iff_odd odd_iff_mod_2_eq_one)
  moreover have "put_loop v (2 ^ Suc n) ob = put_loop v (2 ^ n) ?ob"
    by (subst put_loop.simps) (simp add: drop_bit_eq_div)
  ultimately show ?case using Suc.IH [of ?ob "bits @ [v div 2 ^ n mod 2 = 1]"] by simp
qed

lemma output1_emitted: "emitted ob bits \<Longrightarrow> emitted (output1 c ob) (bits @ token_bits (Lit c))"
  using put_loop_emitted [OF putbit_emitted(2), of ob bits "unat c" 8] by (simp add: output1_def)

lemma output2_emitted: "emitted ob bits \<Longrightarrow> emitted (output2 x y ob) (bits @ token_bits (Ref x y))"
  using put_loop_emitted [OF put_loop_emitted [OF putbit_emitted(1)], of ob bits y EJ x EI]
  by (simp add: output2_def lzss_N_def push_bit_eq_mult)

lemma flush_emitted:
  assumes "emitted ob bits"
  shows "\<exists>pad. length pad < 8 \<and> bits_of (outfile (flush_bit_buffer ob)) = bits @ pad"
proof -
  obtain cur where c: "length cur < 8" "bit_mask ob = 2 ^ (7 - length cur)" "bit_buffer ob = acc 0 cur * 2 ^ (8 - length cur)"
    "bits = bits_of (outfile ob) @ cur"
    using assms by (auto simp: emitted_def)
  have z: "acc x (replicate n False) = x * 2 ^ n" for x n by (induction n arbitrary: x) simp_all
  show ?thesis
  proof (cases "cur = []")
    case True
    with c show ?thesis by (intro exI [of _ "[]"]) (simp add: flush_bit_buffer_def)
  next
    case False
    let ?pad = "replicate (8 - length cur) False"
    have m: "bit_mask ob \<noteq> 128"
    proof
      assume "bit_mask ob = 128"
      then have "(2 :: nat) ^ (7 - length cur) = 2 ^ 7" using c(2) by simp
      then have "7 - length cur = 7" using power_inject_exp [of "2 :: nat" "7 - length cur" 7] by simp
      then show False using False c(1) by (cases cur) simp_all
    qed
    have "pend (unat (word_of_nat (bit_buffer ob) :: byte)) 128 = cur @ ?pad"
      using pend_acc [of "cur @ ?pad"] c(1,3) by (simp add: acc_append z)
    with m c(4) False c(1) show ?thesis
      by (intro exI [of _ ?pad]) (simp add: flush_bit_buffer_def bits_of_append bits_of_Cons bits_of_def)
  qed
qed

section \<open>The tokens stand for the input\<close>

lemma match_loop_same: "k < match_loop buf i r f1 j \<Longrightarrow> j \<le> k \<Longrightarrow> buf ! (i + k) = buf ! (r + k)"
proof (induction buf i r f1 j rule: match_loop.induct)
  case (1 buf i r f1 j)
  show ?case
  proof (cases "j < f1 \<and> buf ! (i + j) = buf ! (r + j)")
    case True
    then have "match_loop buf i r f1 j = match_loop buf i r f1 (j + 1)" by (subst match_loop.simps) simp
    then show ?thesis using 1 True by (cases "k = j") simp_all
  next
    case False
    then have "match_loop buf i r f1 j = j" by (subst match_loop.simps) auto
    then show ?thesis using 1(2,3) by simp
  qed
qed

text \<open>A match that the search returns: a place before \<open>r\<close> where the same bytes are.\<close>

definition lz_match :: "byte list \<Rightarrow> nat \<Rightarrow> nat \<Rightarrow> nat \<Rightarrow> nat \<Rightarrow> nat \<Rightarrow> bool" where
  "lz_match buf r s f1 x y \<longleftrightarrow> y = 1 \<or> (s \<le> x \<and> x < r \<and> 2 \<le> y \<and> y \<le> f1 \<and> (\<forall>j<y. buf ! (x + j) = buf ! (r + j)))"

lemma uint_sint_eq: "uint (a :: byte) = sint b \<Longrightarrow> a = b"
proof -
  assume "uint a = sint b"
  then have "a = word_of_int (sint b)" by (metis word_of_int_uint)
  then show ?thesis by simp
qed

lemma search_loop_match:
  "s + n \<le> r \<Longrightarrow> 0 < f1 \<Longrightarrow> lz_match buf r s f1 x y \<Longrightarrow> lz_match buf r s f1 (fst (search_loop buf r s f1 n x y)) (snd (search_loop buf r s f1 n x y))"
proof (induction n arbitrary: x y)
  case (Suc n)
  let ?i = "s + n" let ?j = "match_loop buf ?i r f1 1"
  have "lz_match buf r s f1 ?i ?j" if e: "uint (buf ! ?i) = sint (buf ! r)"
  proof (cases "?j = 1")
    case False
    then have "2 \<le> ?j" using match_loop_ge [of 1 buf ?i r f1] by simp
    moreover have "buf ! (?i + k) = buf ! (r + k)" if "k < ?j" for k
      using match_loop_same [OF that] uint_sint_eq [OF e] by (cases k) simp_all
    ultimately show ?thesis using match_loop_le [of 1 f1 buf ?i r] Suc.prems by (simp add: lz_match_def)
  qed (simp add: lz_match_def)
  with Suc show ?case by (simp add: Let_def)
qed simp

lemma last_at_copy: "I < R \<Longrightarrow> R \<le> I + lzss_N \<Longrightarrow> length h = R \<Longrightarrow> last_at h (I mod lzss_N) = I"
proof -
  assume a: "I < R" "R \<le> I + lzss_N" "length h = R"
  have "R - 1 - I mod lzss_N = (R - 1 - I) + (I - I mod lzss_N)" using a(1) mod_less_eq_dividend [of I lzss_N] by linarith
  then have "(R - 1 - I mod lzss_N) mod lzss_N = (R - 1 - I) mod lzss_N"
    by (simp add: minus_mod_eq_mult_div)
  also have "\<dots> = R - 1 - I" using a by (intro mod_less) (simp add: lzss_consts)
  finally show ?thesis using a(1,3) by (simp add: last_at_def)
qed

lemma expand_ref_copy:
  assumes "I < R" and "R \<le> I + lzss_N" and "\<forall>j<n. T ! (I + j) = T ! (R + j)" and "R + n \<le> length T" and "p mod lzss_N = I mod lzss_N"
  shows "expand_ref n p (take R T) = Some (take (R + n) T)"
  using assms
proof (induction n arbitrary: p I R)
  case (Suc n)
  have len: "length (take R T) = R" using Suc.prems(4) by simp
  have "last_at (take R T) (I mod lzss_N) = I" by (rule last_at_copy [OF Suc.prems(1,2) len])
  moreover have "T ! I = T ! R" using Suc.prems(3) by (metis add_0_right zero_less_Suc)
  ultimately have c: "take R T @ [take R T ! last_at (take R T) (p mod lzss_N)] = take (Suc R) T"
    using Suc.prems by (simp add: take_Suc_conv_app_nth)
  have "I mod lzss_N < R" using Suc.prems(1) mod_less_eq_dividend [of I lzss_N] by linarith
  moreover have "expand_ref n (p + 1) (take (Suc R) T) = Some (take (Suc R + n) T)"
    by (rule Suc.IH [of "Suc I"]) (use Suc.prems mod_Suc_eq [of p lzss_N] mod_Suc_eq [of I lzss_N] in auto)
  ultimately show ?case using c len Suc.prems(5) by simp
qed simp

lemma fill_content:
  assumes "fill buf k cs = (buf', k', cs')" and "length buf = 2 * lzss_N" and "k \<le> 2 * lzss_N"
  shows "length buf' = 2 * lzss_N \<and> k' \<le> 2 * lzss_N \<and> (k' = 2 * lzss_N \<or> cs' = []) \<and>
    (\<forall>i<k. buf' ! i = buf ! i) \<and> cs = map ((!) buf') [k..<k'] @ cs' \<and> k \<le> k'"
  using assms
proof (induction buf k cs rule: fill.induct)
  case (2 buf k c cs)
  show ?case
  proof (cases "k < 2 * lzss_N")
    case True
    then have "fill (buf[k := c]) (k + 1) cs = (buf', k', cs')" using 2(2) by simp
    from 2(1) [OF True this] 2(3,4) True show ?thesis by (auto simp: upt_conv_Cons)
  qed (use 2 in auto)
qed auto

lemma slide_nth: "k < lzss_N \<Longrightarrow> slide buf ! k = buf ! (k + lzss_N)"
  by (simp add: slide_def nth_append)

lemma length_slide: "length buf = 2 * lzss_N \<Longrightarrow> length (slide buf) = 2 * lzss_N"
  by (simp add: slide_def)

text \<open>
  The buffer holds the text \<open>T\<close>, the input after the initial blanks, from position \<open>base\<close> on, up to \<open>bufferend\<close>.
\<close>

definition enc_inv :: "byte list \<Rightarrow> nat \<Rightarrow> byte list \<Rightarrow> nat \<Rightarrow> nat \<Rightarrow> nat \<Rightarrow> byte list \<Rightarrow> bool" where
  "enc_inv T base buf bufferend r s input \<longleftrightarrow> length buf = 2 * lzss_N \<and> bufferend \<le> 2 * lzss_N \<and> base mod lzss_N = 0 \<and>
     (\<forall>k<bufferend. buf ! k = T ! (base + k)) \<and> base + bufferend \<le> length T \<and> drop (base + bufferend) T = input \<and>
     (bufferend = 2 * lzss_N \<or> input = []) \<and> s + (lzss_N - lzss_F) = r \<and> r \<le> bufferend \<and> r < 2 * lzss_N - lzss_F"

lemma lz_step_ok:
  assumes "enc_inv T base buf bufferend r s input" and "r < bufferend" and "emitted ob bits"
  shows "\<exists>t y ob'. lz_step buf bufferend r s ob = (y, ob') \<and> 0 < y \<and> y \<le> lzss_F \<and> r + y \<le> bufferend \<and> emitted ob' (bits @ token_bits t) \<and>
    (\<forall>ts. lzss_expand (t # ts) (take (base + r) T) = lzss_expand ts (take (base + (r + y)) T))"
proof -
  define f1 where "f1 = (if lzss_F \<le> bufferend - r then lzss_F else bufferend - r)"
  obtain x y where xy: "search_loop buf r s f1 (r - s) 0 1 = (x, y)" by fastforce
  have f1: "0 < f1" "f1 \<le> lzss_F" "r + f1 \<le> bufferend" using assms(2) by (auto simp: f1_def lzss_consts)
  have nth: "buf ! k = T ! (base + k)" if "k < bufferend" for k using assms(1) that by (simp add: enc_inv_def)
  have m: "lz_match buf r s f1 x y"
    using search_loop_match [of s "r - s" r f1 buf 0 1] xy f1(1) assms(1) by (simp add: lz_match_def enc_inv_def)
  have step: "lz_step buf bufferend r s ob =
      (if y \<le> 1 then (1, output1 (buf ! r) ob) else (y, output2 (and x (lzss_N - 1)) (y - 2) ob))"
    by (simp add: lz_step_def f1_def [symmetric] xy [unfolded One_nat_def])
  have len: "base + bufferend \<le> length T" using assms(1) by (simp add: enc_inv_def)
  show ?thesis
  proof (cases "y \<le> 1")
    case True
    have "take (base + r) T @ [buf ! r] = take (base + (r + 1)) T"
      using nth [OF assms(2)] len assms(2) take_Suc_conv_app_nth [of "base + r" T] by simp
    with True step output1_emitted [OF assms(3), of "buf ! r"] assms(2) show ?thesis
      by (intro exI [of _ "Lit (buf ! r)"] exI [of _ 1] exI [of _ "output1 (buf ! r) ob"]) (simp add: lzss_consts)
  next
    case False
    then have mt: "s \<le> x" "x < r" "2 \<le> y" "y \<le> f1" "\<forall>j<y. buf ! (x + j) = buf ! (r + j)"
      using m by (auto simp: lz_match_def)
    let ?x = "x mod lzss_N"
    have mod: "?x mod lzss_N = (base + x) mod lzss_N"
      using assms(1) mod_add_left_eq [of base lzss_N x] by (simp add: enc_inv_def)
    have same: "\<forall>j<y. T ! (base + x + j) = T ! (base + r + j)"
    proof (intro allI impI)
      fix j assume "j < y"
      then have "x + j < bufferend" "r + j < bufferend" using mt(2,4) f1(3) by simp_all
      then show "T ! (base + x + j) = T ! (base + r + j)" using nth mt(5) \<open>j < y\<close> by (metis add.assoc)
    qed
    have dist: "base + r \<le> base + x + lzss_N" using assms(1) mt(1) by (auto simp: enc_inv_def)
    have "expand_ref y ?x (take (base + r) T) = Some (take (base + r + y) T)"
      by (rule expand_ref_copy [OF _ dist same _ mod]) (use mt f1(3) len in simp_all)
    moreover have "y - 2 + 2 = y" "y - 2 < 2 ^ EJ" using mt(3,4) f1(2) by (simp_all add: lzss_consts)
    moreover have "?x < lzss_N" by (simp add: lzss_consts)
    ultimately have "\<forall>ts. lzss_expand (Ref ?x (y - 2) # ts) (take (base + r) T) = lzss_expand ts (take (base + (r + y)) T)"
      by (simp add: add.assoc del: expand_ref.simps)
    with False step output2_emitted [OF assms(3), of ?x "y - 2"] mt(3,4) f1(2,3) show ?thesis
      by (intro exI [of _ "Ref ?x (y - 2)"] exI [of _ y] exI [of _ "output2 ?x (y - 2) ob"]) (simp add: and_lzss_N and_lzss_N')
  qed
qed

lemma enc_inv_slide:
  assumes "enc_inv T base buf bufferend r s input" and "r + y \<le> bufferend" and "lzss_N * 2 - lzss_F \<le> r + y"
    and "fill (slide buf) (bufferend - lzss_N) input = (buf', bufferend', input')" and "y \<le> lzss_F"
  shows "enc_inv T (base + lzss_N) buf' bufferend' (r + y - lzss_N) (s + y - lzss_N) input'"
proof -
  note inv = assms(1) [unfolded enc_inv_def]
  have N: "lzss_N \<le> bufferend" "lzss_F < lzss_N" using assms(2,3) by (simp_all add: lzss_consts)
  have l: "length (slide buf) = 2 * lzss_N" using inv by (simp add: length_slide)
  have f: "length buf' = 2 * lzss_N" "bufferend' \<le> 2 * lzss_N" "bufferend' = 2 * lzss_N \<or> input' = []"
    "\<forall>i<bufferend - lzss_N. buf' ! i = slide buf ! i" "input = map ((!) buf') [bufferend - lzss_N..<bufferend'] @ input'"
    "bufferend - lzss_N \<le> bufferend'"
    using fill_content [OF assms(4) l] inv by (simp_all add: le_diff_conv)
  have dr: "drop (base + bufferend) T = map ((!) buf') [bufferend - lzss_N..<bufferend'] @ input'" using f(5) inv by simp
  have cnt: "base + lzss_N + bufferend' \<le> length T" "drop (base + lzss_N + bufferend') T = input'"
  proof -
    have "drop (bufferend' - (bufferend - lzss_N)) (drop (base + bufferend) T) = input'" unfolding dr by simp
    moreover have "bufferend' - (bufferend - lzss_N) + (base + bufferend) = base + lzss_N + bufferend'" using N f(6) by simp
    ultimately show "drop (base + lzss_N + bufferend') T = input'" by (simp add: ac_simps)
    have "length T - (base + bufferend) = bufferend' - (bufferend - lzss_N) + length input'" using arg_cong [OF dr, of length] by simp
    then show "base + lzss_N + bufferend' \<le> length T" using inv N f(6) by linarith
  qed
  have nth: "buf' ! k = T ! (base + lzss_N + k)" if "k < bufferend'" for k
  proof (cases "k < bufferend - lzss_N")
    case True
    then have "k < lzss_N" using inv by linarith
    then have "buf' ! k = buf ! (k + lzss_N)" using f(4) True by (simp add: slide_nth)
    moreover have "k + lzss_N < bufferend" using True by simp
    ultimately show ?thesis using inv by (simp add: ac_simps)
  next
    case False
    let ?i = "k - (bufferend - lzss_N)"
    have "?i < bufferend' - (bufferend - lzss_N)" using False that by simp
    then have "drop (base + bufferend) T ! ?i = buf' ! k" unfolding dr using False by (simp add: nth_append)
    moreover have "base + bufferend + ?i = base + lzss_N + k" using False N by simp
    moreover have "base + bufferend \<le> length T" using inv by simp
    ultimately show ?thesis by (metis nth_drop)
  qed
  have "r + y - lzss_N \<le> bufferend'" using assms(2) f(6) by simp
  moreover have "r + y - lzss_N < 2 * lzss_N - lzss_F" using inv assms(5) by (auto simp: lzss_consts)
  moreover have "s + y - lzss_N + (lzss_N - lzss_F) = r + y - lzss_N" using inv assms(3) by (auto simp: lzss_consts)
  ultimately show ?thesis unfolding enc_inv_def using f cnt nth inv by simp
qed

lemma compress_loop_ok:
  assumes "enc_inv T base buf bufferend r s input" and "emitted ob bits"
  shows "\<exists>ts. lzss_expand ts (take (base + r) T) = Some T \<and> emitted (compress_loop buf bufferend r s input ob) (bits @ lzss_encode ts)"
  using assms
proof (induction buf bufferend r s input ob arbitrary: base bits rule: compress_loop.induct)
  case (1 buf bufferend r s input ob)
  show ?case
  proof (cases "r < bufferend")
    case False
    then have "bufferend = r" "r < 2 * lzss_N" using 1(3) by (auto simp: enc_inv_def)
    then have "drop (base + r) T = []" using 1(3) by (auto simp: enc_inv_def)
    then have "take (base + r) T = T" by simp
    moreover have "compress_loop buf bufferend r s input ob = ob" using False by (subst compress_loop.simps) simp
    ultimately show ?thesis using 1(4) by (intro exI [of _ "[]"]) (simp add: lzss_encode_def)
  next
    case True
    obtain t y ob' where st: "lz_step buf bufferend r s ob = (y, ob')" "0 < y" "r + y \<le> bufferend" "y \<le> lzss_F" "emitted ob' (bits @ token_bits t)"
      "\<And>ts. lzss_expand (t # ts) (take (base + r) T) = lzss_expand ts (take (base + (r + y)) T)"
      using lz_step_ok [OF 1(3) True 1(4)] by blast
    have "\<exists>ts. lzss_expand ts (take (base + (r + y)) T) = Some T \<and>
        emitted (compress_loop buf bufferend r s input ob) ((bits @ token_bits t) @ lzss_encode ts)"
    proof (cases "lzss_N * 2 - lzss_F \<le> r + y")
      case True': True
      obtain buf' be' input' where f: "fill (slide buf) (bufferend - lzss_N) input = (buf', be', input')" by (metis prod_cases3)
      note inv = enc_inv_slide [OF 1(3) st(3) True' f st(4)]
      have b: "base + lzss_N + (r + y - lzss_N) = base + (r + y)" using True' by (simp add: lzss_consts)
      from 1(1) [OF True st(1) [symmetric] refl True' f [symmetric] refl refl inv st(5)] b
      show ?thesis using True True' st(1) f by (subst compress_loop.simps) simp
    next
      case False
      have "enc_inv T base buf bufferend (r + y) (s + y) input" using 1(3) st(3) False by (auto simp: enc_inv_def)
      from 1(2) [OF True st(1) [symmetric] refl False this st(5)] show ?thesis
        using True False st(1) by (subst compress_loop.simps) simp
    qed
    then obtain ts where "lzss_expand ts (take (base + (r + y)) T) = Some T"
      "emitted (compress_loop buf bufferend r s input ob) ((bits @ token_bits t) @ lzss_encode ts)" by blast
    then show ?thesis using st(6) [of ts] by (intro exI [of _ "t # ts"]) (simp add: lzss_encode_def)
  qed
qed

lemma compress_tokens:
  "\<exists>ts pad. lzss_expand ts blanks = Some (blanks @ data) \<and> bits_of (outfile (compress data)) = lzss_encode ts @ pad \<and> length pad < 8"
proof -
  let ?buf = "replicate (lzss_N - lzss_F) 32 @ replicate (lzss_N + lzss_F) (0 :: byte)" and ?T = "blanks @ data"
  obtain buf' be input where f: "fill ?buf (lzss_N - lzss_F) data = (buf', be, input)" by (metis prod_cases3)
  have len: "length ?buf = 2 * lzss_N" by (simp add: lzss_consts)
  have c: "length buf' = 2 * lzss_N" "be \<le> 2 * lzss_N" "be = 2 * lzss_N \<or> input = []"
    "\<forall>i<lzss_N - lzss_F. buf' ! i = ?buf ! i" "data = map ((!) buf') [lzss_N - lzss_F..<be] @ input" "lzss_N - lzss_F \<le> be"
    using fill_content [OF f len] by simp_all
  have lb: "length blanks = lzss_N - lzss_F" by (simp add: blanks_def)
  have nth: "buf' ! k = ?T ! k" if "k < be" for k
  proof (cases "k < lzss_N - lzss_F")
    case True
    then show ?thesis using c(4) by (simp add: nth_append blanks_def)
  next
    case False
    then have "k - (lzss_N - lzss_F) < be - (lzss_N - lzss_F)" using that by simp
    then show ?thesis using False lb by (subst c(5)) (simp add: nth_append)
  qed
  have "length data = be - (lzss_N - lzss_F) + length input" using arg_cong [OF c(5), of length] by simp
  then have "length ?T = be + length input" using lb c(6) by simp
  moreover have "drop be ?T = input" using c(5,6) lb by (subst c(5)) simp
  ultimately have "enc_inv ?T 0 buf' be (lzss_N - lzss_F) 0 input"
    using c nth by (simp add: enc_inv_def) (simp add: lzss_consts)
  moreover have "emitted lz_out0 []" by (auto simp: emitted_def lz_out0_def bits_of_def)
  ultimately obtain ts where ts: "lzss_expand ts (take (lzss_N - lzss_F) ?T) = Some ?T"
    "emitted (compress_loop buf' be (lzss_N - lzss_F) 0 input lz_out0) (lzss_encode ts)"
    using compress_loop_ok [of ?T 0 buf' be "lzss_N - lzss_F" 0 input lz_out0 "[]"] by auto
  have "take (lzss_N - lzss_F) ?T = blanks" by (simp add: lb)
  with ts flush_emitted [OF ts(2)] show ?thesis by (auto simp: compress_def f)
qed

section \<open>What the decoder of the tool restores\<close>

definition lz_view :: "byte list \<Rightarrow> nat \<Rightarrow> byte \<Rightarrow> lzss_static" where
  "lz_view buf r c = \<lparr>lz_i = 0, lz_j = 0, lz_k = 0, lz_r = r, lz_c = unat c, lz_s = 0, lz_buffer = buf, lz_b = 0, lz_mask = 0\<rparr>"

lemma window_view: "window h (lz_view buf r c) \<longleftrightarrow> window h (lz_view buf r d)"
  by (simp add: window_def lz_view_def)

lemma tool_put: "window h (lz_view buf r c) \<Longrightarrow> window (h @ [d]) (lz_view (buf[r := d]) (and (r + 1) (lzss_N - 1)) e)"
  using window_put [of h "lz_view buf r d" d] window_view [of h buf r c d] by (simp add: lz_view_def lzss_put_def window_def)

lemma tool_copy_ok:
  "expand_ref n p h = Some h' \<Longrightarrow> window h (lz_view buf r c) \<Longrightarrow>
   \<exists>buf' r'. tool_copy n p buf r out = (buf', r', out @ drop (length h) h') \<and> window h' (lz_view buf' r' c)"
proof (induction n arbitrary: p h buf r out)
  case (Suc n)
  define d where "d = h ! last_at h (p mod lzss_N)"
  have p: "p mod lzss_N < length h" "expand_ref n (p + 1) (h @ [d]) = Some h'"
    using Suc.prems(1) by (simp_all add: d_def split: if_splits)
  have rd: "buf ! and p (lzss_N - 1) = d" using window_read [OF Suc.prems(2) p(1)] by (simp add: lz_view_def d_def)
  obtain buf' r' where t: "tool_copy n (p + 1) (buf[r := d]) (and (r + 1) (lzss_N - 1)) (out @ [d]) =
      (buf', r', (out @ [d]) @ drop (length (h @ [d])) h')" "window h' (lz_view buf' r' c)"
    using Suc.IH [OF p(2) tool_put [OF Suc.prems(2)]] by blast
  obtain q where "h' = (h @ [d]) @ q" using expand_ref_prefix [OF p(2)] by blast
  then have "drop (length h) h' = d # drop (length (h @ [d])) h'" by simp
  with t rd show ?case by (simp add: Let_def)
qed simp

lemma tool_read:
  assumes "bitstream b msk input = nat_bits n v @ rest" and "v < 2 ^ n"
  shows "\<exists>b' msk' r. tool_getbit n 0 b msk input = Some (v, b', msk', r) \<and> bitstream b' msk' r = rest"
  using getbit_Inr [of n 0 b msk input 0] tool_getbit_eq [of n 0 0 b msk input] assms nat_bits_val [OF assms(2)] by auto

lemma tool_eof: "length (bitstream b msk input) < n \<Longrightarrow> tool_getbit n 0 b msk input = None"
  using getbit_Inl [of b msk input n 0 0] tool_getbit_eq [of n 0 0 b msk input] by auto

lemma decompress_tokens:
  assumes "lzss_expand ts h = Some h'" and "window h (lz_view buf r c)" and "bitstream b msk input = lzss_encode ts @ pad"
    and "length pad < 8"
  shows "decompress_loop buf r b msk input out = out @ drop (length h) h'"
  using assms
proof (induction ts arbitrary: h buf r b msk input out)
  case Nil
  then have bits: "bitstream b msk input = pad" "h' = h" by (simp_all add: lzss_encode_def)
  show ?case
  proof (cases "tool_getbit 1 0 b msk input")
    case None
    then show ?thesis using bits(2) by (subst decompress_loop.simps) simp
  next
    case (Some q)
    then obtain c b' msk' input' where q: "tool_getbit 1 0 b msk input = Some (c, b', msk', input')" by (cases q) auto
    have "1 \<le> length (bitstream b msk input)" using q tool_eof [of b msk input 1] by (cases "bitstream b msk input") auto
    then have "bitstream b' msk' input' = drop 1 pad"
      using getbit_Inr [of 1 0 b msk input 0] tool_getbit_eq [of 1 0 0 b msk input] q bits(1) by auto
    then have "length (bitstream b' msk' input') < 8" using Nil.prems(4) by simp
    then have "tool_getbit 8 0 b' msk' input' = None" "tool_getbit EI 0 b' msk' input' = None"
      by (auto intro!: tool_eof simp: EI_def)
    with q bits(2) show ?thesis by (subst decompress_loop.simps) simp
  qed
next
  case (Cons t ts)
  show ?case
  proof (cases t)
    case (Lit d)
    have "bitstream b msk input = nat_bits 1 1 @ nat_bits 8 (unat d) @ lzss_encode ts @ pad"
      using Cons.prems(3) Lit by (simp add: lzss_encode_def)
    from tool_read [OF this] obtain b1 m1 i1 where 1: "tool_getbit 1 0 b msk input = Some (1, b1, m1, i1)"
      "bitstream b1 m1 i1 = nat_bits 8 (unat d) @ lzss_encode ts @ pad" by auto
    have "unat d < 2 ^ 8" using unsigned_less [of d] by simp
    from tool_read [OF 1(2) this] obtain b2 m2 i2 where 2: "tool_getbit 8 0 b1 m1 i1 = Some (unat d, b2, m2, i2)"
      "bitstream b2 m2 i2 = lzss_encode ts @ pad" by blast
    have e: "lzss_expand ts (h @ [d]) = Some h'" using Cons.prems(1) Lit by simp
    obtain q where "h' = (h @ [d]) @ q" using lzss_expand_prefix [OF e] by blast
    then have "drop (length h) h' = d # drop (length (h @ [d])) h'" by simp
    with Cons.IH [OF e tool_put [OF Cons.prems(2)] 2(2) Cons.prems(4), of "out @ [d]"] 1(1) 2(1) show ?thesis
      by (subst decompress_loop.simps) simp
  next
    case (Ref i j)
    have ij: "i < 2 ^ EI" "j < 2 ^ EJ" using Cons.prems(1) Ref by (auto simp: lzss_N_def split: if_splits)
    obtain h1 where e: "expand_ref (j + 2) i h = Some h1" "lzss_expand ts h1 = Some h'"
      using Cons.prems(1) Ref by (auto simp del: expand_ref.simps split: if_splits bind_splits)
    have "bitstream b msk input = nat_bits 1 0 @ nat_bits EI i @ nat_bits EJ j @ lzss_encode ts @ pad"
      using Cons.prems(3) Ref by (simp add: lzss_encode_def)
    from tool_read [OF this] obtain b1 m1 i1 where 1: "tool_getbit 1 0 b msk input = Some (0, b1, m1, i1)"
      "bitstream b1 m1 i1 = nat_bits EI i @ nat_bits EJ j @ lzss_encode ts @ pad" by auto
    from tool_read [OF 1(2) ij(1)] obtain b2 m2 i2 where 2: "tool_getbit EI 0 b1 m1 i1 = Some (i, b2, m2, i2)"
      "bitstream b2 m2 i2 = nat_bits EJ j @ lzss_encode ts @ pad" by blast
    from tool_read [OF 2(2) ij(2)] obtain b3 m3 i3 where 3: "tool_getbit EJ 0 b2 m2 i2 = Some (j, b3, m3, i3)"
      "bitstream b3 m3 i3 = lzss_encode ts @ pad" by blast
    obtain buf' r' where c: "tool_copy (j + 2) i buf r out = (buf', r', out @ drop (length h) h1)" "window h1 (lz_view buf' r' c)"
      using tool_copy_ok [OF e(1) Cons.prems(2)] by blast
    obtain q1 q2 where "h1 = h @ q1" "h' = h1 @ q2" using expand_ref_prefix [OF e(1)] lzss_expand_prefix [OF e(2)] by blast
    then have "drop (length h) h1 @ drop (length h1) h' = drop (length h) h'" by simp
    with Cons.IH [OF e(2) c(2) 3(2) Cons.prems(4), of "out @ drop (length h) h1"] 1(1) 2(1) 3(1) c(1) show ?thesis
      by (subst decompress_loop.simps) (simp del: tool_copy.simps)
  qed
qed

lemma decompress_compress: "decompress (outfile (compress data)) = data"
proof -
  obtain ts pad where t: "lzss_expand ts blanks = Some (blanks @ data)" "bits_of (outfile (compress data)) = lzss_encode ts @ pad"
    "length pad < 8"
    using compress_tokens by blast
  have "window blanks (lz_view (replicate (lzss_N - lzss_F) 32 @ replicate (lzss_N + lzss_F) 0) (lzss_N - lzss_F) 0)"
    by (auto simp: window_def lz_view_def blanks_def nth_append lzss_consts)
  from decompress_tokens [OF t(1) this, of 0 0 "outfile (compress data)" pad "[]"] t(2,3) show ?thesis
    by (simp add: decompress_def bitstream_def)
qed

section \<open>Properties\<close>

text \<open>
  C27. Compressing and decompressing with the tool. For every file that is not empty the encoder succeeds, and the decoder of the tool
  restores the file from what it writes.
\<close>

theorem tool_lzss_roundtrip:
  assumes "data \<noteq> []"
  shows "\<exists>z. pipeline_compress_command (Some data) True = Some (0, z) \<and> pipeline_decompress_command (Some z) True = (0, data)"
  using assms by (simp add: pipeline_compress_command_def pipeline_decompress_command_def decompress_compress)

theorem tool_lzss_roundtrip_witness:
  "\<exists>z. pipeline_compress_command (Some [65, 66, 65, 66, 7]) True = Some (0, z) \<and>
     pipeline_decompress_command (Some z) True = (0, [65, 66, 65, 66, 7])"
  by (rule tool_lzss_roundtrip) simp

text \<open>
  C26. Compressing with the tool, decompressing on the device. However the compressed file is cut into blocks, the decoder of the
  device in front of the buffer and the writer consumes them all, and after the flush the slot starts with the
  file that was compressed; nothing else has changed.
\<close>

theorem tool_device_lzss:
  assumes "pipeline_compress_command (Some data) True = Some (0, z)" and "concat cs = z" and "cs \<noteq> []"
    and "posix_opened ob i mode w0" and "mode \<in> {WRITE_CHUNK, WRITE_ALL}" and "length (posix_content i w0) < 2 ^ 32"
    and "length (buffer ctx) = BUFFER_LEN" and "lz_state lc = LZ_BEGIN" and "lzss_N \<le> length (lz_buffer (lz_static lc))"
    and "length data \<le> length (posix_content i w0)"
  shows "\<exists>lc' ctx' wc w wc' w'. feed (lzss_pipeline (buffer_pipeline (writer_pipeline posix_iface))) cs
      (lc, pipeline_buffer_init ctx, pipeline_writer_init ob, w0) = Some (lc', ctx', wc, w) \<and>
    pipeline_buffer_clear (writer_pipeline posix_iface) (ctx', wc, w) = Some (0, ctx', wc', w') \<and>
    posix_content i w' = data @ drop (length data) (posix_content i w0) \<and>
    (\<forall>j\<in>posix_valid_ids. j \<noteq> i \<longrightarrow> posix_content j w' = posix_content j w0)"
proof -
  have "z = outfile (compress data)" using assms(1) by (auto simp: pipeline_compress_command_def split: if_splits)
  then obtain ts pad where t: "lzss_expand ts blanks = Some (blanks @ data)" "bits_of (concat cs) = lzss_encode ts @ pad"
    "length pad < 8"
    using compress_tokens [of data] assms(2) by metis
  show ?thesis by (rule posix_lzss_writes [OF assms(4-9) t assms(3,10)])
qed

theorem tool_device_lzss_witness:
  "\<exists>lc' ctx' wc w wc' w'. feed (lzss_pipeline (buffer_pipeline (writer_pipeline posix_iface)))
      [outfile (compress [65, 66, 65, 66, 7])]
      (demo_lzss, pipeline_buffer_init demo_buffer, pipeline_writer_init (demo_obj 0), demo) = Some (lc', ctx', wc, w) \<and>
    pipeline_buffer_clear (writer_pipeline posix_iface) (ctx', wc, w) = Some (0, ctx', wc', w') \<and>
    posix_content OBJ_A w' = [65, 66, 65, 66, 7] @ drop (length [65, 66, 65, 66, 7 :: byte]) (posix_content OBJ_A demo) \<and>
    (\<forall>j\<in>posix_valid_ids. j \<noteq> OBJ_A \<longrightarrow> posix_content j w' = posix_content j demo)"
  by (rule tool_device_lzss [where mode = WRITE_ALL and z = "outfile (compress [65, 66, 65, 66, 7])"];
      (simp add: demo_length pipeline_compress_command_def; fail | code_simp))

end
