(* ===== verification/Tool_Bsdiff.thy ===== *)
theory Tool_Bsdiff
  imports Pipeline_Posix "HOL-Library.Monad_Syntax"
begin

text \<open>
  The difference of two images and its application in the firmware tool (\<open>utils/firmware_tool/commands/pipeline.cpp\<close>): the sort of the
  suffixes, the search, the loop that writes the patch, and the reader of patches. Under the condition that the sort returns a
  suffix array, the loop ends and writes a patch that turns the old image into the new one, both with the tool and with the
  patch stage of the device.

  The arrays \<open>I\<close> and \<open>V\<close> of the sort are lists of integers, and an access out of bounds is \<open>None\<close>, as is a loop that does not end.
\<close>

section \<open>Sorting the suffixes\<close>

definition rd :: "int list \<Rightarrow> int \<Rightarrow> int option" where
  "rd xs i = (if 0 \<le> i \<and> i < int (length xs) then Some (xs ! nat i) else None)"

definition wr :: "int list \<Rightarrow> int \<Rightarrow> int \<Rightarrow> int list option" where
  "wr xs i v = (if 0 \<le> i \<and> i < int (length xs) then Some (xs[nat i := v]) else None)"

text \<open>\<open>tmp=I[a]; I[a]=I[b]; I[b]=tmp\<close>, and \<open>V[I[k]+h]\<close>.\<close>

definition swap_at :: "int list \<Rightarrow> int \<Rightarrow> int \<Rightarrow> int list option" where
  "swap_at I a b = do {tmp \<leftarrow> rd I a; y \<leftarrow> rd I b; I' \<leftarrow> wr I a y; wr I' b tmp}"

definition suf_key :: "int list \<Rightarrow> int list \<Rightarrow> int \<Rightarrow> int \<Rightarrow> int option" where
  "suf_key I V k h = do {a \<leftarrow> rd I k; rd V (a + h)}"

text \<open>\<open>for(i=0;i<n;i++) V[I[k+i]]=v\<close>\<close>

partial_function (option) set_group :: "int list \<Rightarrow> int list \<Rightarrow> int \<Rightarrow> int \<Rightarrow> int \<Rightarrow> int \<Rightarrow> int list option" where
  "set_group I V k n v i = (if i < n then do {a \<leftarrow> rd I (k + i); V' \<leftarrow> wr V a v; set_group I V' k n v (i + 1)} else Some V)"

text \<open>The case of fewer than 16 elements: the loop over \<open>i\<close>, and the loop over \<open>k\<close>.\<close>

partial_function (option) split_inner :: "int list \<Rightarrow> int list \<Rightarrow> int \<Rightarrow> int \<Rightarrow> int \<Rightarrow> int \<Rightarrow> int \<Rightarrow> int \<Rightarrow> (int list \<times> int) option" where
  "split_inner I V en h k i j x = (if k + i < en
     then do {
       v \<leftarrow> suf_key I V (k + i) h;
       (if v < x then do {I' \<leftarrow> swap_at I (k + 0) (k + i); split_inner I' V en h k (i + 1) 1 v}
        else if v = x then do {I' \<leftarrow> swap_at I (k + j) (k + i); split_inner I' V en h k (i + 1) (j + 1) x}
        else split_inner I V en h k (i + 1) j x)}
     else Some (I, j))"

partial_function (option) split_small :: "int list \<Rightarrow> int list \<Rightarrow> int \<Rightarrow> int \<Rightarrow> int \<Rightarrow> (int list \<times> int list) option" where
  "split_small I V en h k = (if k < en
     then do {
       x \<leftarrow> suf_key I V k h;
       r \<leftarrow> split_inner I V en h k 1 1 x;
       V' \<leftarrow> set_group (fst r) V k (snd r) (k + snd r - 1) 0;
       I' \<leftarrow> (if snd r = 1 then wr (fst r) k (- 1) else Some (fst r));
       split_small I' V' en h (k + snd r)}
     else Some (I, V))"

text \<open>The three loops of the partition.\<close>

partial_function (option) count_loop :: "int list \<Rightarrow> int list \<Rightarrow> int \<Rightarrow> int \<Rightarrow> int \<Rightarrow> int \<Rightarrow> int \<Rightarrow> int \<Rightarrow> (int \<times> int) option" where
  "count_loop I V en h x i jj kk = (if i < en
     then do {v \<leftarrow> suf_key I V i h; count_loop I V en h x (i + 1) (if v < x then jj + 1 else jj) (if v = x then kk + 1 else kk)}
     else Some (jj, kk))"

partial_function (option) part_low :: "int list \<Rightarrow> int list \<Rightarrow> int \<Rightarrow> int \<Rightarrow> int \<Rightarrow> int \<Rightarrow> int \<Rightarrow> int \<Rightarrow> int \<Rightarrow> (int list \<times> int \<times> int) option" where
  "part_low I V h x jj kk i j k = (if i < jj
     then do {
       v \<leftarrow> suf_key I V i h;
       (if v < x then part_low I V h x jj kk (i + 1) j k
        else if v = x then do {I' \<leftarrow> swap_at I i (jj + j); part_low I' V h x jj kk i (j + 1) k}
        else do {I' \<leftarrow> swap_at I i (kk + k); part_low I' V h x jj kk i j (k + 1)})}
     else Some (I, j, k))"

partial_function (option) part_mid :: "int list \<Rightarrow> int list \<Rightarrow> int \<Rightarrow> int \<Rightarrow> int \<Rightarrow> int \<Rightarrow> int \<Rightarrow> int \<Rightarrow> int list option" where
  "part_mid I V h x jj kk j k = (if jj + j < kk
     then do {
       v \<leftarrow> suf_key I V (jj + j) h;
       (if v = x then part_mid I V h x jj kk (j + 1) k
        else do {I' \<leftarrow> swap_at I (jj + j) (kk + k); part_mid I' V h x jj kk j (k + 1)})}
     else Some I)"

partial_function (option) split :: "int list \<Rightarrow> int list \<Rightarrow> int \<Rightarrow> int \<Rightarrow> int \<Rightarrow> (int list \<times> int list) option" where
  "split I V start len h = (if len < 16 then split_small I V (start + len) h start
     else do {
       x \<leftarrow> suf_key I V (start + len div 2) h;
       c \<leftarrow> count_loop I V (start + len) h x start 0 0;
       (let jj = fst c + start; kk = snd c + jj in do {
         p \<leftarrow> part_low I V h x jj kk start 0 0;
         I \<leftarrow> part_mid (fst p) V h x jj kk (fst (snd p)) (snd (snd p));
         r \<leftarrow> (if jj > start then split I V start (jj - start) h else Some (I, V));
         V \<leftarrow> set_group (fst r) (snd r) jj (kk - jj) (kk - 1) 0;
         I \<leftarrow> (if jj = kk - 1 then wr (fst r) jj (- 1) else Some (fst r));
         (if start + len > kk then split I V kk (start + len - kk) h else Some (I, V))})})"

declare set_group.simps [code] split_inner.simps [code] split_small.simps [code] count_loop.simps [code] part_low.simps [code]
  part_mid.simps [code] split.simps [code]

text \<open>The buckets: counts, running sums, and the shift by one.\<close>

fun bucket_sums :: "int \<Rightarrow> int list \<Rightarrow> int list" where
  "bucket_sums s [] = []"
| "bucket_sums s (b # bs) = (s + b) # bucket_sums (s + b) bs"

definition suf_buckets :: "byte list \<Rightarrow> int list" where
  "suf_buckets old = 0 # butlast (bucket_sums 0 (fold (\<lambda>c b. b[unat c := b ! unat c + 1]) old (replicate 256 0)))"

text \<open>\<open>for(i=0;i<oldsize;i++) I[++buckets[old[i]]]=i\<close>\<close>

fun place_loop :: "int list \<Rightarrow> int list \<Rightarrow> int \<Rightarrow> byte list \<Rightarrow> (int list \<times> int list) option" where
  "place_loop I b i [] = Some (I, b)"
| "place_loop I b i (c # cs) = (let k = b ! unat c + 1 in do {I' \<leftarrow> wr I k i; place_loop I' (b[unat c := k]) (i + 1) cs})"

text \<open>\<open>for(i=1;i<256;i++) if(buckets[i]==buckets[i-1]+1) I[buckets[i]]=-1\<close>\<close>

fun single_loop :: "int list \<Rightarrow> int list \<Rightarrow> int list option" where
  "single_loop I (a # b # bs) = do {I' \<leftarrow> (if b = a + 1 then wr I b (- 1) else Some I); single_loop I' (b # bs)}"
| "single_loop I _ = Some I"

text \<open>One pass over the groups, and the passes with \<open>h\<close> doubled.\<close>

partial_function (option) pass_loop :: "int list \<Rightarrow> int list \<Rightarrow> int \<Rightarrow> int \<Rightarrow> int \<Rightarrow> int \<Rightarrow> (int list \<times> int list) option" where
  "pass_loop I V oldsize h i len = (if i < oldsize + 1
     then do {
       a \<leftarrow> rd I i;
       (if a < 0 then pass_loop I V oldsize h (i - a) (len - a)
        else do {
          I \<leftarrow> (if len \<noteq> 0 then wr I (i - len) (- len) else Some I);
          b \<leftarrow> rd I i;
          v \<leftarrow> rd V b;
          (let len = v + 1 - i in do {
            r \<leftarrow> split I V i len h;
            pass_loop (fst r) (snd r) oldsize h (i + len) 0})})}
     else do {I \<leftarrow> (if len \<noteq> 0 then wr I (i - len) (- len) else Some I); Some (I, V)})"

partial_function (option) suf_loop :: "int list \<Rightarrow> int list \<Rightarrow> int \<Rightarrow> int \<Rightarrow> (int list \<times> int list) option" where
  "suf_loop I V oldsize h = do {
     a \<leftarrow> rd I 0;
     (if a \<noteq> - (oldsize + 1) then do {r \<leftarrow> pass_loop I V oldsize h 0 0; suf_loop (fst r) (snd r) oldsize (h + h)}
      else Some (I, V))}"

declare pass_loop.simps [code] suf_loop.simps [code]

text \<open>\<open>for(i=0;i<oldsize+1;i++) I[V[i]]=i\<close>\<close>

fun invert_loop :: "int list \<Rightarrow> int \<Rightarrow> int list \<Rightarrow> int list option" where
  "invert_loop I i [] = Some I"
| "invert_loop I i (v # vs) = do {I' \<leftarrow> wr I v i; invert_loop I' (i + 1) vs}"

definition qsufsort :: "byte list \<Rightarrow> int list option" where
  "qsufsort old = (let n = int (length old) in do {
     p \<leftarrow> place_loop (replicate (length old + 1) 0) (suf_buckets old) 0 old;
     (let V = map (\<lambda>c. snd p ! unat c) old @ [0] in do {
       I0 \<leftarrow> wr (fst p) 0 n;
       I1 \<leftarrow> single_loop I0 (snd p);
       I2 \<leftarrow> wr I1 0 (- 1);
       r \<leftarrow> suf_loop I2 V n 1;
       invert_loop (fst r) 0 (snd r)})})"

section \<open>Searching\<close>

text \<open>The positions in \<open>I\<close> are natural numbers from here on: the array that the sort returns has no negative element.\<close>

fun matchlen :: "byte list \<Rightarrow> byte list \<Rightarrow> nat" where
  "matchlen (x # xs) (y # ys) = (if x \<noteq> y then 0 else Suc (matchlen xs ys))"
| "matchlen _ _ = 0"

text \<open>\<open>memcmp(xs, ys, MIN(|xs|, |ys|)) < 0\<close>\<close>

fun memcmp_less :: "byte list \<Rightarrow> byte list \<Rightarrow> bool" where
  "memcmp_less (x # xs) (y # ys) = (if x = y then memcmp_less xs ys else x < y)"
| "memcmp_less _ _ = False"

function search :: "nat list \<Rightarrow> byte list \<Rightarrow> byte list \<Rightarrow> nat \<Rightarrow> nat \<Rightarrow> nat \<times> nat" where
  "search I old nnew st en =
     (if en - st < 2
      then let x = matchlen (drop (I ! st) old) nnew; y = matchlen (drop (I ! en) old) nnew
        in if x > y then (x, I ! st) else (y, I ! en)
      else let x = st + (en - st) div 2
        in if memcmp_less (drop (I ! x) old) nnew then search I old nnew x en else search I old nnew st x)"
  by pat_completeness auto
termination
  by (relation "measure (\<lambda>(I, old, nnew, st, en). en - st)") auto

declare search.simps [simp del]

section \<open>Writing the patch\<close>

definition offtout :: "int \<Rightarrow> byte list" where
  "offtout x = (let buf = le_enc 8 (nat \<bar>x\<bar>) in if x < 0 then buf[7 := or (buf ! 7) 0x80] else buf)"

text \<open>The stream of the tool is a file; \<open>diff_write\<close> always returns 0, so the sum that \<open>writedata\<close> returns is 0.\<close>

definition diff_write :: "byte list \<Rightarrow> byte list \<Rightarrow> int \<times> byte list" where
  "diff_write data opaque = (0, opaque @ data)"

function writedata :: "byte list \<Rightarrow> int \<Rightarrow> byte list \<Rightarrow> int \<times> byte list" where
  "writedata data result opaque =
     (if length data > 0
      then let smallsize = min (length data) (2 ^ 31 - 1) in
        case diff_write (take smallsize data) opaque of (writeresult, opaque) \<Rightarrow>
          if writeresult = -1 then (-1, opaque) else writedata (drop smallsize data) (result + writeresult) opaque
      else (result, opaque))"
  by pat_completeness auto
termination
  by (relation "measure (\<lambda>(data, result, opaque). length data)") auto

declare writedata.simps [simp del]

text \<open>\<open>(p+lastoffset<oldsize) && (old[p+lastoffset] == nnew[p])\<close>\<close>

definition same_at :: "byte list \<Rightarrow> byte list \<Rightarrow> int \<Rightarrow> nat \<Rightarrow> bool" where
  "same_at old nnew lastoffset p \<longleftrightarrow> int p + lastoffset < int (length old) \<and> old ! nat (int p + lastoffset) = nnew ! p"

text \<open>\<open>for(;scsc<scan+len;scsc++) ... oldscore++\<close>\<close>

function score_loop :: "byte list \<Rightarrow> byte list \<Rightarrow> int \<Rightarrow> nat \<Rightarrow> nat \<Rightarrow> int \<Rightarrow> nat \<times> int" where
  "score_loop old nnew lastoffset scsc en oldscore =
     (if scsc < en
      then score_loop old nnew lastoffset (scsc + 1) en (if same_at old nnew lastoffset scsc then oldscore + 1 else oldscore)
      else (scsc, oldscore))"
  by pat_completeness auto
termination
  by (relation "measure (\<lambda>(old, nnew, lastoffset, scsc, en, oldscore). en - scsc)") auto

declare score_loop.simps [simp del]

text \<open>The loop over \<open>scan\<close>: its result is \<open>scan\<close>, \<open>len\<close>, \<open>pos\<close> and \<open>oldscore\<close>.\<close>

function scan_loop :: "nat list \<Rightarrow> byte list \<Rightarrow> byte list \<Rightarrow> int \<Rightarrow> nat \<Rightarrow> nat \<Rightarrow> nat \<Rightarrow> nat \<Rightarrow> int \<Rightarrow> nat \<times> nat \<times> nat \<times> int" where
  "scan_loop I old nnew lastoffset scan scsc len pos oldscore =
     (if scan < length nnew
      then case search I old (drop scan nnew) 0 (length old) of (len, pos) \<Rightarrow>
        case score_loop old nnew lastoffset scsc (scan + len) oldscore of (scsc, oldscore) \<Rightarrow>
          if int len = oldscore \<and> len \<noteq> 0 \<or> int len > oldscore + 8 then (scan, len, pos, oldscore)
          else scan_loop I old nnew lastoffset (scan + 1) scsc len pos
            (if same_at old nnew lastoffset scan then oldscore - 1 else oldscore)
      else (scan, len, pos, oldscore))"
  by pat_completeness auto
termination
  by (relation "measure (\<lambda>(I, old, nnew, lastoffset, scan, scsc, len, pos, oldscore). length nnew - scan)") auto

declare scan_loop.simps [simp del]

text \<open>The extension forwards, the extension backwards, and the division of the overlap.\<close>

function fwd_loop :: "byte list \<Rightarrow> byte list \<Rightarrow> nat \<Rightarrow> nat \<Rightarrow> nat \<Rightarrow> nat \<Rightarrow> int \<Rightarrow> int \<Rightarrow> nat \<Rightarrow> nat" where
  "fwd_loop old nnew lastscan lastpos scan i s Sf lenf =
     (if lastscan + i < scan \<and> lastpos + i < length old
      then let s = (if old ! (lastpos + i) = nnew ! (lastscan + i) then s + 1 else s); i = i + 1 in
        if s * 2 - int i > Sf * 2 - int lenf then fwd_loop old nnew lastscan lastpos scan i s s i
        else fwd_loop old nnew lastscan lastpos scan i s Sf lenf
      else lenf)"
  by pat_completeness auto
termination
  by (relation "measure (\<lambda>(old, nnew, lastscan, lastpos, scan, i, s, Sf, lenf). scan - (lastscan + i))") auto

function back_loop :: "byte list \<Rightarrow> byte list \<Rightarrow> nat \<Rightarrow> nat \<Rightarrow> nat \<Rightarrow> nat \<Rightarrow> int \<Rightarrow> int \<Rightarrow> nat \<Rightarrow> nat" where
  "back_loop old nnew lastscan scan pos i s Sb lenb =
     (if scan \<ge> lastscan + i \<and> pos \<ge> i
      then let s = (if old ! (pos - i) = nnew ! (scan - i) then s + 1 else s) in
        if s * 2 - int i > Sb * 2 - int lenb then back_loop old nnew lastscan scan pos (i + 1) s s i
        else back_loop old nnew lastscan scan pos (i + 1) s Sb lenb
      else lenb)"
  by pat_completeness auto
termination
  by (relation "measure (\<lambda>(old, nnew, lastscan, scan, pos, i, s, Sb, lenb). Suc scan - (lastscan + i))") auto

declare fwd_loop.simps [simp del] back_loop.simps [simp del]

fun overlap_loop :: "byte list \<Rightarrow> byte list \<Rightarrow> nat \<Rightarrow> nat \<Rightarrow> nat \<Rightarrow> nat \<Rightarrow> nat \<Rightarrow> nat \<Rightarrow> int \<Rightarrow> int \<Rightarrow> nat \<Rightarrow> nat" where
  "overlap_loop old nnew a b c d 0 i s Ss lens = lens"
| "overlap_loop old nnew a b c d (Suc n) i s Ss lens =
     (let s = (if nnew ! (a + i) = old ! (b + i) then s + 1 else s);
          s = (if nnew ! (c + i) = old ! (d + i) then s - 1 else s) in
      if s > Ss then overlap_loop old nnew a b c d n (i + 1) s s (i + 1)
      else overlap_loop old nnew a b c d n (i + 1) s Ss lens)"

text \<open>\<open>lenf\<close> and \<open>lenb\<close> for the entry between \<open>lastscan\<close> and \<open>scan\<close>.\<close>

definition entry_bounds :: "byte list \<Rightarrow> byte list \<Rightarrow> nat \<Rightarrow> nat \<Rightarrow> nat \<Rightarrow> nat \<Rightarrow> nat \<times> nat" where
  "entry_bounds old nnew lastscan lastpos scan pos =
     (let lenf = fwd_loop old nnew lastscan lastpos scan 0 0 0 0;
          lenb = (if scan < length nnew then back_loop old nnew lastscan scan pos 1 0 0 0 else 0) in
      if lastscan + lenf > scan - lenb
      then let overlap = (lastscan + lenf) - (scan - lenb);
               lens = overlap_loop old nnew (lastscan + lenf - overlap) (lastpos + lenf - overlap) (scan - lenb) (pos - lenb) overlap 0 0 0 0
        in (lenf + lens - overlap, lenb - lens)
      else (lenf, lenb))"

definition diff_bytes :: "byte list \<Rightarrow> byte list \<Rightarrow> nat \<Rightarrow> nat \<Rightarrow> nat \<Rightarrow> byte list" where
  "diff_bytes old nnew lastscan lastpos lenf = map (\<lambda>i. nnew ! (lastscan + i) - old ! (lastpos + i)) [0..<lenf]"

definition extra_bytes :: "byte list \<Rightarrow> nat \<Rightarrow> nat \<Rightarrow> byte list" where
  "extra_bytes nnew from len = map (\<lambda>i. nnew ! (from + i)) [0..<len]"

text \<open>The control data, the differences and the extra bytes; the result is the return value in case of an error.\<close>

definition write_entry :: "byte list \<Rightarrow> byte list \<Rightarrow> nat \<Rightarrow> nat \<Rightarrow> nat \<Rightarrow> nat \<Rightarrow> nat \<Rightarrow> nat \<Rightarrow> byte list \<Rightarrow> int \<times> byte list" where
  "write_entry old nnew lastscan lastpos scan pos lenf lenb opaque =
     (let extra = (scan - lenb) - (lastscan + lenf);
          buf = offtout (int lenf) @ offtout (int extra) @ offtout ((int pos - int lenb) - (int lastpos + int lenf)) in
      case writedata buf 0 opaque of (e, opaque) \<Rightarrow> if e \<noteq> 0 then (-1, opaque) else
      case writedata (diff_bytes old nnew lastscan lastpos lenf) 0 opaque of (e, opaque) \<Rightarrow> if e \<noteq> 0 then (-1, opaque) else
      case writedata (extra_bytes nnew (lastscan + lenf) extra) 0 opaque of (e, opaque) \<Rightarrow> if e \<noteq> 0 then (-1, opaque) else
      (0, opaque))"

partial_function (option) diff_loop :: "nat list \<Rightarrow> byte list \<Rightarrow> byte list \<Rightarrow> nat \<Rightarrow> nat \<Rightarrow> nat \<Rightarrow> nat \<Rightarrow> nat \<Rightarrow> int \<Rightarrow> byte list \<Rightarrow>
    (int \<times> byte list) option" where
  "diff_loop I old nnew scan len pos lastscan lastpos lastoffset opaque =
     (if scan < length nnew
      then case scan_loop I old nnew lastoffset (scan + len) (scan + len) len pos 0 of (scan, len, pos, oldscore) \<Rightarrow>
        if int len \<noteq> oldscore \<or> scan = length nnew
        then case entry_bounds old nnew lastscan lastpos scan pos of (lenf, lenb) \<Rightarrow>
          case write_entry old nnew lastscan lastpos scan pos lenf lenb opaque of (e, opaque) \<Rightarrow>
            if e \<noteq> 0 then Some (e, opaque)
            else diff_loop I old nnew scan len pos (scan - lenb) (pos - lenb) (int pos - int scan) opaque
        else diff_loop I old nnew scan len pos lastscan lastpos lastoffset opaque
      else Some (0, opaque))"

declare diff_loop.simps [code]

text \<open>\<open>bsdiff\<close> and \<open>bsdiff_internal\<close>, where the allocations succeed.\<close>

definition bsdiff :: "byte list \<Rightarrow> byte list \<Rightarrow> byte list \<Rightarrow> (int \<times> byte list) option" where
  "bsdiff old nnew opaque = do {I \<leftarrow> qsufsort old; diff_loop (map nat I) old nnew 0 0 0 0 0 0 opaque}"

definition pipeline_diff_command :: "byte list option \<Rightarrow> byte list option \<Rightarrow> bool \<Rightarrow> (int \<times> byte list) option" where
  "pipeline_diff_command binary_file second_binary_file out_opens = (case binary_file of
     None \<Rightarrow> Some (1, [])
   | Some buffer1 \<Rightarrow> (case second_binary_file of
       None \<Rightarrow> Some (1, [])
     | Some buffer2 \<Rightarrow> if \<not> out_opens then Some (1, [])
         else bsdiff buffer1 buffer2 (replicate 16 0x2a @ offtout (int (length buffer2)))))"

section \<open>Applying a patch\<close>

definition offtin :: "byte list \<Rightarrow> int" where
  "offtin buf = (let y = int (le_dec (buf[7 := and (buf ! 7) 0x7F])) in if and (buf ! 7) 0x80 \<noteq> 0 then - y else y)"

text \<open>The stream: what is left of the file, and whether a read has met its end. A read that meets the end fills only a part of the buffer.\<close>

type_synonym patch_stream = "byte list \<times> bool"

definition patch_read :: "nat \<Rightarrow> patch_stream \<Rightarrow> int \<times> byte list \<times> patch_stream" where
  "patch_read len st = (case st of (rest, eof) \<Rightarrow>
     if eof then (-1, [], st)
     else if len \<le> length rest then (0, take len rest, drop len rest, False)
     else (0, rest, [], True))"

text \<open>The loop over the three numbers, with \<open>n\<close> of them left: \<open>None\<close> where the function returns -1.\<close>

fun read_ctrls :: "nat \<Rightarrow> byte list \<Rightarrow> patch_stream \<Rightarrow> (int list \<times> byte list \<times> patch_stream) option" where
  "read_ctrls 0 buf st = Some ([], buf, st)"
| "read_ctrls (Suc n) buf st = (case patch_read 8 st of (e, d, st) \<Rightarrow>
     if e \<noteq> 0 then None
     else let buf = splice_at 0 d buf in
       map_option (\<lambda>(cs, r). (offtin buf # cs, r)) (read_ctrls n buf st))"

text \<open>\<open>if((oldpos+i>=0) && (oldpos+i<oldsize)) nnew[nnewpos+i]+=old[oldpos+i]\<close>, for \<open>i < n\<close>.\<close>

fun add_old :: "byte list \<Rightarrow> int \<Rightarrow> nat \<Rightarrow> nat \<Rightarrow> byte list \<Rightarrow> byte list" where
  "add_old old oldpos nnewpos 0 nnew = nnew"
| "add_old old oldpos nnewpos (Suc n) nnew = (let b = add_old old oldpos nnewpos n nnew in
     if oldpos + int n \<ge> 0 \<and> oldpos + int n < int (length old)
     then b[nnewpos + n := b ! (nnewpos + n) + old ! nat (oldpos + int n)] else b)"

text \<open>The result is the return value and the new image. A negative length for a read is \<open>None\<close>, as is a loop that does not end.\<close>

partial_function (option) bspatch_loop :: "byte list \<Rightarrow> nat \<Rightarrow> int \<Rightarrow> nat \<Rightarrow> byte list \<Rightarrow> byte list \<Rightarrow> patch_stream \<Rightarrow> (int \<times> byte list) option" where
  "bspatch_loop old nnewsize oldpos nnewpos buf nnew st = (if nnewpos < nnewsize
     then case read_ctrls 3 buf st of
         None \<Rightarrow> Some (-1, nnew)
       | Some (ctrl, buf, st) \<Rightarrow>
           if int nnewpos + ctrl ! 0 > int nnewsize then Some (-1, nnew)
           else if ctrl ! 0 < 0 then None
           else case patch_read (nat (ctrl ! 0)) st of (e, d, st) \<Rightarrow>
             if e \<noteq> 0 then Some (-1, nnew)
             else let nnew = add_old old oldpos nnewpos (nat (ctrl ! 0)) (splice_at nnewpos d nnew);
                      nnewpos = nnewpos + nat (ctrl ! 0); oldpos = oldpos + ctrl ! 0
               in if int nnewpos + ctrl ! 1 > int nnewsize then Some (-1, nnew)
                 else if ctrl ! 1 < 0 then None
                 else case patch_read (nat (ctrl ! 1)) st of (e, d, st) \<Rightarrow>
                   if e \<noteq> 0 then Some (-1, nnew)
                   else bspatch_loop old nnewsize (oldpos + ctrl ! 2) (nnewpos + nat (ctrl ! 1)) buf (splice_at nnewpos d nnew) st
     else Some (0, nnew))"

declare bspatch_loop.simps [code]

definition bspatch :: "byte list \<Rightarrow> nat \<Rightarrow> byte list \<Rightarrow> patch_stream \<Rightarrow> (int \<times> byte list) option" where
  "bspatch old nnewsize nnew st = bspatch_loop old nnewsize 0 0 (replicate 8 0) nnew st"

text \<open>
  The command. The buffer for the old image is allocated with the size 0 of a file that is not read yet, so reading an old image that is
  not empty writes outside of it, which is \<open>None\<close>.
\<close>

definition pipeline_patch_command :: "byte list option \<Rightarrow> byte list option \<Rightarrow> bool \<Rightarrow> (int \<times> byte list) option" where
  "pipeline_patch_command binary_file second_binary_file out_opens = (case binary_file of
     None \<Rightarrow> Some (1, [])
   | Some input1 \<Rightarrow> (case second_binary_file of
       None \<Rightarrow> Some (1, [])
     | Some input2 \<Rightarrow> if \<not> out_opens then Some (1, [])
         else if length input1 > 0 then None
         else case patch_read 24 (input2, False) of (_, header, st) \<Rightarrow>
           if snd st then Some (-1, [])
           else let size = offtin (drop 16 header) in
             if size < 0 then Some (-1, [])
             else do {r \<leftarrow> bspatch input1 (nat size) (replicate (nat size) 0) st;
               Some (if fst r \<noteq> 0 then (-1, []) else (0, snd r))}))"

section \<open>What is written\<close>

lemma writedata_ok: "writedata data r out = (r, out @ data)"
proof (induction "length data" arbitrary: data r out rule: less_induct)
  case less
  show ?case
  proof (cases "data = []")
    case False
    let ?n = "min (length data) (2 ^ 31 - 1)"
    have "writedata (drop ?n data) (r + 0) (out @ take ?n data) = (r + 0, (out @ take ?n data) @ drop ?n data)"
      by (rule less) (use False in simp)
    then show ?thesis using False by (subst writedata.simps) (simp add: diff_write_def Let_def)
  qed (subst writedata.simps, simp)
qed

lemma le_enc_append: "le_enc (a + b) n = le_enc a n @ le_enc b (n div 256 ^ a)"
  by (induction a arbitrary: n) (simp_all add: div_mult2_eq)

lemma le_enc_8:
  assumes "y < 2 ^ 32"
  shows "le_enc 8 y = le_enc 4 y @ [0, 0, 0, 0]"
proof -
  have d: "y div 256 ^ 4 = 0" using assms by simp
  have four: "(4 :: nat) = Suc (Suc (Suc (Suc 0)))" by simp
  have z: "le_enc 4 0 = [0, 0, 0, 0 :: byte]" unfolding four le_enc.simps by simp
  show ?thesis using le_enc_append [of 4 4 y] unfolding d z by simp
qed

lemma offtout_enc:
  assumes "nat \<bar>k\<bar> < 2 ^ 32"
  shows "offtout k = enc_int k"
proof -
  have l: "length (le_enc 4 (nat \<bar>k\<bar>)) = 4" by simp
  show ?thesis unfolding offtout_def enc_int_def le_enc_8 [OF assms] Let_def
    by (cases "k < 0") (simp_all add: nth_append list_update_append l)
qed

lemma length_diff_bytes [simp]: "length (diff_bytes old nnew a b n) = n"
  by (simp add: diff_bytes_def)

lemma length_extra_bytes [simp]: "length (extra_bytes nnew a n) = n"
  by (simp add: extra_bytes_def)

lemma write_entry_ok:
  assumes "lenf < 2 ^ 31" and "(scan - lenb) - (lastscan + lenf) < 2 ^ 31"
    and "nat \<bar>(int pos - int lenb) - (int lastpos + int lenf)\<bar> < 2 ^ 32"
  shows "write_entry old nnew lastscan lastpos scan pos lenf lenb out = (0, out @ enc_entry
    (diff_bytes old nnew lastscan lastpos lenf, extra_bytes nnew (lastscan + lenf) ((scan - lenb) - (lastscan + lenf)),
     (int pos - int lenb) - (int lastpos + int lenf)))"
  using assms by (simp add: write_entry_def writedata_ok offtout_enc Let_def)

section \<open>The search\<close>

fun suf_le :: "byte list \<Rightarrow> byte list \<Rightarrow> bool" where
  "suf_le [] ys = True"
| "suf_le (x # xs) [] = False"
| "suf_le (x # xs) (y # ys) = (x < y \<or> x = y \<and> suf_le xs ys)"

text \<open>A suffix array: every position once, in the order of the suffixes.\<close>

definition suffix_array :: "byte list \<Rightarrow> nat list \<Rightarrow> bool" where
  "suffix_array old I \<longleftrightarrow> length I = length old + 1 \<and> set I = {..length old} \<and> distinct I \<and>
     sorted_wrt (\<lambda>a b. suf_le (drop a old) (drop b old)) I"

lemma matchlen_le: "matchlen xs ys \<le> length ys"
  by (induction xs ys rule: matchlen.induct) auto

lemma search_ok:
  assumes "\<forall>k\<le>length old. I ! k \<le> length old" and "st \<le> en" and "en \<le> length old" and "search I old nnew st en = (len, pos)"
  shows "len \<le> length nnew \<and> pos \<le> length old"
  using assms
proof (induction I old nnew st en rule: search.induct)
  case (1 I old nnew st en)
  show ?case
  proof (cases "en - st < 2")
    case True
    then show ?thesis using 1(3-6) matchlen_le by (subst (asm) search.simps) (auto simp: Let_def split: if_splits)
  next
    case False
    then show ?thesis using 1 by (subst (asm) (3) search.simps) (auto simp: Let_def split: if_splits)
  qed
qed

lemma matchlen_pos: "0 < matchlen (c # xs) (c # ys)"
  by simp

lemma search_finds:
  assumes "suffix_array old I" and "st \<le> en" and "en \<le> length old" and "q \<le> length old" and "drop (I ! q) old = c # r"
    and "st = 0 \<or> memcmp_less (drop (I ! st) old) (c # w)"
    and "en = length old \<or> 0 < en \<and> \<not> memcmp_less (drop (I ! en) old) (c # w)"
  shows "0 < fst (search I old (c # w) st en)"
  using assms
proof (induction "en - st" arbitrary: st en rule: less_induct)
  case less
  let ?s = "\<lambda>k. drop (I ! k) old"
  have ord: "suf_le (?s a) (?s b)" if "a < b" "b \<le> length old" for a b
    using assms(1) that by (simp add: suffix_array_def sorted_wrt_iff_nth_less)
  have dis: "I ! a \<noteq> I ! b" if "a < b" "b \<le> length old" for a b
    using assms(1) that by (simp add: suffix_array_def nth_eq_iff_index_eq)
  have rng: "I ! k \<le> length old" if "k \<le> length old" for k
    using assms(1) that nth_mem [of k I] by (auto simp: suffix_array_def)
  show ?case
  proof (cases "en - st < 2")
    case False
    define x where "x = st + (en - st) div 2"
    have x: "st < x" "x < en" using False by (simp_all add: x_def)
    show ?thesis
    proof (cases "memcmp_less (?s x) (c # w)")
      case True
      have "0 < fst (search I old (c # w) x en)"
        by (rule less.hyps) (use True x less.prems assms(1) in auto)
      moreover have "search I old (c # w) st en = search I old (c # w) x en"
        using True False by (subst search.simps) (simp add: x_def Let_def)
      ultimately show ?thesis by simp
    next
      case m: False
      have "0 < fst (search I old (c # w) st x)"
        by (rule less.hyps) (use m x less.prems assms(1) in auto)
      moreover have "search I old (c # w) st en = search I old (c # w) st x"
        using m False by (subst search.simps) (simp add: x_def Let_def)
      ultimately show ?thesis by simp
    qed
  next
    case True
    have "0 < matchlen (?s st) (c # w) \<or> 0 < matchlen (?s en) (c # w)"
    proof (cases "q \<le> st")
      case qs: True
      have "\<exists>r'. ?s st = c # r'"
      proof (cases "q = st")
        case False
        then have "suf_le (c # r) (?s st)" using ord [of q st] qs less.prems by simp
        moreover have "memcmp_less (?s st) (c # w)" using False qs less.prems(6) by auto
        ultimately show ?thesis by (cases "?s st") (auto split: if_splits)
      qed (use less.prems(5) in auto)
      then show ?thesis by auto
    next
      case False
      then have qe: "en \<le> q" using True by simp
      have "\<exists>r'. ?s en = c # r'"
      proof (cases "q = en")
        case False
        then have le: "suf_le (?s en) (c # r)" using ord [of en q] qe less.prems by simp
        have ne: "en \<noteq> length old" using False qe less.prems(4) by simp
        then have m: "0 < en" "\<not> memcmp_less (?s en) (c # w)" using less.prems(7) by auto
        have "?s en \<noteq> []"
        proof
          assume "?s en = []"
          then have "I ! en = length old" using rng [OF less.prems(3)] by simp
          moreover have "suf_le (?s 0) []" using ord [of 0 en] m(1) less.prems(3) \<open>?s en = []\<close> by simp
          then have "?s 0 = []" by (cases "?s 0") auto
          then have "I ! 0 = length old" using rng [of 0] by simp
          ultimately show False using dis [of 0 en] m(1) less.prems(3) by simp
        qed
        then show ?thesis using le m(2) by (cases "?s en") (auto split: if_splits)
      qed (use less.prems(5) in auto)
      then show ?thesis by auto
    qed
    then show ?thesis using True by (subst search.simps) (auto simp: Let_def)
  qed
qed

section \<open>The scan makes progress\<close>

definition score :: "byte list \<Rightarrow> byte list \<Rightarrow> int \<Rightarrow> nat \<Rightarrow> nat \<Rightarrow> int" where
  "score old nnew lastoffset a b = int (length (filter (same_at old nnew lastoffset) [a..<b]))"

lemma score_split: "a \<le> b \<Longrightarrow> b \<le> c \<Longrightarrow> score old nnew lo a c = score old nnew lo a b + score old nnew lo b c"
  using upt_add_eq_append [of a b "c - b"] by (simp add: score_def)

lemma score_none: "\<forall>p. a \<le> p \<and> p < b \<longrightarrow> \<not> same_at old nnew lo p \<Longrightarrow> score old nnew lo a b = 0"
  by (simp add: score_def filter_empty_conv)

lemma score_loop_ok: "score_loop old nnew lo scsc en oldscore = (max scsc en, oldscore + score old nnew lo scsc en)"
proof (induction old nnew lo scsc en oldscore rule: score_loop.induct)
  case (1 old nnew lo scsc en oldscore)
  show ?case
  proof (cases "scsc < en")
    case True
    then have "score old nnew lo scsc en = (if same_at old nnew lo scsc then 1 else 0) + score old nnew lo (scsc + 1) en"
      by (simp add: score_def upt_conv_Cons)
    then show ?thesis using 1 True by (subst score_loop.simps) simp
  qed (subst score_loop.simps, simp add: score_def)
qed

definition score_inv :: "byte list \<Rightarrow> byte list \<Rightarrow> int \<Rightarrow> nat \<Rightarrow> nat \<Rightarrow> int \<Rightarrow> bool" where
  "score_inv old nnew lo scan scsc oldscore \<longleftrightarrow> oldscore = score old nnew lo scan scsc \<and>
     (\<forall>p. scsc \<le> p \<and> p < scan \<longrightarrow> \<not> same_at old nnew lo p)"

lemma score_inv_extend:
  assumes "score_inv old nnew lo scan scsc oldscore" and "scan \<le> en"
  shows "oldscore + score old nnew lo scsc en = score old nnew lo scan (max scsc en)"
proof (cases "scsc \<le> scan")
  case True
  then have "oldscore = 0" using assms(1) by (simp add: score_inv_def score_def)
  moreover have "score old nnew lo scsc en = score old nnew lo scsc scan + score old nnew lo scan en"
    using score_split [OF True assms(2)] .
  moreover have "score old nnew lo scsc scan = 0" using assms(1) by (intro score_none) (simp add: score_inv_def)
  ultimately show ?thesis using True assms(2) by (simp add: max_absorb2)
next
  case False
  show ?thesis
  proof (cases "scsc \<le> en")
    case True
    then show ?thesis using assms(1) False score_split [of scan scsc en] by (simp add: score_inv_def max_absorb2)
  next
    case c: False
    then show ?thesis using assms(1) by (simp add: score_inv_def score_def max_absorb1)
  qed
qed

lemma search_len_pos:
  assumes "suffix_array old I" and "scan < length nnew" and "same_at old nnew lo scan" and "0 \<le> int scan + lo"
    and "search I old (drop scan nnew) 0 (length old) = (len, pos)"
  shows "0 < len"
proof -
  define p where "p = nat (int scan + lo)"
  have p: "p < length old" "old ! p = nnew ! scan" using assms(3,4) by (auto simp: same_at_def p_def)
  then have "p \<in> set I" using assms(1) by (simp add: suffix_array_def)
  then obtain q where q: "q \<le> length old" "I ! q = p" using assms(1) by (auto simp: suffix_array_def in_set_conv_nth less_Suc_eq_le)
  have d: "drop (I ! q) old = nnew ! scan # drop (Suc p) old" using p q(2) by (metis Cons_nth_drop_Suc)
  have n: "drop scan nnew = nnew ! scan # drop (Suc scan) nnew" using assms(2) by (metis Cons_nth_drop_Suc)
  show ?thesis using search_finds [OF assms(1) _ _ q(1) d, of 0 "length old" "drop (Suc scan) nnew"] assms(5) n by simp
qed

lemma suffix_array_range: "suffix_array old I \<Longrightarrow> \<forall>k\<le>length old. I ! k \<le> length old"
proof (intro allI impI)
  fix k assume "suffix_array old I" "k \<le> length old"
  then show "I ! k \<le> length old" using nth_mem [of k I] by (auto simp: suffix_array_def)
qed

lemma scan_loop_ok:
  assumes "suffix_array old I" and "scan \<le> length nnew" and "pos \<le> length old" and "score_inv old nnew lo scan scsc oldscore"
    and "0 \<le> int scan + lo" and "scan_loop I old nnew lo scan scsc len pos oldscore = (scan', len', pos', oldscore')"
  shows "scan \<le> scan' \<and> scan' \<le> length nnew \<and> pos' \<le> length old \<and> (scan' < length nnew \<longrightarrow> 0 < len' \<and> scan' + len' \<le> length nnew)"
  using assms
proof (induction I old nnew lo scan scsc len pos oldscore rule: scan_loop.induct)
  case (1 I old nnew lo scan scsc len pos oldscore)
  show ?case
  proof (cases "scan < length nnew")
    case False
    then show ?thesis using 1(2-) by (subst (asm) scan_loop.simps) auto
  next
    case True
    obtain l p where s: "search I old (drop scan nnew) 0 (length old) = (l, p)" by fastforce
    have r: "l \<le> length nnew - scan" "p \<le> length old"
      using search_ok [OF suffix_array_range [OF 1(2)] _ _ s] by simp_all
    let ?os = "oldscore + score old nnew lo scsc (scan + l)" and ?sc = "max scsc (scan + l)"
    have os: "?os = score old nnew lo scan ?sc" by (rule score_inv_extend [OF 1(5)]) simp
    then have nn: "0 \<le> ?os" by (simp add: score_def)
    let ?stop = "int l = ?os \<and> l \<noteq> 0 \<or> int l > ?os + 8"
    let ?next = "if same_at old nnew lo scan then ?os - 1 else ?os"
    have sl: "scan_loop I old nnew lo scan scsc len pos oldscore =
        (if ?stop then (scan, l, p, ?os) else scan_loop I old nnew lo (scan + 1) ?sc l p ?next)"
      using True by (subst scan_loop.simps) (simp add: s score_loop_ok)
    show ?thesis
    proof (cases ?stop)
      case True
      then have "0 < l" using nn by auto
      with True sl 1(7) r \<open>scan < length nnew\<close> show ?thesis by auto
    next
      case False
      have "score_inv old nnew lo (scan + 1) ?sc ?next"
      proof (cases "scan < ?sc")
        case True
        then have "score old nnew lo scan ?sc = (if same_at old nnew lo scan then 1 else 0) + score old nnew lo (scan + 1) ?sc"
          by (simp add: score_def upt_conv_Cons)
        with os True show ?thesis by (auto simp: score_inv_def)
      next
        case e: False
        then have "l = 0" "?sc = scan" by auto
        then have "\<not> same_at old nnew lo scan" using search_len_pos [OF 1(2) \<open>scan < length nnew\<close> _ 1(6) s] by auto
        with os \<open>?sc = scan\<close> show ?thesis by (auto simp: score_inv_def score_def less_Suc_eq_le dest: le_antisym)
      qed
      moreover have "scan_loop I old nnew lo (scan + 1) ?sc l p ?next = (scan', len', pos', oldscore')"
        using sl [unfolded if_not_P [OF False]] 1(7) by simp
      ultimately have "scan + 1 \<le> scan' \<and> scan' \<le> length nnew \<and> pos' \<le> length old \<and>
          (scan' < length nnew \<longrightarrow> 0 < len' \<and> scan' + len' \<le> length nnew)"
        using 1(1) [OF True s [symmetric] score_loop_ok [symmetric] False] 1(2,6) True r(2) by auto
      then show ?thesis by simp
    qed
  qed
qed

section \<open>The bounds of an entry\<close>

lemma fwd_loop_ok:
  "lenf \<le> i \<Longrightarrow> lastscan + i \<le> scan \<Longrightarrow> lastpos + i \<le> length old \<Longrightarrow>
   lastscan + fwd_loop old nnew lastscan lastpos scan i s Sf lenf \<le> scan \<and>
   lastpos + fwd_loop old nnew lastscan lastpos scan i s Sf lenf \<le> length old"
proof (induction old nnew lastscan lastpos scan i s Sf lenf rule: fwd_loop.induct)
  case (1 old nnew lastscan lastpos scan i s Sf lenf)
  then show ?case by (subst (1 2) fwd_loop.simps) (auto simp: Let_def)
qed

lemma back_loop_ok:
  "lastscan + lenb \<le> scan \<Longrightarrow> lenb \<le> pos \<Longrightarrow>
   lastscan + back_loop old nnew lastscan scan pos i s Sb lenb \<le> scan \<and> back_loop old nnew lastscan scan pos i s Sb lenb \<le> pos"
proof (induction old nnew lastscan scan pos i s Sb lenb rule: back_loop.induct)
  case (1 old nnew lastscan scan pos i s Sb lenb)
  then show ?case by (subst (1 2) back_loop.simps) (auto simp: Let_def)
qed

lemma overlap_loop_ok: "lens \<le> i \<Longrightarrow> overlap_loop old nnew a b c d n i s Ss lens \<le> i + n"
proof (induction n arbitrary: i s Ss lens)
  case (Suc n)
  have "overlap_loop old nnew a b c d n (i + 1) s Ss lens \<le> i + Suc n" if "lens \<le> i + 1" for s Ss lens
    using Suc.IH [OF that] by simp
  with Suc.prems show ?case by (simp add: Let_def)
qed simp

lemma entry_bounds_ok:
  assumes "lastscan \<le> scan" and "lastpos \<le> length old" and "entry_bounds old nnew lastscan lastpos scan pos = (lenf, lenb)"
  shows "lastscan + lenf + lenb \<le> scan \<and> lastpos + lenf \<le> length old \<and> lenb \<le> pos \<and> (scan = length nnew \<longrightarrow> lenb = 0)"
proof -
  define f where "f = fwd_loop old nnew lastscan lastpos scan 0 0 0 0"
  define b where "b = (if scan < length nnew then back_loop old nnew lastscan scan pos 1 0 0 0 else 0)"
  define o' where "o' = (lastscan + f) - (scan - b)"
  define l where "l = overlap_loop old nnew (lastscan + f - o') (lastpos + f - o') (scan - b) (pos - b) o' 0 0 0 0"
  have f: "lastscan + f \<le> scan" "lastpos + f \<le> length old"
    using fwd_loop_ok [of 0 0 lastscan scan lastpos old nnew 0 0] assms(1,2) by (simp_all add: f_def)
  have b: "lastscan + b \<le> scan" "b \<le> pos" "scan = length nnew \<longrightarrow> b = 0"
    using back_loop_ok [of lastscan 0 scan pos old nnew 1 0 0] assms(1) by (simp_all add: b_def)
  have l: "l \<le> o'" using overlap_loop_ok [of 0 0 old nnew _ _ _ _ o'] by (simp add: l_def)
  have "(lenf, lenb) = (if lastscan + f > scan - b then (f + l - o', b - l) else (f, b))"
    using assms(3) unfolding entry_bounds_def Let_def f_def [symmetric] b_def [symmetric] o'_def [symmetric] l_def [symmetric] by simp
  with f b l show ?thesis unfolding o'_def by (auto split: if_splits)
qed

section \<open>The patch turns the old image into the new one\<close>

lemma diff_entry:
  assumes "lastscan + lenf \<le> m" and "m \<le> length nnew" and "lastpos + lenf \<le> length old"
  shows "map2 (+) (diff_bytes old nnew lastscan lastpos lenf) (block lastpos lenf old) @
      extra_bytes nnew (lastscan + lenf) (m - (lastscan + lenf)) @ drop m nnew = drop lastscan nnew"
proof -
  have "map2 (+) (diff_bytes old nnew lastscan lastpos lenf) (block lastpos lenf old) = take lenf (drop lastscan nnew)"
    using assms by (intro nth_equalityI) (auto simp: diff_bytes_def block_def)
  moreover have "extra_bytes nnew (lastscan + lenf) (m - (lastscan + lenf)) = take (m - (lastscan + lenf)) (drop (lastscan + lenf) nnew)"
    using assms by (intro nth_equalityI) (auto simp: extra_bytes_def)
  moreover have "drop m nnew = drop (m - (lastscan + lenf)) (drop (lastscan + lenf) nnew)" using assms(1) by simp
  ultimately show ?thesis by (metis append_take_drop_id drop_drop add.commute)
qed

lemma diff_loop_end:
  "\<not> scan < length nnew \<Longrightarrow> diff_loop I old nnew scan len pos lastscan lastpos lo out = Some (0, out)"
  by (subst diff_loop.simps) simp

lemma diff_loop_ok:
  assumes sa: "suffix_array old I" and sizes: "length old < 2 ^ 31" "length nnew < 2 ^ 31"
    and "lastscan \<le> scan" and "lastpos \<le> length old" and "pos \<le> length old" and "scan + len \<le> length nnew"
    and "0 \<le> int scan + lo" and "scan = length nnew \<longrightarrow> lastscan = length nnew"
  shows "\<exists>es. diff_loop I old nnew scan len pos lastscan lastpos lo out = Some (0, out @ concat (map enc_entry es)) \<and>
    patch_apply old (int lastpos) es = Some (drop lastscan nnew) \<and> list_all wf_entry es \<and> live es \<and> (es = [] \<longrightarrow> scan = length nnew)"
  using assms(4-9)
proof (induction "if scan < length nnew then Suc (length nnew) - (scan + len) else 0" arbitrary: scan len pos lastscan lastpos lo out
    rule: less_induct)
  case less
  show ?case
  proof (cases "scan < length nnew")
    case False
    then have "diff_loop I old nnew scan len pos lastscan lastpos lo out = Some (0, out)" by (rule diff_loop_end)
    moreover have "scan = length nnew" using False less.prems(4) by simp
    ultimately show ?thesis using less.prems(6) by (intro exI [of _ "[]"]) (simp add: live_def)
  next
    case True
    obtain scan' len' pos' os where sl: "scan_loop I old nnew lo (scan + len) (scan + len) len pos 0 = (scan', len', pos', os)"
      by (metis prod_cases4)
    have "score_inv old nnew lo (scan + len) (scan + len) 0" by (auto simp: score_inv_def score_def)
    then have r: "scan + len \<le> scan'" "scan' \<le> length nnew" "pos' \<le> length old"
      "scan' < length nnew \<longrightarrow> 0 < len' \<and> scan' + len' \<le> length nnew"
      using scan_loop_ok [OF sa less.prems(4,3) _ _ sl] less.prems(5) by auto
    show ?thesis
    proof (cases "int len' \<noteq> os \<or> scan' = length nnew")
      case False
      have "\<exists>es. diff_loop I old nnew scan' len' pos' lastscan lastpos lo out = Some (0, out @ concat (map enc_entry es)) \<and>
          patch_apply old (int lastpos) es = Some (drop lastscan nnew) \<and> list_all wf_entry es \<and> live es \<and> (es = [] \<longrightarrow> scan' = length nnew)"
        by (rule less.hyps) (use False True r less.prems in auto)
      moreover have "diff_loop I old nnew scan len pos lastscan lastpos lo out = diff_loop I old nnew scan' len' pos' lastscan lastpos lo out"
        using True False sl by (subst diff_loop.simps) simp
      ultimately show ?thesis using False by auto
    next
      case emit: True
      obtain lenf lenb where eb: "entry_bounds old nnew lastscan lastpos scan' pos' = (lenf, lenb)" by fastforce
      have b: "lastscan + lenf + lenb \<le> scan'" "lastpos + lenf \<le> length old" "lenb \<le> pos'" "scan' = length nnew \<longrightarrow> lenb = 0"
        using entry_bounds_ok [OF _ less.prems(2) eb] less.prems(1) r(1) by auto
      let ?k = "(int pos' - int lenb) - (int lastpos + int lenf)" and ?m = "scan' - lenb"
      let ?e = "(diff_bytes old nnew lastscan lastpos lenf, extra_bytes nnew (lastscan + lenf) (?m - (lastscan + lenf)), ?k)"
      have "int (length old) < 2 ^ 31" using sizes(1) by simp
      then have wf: "- (2 ^ 31) < ?k" "?k < 2 ^ 31" "lenf < 2 ^ 31" "?m - (lastscan + lenf) < 2 ^ 31"
        using b r(2,3) sizes by simp_all
      have we: "write_entry old nnew lastscan lastpos scan' pos' lenf lenb out = (0, out @ enc_entry ?e)"
        by (rule write_entry_ok) (use wf in auto)
      have step: "diff_loop I old nnew scan len pos lastscan lastpos lo out =
          diff_loop I old nnew scan' len' pos' ?m (pos' - lenb) (int pos' - int scan') (out @ enc_entry ?e)"
        using True emit sl eb we by (subst diff_loop.simps) (simp del: enc_entry.simps)
      have next_scan: "(if scan' < length nnew then Suc (length nnew) - (scan' + len') else 0) <
          (if scan < length nnew then Suc (length nnew) - (scan + len) else 0)"
        using True r(1,4) less.prems(4) by auto
      have "\<exists>es. diff_loop I old nnew scan' (if scan' < length nnew then len' else 0) pos' ?m (pos' - lenb) (int pos' - int scan') (out @ enc_entry ?e) =
            Some (0, (out @ enc_entry ?e) @ concat (map enc_entry es)) \<and>
          patch_apply old (int (pos' - lenb)) es = Some (drop ?m nnew) \<and> list_all wf_entry es \<and> live es \<and> (es = [] \<longrightarrow> scan' = length nnew)"
        by (rule less.hyps) (use True r b less.prems(4) in auto)
      then obtain es where es: "diff_loop I old nnew scan' (if scan' < length nnew then len' else 0) pos' ?m (pos' - lenb) (int pos' - int scan')
            (out @ enc_entry ?e) = Some (0, (out @ enc_entry ?e) @ concat (map enc_entry es))"
          "patch_apply old (int (pos' - lenb)) es = Some (drop ?m nnew)" "list_all wf_entry es" "live es" "es = [] \<longrightarrow> scan' = length nnew"
        by blast
      have same: "diff_loop I old nnew scan' (if scan' < length nnew then len' else 0) pos' ?m (pos' - lenb) (int pos' - int scan') (out @ enc_entry ?e) =
          diff_loop I old nnew scan' len' pos' ?m (pos' - lenb) (int pos' - int scan') (out @ enc_entry ?e)"
      proof (cases "scan' < length nnew")
        case False
        then show ?thesis by (simp add: diff_loop_end)
      qed simp
      have pa: "patch_apply old (int lastpos) (?e # es) = Some (drop lastscan nnew)"
      proof -
        have k: "int lastpos + int lenf + ?k = int (pos' - lenb)" using b(3) by simp
        have "lastscan + lenf \<le> ?m" "?m \<le> length nnew" using b(1) r(2) by simp_all
        note de = diff_entry [OF this b(2)]
        show ?thesis
          by (simp only: patch_apply.simps length_diff_bytes k es(2) option.map nat_int de) (use b(2) in simp)
      qed
      have lv: "live (?e # es)"
      proof (cases es)
        case Nil
        then have "?m = length nnew" using es(5) b(4) by simp
        moreover have "lastscan < length nnew" using less.prems(1) True by simp
        ultimately have "0 < lenf + (?m - (lastscan + lenf))" by (cases lenf) simp_all
        then have "diff_bytes old nnew lastscan lastpos lenf \<noteq> [] \<or> extra_bytes nnew (lastscan + lenf) (?m - (lastscan + lenf)) \<noteq> []"
          by (auto simp: diff_bytes_def extra_bytes_def)
        then show ?thesis using Nil by (simp add: live_def)
      qed (use es(4) in \<open>simp add: live_def\<close>)
      show ?thesis
        by (rule exI [of _ "?e # es"]) (use step same es(1,3) pa lv wf in \<open>simp del: enc_entry.simps patch_apply.simps\<close>)
    qed
  qed
qed

section \<open>The reader of the tool\<close>

lemma offtin_enc:
  assumes "nat \<bar>k\<bar> < 2 ^ 32"
  shows "offtin (enc_int k) = k"
proof -
  obtain a b c d where e: "enc_int k = [a, b, c, d, 0, 0, 0, if k < 0 then 0x80 else 0]" "le_dec [a, b, c, d] = nat \<bar>k\<bar> mod 2 ^ 32"
    by (rule enc_int_bytes)
  have "le_dec [a, b, c, d] = nat \<bar>k\<bar>" using e(2) assms by simp
  then have l: "le_dec [a, b, c, d, 0, 0, 0, 0] = nat \<bar>k\<bar>" by simp
  have n: "enc_int k ! 7 = (if k < 0 then 0x80 else 0)" "(enc_int k)[7 := 0] = [a, b, c, d, 0, 0, 0, 0]"
    unfolding e(1) by (simp_all add: numeral_eq_Suc)
  show ?thesis
  proof (cases "k < 0")
    case True
    have "and (0x80 :: byte) 0x7F = 0" "and (0x80 :: byte) 0x80 \<noteq> 0" by simp_all
    then show ?thesis using True n l by (simp add: offtin_def Let_def)
  next
    case False
    then show ?thesis using n l by (simp add: offtin_def Let_def)
  qed
qed

lemma patch_read_ok: "patch_read (length d) (d @ r, False) = (0, d, r, False)"
  by (simp add: patch_read_def)

lemma read_ctrls_ok:
  assumes "\<forall>k\<in>set ks. nat \<bar>k\<bar> < 2 ^ 32" and "length buf = 8"
  shows "\<exists>buf'. read_ctrls (length ks) buf (concat (map enc_int ks) @ r, False) = Some (ks, buf', r, False) \<and> length buf' = 8"
  using assms
proof (induction ks arbitrary: buf)
  case (Cons k ks)
  have p: "patch_read 8 (enc_int k @ concat (map enc_int ks) @ r, False) = (0, enc_int k, concat (map enc_int ks) @ r, False)"
    using patch_read_ok [of "enc_int k"] by simp
  have b: "splice_at 0 (enc_int k) buf = enc_int k" using Cons.prems(2) by (simp add: splice_at_def)
  obtain buf' where i: "read_ctrls (length ks) (enc_int k) (concat (map enc_int ks) @ r, False) = Some (ks, buf', r, False)" "length buf' = 8"
    using Cons.IH [of "enc_int k"] Cons.prems(1) by auto
  then show ?case using p b Cons.prems(1) offtin_enc [of k] by (simp add: Let_def)
qed simp

lemma length_add_old [simp]: "length (add_old old p q n b) = length b"
  by (induction n) (simp_all add: Let_def)

lemma nth_add_old:
  assumes "q + n \<le> length b"
  shows "add_old old p q n b ! k = (if q \<le> k \<and> k < q + n \<and> 0 \<le> p + int (k - q) \<and> p + int (k - q) < int (length old)
     then b ! k + old ! nat (p + int (k - q)) else b ! k)"
  using assms
proof (induction n)
  case (Suc n)
  then have i: "q + n < length b" by simp
  show ?case
  proof (cases "k = q + n")
    case True
    then show ?thesis using Suc i by (simp add: Let_def)
  next
    case False
    then have c: "k < q + Suc n \<longleftrightarrow> k < q + n" by auto
    have e: "add_old old p q (Suc n) b ! k = add_old old p q n b ! k" using False by (simp add: Let_def)
    show ?thesis unfolding e c by (rule Suc.IH) (use Suc.prems in simp)
  qed
qed auto

lemma add_old_splice:
  assumes "q + length ds \<le> length b" and "0 \<le> p \<and> p + int (length ds) \<le> int (length old) \<or> ds = []"
  shows "add_old old p q (length ds) (splice_at q ds b) = splice_at q (map2 (+) ds (block (nat p) (length ds) old)) b"
proof (cases "ds = []")
  case True
  then show ?thesis by (simp add: block_def)
next
  case False
  then have p: "0 \<le> p" "p + int (length ds) \<le> int (length old)" using assms(2) by auto
  have bl: "length (block (nat p) (length ds) old) = length ds" using p by (simp add: block_def)
  show ?thesis
  proof (rule nth_equalityI)
    show "length (add_old old p q (length ds) (splice_at q ds b)) = length (splice_at q (map2 (+) ds (block (nat p) (length ds) old)) b)"
      using assms(1) bl by simp
    fix k assume "k < length (add_old old p q (length ds) (splice_at q ds b))"
    then have k: "k < length b" using assms(1) by simp
    show "add_old old p q (length ds) (splice_at q ds b) ! k = splice_at q (map2 (+) ds (block (nat p) (length ds) old)) b ! k"
    proof (cases "q \<le> k \<and> k < q + length ds")
      case True
      then obtain j where j: "k = q + j" "j < length ds" by (metis le_Suc_ex nat_add_left_cancel_less)
      then have "nat (p + int j) = nat p + j" "p + int j < int (length old)" using p by auto
      then show ?thesis using j k assms(1) p bl by (simp add: nth_add_old nth_splice_at block_def)
    next
      case False
      then show ?thesis using k assms(1) bl by (auto simp: nth_add_old nth_splice_at)
    qed
  qed
qed

lemma bspatch_loop_ok:
  assumes "patch_apply old oldpos es = Some t" and "list_all wf_entry es" and "live es" and "length buf = 8"
    and "length done + length t = nnewsize" and "length nnew = nnewsize" and "take (length done) nnew = done"
  shows "bspatch_loop old nnewsize oldpos (length done) buf nnew (concat (map enc_entry es), False) = Some (0, done @ t)"
  using assms
proof (induction es arbitrary: oldpos t buf "done" nnew)
  case Nil
  then show ?case by (subst bspatch_loop.simps) simp
next
  case (Cons e es)
  obtain ds xs k where e: "e = (ds, xs, k)" by (cases e)
  from Cons.prems(1) obtain t' where
    ok: "0 \<le> oldpos \<and> oldpos + int (length ds) \<le> int (length old) \<or> ds = []"
    and t': "patch_apply old (oldpos + int (length ds) + k) es = Some t'"
    and t: "t = map2 (+) ds (block (nat oldpos) (length ds) old) @ xs @ t'"
    by (auto simp: e split: if_splits)
  let ?m = "map2 (+) ds (block (nat oldpos) (length ds) old)"
  have lm: "length ?m = length ds" using ok by (auto simp: block_def)
  have "0 < length t" using live_out [OF Cons.prems(3)] patch_apply_length [OF Cons.prems(1)] by simp
  then have lt: "length done < nnewsize" using Cons.prems(5) by linarith
  have len: "length done + length ds + length xs + length t' = nnewsize" using Cons.prems(5) t lm by simp
  have wf: "length ds < 2 ^ 31" "length xs < 2 ^ 31" "- (2 ^ 31) < k" "k < 2 ^ 31" using Cons.prems(2) e by auto
  let ?r = "ds @ xs @ concat (map enc_entry es)"
  have "\<forall>a\<in>set [int (length ds), int (length xs), k]. nat \<bar>a\<bar> < 2 ^ 32" using wf by auto
  from read_ctrls_ok [OF this Cons.prems(4), of ?r] obtain buf' where
    c: "read_ctrls 3 buf (concat (map enc_entry (e # es)), False) = Some ([int (length ds), int (length xs), k], buf', ?r, False)" "length buf' = 8"
    by (auto simp: e numeral_3_eq_3)
  let ?n1 = "splice_at (length done) ?m nnew"
  let ?n2 = "splice_at (length done + length ds) xs ?n1"
  have n1: "add_old old oldpos (length done) (length ds) (splice_at (length done) ds nnew) = ?n1"
    by (rule add_old_splice) (use len Cons.prems(6) ok in auto)
  have t1: "take (length done + length ds) ?n1 = done @ ?m"
    using take_splice_at [of "length done" ?m nnew] lm len Cons.prems(6,7) by simp
  have t2: "take (length done + length ds + length xs) ?n2 = (done @ ?m) @ xs"
    using take_splice_at [of "length done + length ds" xs ?n1] t1 lm len Cons.prems(6) by simp
  have step: "bspatch_loop old nnewsize oldpos (length done) buf nnew (concat (map enc_entry (e # es)), False) =
      bspatch_loop old nnewsize (oldpos + int (length ds) + k) (length done + length ds + length xs) buf' ?n2 (concat (map enc_entry es), False)"
    using lt len n1
    by (subst bspatch_loop.simps) (simp add: c(1) [unfolded list.map concat.simps] patch_read_ok [of ds] patch_read_ok [of xs] Let_def)
  have "live es" using Cons.prems(3) by (simp add: live_def split: if_splits)
  have "bspatch_loop old nnewsize (oldpos + int (length ds) + k) (length ((done @ ?m) @ xs)) buf' ?n2 (concat (map enc_entry es), False) =
      Some (0, ((done @ ?m) @ xs) @ t')"
    by (rule Cons.IH) (use t' Cons.prems(2,6) \<open>live es\<close> c(2) len lm t2 in \<open>simp_all add: add.assoc\<close>)
  then show ?case using step t lm by (simp add: add.assoc)
qed

section \<open>Properties\<close>

lemma bsdiff_patch:
  assumes "qsufsort old = Some I" and "suffix_array old (map nat I)" and "length old < 2 ^ 31" and "length nnew < 2 ^ 31"
  shows "\<exists>es. pipeline_diff_command (Some old) (Some nnew) True = Some (0, enc_patch (length nnew) es) \<and>
    patch_apply old 0 es = Some nnew \<and> list_all wf_entry es \<and> live es"
proof -
  let ?h = "replicate 16 0x2a @ offtout (int (length nnew))"
  obtain es where es: "diff_loop (map nat I) old nnew 0 0 0 0 0 0 ?h = Some (0, ?h @ concat (map enc_entry es))"
    "patch_apply old 0 es = Some nnew" "list_all wf_entry es" "live es"
    using diff_loop_ok [OF assms(2-4), of 0 0 0 0 0 0 ?h] by auto
  have "offtout (int (length nnew)) = enc_int (int (length nnew))" using assms(4) by (intro offtout_enc) simp
  with es assms(1) show ?thesis
    by (intro exI [of _ es]) (simp add: pipeline_diff_command_def bsdiff_def enc_patch_def)
qed



definition demo_old_image :: "byte list" where "demo_old_image = [2, 1, 3, 1, 3, 1]"

definition demo_new_image :: "byte list" where "demo_new_image = [1, 3, 1, 7, 3, 1, 2]"

lemma demo_sufsort: "qsufsort demo_old_image = Some [6, 5, 3, 1, 0, 4, 2]"
  by code_simp

lemma demo_suffix_array: "suffix_array demo_old_image (map nat [6, 5, 3, 1, 0, 4, 2])"
proof -
  have "set (map nat [6, 5, 3, 1, 0, 4, 2]) = {..6}" by auto
  then show ?thesis by (simp add: suffix_array_def demo_old_image_def)
qed


text \<open>The old image is file B, the new image goes to file A.\<close>

definition diff_disk :: posix_fs where
  "diff_disk = demo_fs (replicate 10 0) demo_old_image [] []"

lemma diff_disk_content: "posix_content OBJ_B diff_disk = demo_old_image" "posix_content OBJ_A diff_disk = replicate 10 0"
  by code_simp+


end
