(* ===== verification/Tool_Manifest.thy ===== *)
theory Tool_Manifest
  imports Device_Posix Bootloader_Agent Signing
begin

text \<open>
  The commands of the firmware tool for keys, manifests and the first context of the bootloader
  (\<open>utils/firmware_tool/commands/keys.cpp\<close>, \<open>manifest.cpp\<close>, \<open>bootctx.cpp\<close>, \<open>utils.cpp\<close>, \<open>commands.hpp\<close>, \<open>context.hpp\<close>).

  The files are a map from names to contents; \<open>writable\<close> says which names an output stream can open, which then
  truncates the file. An input stream opens a name that is in the map. A command returns its exit status and the files.
  \<open>None\<close> is undefined behaviour: a digest that is \<open>NULL\<close> is copied. What the commands print is left out, but for the verdicts that
  \<open>manifest_validate_command\<close> prints, which are returned. \<open>make_key\<close> is \<open>uECC_make_key\<close> over the state \<open>'r\<close> of its source of randomness.

  \<open>manifest_generate_command\<close> does not initialise its manifest: its first content is the argument \<open>mt0\<close>. Other
  memory that is not initialised is zero.
\<close>

section \<open>Arguments\<close>

record Context =
  subcommands :: "string list"
  current :: byte
  appid :: string
  version :: string
  offset :: string
  signature_file :: string
  vendor_priv_key :: string
  vendor_pub_key :: string
  server_priv_key :: string
  server_pub_key :: string
  binary_file :: string
  second_binary_file :: string
  out_file :: string

definition get_next_command :: "Context \<Rightarrow> string \<times> Context" where
  "get_next_command ctx = (if unat (current ctx) < length (subcommands ctx)
     then (subcommands ctx ! unat (current ctx), ctx\<lparr>current := current ctx + 1\<rparr>) else ('''', ctx))"

type_synonym files = "string \<rightharpoonup> byte list"

abbreviation EXIT_SUCCESS :: int where "EXIT_SUCCESS \<equiv> 0"
abbreviation EXIT_FAILURE :: int where "EXIT_FAILURE \<equiv> 1"

definition write_binary :: "(string \<Rightarrow> bool) \<Rightarrow> string \<Rightarrow> byte list \<Rightarrow> files \<Rightarrow> bool \<times> files" where
  "write_binary writable f data fs = (if \<not> writable f then (False, fs) else (True, fs(f \<mapsto> data)))"

definition file_exists :: "string \<Rightarrow> files \<Rightarrow> bool" where
  "file_exists f fs \<longleftrightarrow> fs f \<noteq> None"

text \<open>\<open>ifstream::read\<close> of \<open>n\<close> bytes into a buffer of zeros.\<close>

definition read_padded :: "nat \<Rightarrow> byte list \<Rightarrow> byte list" where
  "read_padded n bs = take n (bs @ replicate n 0)"

section \<open>Numbers in a string stream\<close>

text \<open>
  The command writes three arguments into one \<open>stringstream\<close>, each followed by a formatted extraction in base 16. The flags of the
  stream are cleared before every insertion and never tested, so that the stream is the list of its unread characters. An extraction
  skips white space, reads a sign, a prefix \<open>0x\<close> and digits, and leaves the rest in the stream. Without digits the value is 0; a
  value that is too large becomes the maximum.
\<close>

definition is_space :: "char \<Rightarrow> bool" where
  "is_space c \<longleftrightarrow> c \<in> {CHR '' '', CHR 0x09, CHR 0x0A, CHR 0x0B, CHR 0x0C, CHR 0x0D}"

definition hex_digit :: "char \<Rightarrow> nat option" where
  "hex_digit c = (let n = (of_char c :: nat) in
     if 48 \<le> n \<and> n \<le> 57 then Some (n - 48)
     else if 97 \<le> n \<and> n \<le> 102 then Some (n - 87)
     else if 65 \<le> n \<and> n \<le> 70 then Some (n - 55) else None)"

definition is_hex :: "char \<Rightarrow> bool" where
  "is_hex c \<longleftrightarrow> hex_digit c \<noteq> None"

definition hex_value :: "string \<Rightarrow> nat" where
  "hex_value ds = foldl (\<lambda>v c. 16 * v + the (hex_digit c)) 0 ds"

fun hex_sign :: "string \<Rightarrow> bool \<times> string" where
  "hex_sign (c # s) = (if c = CHR ''-'' then (True, s) else if c = CHR ''+'' then (False, s) else (False, c # s))"
| "hex_sign [] = (False, [])"

fun hex_prefix :: "string \<Rightarrow> string" where
  "hex_prefix (c # x # s) = (if c = CHR ''0'' \<and> (x = CHR ''x'' \<or> x = CHR ''X'') then s else c # x # s)"
| "hex_prefix s = s"

text \<open>The extraction of an unsigned number of \<open>w\<close> bits.\<close>

definition extract_hex :: "nat \<Rightarrow> string \<Rightarrow> nat \<times> string" where
  "extract_hex w s =
     (case hex_sign (dropWhile is_space s) of (neg, s) \<Rightarrow>
        let s = hex_prefix s; ds = takeWhile is_hex s; rest = dropWhile is_hex s; v = hex_value ds in
        (if 2 ^ w \<le> v then 2 ^ w - 1 else if neg then (2 ^ w - v) mod 2 ^ w else v, rest))"

section \<open>Keys\<close>

text \<open>The private key fills the first half of an array of 64 bytes that is written as a whole.\<close>

definition keys_generate_command ::
  "('r \<Rightarrow> bool \<times> byte list \<times> byte list \<times> 'r) \<Rightarrow> (string \<Rightarrow> bool) \<Rightarrow> Context \<Rightarrow> 'r \<Rightarrow> files \<Rightarrow> int \<times> 'r \<times> files" where
  "keys_generate_command make_key writable ctx r fs =
     (case get_next_command ctx of (subcommand, ctx) \<Rightarrow>
      if subcommand \<noteq> ''vendor'' \<and> subcommand \<noteq> ''server'' then (EXIT_FAILURE, r, fs)
      else (case make_key r of (ok, pub, priv, r) \<Rightarrow>
        if \<not> ok then (EXIT_FAILURE, r, fs)
        else if subcommand = ''vendor''
        then (case write_binary writable (vendor_priv_key ctx) (read_padded 64 priv) fs of (ok, fs) \<Rightarrow>
          if \<not> ok then (EXIT_FAILURE, r, fs)
          else (case write_binary writable (vendor_pub_key ctx) (read_padded 64 pub) fs of (ok, fs) \<Rightarrow>
            if \<not> ok then (EXIT_FAILURE, r, fs) else (EXIT_SUCCESS, r, fs)))
        else (case write_binary writable (server_priv_key ctx) (read_padded 64 priv) fs of (ok, fs) \<Rightarrow>
          if \<not> ok then (EXIT_FAILURE, r, fs)
          else (case write_binary writable (server_pub_key ctx) (read_padded 64 pub) fs of (ok, fs) \<Rightarrow>
            if \<not> ok then (EXIT_FAILURE, r, fs) else (EXIT_SUCCESS, r, fs)))))"

section \<open>Manifests\<close>

definition digest_buffer_len :: nat where "digest_buffer_len = 4096"

text \<open>
  The loop over the binary. The end of the file is seen by a read that gets fewer bytes than it asked for, so that a file whose
  length is a multiple of the buffer is followed by an update with no bytes.
\<close>

function digest_file :: "'d sec_iface \<Rightarrow> byte list \<Rightarrow> 'd \<Rightarrow> pull_error \<times> 'd" where
  "digest_file sec bs c = (case digest_update sec c (take digest_buffer_len bs) of (err, c) \<Rightarrow>
     if err \<noteq> PULL_SUCCESS then (err, c)
     else if length bs < digest_buffer_len then (PULL_SUCCESS, c)
     else digest_file sec (drop digest_buffer_len bs) c)"
  by pat_completeness auto
termination by (relation "measure (\<lambda>(sec, bs, c). length bs)") (auto simp: digest_buffer_len_def)

declare digest_file.simps [simp del]

text \<open>The size that \<open>stat\<close> reports; where it fails its result is not initialised.\<close>

definition stat_size :: "string \<Rightarrow> files \<Rightarrow> nat" where
  "stat_size f fs = (case fs f of None \<Rightarrow> 0 | Some bs \<Rightarrow> length bs)"

text \<open>Steps 1 to 4: the sizes and the three numbers.\<close>

definition manifest_numbers :: "Context \<Rightarrow> files \<Rightarrow> manifest_t \<Rightarrow> manifest_t" where
  "manifest_numbers ctx fs mt =
     (let mt = set_size_impl mt (word_of_nat (stat_size (binary_file ctx) fs));
          mt = set_prop_size_impl mt (word_of_nat (stat_size (binary_file ctx) fs))
      in case extract_hex 16 (appid ctx) of (a, str) \<Rightarrow>
        let mt = set_appid_impl mt (word_of_nat a) in
        case extract_hex 32 (str @ offset ctx) of (off, str) \<Rightarrow>
          let mt = set_offset_impl mt (word_of_nat off) in
          case extract_hex 16 (str @ version ctx) of (v, str) \<Rightarrow> set_version_impl mt (word_of_nat v))"

text \<open>Steps 6 to 9, from the digest on.\<close>

definition manifest_sign ::
  "'d sec_iface \<Rightarrow> (string \<Rightarrow> bool) \<Rightarrow> Context \<Rightarrow> manifest_t \<Rightarrow> files \<Rightarrow> (int \<times> files) option" where
  "manifest_sign sec writable ctx mt fs =
     (case fs (vendor_priv_key ctx) of None \<Rightarrow> Some (EXIT_FAILURE, fs)
      | Some vk \<Rightarrow> Option.bind (sign_manifest_vendor sec mt (read_padded 32 vk) (replicate 64 0)) (\<lambda>(err, mt, signature).
        if err \<noteq> PULL_SUCCESS then Some (EXIT_FAILURE, fs)
        else if \<not> writable (signature_file ctx) then Some (EXIT_FAILURE, fs)
        else (let fs = fs(signature_file ctx \<mapsto> take 64 signature) in
          case fs (server_priv_key ctx) of None \<Rightarrow> Some (EXIT_FAILURE, fs)
          | Some sk \<Rightarrow> Option.bind (sign_manifest_server sec mt (read_padded 32 sk) signature) (\<lambda>(err, mt, signature).
            if err \<noteq> PULL_SUCCESS then Some (EXIT_FAILURE, fs)
            else if \<not> writable (out_file ctx) then Some (EXIT_FAILURE, fs)
            else Some (EXIT_SUCCESS, fs(out_file ctx \<mapsto> manifest_bytes mt))))))"

definition manifest_generate_command ::
  "'d sec_iface \<Rightarrow> manifest_t \<Rightarrow> (string \<Rightarrow> bool) \<Rightarrow> Context \<Rightarrow> files \<Rightarrow> (int \<times> files) option" where
  "manifest_generate_command sec mt0 writable ctx fs =
     (let mt = manifest_numbers ctx fs mt0 in
      case fs (server_pub_key ctx) of None \<Rightarrow> Some (EXIT_FAILURE, fs)
      | Some pk \<Rightarrow>
        let key_buffer = read_padded 64 pk;
            mt = set_server_key_x_impl mt key_buffer;
            mt = set_server_key_y_impl mt (drop 32 key_buffer)
        in case digest_init sec (sec_ctx0 sec) of (err, dctx) \<Rightarrow>
          if err \<noteq> PULL_SUCCESS then Some (EXIT_FAILURE, fs)
          else (case fs (binary_file ctx) of None \<Rightarrow> Some (EXIT_FAILURE, fs)
            | Some bin \<Rightarrow> (case digest_file sec bin dctx of (err, dctx) \<Rightarrow>
                if err \<noteq> PULL_SUCCESS then Some (EXIT_FAILURE, fs)
                else (case digest_finalize sec dctx of
                    (None, _) \<Rightarrow> None
                  | (Some hash, _) \<Rightarrow> manifest_sign sec writable ctx (set_digest_impl mt hash) fs))))"

text \<open>Validation: the exit status and the verdicts, in the order in which they are printed.\<close>

definition manifest_validate_digest ::
  "'d sec_iface \<Rightarrow> Context \<Rightarrow> manifest_t \<Rightarrow> files \<Rightarrow> (string \<times> bool) list option option" where
  "manifest_validate_digest sec ctx mt fs =
     (case digest_init sec (sec_ctx0 sec) of (err, dctx) \<Rightarrow>
      if err \<noteq> PULL_SUCCESS then Some None
      else (case fs (binary_file ctx) of None \<Rightarrow> Some (Some [(''digest'', False)])
        | Some bin \<Rightarrow> (case digest_file sec bin dctx of (err, dctx) \<Rightarrow>
            if err \<noteq> PULL_SUCCESS then Some None
            else (case digest_finalize sec dctx of
                (None, _) \<Rightarrow> None
              | (Some hash, _) \<Rightarrow>
                  Some (Some [(''digest'', take (get_digest_size sec) (get_digest_impl mt) = take (get_digest_size sec) hash)])))))"

definition manifest_validate_command ::
  "'d sec_iface \<Rightarrow> Context \<Rightarrow> files \<Rightarrow> (int \<times> (string \<times> bool) list) option" where
  "manifest_validate_command sec ctx fs =
     (case fs (out_file ctx) of None \<Rightarrow> Some (EXIT_FAILURE, [])
      | Some bs \<Rightarrow>
        let mt = manifest_of_bytes (read_padded sizeof_manifest bs);
            log1 = [(''size'', unat (get_size_impl mt) = stat_size (binary_file ctx) fs)]
        in Option.bind (manifest_validate_digest sec ctx mt fs) (\<lambda>d.
          case d of None \<Rightarrow> Some (EXIT_FAILURE, log1)
          | Some log2 \<Rightarrow> (case fs (server_pub_key ctx) of None \<Rightarrow> Some (EXIT_FAILURE, log1 @ log2)
            | Some pk \<Rightarrow>
              let sk = read_padded 64 pk;
                  log3 = [(''server_key_x'', get_server_key_x_impl mt = take 32 sk), (''server_key_y'', get_server_key_y_impl mt = drop 32 sk)]
              in case fs (vendor_pub_key ctx) of None \<Rightarrow> Some (EXIT_FAILURE, log1 @ log2 @ log3)
                | Some pk \<Rightarrow>
                  let vk = read_padded 64 pk in
                  Option.bind (verify_signature sec mt \<lparr>ks_x = take 32 vk, ks_y = drop 32 vk\<rparr>) (\<lambda>err.
                    Some (EXIT_SUCCESS, log1 @ log2 @ log3 @ [(''_signature'', err = PULL_SUCCESS)])))))"

section \<open>The first context of the bootloader\<close>

definition bootctx_generate_command :: "(string \<Rightarrow> bool) \<Rightarrow> Context \<Rightarrow> files \<Rightarrow> int \<times> files" where
  "bootctx_generate_command writable ctx fs =
     (let bctx = \<lparr>vendor_key = replicate 64 0, ctx_buffer = replicate 63 0, startup_flags = FIRST_BOOT\<rparr> in
      if \<not> writable (out_file ctx) then (EXIT_FAILURE, fs)
      else (EXIT_SUCCESS, fs(out_file ctx \<mapsto> bootloader_ctx_bytes bctx)))"


section \<open>Configuration and dispatch\<close>

text \<open>
  \<open>config\<close> is the table that the TOML parser returns, \<open>None\<close> where it throws. An argument that was given on the command line is kept.
\<close>

definition parse_elem :: "(string \<rightharpoonup> string) \<Rightarrow> string \<Rightarrow> string \<Rightarrow> string" where
  "parse_elem config name arg = (if arg = [] then (case config name of None \<Rightarrow> arg | Some v \<Rightarrow> v) else arg)"

definition parse_conf :: "(string \<rightharpoonup> string) option \<Rightarrow> Context \<Rightarrow> int \<times> Context" where
  "parse_conf config ctx = (case config of None \<Rightarrow> (1, ctx)
   | Some c \<Rightarrow> (0, ctx\<lparr>
       appid := parse_elem c ''appid'' (appid ctx), version := parse_elem c ''version'' (version ctx),
       offset := parse_elem c ''offset'' (offset ctx), signature_file := parse_elem c ''signature_file'' (signature_file ctx),
       vendor_priv_key := parse_elem c ''vendor_priv_key'' (vendor_priv_key ctx),
       vendor_pub_key := parse_elem c ''vendor_pub_key'' (vendor_pub_key ctx),
       server_priv_key := parse_elem c ''server_priv_key'' (server_priv_key ctx),
       server_pub_key := parse_elem c ''server_pub_key'' (server_pub_key ctx),
       binary_file := parse_elem c ''binary_file'' (binary_file ctx),
       second_binary_file := parse_elem c ''second_binary_file'' (second_binary_file ctx),
       out_file := parse_elem c ''out_file'' (out_file ctx)\<rparr>))"

text \<open>The verdicts that \<open>configs validate\<close> prints.\<close>

definition configs_validate_command :: "files \<Rightarrow> Context \<Rightarrow> (string \<times> bool) list" where
  "configs_validate_command fs ctx =
     [(''appid'', True), (''version'', True), (''offset'', True), (''signature_file'', file_exists (signature_file ctx) fs),
      (''vendor_priv_key'', file_exists (vendor_priv_key ctx) fs), (''vendor_pub_key'', file_exists (vendor_pub_key ctx) fs),
      (''server_priv_key'', file_exists (server_priv_key ctx) fs), (''server_pub_key'', file_exists (server_pub_key ctx) fs),
      (''binary_file'', file_exists (binary_file ctx) fs), (''second_binary_file'', file_exists (second_binary_file ctx) fs),
      (''out_file'', file_exists (out_file ctx) fs)]"

text \<open>
  The routers of \<open>commands.hpp\<close>: without a known subcommand they print the help and return the negation of its result.
  \<open>manifest_print_command\<close> only prints.
\<close>

definition keys_command ::
  "('r \<Rightarrow> bool \<times> byte list \<times> byte list \<times> 'r) \<Rightarrow> (string \<Rightarrow> bool) \<Rightarrow> Context \<Rightarrow> 'r \<Rightarrow> files \<Rightarrow> int \<times> 'r \<times> files" where
  "keys_command make_key writable ctx r fs = (case get_next_command ctx of (subcommand, ctx) \<Rightarrow>
     if subcommand = ''generate'' then keys_generate_command make_key writable ctx r fs
     else if subcommand = ''help'' then (EXIT_SUCCESS, r, fs) else (EXIT_FAILURE, r, fs))"

definition manifest_command ::
  "'d sec_iface \<Rightarrow> manifest_t \<Rightarrow> (string \<Rightarrow> bool) \<Rightarrow> Context \<Rightarrow> files \<Rightarrow> (int \<times> files) option" where
  "manifest_command sec mt0 writable ctx fs = (case get_next_command ctx of (subcommand, ctx) \<Rightarrow>
     if subcommand = ''generate'' then manifest_generate_command sec mt0 writable ctx fs
     else if subcommand = ''validate'' then map_option (\<lambda>(r, _). (r, fs)) (manifest_validate_command sec ctx fs)
     else if subcommand = ''print'' then Some (if file_exists (out_file ctx) fs then EXIT_SUCCESS else EXIT_FAILURE, fs)
     else if subcommand = ''help'' then Some (EXIT_SUCCESS, fs) else Some (EXIT_FAILURE, fs))"

definition bootctx_command :: "(string \<Rightarrow> bool) \<Rightarrow> Context \<Rightarrow> files \<Rightarrow> int \<times> files" where
  "bootctx_command writable ctx fs = (case get_next_command ctx of (subcommand, ctx) \<Rightarrow>
     if subcommand = ''generate'' then bootctx_generate_command writable ctx fs else (EXIT_FAILURE, fs))"

section \<open>Numbers\<close>

definition hex_argument :: "nat \<Rightarrow> string \<Rightarrow> nat \<Rightarrow> bool" where
  "hex_argument w s n \<longleftrightarrow> (\<exists>ds. s = ''0x'' @ ds \<and> ds \<noteq> [] \<and> list_all is_hex ds \<and> hex_value ds = n \<and> n < 2 ^ w)"

lemmas hex_defs = is_hex_def hex_digit_def hex_value_def Let_def

lemma extract_prefixed:
  "list_all is_hex ds \<Longrightarrow> (rest \<noteq> [] \<longrightarrow> \<not> is_hex (hd rest)) \<Longrightarrow> hex_value ds < 2 ^ w \<Longrightarrow>
   extract_hex w (''0x'' @ ds @ rest) = (hex_value ds, rest)"
  by (cases rest) (auto simp: extract_hex_def is_space_def list_all_iff takeWhile_append2 dropWhile_append2 Let_def takeWhile_eq_all_conv [THEN iffD2])

lemma extract_argument: "hex_argument w s n \<Longrightarrow> extract_hex w s = (n, [])"
  using extract_prefixed [of _ "[]" w] by (auto simp: hex_argument_def)

lemma extract_stuck:
  "\<not> is_hex c \<Longrightarrow> \<not> is_space c \<Longrightarrow> c \<noteq> CHR ''-'' \<Longrightarrow> c \<noteq> CHR ''+'' \<Longrightarrow> extract_hex w (c # s) = (0, c # s)"
proof -
  assume c: "\<not> is_hex c" "\<not> is_space c" "c \<noteq> CHR ''-''" "c \<noteq> CHR ''+''"
  have "is_hex (CHR ''0'')" by (simp add: is_hex_def hex_digit_def)
  with c have "hex_prefix (c # s) = c # s" by (cases s) auto
  with c show ?thesis by (simp add: extract_hex_def hex_value_def)
qed

section \<open>Digests\<close>

context digest_contract
begin

lemma digest_file_ok: "absorbed c as \<Longrightarrow> \<exists>c'. digest_file sec bs c = (PULL_SUCCESS, c') \<and> absorbed c' (as @ bs)"
proof (induction bs arbitrary: as c rule: length_induct)
  case (1 bs)
  obtain c1 where c1: "digest_update sec c (take digest_buffer_len bs) = (PULL_SUCCESS, c1)" "absorbed c1 (as @ take digest_buffer_len bs)"
    using update_ok [OF "1.prems"] by blast
  show ?case
  proof (cases "length bs < digest_buffer_len")
    case True
    then show ?thesis using c1 by (simp add: digest_file.simps [of sec bs c])
  next
    case False
    then have "length (drop digest_buffer_len bs) < length bs" by (simp add: digest_buffer_len_def)
    with "1.IH" c1(2) obtain c2 where "digest_file sec (drop digest_buffer_len bs) c1 = (PULL_SUCCESS, c2)"
      "absorbed c2 ((as @ take digest_buffer_len bs) @ drop digest_buffer_len bs)" by blast
    then show ?thesis using c1(1) False by (simp add: digest_file.simps [of sec bs c])
  qed
qed

lemma digest_of_file:
  obtains c1 c2 c3 where "digest_init sec c = (PULL_SUCCESS, c1)" and "digest_file sec bs c1 = (PULL_SUCCESS, c2)"
    and "digest_finalize sec c2 = (Some (hash bs), c3)"
proof -
  obtain c1 where 1: "digest_init sec c = (PULL_SUCCESS, c1)" "absorbed c1 []" using init_ok by blast
  obtain c2 where 2: "digest_file sec bs c1 = (PULL_SUCCESS, c2)" "absorbed c2 ([] @ bs)" using digest_file_ok [OF 1(2)] by blast
  obtain c3 where "digest_finalize sec c2 = (Some (hash bs), c3)" using finalize_ok [OF 2(2)] by auto
  with 1(1) 2(1) that show ?thesis by blast
qed

end

section \<open>Generated manifests\<close>

text \<open>The manifest before it is signed.\<close>

definition tool_unsigned :: "manifest_t \<Rightarrow> nat \<Rightarrow> nat \<Rightarrow> nat \<Rightarrow> nat \<Rightarrow> byte list \<Rightarrow> byte list \<Rightarrow> manifest_t" where
  "tool_unsigned mt0 n a off v h pub = mt0\<lparr>
     vendor := \<lparr>vm_size = word_of_nat n, vm_offset = word_of_nat off, vm_version = word_of_nat v, vm_appid = word_of_nat a,
       vm_digest = h, vm_server_key_x = take 32 pub, vm_server_key_y = drop 32 pub\<rparr>,
     server := (server mt0)\<lparr>sm_prop_size := word_of_nat n\<rparr>\<rparr>"

text \<open>The files that the command reads: the keys of vendor and server, and the binary.\<close>

definition key_files :: "(byte list \<Rightarrow> byte list \<Rightarrow> bool) \<Rightarrow> Context \<Rightarrow> files \<Rightarrow> byte list \<Rightarrow> byte list \<Rightarrow> bool" where
  "key_files keypair ctx fs vpub spub \<longleftrightarrow> length vpub = 64 \<and> length spub = 64 \<and>
     fs (vendor_pub_key ctx) = Some vpub \<and> fs (server_pub_key ctx) = Some spub \<and>
     (\<exists>k. fs (vendor_priv_key ctx) = Some k \<and> keypair (read_padded 32 k) vpub) \<and>
     (\<exists>k. fs (server_priv_key ctx) = Some k \<and> keypair (read_padded 32 k) spub)"

text \<open>The names of the files that the commands use are different and those of the results can be written.\<close>

definition tool_names :: "(string \<Rightarrow> bool) \<Rightarrow> Context \<Rightarrow> bool" where
  "tool_names writable ctx \<longleftrightarrow>
     distinct [vendor_priv_key ctx, vendor_pub_key ctx, server_priv_key ctx, server_pub_key ctx, signature_file ctx, binary_file ctx, out_file ctx] \<and>
     list_all writable [vendor_priv_key ctx, vendor_pub_key ctx, server_priv_key ctx, server_pub_key ctx, signature_file ctx, out_file ctx]"

text \<open>The numbers that the stream gives for the three arguments, and arguments that are numbers.\<close>

definition tool_numbers :: "Context \<Rightarrow> nat \<Rightarrow> nat \<Rightarrow> nat \<Rightarrow> bool" where
  "tool_numbers ctx a off v \<longleftrightarrow> (\<exists>s1 s2 s3. extract_hex 16 (appid ctx) = (a, s1) \<and> extract_hex 32 (s1 @ offset ctx) = (off, s2) \<and>
     extract_hex 16 (s2 @ version ctx) = (v, s3))"

definition tool_arguments :: "Context \<Rightarrow> nat \<Rightarrow> nat \<Rightarrow> nat \<Rightarrow> bool" where
  "tool_arguments ctx a off v \<longleftrightarrow> hex_argument 16 (appid ctx) a \<and> hex_argument 32 (offset ctx) off \<and> hex_argument 16 (version ctx) v"

lemma arguments_numbers: "tool_arguments ctx a off v \<Longrightarrow> tool_numbers ctx a off v"
  unfolding tool_arguments_def tool_numbers_def
  using extract_argument [of 16 "appid ctx" a] extract_argument [of 32 "offset ctx" off] extract_argument [of 16 "version ctx" v]
  by (intro exI [of _ "[]"]) simp

lemma stuck_numbers:
  assumes "appid ctx = ''0x'' @ ds @ c # s" and "list_all is_hex ds" and "hex_value ds < 65536"
    and "\<not> is_hex c" and "\<not> is_space c" and "c \<noteq> CHR ''-''" and "c \<noteq> CHR ''+''"
  shows "tool_numbers ctx (hex_value ds) 0 0"
  using extract_prefixed [OF assms(2), of "c # s" 16] extract_stuck [OF assms(4-7)] assms(1,3,4) by (auto simp: tool_numbers_def)

lemma read_padded_id: "length bs = n \<Longrightarrow> read_padded n bs = bs"
  by (simp add: read_padded_def)

lemma wf_tool_unsigned: "wf_manifest mt0 \<Longrightarrow> length h = 32 \<Longrightarrow> length pub = 64 \<Longrightarrow> wf_manifest (tool_unsigned mt0 n a off v h pub)"
  by (simp add: tool_unsigned_def wf_manifest_def wf_vendor_def)

lemma manifest_numbers_ok:
  assumes "tool_numbers ctx a off v" and "fs (binary_file ctx) = Some bin" and "wf_manifest mt0" and "length pub = 64" and "length h = 32"
  shows "set_digest_impl (set_server_key_y_impl (set_server_key_x_impl (manifest_numbers ctx fs mt0) pub) (drop 32 pub)) h =
    tool_unsigned mt0 (length bin) a off v h pub"
proof -
  have "manifest_numbers ctx fs mt0 = set_version_impl (set_offset_impl (set_appid_impl (set_prop_size_impl
      (set_size_impl mt0 (word_of_nat (length bin))) (word_of_nat (length bin))) (word_of_nat a)) (word_of_nat off)) (word_of_nat v)"
    using assms(1,2) by (auto simp: manifest_numbers_def stat_size_def tool_numbers_def)
  with assms(3-5) show ?thesis
    by (simp add: tool_unsigned_def manifest_setters wf_manifest_def wf_vendor_def splice_at_def)
qed

context uecc_keys
begin

lemma generate_ok:
  assumes "key_files keypair ctx fs vpub spub" and "tool_names writable ctx" and "tool_numbers ctx a off v"
    and "fs (binary_file ctx) = Some bin" and "wf_manifest mt0"
    and "mt = tool_unsigned mt0 (length bin) a off v (hash bin) spub"
  shows "\<exists>vsig ssig mt'. manifest_generate_command (tinycrypt_iface lib c0) mt0 writable ctx fs =
      Some (EXIT_SUCCESS, fs(signature_file ctx \<mapsto> vsig, out_file ctx \<mapsto> manifest_bytes mt')) \<and>
    mt' = mt\<lparr>vendor_signature_r := take 32 vsig, vendor_signature_s := drop 32 vsig,
      server_signature_r := take 32 ssig, server_signature_s := drop 32 ssig\<rparr> \<and> length vsig = 64 \<and> length ssig = 64 \<and>
    vendor_signed (tinycrypt_iface lib c0) hash \<lparr>ks_x = take 32 vpub, ks_y = drop 32 vpub\<rparr> mt' \<and>
    server_signed (tinycrypt_iface lib c0) hash mt'"
proof -
  let ?sec = "tinycrypt_iface lib c0"
  obtain vk sk where k: "fs (vendor_priv_key ctx) = Some vk" "keypair (read_padded 32 vk) vpub"
    "fs (server_priv_key ctx) = Some sk" "keypair (read_padded 32 sk) spub" "fs (server_pub_key ctx) = Some spub"
    "length vpub = 64" "length spub = 64"
    using assms(1) by (auto simp: key_files_def)
  have wf: "wf_manifest mt" using wf_tool_unsigned [OF assms(5) hash_length k(7)] by (simp add: assms(6))
  obtain c1 c2 c3 where d: "digest_init ?sec (sec_ctx0 ?sec) = (PULL_SUCCESS, c1)" "digest_file ?sec bin c1 = (PULL_SUCCESS, c2)"
    "digest_finalize ?sec c2 = (Some (hash bin), c3)"
    by (rule tinycrypt.digest_of_file)
  obtain vsig where v: "sign_manifest_vendor ?sec mt (read_padded 32 vk) (replicate 64 0) =
      Some (PULL_SUCCESS, mt\<lparr>vendor_signature_r := take 32 vsig, vendor_signature_s := drop 32 vsig\<rparr>, vsig)" "length vsig = 64"
      "uECC_verify lib vpub (hash (vendor_bytes (vendor mt))) 32 vsig = 1"
    using sign_vendor [OF k(2) wf, of "replicate 64 0"] by auto
  let ?mt1 = "mt\<lparr>vendor_signature_r := take 32 vsig, vendor_signature_s := drop 32 vsig\<rparr>"
  have "wf_manifest ?mt1" using wf v(2) by (simp add: wf_manifest_def)
  from sign_server [OF k(4) this v(2)] obtain ssig where s: "sign_manifest_server ?sec ?mt1 (read_padded 32 sk) vsig =
      Some (PULL_SUCCESS, ?mt1\<lparr>server_signature_r := take 32 ssig, server_signature_s := drop 32 ssig\<rparr>, ssig)" "length ssig = 64"
      "uECC_verify lib spub (hash (server_bytes (server mt))) 32 ssig = 1"
    by auto
  have key: "vm_server_key_x (vendor mt) = take 32 spub" "vm_server_key_y (vendor mt) = drop 32 spub"
    by (simp_all add: assms(6) tool_unsigned_def)
  have "manifest_sign ?sec writable ctx mt fs = Some (EXIT_SUCCESS, fs(signature_file ctx \<mapsto> vsig,
      out_file ctx \<mapsto> manifest_bytes (?mt1\<lparr>server_signature_r := take 32 ssig, server_signature_s := drop 32 ssig\<rparr>)))"
    using assms(2) k v s by (auto simp: manifest_sign_def tool_names_def Let_def)
  moreover have "manifest_generate_command ?sec mt0 writable ctx fs = manifest_sign ?sec writable ctx mt fs"
    using k(5,7) d manifest_numbers_ok [where h = "hash bin" and fs = fs, OF assms(3) _ assms(5) k(7) hash_length] assms(4)
    by (simp add: manifest_generate_command_def Let_def read_padded_id assms(6))
  ultimately show ?thesis
    using signed_authentic [OF k(6,7) v(2) s(2) key v(3) s(3)] v(2) s(2) by auto
qed


lemma generate_verified:
  assumes "key_files keypair ctx fs vpub spub" and "tool_names writable ctx" and "tool_numbers ctx a off v"
    and "fs (binary_file ctx) = Some bin" and "wf_manifest mt0"
  shows "\<exists>fs' mt. manifest_generate_command (tinycrypt_iface lib c0) mt0 writable ctx fs = Some (EXIT_SUCCESS, fs') \<and>
    (\<forall>f. f \<noteq> signature_file ctx \<longrightarrow> f \<noteq> out_file ctx \<longrightarrow> fs' f = fs f) \<and>
    fs' (signature_file ctx) = Some (vendor_signature_r mt @ vendor_signature_s mt) \<and>
    fs' (out_file ctx) = Some (manifest_bytes mt) \<and> wf_manifest mt \<and>
    vendor mt = \<lparr>vm_size = word_of_nat (length bin), vm_offset = word_of_nat off, vm_version = word_of_nat v, vm_appid = word_of_nat a,
      vm_digest = hash bin, vm_server_key_x = take 32 spub, vm_server_key_y = drop 32 spub\<rparr> \<and>
    server mt = (server mt0)\<lparr>sm_prop_size := word_of_nat (length bin)\<rparr> \<and>
    vendor_signed (tinycrypt_iface lib c0) hash \<lparr>ks_x = take 32 vpub, ks_y = drop 32 vpub\<rparr> mt \<and>
    server_signed (tinycrypt_iface lib c0) hash mt"
proof -
  let ?u = "tool_unsigned mt0 (length bin) a off v (hash bin) spub"
  obtain vsig ssig mt where g: "manifest_generate_command (tinycrypt_iface lib c0) mt0 writable ctx fs =
      Some (EXIT_SUCCESS, fs(signature_file ctx \<mapsto> vsig, out_file ctx \<mapsto> manifest_bytes mt))"
    "mt = ?u\<lparr>vendor_signature_r := take 32 vsig, vendor_signature_s := drop 32 vsig,
      server_signature_r := take 32 ssig, server_signature_s := drop 32 ssig\<rparr>" "length vsig = 64" "length ssig = 64"
    "vendor_signed (tinycrypt_iface lib c0) hash \<lparr>ks_x = take 32 vpub, ks_y = drop 32 vpub\<rparr> mt"
    "server_signed (tinycrypt_iface lib c0) hash mt"
    using generate_ok [OF assms refl] by blast
  have "wf_manifest mt" using g(2-4) assms(1,5) hash_length
    by (simp add: tool_unsigned_def wf_manifest_def wf_vendor_def key_files_def)
  moreover have "signature_file ctx \<noteq> out_file ctx" using assms(2) by (simp add: tool_names_def)
  ultimately show ?thesis using g by (intro exI [of _ "fs(signature_file ctx \<mapsto> vsig, out_file ctx \<mapsto> manifest_bytes mt)"] exI [of _ mt])
    (simp add: tool_unsigned_def)
qed

lemma validate_ok:
  assumes "fs (out_file ctx) = Some (manifest_bytes mt)" and "wf_manifest mt" and "fs (binary_file ctx) = Some bin"
    and "vm_size (vendor mt) = word_of_nat (length bin)" and "length bin < 2 ^ 32" and "vm_digest (vendor mt) = hash bin"
    and "fs (server_pub_key ctx) = Some spub" and "length spub = 64"
    and "vm_server_key_x (vendor mt) = take 32 spub" and "vm_server_key_y (vendor mt) = drop 32 spub"
    and "fs (vendor_pub_key ctx) = Some vpub" and "length vpub = 64"
    and "vendor_signed (tinycrypt_iface lib c0) hash \<lparr>ks_x = take 32 vpub, ks_y = drop 32 vpub\<rparr> mt"
    and "server_signed (tinycrypt_iface lib c0) hash mt"
  shows "manifest_validate_command (tinycrypt_iface lib c0) ctx fs = Some (EXIT_SUCCESS,
    [(''size'', True), (''digest'', True), (''server_key_x'', True), (''server_key_y'', True), (''_signature'', True)])"
proof -
  let ?sec = "tinycrypt_iface lib c0"
  obtain c1 c2 c3 where d: "digest_init ?sec (sec_ctx0 ?sec) = (PULL_SUCCESS, c1)" "digest_file ?sec bin c1 = (PULL_SUCCESS, c2)"
    "digest_finalize ?sec c2 = (Some (hash bin), c3)"
    by (rule tinycrypt.digest_of_file)
  have "manifest_validate_digest ?sec ctx mt fs = Some (Some [(''digest'', True)])"
    using d assms(3,6) by (simp add: manifest_validate_digest_def get_digest_impl_def)
  moreover have "read_padded sizeof_manifest (manifest_bytes mt) = manifest_bytes mt" using assms(2) by (simp add: read_padded_id)
  moreover have "verify_signature ?sec mt \<lparr>ks_x = take 32 vpub, ks_y = drop 32 vpub\<rparr> = Some PULL_SUCCESS"
    using assms(13,14) by (simp add: tinycrypt.verify_signature_iff)
  ultimately show ?thesis using assms
    by (simp add: manifest_validate_command_def Let_def manifest_of_manifest_bytes get_size_impl_def get_server_key_x_impl_def
        get_server_key_y_impl_def stat_size_def unat_word32 read_padded_id)
qed

lemma keys_digest: "digest_contract (tinycrypt_iface lib c0) hash (\<lambda>c. st (sha_ctx c))"
  by (rule tinycrypt.digest_contract_axioms)

lemma keys_ok:
  assumes "tool_names writable ctx"
  shows "\<exists>r1 fs1 r2 fs2 vpub spub.
    keys_command make_key writable (ctx\<lparr>subcommands := [''generate'', ''vendor''], current := 0\<rparr>) r fs = (EXIT_SUCCESS, r1, fs1) \<and>
    keys_command make_key writable (ctx\<lparr>subcommands := [''generate'', ''server''], current := 0\<rparr>) r1 fs1 = (EXIT_SUCCESS, r2, fs2) \<and>
    key_files keypair ctx fs2 vpub spub \<and> fs2 (binary_file ctx) = fs (binary_file ctx)"
proof -
  obtain vpub vk r1 where v: "make_key r = (True, vpub, vk, r1)" "length vpub = 64" "length vk = 32" "keypair vk vpub"
    using make_key_ok by blast
  obtain spub sk r2 where s: "make_key r1 = (True, spub, sk, r2)" "length spub = 64" "length sk = 32" "keypair sk spub"
    using make_key_ok by blast
  have k: "read_padded 32 (read_padded 64 vk) = vk" "read_padded 32 (read_padded 64 sk) = sk"
    using v(3) s(3) by (simp_all add: read_padded_def)
  let ?fs1 = "fs(vendor_priv_key ctx \<mapsto> read_padded 64 vk, vendor_pub_key ctx \<mapsto> vpub)"
  let ?fs2 = "?fs1(server_priv_key ctx \<mapsto> read_padded 64 sk, server_pub_key ctx \<mapsto> spub)"
  have "keys_command make_key writable (ctx\<lparr>subcommands := [''generate'', ''vendor''], current := 0\<rparr>) r fs = (EXIT_SUCCESS, r1, ?fs1)"
    using v assms by (simp add: keys_command_def keys_generate_command_def get_next_command_def write_binary_def tool_names_def read_padded_id)
  moreover have "keys_command make_key writable (ctx\<lparr>subcommands := [''generate'', ''server''], current := 0\<rparr>) r1 ?fs1 = (EXIT_SUCCESS, r2, ?fs2)"
    using s assms by (simp add: keys_command_def keys_generate_command_def get_next_command_def write_binary_def tool_names_def read_padded_id)
  moreover have "key_files keypair ctx ?fs2 vpub spub" "?fs2 (binary_file ctx) = fs (binary_file ctx)"
    using v s k assms by (simp add: key_files_def tool_names_def, auto simp: tool_names_def)
  ultimately show ?thesis by blast
qed

end


section \<open>A concrete configuration\<close>

text \<open>The arguments of \<open>config.toml\<close>.\<close>

definition demo_tool_ctx :: Context where
  "demo_tool_ctx = \<lparr>subcommands = [''generate''], current = 1, appid = ''0x0202'', version = ''0xdead'', offset = ''0x100'',
     signature_file = ''signature.bin'', vendor_priv_key = ''vendor.priv'', vendor_pub_key = ''vendor.pub'',
     server_priv_key = ''server.priv'', server_pub_key = ''server.pub'', binary_file = ''firmware.hex'', second_binary_file = [],
     out_file = ''manifest.bin''\<rparr>"

lemma demo_tool_ctx_appid: "demo_tool_ctx\<lparr>appid := ''0x0202''\<rparr> = demo_tool_ctx"
  by (simp add: demo_tool_ctx_def)

lemma demo_tool_names: "tool_names (\<lambda>_. True) demo_tool_ctx"
  by (simp add: tool_names_def demo_tool_ctx_def)

lemma demo_tool_arguments: "tool_arguments demo_tool_ctx 0x0202 sizeof_manifest 0xdead"
proof -
  have "hex_argument 16 ''0x0202'' 0x0202"
    unfolding hex_argument_def by (rule exI [of _ "''0202''"]) (simp add: hex_defs sizeof_manifest_def)
  moreover have "hex_argument 32 ''0x100'' sizeof_manifest"
    unfolding hex_argument_def by (rule exI [of _ "''100''"]) (simp add: hex_defs sizeof_manifest_def)
  moreover have "hex_argument 16 ''0xdead'' 0xdead"
    unfolding hex_argument_def by (rule exI [of _ "''dead''"]) (simp add: hex_defs sizeof_manifest_def)
  ultimately show ?thesis by (simp add: tool_arguments_def demo_tool_ctx_def)
qed

definition demo_tool_files :: files where
  "demo_tool_files = [''vendor.priv'' \<mapsto> replicate 32 1, ''vendor.pub'' \<mapsto> replicate 64 1, ''server.priv'' \<mapsto> replicate 32 2,
     ''server.pub'' \<mapsto> replicate 64 2, ''firmware.hex'' \<mapsto> demo_firmware]"

lemma demo_key_files: "key_files demo_pair (demo_tool_ctx\<lparr>appid := s\<rparr>) demo_tool_files (replicate 64 1) (replicate 64 2)"
  by (simp add: key_files_def demo_tool_ctx_def demo_tool_files_def demo_pair_def read_padded_def flip: replicate_add)

section \<open>Properties\<close>

text \<open>
  C22. From keys to a manifest that a device accepts. With file names that differ and arguments that are hexadecimal numbers, making the keys of
  the vendor, the keys of the server and the manifest of a binary succeeds, whatever is in the uninitialised manifest. The output
  file holds a manifest with the size of the binary, the three numbers, the hash of the binary and the key of
  the server; its verification succeeds on every device with the application and the public key of the vendor; and the
  validation command finds everything valid.
\<close>

theorem tool_manifest_verified:
  assumes "uecc_keys lib hash st make_key keypair" and "tool_names writable ctx" and "tool_arguments ctx a off v"
    and "fs (binary_file ctx) = Some bin" and "length bin < 2 ^ 32" and "wf_manifest mt0"
  shows "\<exists>r1 fs1 r2 fs2 fs3 vpub spub mt.
    keys_command make_key writable (ctx\<lparr>subcommands := [''generate'', ''vendor''], current := 0\<rparr>) r fs = (EXIT_SUCCESS, r1, fs1) \<and>
    keys_command make_key writable (ctx\<lparr>subcommands := [''generate'', ''server''], current := 0\<rparr>) r1 fs1 = (EXIT_SUCCESS, r2, fs2) \<and>
    manifest_command (tinycrypt_iface lib c0) mt0 writable (ctx\<lparr>subcommands := [''generate''], current := 0\<rparr>) fs2 = Some (EXIT_SUCCESS, fs3) \<and>
    fs3 (vendor_pub_key ctx) = Some vpub \<and> fs3 (server_pub_key ctx) = Some spub \<and> fs3 (out_file ctx) = Some (manifest_bytes mt) \<and>
    vendor mt = \<lparr>vm_size = word_of_nat (length bin), vm_offset = word_of_nat off, vm_version = word_of_nat v, vm_appid = word_of_nat a,
      vm_digest = hash bin, vm_server_key_x = take 32 spub, vm_server_key_y = drop 32 spub\<rparr> \<and>
    (\<forall>sf. verify_manifest (tinycrypt_iface lib c0) mt (sf\<lparr>keystore := \<lparr>ks_x = take 32 vpub, ks_y = drop 32 vpub\<rparr>, sf_appid := word_of_nat a\<rparr>) =
      Some PULL_SUCCESS) \<and>
    manifest_validate_command (tinycrypt_iface lib c0) ctx fs3 = Some (EXIT_SUCCESS,
      [(''size'', True), (''digest'', True), (''server_key_x'', True), (''server_key_y'', True), (''_signature'', True)])"
proof -
  let ?sec = "tinycrypt_iface lib c0" and ?ctx = "ctx\<lparr>subcommands := [''generate''], current := 1\<rparr>"
  have names: "tool_names writable ?ctx" "tool_numbers ?ctx a off v" "fs2 (binary_file ?ctx) = fs2 (binary_file ctx)"
    "key_files keypair ?ctx fs2 vpub spub = key_files keypair ctx fs2 vpub spub" for fs2 vpub spub
    using assms(2) arguments_numbers [OF assms(3)] by (simp_all add: tool_names_def tool_numbers_def key_files_def)
  obtain r1 fs1 r2 fs2 vpub spub where k:
    "keys_command make_key writable (ctx\<lparr>subcommands := [''generate'', ''vendor''], current := 0\<rparr>) r fs = (EXIT_SUCCESS, r1, fs1)"
    "keys_command make_key writable (ctx\<lparr>subcommands := [''generate'', ''server''], current := 0\<rparr>) r1 fs1 = (EXIT_SUCCESS, r2, fs2)"
    "key_files keypair ctx fs2 vpub spub" "fs2 (binary_file ctx) = Some bin"
    using uecc_keys.keys_ok [OF assms(1,2), of r fs] assms(4) by auto
  obtain fs3 mt where g: "manifest_generate_command ?sec mt0 writable ?ctx fs2 = Some (EXIT_SUCCESS, fs3)"
    "\<forall>f. f \<noteq> signature_file ctx \<longrightarrow> f \<noteq> out_file ctx \<longrightarrow> fs3 f = fs2 f" "fs3 (out_file ctx) = Some (manifest_bytes mt)" "wf_manifest mt"
    "vendor mt = \<lparr>vm_size = word_of_nat (length bin), vm_offset = word_of_nat off, vm_version = word_of_nat v, vm_appid = word_of_nat a,
      vm_digest = hash bin, vm_server_key_x = take 32 spub, vm_server_key_y = drop 32 spub\<rparr>"
    "vendor_signed ?sec hash \<lparr>ks_x = take 32 vpub, ks_y = drop 32 vpub\<rparr> mt" "server_signed ?sec hash mt"
    using uecc_keys.generate_verified [OF assms(1) _ names(1,2) _ assms(6), unfolded names(3,4), OF k(3,4), of c0] by auto
  have f: "fs3 (vendor_pub_key ctx) = Some vpub" "length vpub = 64" "fs3 (server_pub_key ctx) = Some spub" "length spub = 64"
    "fs3 (binary_file ctx) = Some bin"
    using k(3,4) g(2) assms(2) by (auto simp: key_files_def tool_names_def)
  have "manifest_validate_command ?sec ctx fs3 = Some (EXIT_SUCCESS,
      [(''size'', True), (''digest'', True), (''server_key_x'', True), (''server_key_y'', True), (''_signature'', True)])"
    using uecc_keys.validate_ok [OF assms(1) g(3,4) f(5) _ assms(5) _ f(3,4) _ _ f(1,2) g(6,7)] g(5) by simp
  moreover have "verify_manifest ?sec mt (sf\<lparr>keystore := \<lparr>ks_x = take 32 vpub, ks_y = drop 32 vpub\<rparr>, sf_appid := word_of_nat a\<rparr>) = Some PULL_SUCCESS" for sf
    using g(5-7) digest_contract.verify_manifest_iff [OF uecc_keys.keys_digest [OF assms(1)]] by (simp add: authentic_def)
  ultimately show ?thesis using k(1,2) g(1,3,5) f(1,3) by (auto simp: manifest_command_def get_next_command_def)
qed

theorem tool_manifest_verified_witness:
  "\<exists>r1 fs1 r2 fs2 fs3 vpub spub mt.
    keys_command demo_make_key (\<lambda>_. True) (demo_tool_ctx\<lparr>subcommands := [''generate'', ''vendor''], current := 0\<rparr>) 0
      [''firmware.hex'' \<mapsto> demo_firmware] = (EXIT_SUCCESS, r1, fs1) \<and>
    keys_command demo_make_key (\<lambda>_. True) (demo_tool_ctx\<lparr>subcommands := [''generate'', ''server''], current := 0\<rparr>) r1 fs1 = (EXIT_SUCCESS, r2, fs2) \<and>
    manifest_command (tinycrypt_iface demo_uecc demo_ctx0) zero_manifest (\<lambda>_. True) (demo_tool_ctx\<lparr>subcommands := [''generate''], current := 0\<rparr>) fs2 = Some (EXIT_SUCCESS, fs3) \<and>
    fs3 (vendor_pub_key demo_tool_ctx) = Some vpub \<and> fs3 (server_pub_key demo_tool_ctx) = Some spub \<and>
    fs3 (out_file demo_tool_ctx) = Some (manifest_bytes mt) \<and>
    vendor mt = \<lparr>vm_size = word_of_nat (length demo_firmware), vm_offset = word_of_nat sizeof_manifest, vm_version = word_of_nat 0xdead,
      vm_appid = word_of_nat 0x0202, vm_digest = demo_hash demo_firmware, vm_server_key_x = take 32 spub, vm_server_key_y = drop 32 spub\<rparr> \<and>
    (\<forall>sf. verify_manifest (tinycrypt_iface demo_uecc demo_ctx0) mt
      (sf\<lparr>keystore := \<lparr>ks_x = take 32 vpub, ks_y = drop 32 vpub\<rparr>, sf_appid := word_of_nat 0x0202\<rparr>) = Some PULL_SUCCESS) \<and>
    manifest_validate_command (tinycrypt_iface demo_uecc demo_ctx0) demo_tool_ctx fs3 = Some (EXIT_SUCCESS,
      [(''size'', True), (''digest'', True), (''server_key_x'', True), (''server_key_y'', True), (''_signature'', True)])"
  by (rule tool_manifest_verified [OF demo_keys.uecc_keys_axioms demo_tool_names demo_tool_arguments])
    (simp_all add: demo_tool_ctx_def wf_zero_manifest length_demo_firmware)

text \<open>
  C23. An image that the tool has made is installed by the device. For a firmware no shorter than the verification buffer and an uninitialised manifest in
  which the field of the base version happens to be zero, the manifest that the command writes and the binary, sent one after the other
  in blocks of any sizes to a machine with the key of the vendor, the application and an older version, are stored in the slot with the oldest version, and the
  machine asks for the reboot. The nonce and the device that the server part of the manifest names are not compared with the request, which
  is why an image that the tool signs without a request is installed.
\<close>

theorem tool_update_installs:
  assumes "uecc_keys lib hash st make_key keypair" and "key_files keypair tctx fs vpub spub" and "tool_names writable tctx"
    and "tool_arguments tctx a sizeof_manifest v" and "fs (binary_file tctx) = Some fw" and "wf_manifest mt0" and "sm_diff_version (server mt0) = 0"
    and "pl = posix_platform lib c0 slots sr rd"
    and "fsm_state ctx = STATE_IDLE" and "fsm_processed ctx = 0" and "wf_static st0"
    and "length (is_buffer st0) = FSM_BUFFER_SIZE" and "fsm_version ctx < word_of_nat v" and "sizeof_receiver_msg \<le> length msg"
    and "sf_appid (fsm_sf ctx) = word_of_nat a" and "keystore (fsm_sf ctx) = \<lparr>ks_x = take 32 vpub, ks_y = drop 32 vpub\<rparr>"
    and "FSM_BUFFER_SIZE \<le> length fw" and "N = sizeof_manifest + length fw"
    and "active_slots slots \<noteq> []" and "\<forall>x\<in>set (active_slots slots). slot_id x \<in> posix_valid_ids \<and>
      N \<le> length (posix_content (slot_id x) w) \<and> length (posix_content (slot_id x) w) < 2 ^ 31"
    and "0 < posix_avail w"
  shows "\<exists>fs' m. manifest_generate_command (tinycrypt_iface lib c0) mt0 writable tctx fs = Some (EXIT_SUCCESS, fs') \<and>
    fs' (out_file tctx) = Some m \<and> fs' (binary_file tctx) = Some fw \<and>
    (\<forall>ds d. concat ds @ d = m @ fw \<and> d \<noteq> [] \<and> sizeof_manifest \<le> length (concat ds) \<longrightarrow>
      (\<exists>s ctx' st' w'. s \<in> set (active_slots slots) \<and>
        (\<forall>x\<in>set (active_slots slots). content_version (posix_content (slot_id s) w) \<le> content_version (posix_content (slot_id x) w)) \<and>
        fsm_run pl (le_enc 2 (unat (word_of_nat v :: version_t)) # msg # ds @ [d]) ctx st0 w = Some (PULL_SUCCESS, ctx', st', w') \<and>
        fsm_state ctx' = STATE_REBOOT \<and> fsm_id ctx' = slot_id s \<and>
        posix_content (slot_id s) w' = m @ fw @ drop N (posix_content (slot_id s) w) \<and>
        (\<forall>j\<in>posix_valid_ids. j \<noteq> slot_id s \<longrightarrow> posix_content j w' = posix_content j w)))"
proof -
  let ?sec = "tinycrypt_iface lib c0"
  obtain fs' mt where g: "manifest_generate_command ?sec mt0 writable tctx fs = Some (EXIT_SUCCESS, fs')"
    "\<forall>f. f \<noteq> signature_file tctx \<longrightarrow> f \<noteq> out_file tctx \<longrightarrow> fs' f = fs f" "fs' (out_file tctx) = Some (manifest_bytes mt)" "wf_manifest mt"
    "vendor mt = \<lparr>vm_size = word_of_nat (length fw), vm_offset = word_of_nat sizeof_manifest, vm_version = word_of_nat v, vm_appid = word_of_nat a,
      vm_digest = hash fw, vm_server_key_x = take 32 spub, vm_server_key_y = drop 32 spub\<rparr>"
    "server mt = (server mt0)\<lparr>sm_prop_size := word_of_nat (length fw)\<rparr>"
    "vendor_signed ?sec hash \<lparr>ks_x = take 32 vpub, ks_y = drop 32 vpub\<rparr> mt" "server_signed ?sec hash mt"
    using uecc_keys.generate_verified [OF assms(1-3) arguments_numbers [OF assms(4)] assms(5,6), of c0] by blast
  have bin: "fs' (binary_file tctx) = Some fw" using g(2) assms(3,5) by (auto simp: tool_names_def)
  have au: "authentic ?sec hash (fsm_sf ctx) mt" using g(5,7,8) assms(15,16) by (simp add: authentic_def)
  have "\<exists>s ctx' st' w'. s \<in> set (active_slots slots) \<and>
        (\<forall>x\<in>set (active_slots slots). content_version (posix_content (slot_id s) w) \<le> content_version (posix_content (slot_id x) w)) \<and>
        fsm_run pl (le_enc 2 (unat (word_of_nat v :: version_t)) # msg # ds @ [d]) ctx st0 w = Some (PULL_SUCCESS, ctx', st', w') \<and>
        fsm_state ctx' = STATE_REBOOT \<and> fsm_id ctx' = slot_id s \<and>
        posix_content (slot_id s) w' = manifest_bytes mt @ fw @ drop N (posix_content (slot_id s) w) \<and>
        (\<forall>j\<in>posix_valid_ids. j \<noteq> slot_id s \<longrightarrow> posix_content j w' = posix_content j w)"
    if "concat ds @ d = manifest_bytes mt @ fw" "d \<noteq> []" "sizeof_manifest \<le> length (concat ds)" for ds d
    using update_session_posix [OF uecc_keys.axioms(1) [OF assms(1)] assms(8-14) g(4) _ au _ _ _ _ assms(17-21) that] g(5,6) assms(7,13) by simp
  then show ?thesis using g(1,3) bin by blast
qed

definition demo_tool_fsm :: "(posix_obj, nat) fsm_ctx" where
  "demo_tool_fsm = demo_fsm\<lparr>fsm_sf := demo_sf\<lparr>keystore := \<lparr>ks_x = replicate 32 1, ks_y = replicate 32 1\<rparr>, sf_appid := 0x0202\<rparr>\<rparr>"

theorem tool_update_installs_witness:
  "\<exists>fs' m. manifest_generate_command (tinycrypt_iface demo_uecc demo_ctx0) zero_manifest (\<lambda>_. True) demo_tool_ctx demo_tool_files = Some (EXIT_SUCCESS, fs') \<and>
    fs' (out_file demo_tool_ctx) = Some m \<and> fs' (binary_file demo_tool_ctx) = Some demo_firmware \<and>
    (\<forall>ds d. concat ds @ d = m @ demo_firmware \<and> d \<noteq> [] \<and> sizeof_manifest \<le> length (concat ds) \<longrightarrow>
      (\<exists>s ctx' st' w'. s \<in> set (active_slots posix_memory_slots) \<and>
        (\<forall>x\<in>set (active_slots posix_memory_slots).
          content_version (posix_content (slot_id s) demo_disk) \<le> content_version (posix_content (slot_id x) demo_disk)) \<and>
        fsm_run (posix_platform demo_uecc demo_ctx0 posix_memory_slots (\<lambda>r. r) (\<lambda>r. (int r, r + 1)))
          (le_enc 2 (unat (word_of_nat 0xdead :: version_t)) # replicate 16 0 # ds @ [d]) demo_tool_fsm demo_static demo_disk =
          Some (PULL_SUCCESS, ctx', st', w') \<and>
        fsm_state ctx' = STATE_REBOOT \<and> fsm_id ctx' = slot_id s \<and>
        posix_content (slot_id s) w' = m @ demo_firmware @ drop 1280 (posix_content (slot_id s) demo_disk) \<and>
        (\<forall>j\<in>posix_valid_ids. j \<noteq> slot_id s \<longrightarrow> posix_content j w' = posix_content j demo_disk)))"
  by (rule tool_update_installs [OF demo_keys.uecc_keys_axioms demo_key_files [of "''0x0202''", unfolded demo_tool_ctx_appid]
      demo_tool_names demo_tool_arguments _ wf_zero_manifest _ refl _ _ _ _ _ _ _ _ _ _ _ demo_disk_slots])
    (simp add: demo_tool_fsm_def demo_fsm_simps demo_fsm_def demo_tool_ctx_def demo_tool_files_def zero_manifest_fields length_demo_firmware
      FSM_BUFFER_SIZE_def sizeof_manifest_def sizeof_receiver_msg_def demo_sf_def; fail | code_simp)+



end
