(* ===== verification/Spec2Isabelle.thy ===== *)
theory Spec2Isabelle
  imports Fsm_Safety Boot_Posix Update_Programs Coap_Posix Ble Loader Server Connection_Zoap Connection_Ercoap Tool_Lzss Tool_Bsdiff Tool_Manifest
begin

text \<open>
  A verification library for UpKit (libpull), a system for software updates of small devices.

  \<^bold>\<open>The program.\<close> A vendor signs an image, a server adds a second signature for one request of one device, and the device stores the
  image in one of its slots, verifies it, and reboots into a bootloader that verifies again and loads. On the device an
  update agent (\<open>src/agents/update.c\<close>) talks to the server over a connection and hands what it receives to a state
  machine (\<open>src/core/network/fsm.c\<close>). The machine checks the manifest (\<open>src/core/security/verifier.c\<close>), chooses the slot
  (\<open>src/core/memory/memory_objects.c\<close>), and writes the firmware through a pipeline (\<open>src/core/pipeline\<close>) to an
  object of the memory (\<open>src/platform/posix/memory_posix.c\<close>, \<open>src/core/memory/memory_flash.c\<close>). The bootloader agent
  (\<open>src/agents/bootloader_agent.c\<close>) compares, verifies, exchanges and loads (\<open>src/cpu/arm/arm_cortex_loader.c\<close>). On some boards a phone
  pushes the update over Bluetooth instead (\<open>src/network/ble/zephyr_ble.c\<close>). On the side of the vendor, the firmware tool
  (\<open>utils/firmware_tool\<close>) makes keys and manifests, compresses images and makes differences of images, and the server (\<open>utils/server\<close>) signs
  an image for a request and sends it in blocks.

  \<^bold>\<open>The theories\<close>, in the order of their imports:

  \<^item> \<open>Upkit_Prelude\<close>: integers of the C code, little-endian bytes, blocks of byte lists, shared lemmas. The target has 32 bits: \<open>size_t\<close> is a
    natural number that is reduced with \<open>u32\<close> where the code could exceed it, \<open>mem_id_t\<close> is an integer.
  \<^item> \<open>Upkit_Types\<close>: \<open>common/types.h\<close>, \<open>common/error.h\<close>, \<open>common/error.c\<close>.
  \<^item> \<open>Simple_Manifest\<close>: the manifest, its layout in memory and the inverse of it, its getters and setters.
  \<^item> \<open>Memory_Interface\<close>: \<open>memory_impl.c\<close> and the manifest accessors; the locale \<open>memory_contract\<close> says what a memory promises: contents of objects,
    the effect of an open and of a write, and a budget of objects that can be open.
  \<^item> \<open>Memory_Objects\<close>: search for the newest and the oldest firmware, copy, swap, invalidation, all proved over the contract.
  \<^item> \<open>Memory_Posix\<close>: the files of the POSIX platform as an interpretation of the contract, and the properties over files.
  \<^item> \<open>Memory_Flash\<close>: the flash memory over the functions of a driver, whose contract (erase, program, read) gives the contract of a memory.
  \<^item> \<open>Security\<close>, \<open>Verifier\<close>: the wrappers of four libraries, which are parameters with the law of an incremental hash, and the verification
    of manifests and images, with the verdict as a function of the content.
  \<^item> \<open>Pipeline_Buffer\<close>, \<open>Pipeline_Lzss\<close>, \<open>Pipeline_Bspatch\<close>, \<open>Pipeline_Posix\<close>: the stages. A stage is a function on a block and a state; the locale \<open>sink\<close> says what
    a stage that stores bytes promises. The decoders are resumable: their result does not depend on how the input is cut.
  \<^item> \<open>Rng\<close>, \<open>Fsm\<close>, \<open>Fsm_Update\<close>, \<open>Fsm_Safety\<close>: the generators and the state machine, its reachable states, what it writes and when, and a whole update.
  \<^item> \<open>Device_Posix\<close>: the machine on a device made of files, TinyCrypt and the POSIX generator.
  \<^item> \<open>Bootloader_Agent\<close>, \<open>Boot_Posix\<close>: the bootloader agent in its two builds, the loops of the three systems around it, and what they load.
  \<^item> \<open>Update_Agent\<close>, \<open>Update_Posix\<close>, \<open>Update_Programs\<close>: the update agent over a connection, the event loop, a whole session, what holds over
    every network, and the agreement of the builds and of the programs that run the agent.
  \<^item> \<open>Ble\<close>: the handlers of the Bluetooth service over the state machine, as steps of a client.
  \<^item> \<open>Flash_Boards\<close>, \<open>Device_Cc2650\<close>, \<open>Loader\<close>: the drivers and tables of the flash platforms (\<open>src/platform/cc2538\<close>, \<open>cc2650\<close>, \<open>nrf52840\<close>), the SensorTag as an
    interpretation of the contract of a flash, and the loaders with the registers they write.
  \<^item> \<open>Connection_Libcoap\<close>, \<open>Connection_Zoap\<close>, \<open>Connection_Ercoap\<close>: the three CoAP connections (\<open>src/network/coap\<close>) over the libraries they call;
    \<open>Coap_Posix\<close>: the update agent over libcoap and a server that answers in blocks.
  \<^item> \<open>Signing\<close>: pairs of keys and signatures of the library the tool and the server sign with.
  \<^item> \<open>Server\<close>: the resources of the server, a transfer, and the server together with a device.
  \<^item> \<open>Tool_Manifest\<close>: the commands of the tool for keys, manifests, the context of the bootloader and the configuration.
  \<^item> \<open>Tool_Lzss\<close>, \<open>Tool_Bsdiff\<close>: the encoder and the differences of the tool, composed with the stages of the device.

  \<^bold>\<open>Conventions.\<close> An operation is a function from the arguments and the state to its result and the new state, in the order the code has
  them. A loop that may not end, and undefined behaviour, is \<open>None\<close> of an option; every property that says that something is
  returned proves that the value is \<open>Some\<close>. No fuel is used. A coroutine is cut into segments, one for each point where it returns.
  Code outside of the repository is a parameter: the cryptographic libraries, the system calls of the generators, the libraries for CoAP and
  Bluetooth, the functions of the chips that erase and program flash, the file system of the tool. A locale states what is relied on, and
  a simulated library interprets it where a property is applied to a concrete input. \<open>PULL_ASSERT\<close> is taken as disabled, which is the default of the build; variables without initial value are zero.

  \<^bold>\<open>What is shown.\<close> A whole update that a server sends in any blocks is stored and accepted exactly where its digest is right; the
  memory changes only after a newer manifest has passed both signatures; a reboot is asked for only after the verification. The
  coroutine build of the bootloader loads only images that pass the verification, and which one is said exactly; the other build loads
  images that do not pass. The two builds of the update agent, and the programs around them, do the same over every network. Swap, copy and search do what they say for every size of their buffers. What the tool compresses and the
  differences it makes are restored by the device. The sort of the suffixes is modelled, and that its result is a suffix array is a
  condition of the properties about differences, discharged where it is applied to concrete images.

  Over libcoap the agent fetches, stores and accepts what a server sends block by block; the connection of Zephyr asks for every block in
  turn and its splitting of paths is that of a reference definition on paths without empty segments. Over Bluetooth a whole
  update is stored, a subscribed client knows the state of the machine, and after an error every version is refused. On the SensorTag an update
  ends in the older of its two flash memories with the rest kept, and the loader enters the image in the internal one with the
  stack and the entry that its first words state. The objects of every board share no page. A manifest that the tool makes is verified by every device with the
  keys, and its image is installed; the server signs once for each transfer, and what a device does with its answer is said for a device that asks for
  a full image as well as for one that offers its version. Every setter keeps the layout of a manifest.

  \<^bold>\<open>Not modelled.\<close> The start-up code of the boards and the linker scripts (register accesses, and copies of code of the operating systems), the sockets and the
  loop of the server and the command line of the tool (calls of system functions around the modelled resources and commands), debug output and the timers of the
  evaluation build, and the TOML parser, which is third-party code. The stage for decryption is declared in a header but has no
  implementation.
\<close>

end
